(* ===== verification/Prelude.thy ===== *)
theory Prelude
  imports Complex_Main "HOL-Library.List_Lexorder" "HOL-Library.Multiset" "HOL-Library.Sublist"
begin

text \<open>
  Shared vocabulary of the development.

  Text: a Rust \<open>char\<close> is a Unicode scalar value, here an integer code point, and a
  Rust \<open>str\<close> is a list of code points (\<open>rstr\<close>); \<open>lit\<close> turns an Isabelle string literal
  into one. \<open>len()\<close> of a \<open>str\<close> is the number of UTF-8 bytes (\<open>utf8_len\<close>), while
  \<open>chars().count()\<close> is \<open>length\<close>. The order on \<open>str\<close> is bytewise in Rust, which on
  well-formed UTF-8 is the lexicographic order of the code points (\<open>List_Lexorder\<close>).

  Floats: \<open>f64\<close> is \<open>Fin q\<close> for the rational value of a finite double, the two infinities
  and NaN; the code modelled here only compares doubles, rounds them to integers and
  converts integers to them, so the exact rational is enough.

  Errors: \<open>'e + 'a\<close> with \<open>Inl\<close> for the error; \<open>bindE\<close> is the \<open>?\<close> operator. Code that
  also touches the disk is a function from the disk to a result and the disk afterwards;
  \<open>bindS\<close> is \<open>?\<close> there: an early return keeps the effects made so far.
\<close>

named_theorems elim_bind "success of a bind in terms of the success of its parts"
named_theorems lit_simps "equations on string literals"

section \<open>Text\<close>

type_synonym rchar = int
type_synonym rstr = "rchar list"

definition lit :: "string \<Rightarrow> rstr" where
  "lit s = map of_char s"

lemma lit_eq_iff [simp, lit_simps]: "(lit s = lit t) \<longleftrightarrow> s = t"
  unfolding lit_def by (rule inj_map_eq_map) (simp add: inj_def)

lemma lit_Nil_iff [simp, lit_simps]: "(lit s = []) \<longleftrightarrow> s = []" "([] = lit s) \<longleftrightarrow> s = []"
  by (auto simp: lit_def)

lemma length_lit [simp]: "length (lit s) = length s"
  by (simp add: lit_def)

text \<open>\<open>char::is_whitespace\<close>: the code points with the Unicode property White_Space.\<close>

definition is_ws :: "rchar \<Rightarrow> bool" where
  "is_ws c \<longleftrightarrow> (9 \<le> c \<and> c \<le> 13) \<or> c = 32 \<or> c = 133 \<or> c = 160 \<or> c = 5760 \<or>
     (8192 \<le> c \<and> c \<le> 8202) \<or> c = 8232 \<or> c = 8233 \<or> c = 8239 \<or> c = 8287 \<or> c = 12288"

definition is_digit :: "rchar \<Rightarrow> bool" where
  "is_digit c \<longleftrightarrow> 48 \<le> c \<and> c \<le> 57"

definition is_upper :: "rchar \<Rightarrow> bool" where
  "is_upper c \<longleftrightarrow> 65 \<le> c \<and> c \<le> 90"

definition is_lower :: "rchar \<Rightarrow> bool" where
  "is_lower c \<longleftrightarrow> 97 \<le> c \<and> c \<le> 122"

definition is_alpha :: "rchar \<Rightarrow> bool" where
  "is_alpha c \<longleftrightarrow> is_upper c \<or> is_lower c"

definition is_alnum :: "rchar \<Rightarrow> bool" where
  "is_alnum c \<longleftrightarrow> is_alpha c \<or> is_digit c"

definition lower_char :: "rchar \<Rightarrow> rchar" where
  "lower_char c = (if is_upper c then c + 32 else c)"

definition upper_char :: "rchar \<Rightarrow> rchar" where
  "upper_char c = (if is_lower c then c - 32 else c)"

definition to_lower :: "rstr \<Rightarrow> rstr" where
  "to_lower s = map lower_char s"

definition to_upper :: "rstr \<Rightarrow> rstr" where
  "to_upper s = map upper_char s"

definition eq_ignore_case :: "rstr \<Rightarrow> rstr \<Rightarrow> bool" where
  "eq_ignore_case s t \<longleftrightarrow> to_lower s = to_lower t"

definition trim_start :: "rstr \<Rightarrow> rstr" where
  "trim_start s = dropWhile is_ws s"

definition trim_end :: "rstr \<Rightarrow> rstr" where
  "trim_end s = rev (dropWhile is_ws (rev s))"

definition trim :: "rstr \<Rightarrow> rstr" where
  "trim s = trim_end (trim_start s)"

text \<open>\<open>split_whitespace\<close>: the maximal runs of non-whitespace characters.\<close>

fun split_ws_from :: "rstr \<Rightarrow> rstr \<Rightarrow> rstr list" where
  "split_ws_from cur [] = (if cur = [] then [] else [cur])"
| "split_ws_from cur (c # cs) =
     (if is_ws c then (if cur = [] then split_ws_from [] cs else cur # split_ws_from [] cs)
      else split_ws_from (cur @ [c]) cs)"

definition split_ws :: "rstr \<Rightarrow> rstr list" where
  "split_ws s = split_ws_from [] s"

fun join_with :: "rstr \<Rightarrow> rstr list \<Rightarrow> rstr" where
  "join_with sep [] = []"
| "join_with sep [w] = w"
| "join_with sep (w # v # ws) = w @ sep @ join_with sep (v # ws)"

abbreviation space :: rstr where
  "space \<equiv> [32]"

text \<open>\<open>split_whitespace().collect().join(" ")\<close>\<close>

definition collapse_ws :: "rstr \<Rightarrow> rstr" where
  "collapse_ws s = join_with space (split_ws s)"

definition utf8_width :: "rchar \<Rightarrow> nat" where
  "utf8_width c = (if c < 128 then 1 else if c < 2048 then 2 else if c < 65536 then 3 else 4)"

definition utf8_len :: "rstr \<Rightarrow> nat" where
  "utf8_len s = sum_list (map utf8_width s)"

definition starts_with :: "rstr \<Rightarrow> rstr \<Rightarrow> bool" where
  "starts_with s p \<longleftrightarrow> take (length p) s = p"

definition ends_with :: "rstr \<Rightarrow> rstr \<Rightarrow> bool" where
  "ends_with s p \<longleftrightarrow> length p \<le> length s \<and> drop (length s - length p) s = p"

definition strip_prefix :: "rstr \<Rightarrow> rstr \<Rightarrow> rstr option" where
  "strip_prefix p s = (if starts_with s p then Some (drop (length p) s) else None)"

text \<open>\<open>find\<close>: the position of the first occurrence of a pattern, in characters.\<close>

fun find_sub :: "rstr \<Rightarrow> rstr \<Rightarrow> nat option" where
  "find_sub p [] = (if p = [] then Some 0 else None)"
| "find_sub p (c # cs) =
     (if starts_with (c # cs) p then Some 0 else map_option Suc (find_sub p cs))"

definition contains_sub :: "rstr \<Rightarrow> rstr \<Rightarrow> bool" where
  "contains_sub s p \<longleftrightarrow> find_sub p s \<noteq> None"

text \<open>\<open>str::replace\<close> with a two-character pattern and a one-character replacement, left to
  right without overlaps.\<close>

fun replace2 :: "rchar \<Rightarrow> rchar \<Rightarrow> rstr \<Rightarrow> rstr \<Rightarrow> rstr" where
  "replace2 a b r (c # d # cs) =
     (if c = a \<and> d = b then r @ replace2 a b r cs else c # replace2 a b r (d # cs))"
| "replace2 a b r cs = cs"

definition replace1 :: "rchar \<Rightarrow> rstr \<Rightarrow> rstr \<Rightarrow> rstr" where
  "replace1 a r s = concat (map (\<lambda>c. if c = a then r else [c]) s)"

text \<open>Decimal rendering of an unsigned and a signed integer, and the value of a digit run.\<close>

fun show_nat :: "nat \<Rightarrow> rstr" where
  "show_nat n = (if n < 10 then [48 + int n] else show_nat (n div 10) @ [48 + int (n mod 10)])"

declare show_nat.simps [simp del]

definition show_int :: "int \<Rightarrow> rstr" where
  "show_int i = (if i < 0 then lit ''-'' @ show_nat (nat (- i)) else show_nat (nat i))"

definition digits_val :: "rstr \<Rightarrow> nat" where
  "digits_val ds = foldl (\<lambda>n d. 10 * n + nat (d - 48)) 0 ds"

definition i64_max :: int where "i64_max = 9223372036854775807"
definition i64_min :: int where "i64_min = -9223372036854775808"
definition u64_max :: int where "u64_max = 18446744073709551615"

text \<open>Two's complement reading of an integer at 64 and 32 bits.\<close>

definition wrap_i64 :: "int \<Rightarrow> int" where
  "wrap_i64 i = (i + 2 ^ 63) mod 2 ^ 64 - 2 ^ 63"

section \<open>Doubles\<close>

datatype f64 = Fin rat | PosInf | NegInf | NaN

text \<open>The comparison \<open>a < b\<close> of IEEE 754: false when either side is NaN.\<close>

fun f64_lt :: "f64 \<Rightarrow> f64 \<Rightarrow> bool" where
  "f64_lt NaN _ = False"
| "f64_lt _ NaN = False"
| "f64_lt PosInf _ = False"
| "f64_lt (Fin _) PosInf = True"
| "f64_lt (Fin _) NegInf = False"
| "f64_lt (Fin a) (Fin b) = (a < b)"
| "f64_lt NegInf NegInf = False"
| "f64_lt NegInf _ = True"

section \<open>Results\<close>

definition bindE :: "'e + 'a \<Rightarrow> ('a \<Rightarrow> 'e + 'b) \<Rightarrow> 'e + 'b" where
  "bindE r f = (case r of Inl e \<Rightarrow> Inl e | Inr x \<Rightarrow> f x)"

lemma bindE_simps [simp]: "bindE (Inl e) f = Inl e" "bindE (Inr x) f = f x"
  by (simp_all add: bindE_def)

lemma bindE_Inr_iff [elim_bind]: "bindE r f = Inr y \<longleftrightarrow> (\<exists>x. r = Inr x \<and> f x = Inr y)"
  by (cases r) auto

lemma bindE_cong [fundef_cong]:
  "r = r' \<Longrightarrow> (\<And>x. r' = Inr x \<Longrightarrow> f x = f' x) \<Longrightarrow> bindE r f = bindE r' f'"
  by (cases r') auto

definition assertE :: "bool \<Rightarrow> 'e \<Rightarrow> 'e + unit" where
  "assertE b e = (if b then Inr () else Inl e)"

lemma assertE_Inr_iff [simp, elim_bind]: "assertE b e = Inr x \<longleftrightarrow> b"
  by (simp add: assertE_def)

lemma assertE_True [simp]: "assertE True e = Inr ()"
  by (simp add: assertE_def)

definition ok_or :: "'a option \<Rightarrow> 'e \<Rightarrow> 'e + 'a" where
  "ok_or x e = (case x of None \<Rightarrow> Inl e | Some v \<Rightarrow> Inr v)"

lemma ok_or_simps [simp]: "ok_or None e = Inl e" "ok_or (Some v) e = Inr v"
  by (simp_all add: ok_or_def)

lemma ok_or_Inr_iff [simp, elim_bind]: "ok_or x e = Inr v \<longleftrightarrow> x = Some v"
  by (cases x) (auto simp: ok_or_def)

definition is_ok :: "'e + 'a \<Rightarrow> bool" where
  "is_ok r = (case r of Inl _ \<Rightarrow> False | Inr _ \<Rightarrow> True)"

lemma is_ok_simps [simp]: "\<not> is_ok (Inl e)" "is_ok (Inr x)"
  by (simp_all add: is_ok_def)

lemma is_ok_iff: "is_ok r \<longleftrightarrow> (\<exists>x. r = Inr x)"
  by (cases r) auto

fun mapE :: "('a \<Rightarrow> 'e + 'b) \<Rightarrow> 'a list \<Rightarrow> 'e + 'b list" where
  "mapE f [] = Inr []"
| "mapE f (x # xs) = bindE (f x) (\<lambda>y. bindE (mapE f xs) (\<lambda>ys. Inr (y # ys)))"

definition bindS :: "('s \<Rightarrow> ('e + 'a) \<times> 's) \<Rightarrow> ('a \<Rightarrow> 's \<Rightarrow> ('e + 'b) \<times> 's)
    \<Rightarrow> 's \<Rightarrow> ('e + 'b) \<times> 's" where
  "bindS m f s = (case m s of (Inl e, s') \<Rightarrow> (Inl e, s') | (Inr x, s') \<Rightarrow> f x s')"

definition liftE :: "'e + 'a \<Rightarrow> 's \<Rightarrow> ('e + 'a) \<times> 's" where
  "liftE r s = (r, s)"

definition returnS :: "'a \<Rightarrow> 's \<Rightarrow> ('e + 'a) \<times> 's" where
  "returnS x s = (Inr x, s)"

definition failS :: "'e \<Rightarrow> 's \<Rightarrow> ('e + 'a) \<times> 's" where
  "failS e s = (Inl e, s)"

lemma bindS_Inr_iff [elim_bind]:
  "bindS m f s = (Inr y, s'') \<longleftrightarrow> (\<exists>x s'. m s = (Inr x, s') \<and> f x s' = (Inr y, s''))"
  by (auto simp: bindS_def split: prod.splits sum.splits)

lemma liftE_iff [simp]: "liftE r s = (r', s') \<longleftrightarrow> r = r' \<and> s = s'"
  by (auto simp: liftE_def)

lemma returnS_iff [simp]: "returnS x s = (r, s') \<longleftrightarrow> r = Inr x \<and> s' = s"
  by (auto simp: returnS_def)

lemma failS_iff [simp]: "failS e s = (r, s') \<longleftrightarrow> r = Inl e \<and> s' = s"
  by (auto simp: failS_def)

section \<open>Lists\<close>

text \<open>\<open>iter_mut().find(p)\<close> followed by a mutation: the first element that satisfies \<open>p\<close>.\<close>

fun update_first :: "('a \<Rightarrow> bool) \<Rightarrow> ('a \<Rightarrow> 'a) \<Rightarrow> 'a list \<Rightarrow> 'a list" where
  "update_first p f [] = []"
| "update_first p f (x # xs) = (if p x then f x # xs else x # update_first p f xs)"

lemma length_update_first [simp]: "length (update_first p f xs) = length xs"
  by (induction xs) auto

lemma map_update_first:
  "(\<And>x. p x \<Longrightarrow> g (f x) = g x) \<Longrightarrow> map g (update_first p f xs) = map g xs"
  by (induction xs) auto

lemma set_update_first_subset: "set (update_first p f xs) \<subseteq> set xs \<union> f ` {x \<in> set xs. p x}"
  by (induction xs) auto

lemma update_first_cases:
  "y \<in> set (update_first p f xs) \<Longrightarrow> y \<in> set xs \<or> (\<exists>x. List.find p xs = Some x \<and> y = f x)"
  by (induction xs) (auto split: if_splits)

lemma find_update_first:
  "List.find p xs = Some x \<Longrightarrow> p (f x) \<Longrightarrow> List.find p (update_first p f xs) = Some (f x)"
  by (induction xs) (auto split: if_splits)

lemma find_update_first_same:
  "(\<And>x. p x \<Longrightarrow> p (f x)) \<Longrightarrow> List.find p (update_first p f xs) = map_option f (List.find p xs)"
  by (induction xs) auto

lemma find_update_first_other:
  "(\<And>x. p x \<Longrightarrow> \<not> q x \<and> \<not> q (f x)) \<Longrightarrow> List.find q (update_first p f xs) = List.find q xs"
  by (induction xs) auto

lemma filter_update_first_other:
  "(\<And>x. p x \<Longrightarrow> \<not> q x \<and> \<not> q (f x)) \<Longrightarrow> filter q (update_first p f xs) = filter q xs"
  by (induction xs) auto

lemma update_first_list_update:
  assumes "List.find p xs = Some x"
  obtains i where "i < length xs" and "xs ! i = x" and "p x" and "update_first p f xs = xs[i := f x]"
proof -
  have "\<exists>i < length xs. xs ! i = x \<and> p x \<and> update_first p f xs = xs[i := f x]"
    using assms
  proof (induction xs)
    case (Cons y xs)
    show ?case
    proof (cases "p y")
      case True
      with Cons.prems show ?thesis by (intro exI [of _ 0]) auto
    next
      case False
      with Cons obtain i where "i < length xs" "xs ! i = x" "p x" "update_first p f xs = xs[i := f x]"
        by auto
      with False show ?thesis by (intro exI [of _ "Suc i"]) auto
    qed
  qed simp
  with that show thesis by blast
qed

lemma find_append: "List.find p (xs @ ys) = (case List.find p xs of None \<Rightarrow> List.find p ys | Some x \<Rightarrow> Some x)"
  by (induction xs) auto

lemma find_SomeD: "List.find p xs = Some x \<Longrightarrow> x \<in> set xs \<and> p x"
  by (induction xs) (auto split: if_splits)

lemma find_None_iff_ball: "List.find p xs = None \<longleftrightarrow> (\<forall>x \<in> set xs. \<not> p x)"
  by (induction xs) auto

text \<open>\<open>drain(0..overflow)\<close> on a vector longer than \<open>n\<close>: the last \<open>n\<close> elements stay.\<close>

definition keep_last :: "nat \<Rightarrow> 'a list \<Rightarrow> 'a list" where
  "keep_last n xs = drop (length xs - n) xs"

lemma length_keep_last [simp]: "length (keep_last n xs) = min n (length xs)"
  by (simp add: keep_last_def)

lemma keep_last_id: "length xs \<le> n \<Longrightarrow> keep_last n xs = xs"
  by (simp add: keep_last_def)

lemma set_keep_last: "set (keep_last n xs) \<subseteq> set xs"
  by (simp add: keep_last_def set_drop_subset)

lemma last_keep_last: "xs \<noteq> [] \<Longrightarrow> 0 < n \<Longrightarrow> last (keep_last n xs) = last xs"
  by (simp add: keep_last_def)

text \<open>Sublists by a set of positions (\<open>nths\<close>).\<close>

lemma nths_snoc: "nths (xs @ [x]) I = nths xs I @ (if length xs \<in> I then [x] else [])"
  by (simp add: nths_append)

lemma nths_cong_on: "(\<And>i. i < length xs \<Longrightarrow> i \<in> I \<longleftrightarrow> i \<in> J) \<Longrightarrow> nths xs I = nths xs J"
  by (induction xs rule: rev_induct) (auto simp: nths_snoc)

lemma filter_nths: "filter P (nths xs I) = nths xs {i \<in> I. i < length xs \<and> P (xs ! i)}"
proof (induction xs rule: rev_induct)
  case (snoc x xs)
  have "nths xs {i \<in> I. i < Suc (length xs) \<and> P ((xs @ [x]) ! i)} = nths xs {i \<in> I. i < length xs \<and> P (xs ! i)}"
    by (rule nths_cong_on) (auto simp: nth_append)
  with snoc show ?case by (simp add: nths_snoc)
qed simp

lemma mset_nths_compl: "mset (nths xs I) + mset (nths xs (- I)) = mset xs"
  by (induction xs rule: rev_induct) (auto simp: nths_snoc)

section \<open>Facts about the text functions\<close>

lemma dropWhile_idem [simp]: "dropWhile P (dropWhile P xs) = dropWhile P xs"
  by (induction xs) auto

lemma trim_start_idem [simp]: "trim_start (trim_start s) = trim_start s"
  by (simp add: trim_start_def)

lemma trim_end_idem [simp]: "trim_end (trim_end s) = trim_end s"
  by (simp add: trim_end_def)

lemma trim_end_Cons_nonws: "\<not> is_ws c \<Longrightarrow> trim_end (c # s) = c # trim_end s"
  by (simp add: trim_end_def dropWhile_append)

lemma trim_start_trim [simp]: "trim_start (trim s) = trim s"
proof (cases "trim_start s")
  case Nil
  then show ?thesis by (simp only: trim_def) (simp add: trim_end_def trim_start_def)
next
  case (Cons c cs)
  then have "\<not> is_ws c"
    unfolding trim_start_def by (metis dropWhile_eq_Cons_conv)
  then show ?thesis
    by (simp add: trim_def Cons trim_end_Cons_nonws) (simp add: trim_start_def)
qed

lemma trim_idem [simp]: "trim (trim s) = trim s"
  by (metis trim_def trim_end_idem trim_start_trim)

lemma trim_nonws: "\<forall>c \<in> set s. \<not> is_ws c \<Longrightarrow> trim s = s"
proof -
  assume s: "\<forall>c \<in> set s. \<not> is_ws c"
  then have "trim_start s = s" by (cases s) (simp_all add: trim_start_def)
  moreover from s have "trim_end s = s" by (cases s rule: rev_cases) (simp_all add: trim_end_def)
  ultimately show ?thesis by (simp add: trim_def)
qed

lemma lower_char_idem [simp]: "lower_char (lower_char c) = lower_char c"
  by (simp add: lower_char_def is_upper_def)

lemma to_lower_idem [simp]: "to_lower (to_lower s) = to_lower s"
  by (simp add: to_lower_def o_def)

lemma is_ws_lower_char [simp]: "is_ws (lower_char c) = is_ws c"
  by (auto simp: lower_char_def is_upper_def is_ws_def)

lemma trim_to_lower: "trim (to_lower s) = to_lower (trim s)"
  by (simp add: trim_def trim_end_def trim_start_def to_lower_def dropWhile_map rev_map o_def)

lemma digits_val_append: "digits_val (ds @ [d]) = 10 * digits_val ds + nat (d - 48)"
  by (simp add: digits_val_def)

lemma digits_val_show_nat [simp]: "digits_val (show_nat n) = n"
proof (induction n rule: show_nat.induct)
  case (1 n)
  show ?case
  proof (cases "n < 10")
    case True
    then show ?thesis by (simp add: show_nat.simps [of n] digits_val_def)
  next
    case False
    with 1 have "digits_val (show_nat (n div 10)) = n div 10" by simp
    with False show ?thesis by (simp add: show_nat.simps [of n] digits_val_append)
  qed
qed

lemma show_nat_digits: "\<forall>c \<in> set (show_nat n). is_digit c"
proof (induction n rule: show_nat.induct)
  case (1 n)
  show ?case
  proof (cases "n < 10")
    case True
    then show ?thesis by (simp add: show_nat.simps [of n] is_digit_def)
  next
    case False
    have "is_digit (48 + int (n mod 10))" by (simp add: is_digit_def)
    with 1 False show ?thesis by (simp add: show_nat.simps [of n])
  qed
qed

lemma show_nat_nonempty [simp]: "show_nat n \<noteq> []"
  by (simp add: show_nat.simps [of n])

lemma utf8_width_pos: "0 < utf8_width c"
  by (simp add: utf8_width_def)

lemma length_le_utf8_len: "length s \<le> utf8_len s"
  by (induction s) (auto simp: utf8_len_def Suc_le_eq add_mono utf8_width_def)

lemma utf8_len_ascii: "(\<forall>c \<in> set s. c < 128) \<Longrightarrow> utf8_len s = length s"
  by (induction s) (auto simp: utf8_len_def utf8_width_def)

end
