(* ===== verification/Interfaces.thy ===== *)
theory Interfaces
  imports Prelude
begin

text \<open>
  The interfaces the components share, as locales. Each is interpreted, in the theory of the
  component that provides it, on the definitions translated from the code: \<open>key_store\<close> on JSON
  objects (\<open>Json\<close>) and on the frontmatter of a project file (\<open>ProjectFile\<close>), \<open>bounded_log\<close> on
  the event list of the agents file (\<open>AgentState\<close>) and on a finding's provenance
  (\<open>CensorLedger\<close>), \<open>text_codec\<close> on the YAML quoting of the frontmatter (\<open>ProjectFile\<close>).
\<close>

section \<open>Keyed stores\<close>

locale key_store =
  fixes get :: "'s \<Rightarrow> 'k \<Rightarrow> 'v option"
    and put :: "'k \<Rightarrow> 'v \<Rightarrow> 's \<Rightarrow> 's"
    and del :: "'k \<Rightarrow> 's \<Rightarrow> 's"
  assumes get_put_same: "get (put k v s) k = Some v"
    and get_put_other: "k' \<noteq> k \<Longrightarrow> get (put k v s) k' = get s k'"
    and get_del_same: "get (del k s) k = None"
    and get_del_other: "k' \<noteq> k \<Longrightarrow> get (del k s) k' = get s k'"
begin

lemma get_put: "get (put k v s) k' = (if k' = k then Some v else get s k')"
  by (simp add: get_put_same get_put_other)

lemma get_del: "get (del k s) k' = (if k' = k then None else get s k')"
  by (simp add: get_del_same get_del_other)

lemma get_fold_del: "get (fold del ks s) k = (if k \<in> set ks then None else get s k)"
  by (induction ks arbitrary: s) (auto simp: get_del)

lemma get_fold_put_other:
  "k \<notin> fst ` set kvs \<Longrightarrow> get (fold (\<lambda>(k, v). put k v) kvs s) k = get s k"
  by (induction kvs arbitrary: s) (auto simp: get_put_other)

end

section \<open>Bounded logs\<close>

text \<open>A log that keeps at most \<open>cap\<close> entries, whatever is pushed on it.\<close>

locale bounded_log =
  fixes push :: "'e \<Rightarrow> 'e list \<Rightarrow> 'e list"
    and cap :: nat
  assumes push_bound: "length xs \<le> cap \<Longrightarrow> length (push x xs) \<le> cap"
    and push_subset: "set (push x xs) \<subseteq> insert x (set xs)"
begin

lemma pushes_bound: "length xs \<le> cap \<Longrightarrow> length (fold push es xs) \<le> cap"
  by (induction es arbitrary: xs) (auto simp: push_bound)

lemma pushes_subset: "set (fold push es xs) \<subseteq> set es \<union> set xs"
proof (induction es arbitrary: xs)
  case (Cons e es)
  have "set (fold push es (push e xs)) \<subseteq> set es \<union> set (push e xs)"
    by (rule Cons.IH)
  with push_subset [of e xs] show ?case by auto
qed simp

end

section \<open>Text codecs\<close>

locale text_codec =
  fixes enc :: "'a \<Rightarrow> rstr"
    and dec :: "rstr \<Rightarrow> 'a"
  assumes dec_enc: "dec (enc x) = x"
begin

lemma enc_inj: "enc x = enc y \<longleftrightarrow> x = y"
  by (metis dec_enc)

end

end
