(* ===== verification/Json.thy ===== *)
theory Json
  imports Interfaces
begin

text \<open>
  The JSON values the MCP server reads and rewrites (\<open>serde_json::Value\<close>). An object is a
  list of fields with at most one field per key; only lookups, insertions and removals by key
  are used, so the order of the fields is immaterial. An integer literal is \<open>JInt\<close> (serde's
  \<open>PosInt\<close>/\<open>NegInt\<close>, between the minimum of i64 and the maximum of u64), any other number is a
  double. \<open>jget\<close> is \<open>Value::get\<close>, \<open>jstr\<close> the frequent chain \<open>.get(k).and_then(as_str)\<close>.
\<close>

datatype json =
    JNull
  | JBool bool
  | JInt int
  | JFloat f64
  | JStr rstr
  | JArr "json list"
  | JObj "(rstr \<times> json) list"

type_synonym fields = "(rstr \<times> json) list"

fun obj_insert :: "rstr \<Rightarrow> json \<Rightarrow> fields \<Rightarrow> fields" where
  "obj_insert k v [] = [(k, v)]"
| "obj_insert k v ((k', v') # kvs) =
     (if k' = k then (k, v) # kvs else (k', v') # obj_insert k v kvs)"

definition obj_remove :: "rstr \<Rightarrow> fields \<Rightarrow> fields" where
  "obj_remove k kvs = filter (\<lambda>(k', _). k' \<noteq> k) kvs"

definition obj_has :: "rstr \<Rightarrow> fields \<Rightarrow> bool" where
  "obj_has k kvs \<longleftrightarrow> map_of kvs k \<noteq> None"

text \<open>\<open>entry(k).or_insert_with(v)\<close>\<close>

definition obj_or_insert :: "rstr \<Rightarrow> json \<Rightarrow> fields \<Rightarrow> fields" where
  "obj_or_insert k v kvs = (if obj_has k kvs then kvs else obj_insert k v kvs)"

fun as_object :: "json \<Rightarrow> fields option" where
  "as_object (JObj kvs) = Some kvs"
| "as_object _ = None"

fun as_array :: "json \<Rightarrow> json list option" where
  "as_array (JArr xs) = Some xs"
| "as_array _ = None"

fun as_str :: "json \<Rightarrow> rstr option" where
  "as_str (JStr s) = Some s"
| "as_str _ = None"

fun as_i64 :: "json \<Rightarrow> int option" where
  "as_i64 (JInt i) = (if i \<le> i64_max then Some i else None)"
| "as_i64 _ = None"

fun as_u64 :: "json \<Rightarrow> int option" where
  "as_u64 (JInt i) = (if 0 \<le> i then Some i else None)"
| "as_u64 _ = None"

definition is_jstr :: "json \<Rightarrow> bool" where "is_jstr j \<longleftrightarrow> as_str j \<noteq> None"
definition is_jarr :: "json \<Rightarrow> bool" where "is_jarr j \<longleftrightarrow> as_array j \<noteq> None"
definition is_jnull :: "json \<Rightarrow> bool" where "is_jnull j \<longleftrightarrow> j = JNull"

fun jget :: "rstr \<Rightarrow> json \<Rightarrow> json option" where
  "jget k (JObj kvs) = map_of kvs k"
| "jget k _ = None"

definition jstr :: "rstr \<Rightarrow> json \<Rightarrow> rstr option" where
  "jstr k j = Option.bind (jget k j) as_str"

definition jstr_or :: "rstr \<Rightarrow> rstr \<Rightarrow> json \<Rightarrow> rstr" where
  "jstr_or k d j = (case jstr k j of None \<Rightarrow> d | Some s \<Rightarrow> s)"

definition jarr :: "rstr \<Rightarrow> json \<Rightarrow> json list option" where
  "jarr k j = Option.bind (jget k j) as_array"

text \<open>\<open>if let Some(obj) = v.as_object_mut() { f(obj) }\<close>\<close>

fun on_object :: "(fields \<Rightarrow> fields) \<Rightarrow> json \<Rightarrow> json" where
  "on_object f (JObj kvs) = JObj (f kvs)"
| "on_object f j = j"

text \<open>\<open>as_object_mut().get_mut(k).as_array_mut()\<close> followed by a mutation of the array; nothing
  happens when the value is no object, the key is absent or its value is no array.\<close>

definition on_array :: "rstr \<Rightarrow> (json list \<Rightarrow> json list) \<Rightarrow> json \<Rightarrow> json" where
  "on_array k f j =
     (case j of
        JObj kvs \<Rightarrow> (case map_of kvs k of
          Some (JArr xs) \<Rightarrow> JObj (obj_insert k (JArr (f xs)) kvs)
        | _ \<Rightarrow> j)
      | _ \<Rightarrow> j)"

definition jopt_str :: "rstr option \<Rightarrow> json" where
  "jopt_str x = (case x of None \<Rightarrow> JNull | Some s \<Rightarrow> JStr s)"

definition jopt :: "json option \<Rightarrow> json" where
  "jopt x = (case x of None \<Rightarrow> JNull | Some j \<Rightarrow> j)"

definition jnat :: "nat \<Rightarrow> json" where
  "jnat n = JInt (int n)"

section \<open>Objects are keyed stores\<close>

lemma map_of_obj_insert [simp]:
  "map_of (obj_insert k v kvs) k' = (if k' = k then Some v else map_of kvs k')"
  by (induction kvs) auto

lemma map_of_obj_remove [simp]:
  "map_of (obj_remove k kvs) k' = (if k' = k then None else map_of kvs k')"
  by (induction kvs) (auto simp: obj_remove_def)

lemma obj_insert_same: "map_of kvs k = Some v \<Longrightarrow> obj_insert k v kvs = kvs"
  by (induction kvs) auto

lemma obj_or_insert_same: "obj_has k kvs \<Longrightarrow> obj_or_insert k v kvs = kvs"
  by (simp add: obj_or_insert_def)

lemma obj_has_or_insert [simp]: "obj_has k' (obj_or_insert k v kvs) \<longleftrightarrow> k' = k \<or> obj_has k' kvs"
  by (auto simp: obj_or_insert_def obj_has_def)

interpretation obj: key_store "map_of :: fields \<Rightarrow> rstr \<Rightarrow> json option" obj_insert obj_remove
  by unfold_locales auto

lemma obj_has_insert [simp]: "obj_has k' (obj_insert k v kvs) \<longleftrightarrow> k' = k \<or> obj_has k' kvs"
  by (simp add: obj_has_def)

lemma map_of_obj_or_insert [simp]:
  "map_of (obj_or_insert k v kvs) k' =
     (if k' = k then Some (case map_of kvs k of None \<Rightarrow> v | Some w \<Rightarrow> w) else map_of kvs k')"
  by (auto simp: obj_or_insert_def obj_has_def)

lemma jget_on_object [simp]:
  "jget k (on_object f j) = (case as_object j of None \<Rightarrow> None | Some kvs \<Rightarrow> map_of (f kvs) k)"
  by (cases j) auto

lemma jget_as_object: "jget k j = (case as_object j of None \<Rightarrow> None | Some kvs \<Rightarrow> map_of kvs k)"
  by (cases j) auto

lemma jstr_on_object_insert:
  "jstr k' (on_object (obj_insert k (JStr s)) j) =
     (case as_object j of None \<Rightarrow> None | Some kvs \<Rightarrow> if k' = k then Some s else jstr k' j)"
  by (cases j) (auto simp: jstr_def)

lemma jget_on_array:
  "jget k' (on_array k f j) =
     (if k' = k then map_option (\<lambda>v. case v of JArr xs \<Rightarrow> JArr (f xs) | _ \<Rightarrow> v) (jget k j)
      else jget k' j)"
  by (cases j) (auto simp: on_array_def split: option.splits json.splits)

lemma jarr_on_array_same: "jarr k (on_array k f j) = map_option f (jarr k j)"
  by (cases "jget k j") (auto simp: jarr_def jget_on_array split: json.splits)

lemma jarr_on_array_other: "k' \<noteq> k \<Longrightarrow> jarr k' (on_array k f j) = jarr k' j"
  by (simp add: jarr_def jget_on_array)

lemma as_object_on_array_None [simp]: "as_object (on_array k f j) = None \<longleftrightarrow> as_object j = None"
  by (cases j) (auto simp: on_array_def split: option.splits json.splits)

lemma as_array_Some_iff [simp]: "as_array j = Some xs \<longleftrightarrow> j = JArr xs"
  by (cases j) auto

lemma as_object_Some_iff [simp]: "as_object j = Some kvs \<longleftrightarrow> j = JObj kvs"
  by (cases j) auto

lemma as_str_Some_iff [simp]: "as_str j = Some s \<longleftrightarrow> j = JStr s"
  by (cases j) auto

lemma jstr_Some_iff: "jstr k j = Some s \<longleftrightarrow> jget k j = Some (JStr s)"
  by (auto simp: jstr_def bind_eq_Some_conv)

lemma jarr_Some_iff: "jarr k j = Some xs \<longleftrightarrow> jget k j = Some (JArr xs)"
  by (auto simp: jarr_def bind_eq_Some_conv)

lemma jstr_or_jstr: "jstr k j = Some s \<Longrightarrow> jstr_or k d j = s"
  by (simp add: jstr_or_def)

lemma on_array_JObj:
  "\<exists>kvs'. on_array k f (JObj kvs) = JObj kvs' \<and> (\<forall>k'. obj_has k' kvs' \<longleftrightarrow> obj_has k' kvs) \<and>
     (\<forall>k'. k' \<noteq> k \<longrightarrow> map_of kvs' k' = map_of kvs k')"
  by (cases "map_of kvs k") (auto simp: on_array_def obj_has_def split: json.splits)

lemma on_array_on_array: "on_array k f (on_array k g j) = on_array k (f \<circ> g) j"
proof -
  have "obj_insert k v (obj_insert k w kvs) = obj_insert k v kvs" for v w :: json and kvs
    by (induction kvs) auto
  then show ?thesis
    by (cases j) (auto simp: on_array_def split: option.splits json.splits)
qed

lemma on_array_id: "(\<And>xs. jarr k j = Some xs \<Longrightarrow> f xs = xs) \<Longrightarrow> on_array k f j = j"
  by (cases j) (auto simp: on_array_def jarr_def obj_insert_same split: option.splits json.splits)

lemma on_array_cong: "(\<And>xs. jarr k j = Some xs \<Longrightarrow> f xs = g xs) \<Longrightarrow> on_array k f j = on_array k g j"
  by (cases j) (auto simp: on_array_def jarr_def split: option.splits json.splits)

end
