(* ===== verification/FileStore.thy ===== *)
theory FileStore
  imports Json
begin

text \<open>
  The disk under the MCP server and the code that writes it: \<open>state/lock.rs\<close> (the exclusive
  file locks) and \<open>write_text_crash_safe\<close>/\<open>replace_existing\<close> of \<open>state/mod.rs\<close>, together
  with the path confinement check of \<open>project_file.rs\<close>.

  A path is the list of its components, so \<open>Path::join\<close> of one name is appending it and
  \<open>Path::starts_with\<close> is the prefix relation on components. The disk maps a path to the text
  of the file there. What the operating system, the clock, \<open>chrono\<close>, \<open>serde_json\<close>,
  \<open>sha2\<close> and \<open>uuid\<close> answer during one critical section is the record \<open>ambient\<close>, an argument
  of every operation; in particular each system call that can fail has its outcome there, and
  a call that fails half way says what it leaves behind. The clock is read once per critical
  section.
\<close>

section \<open>Disk and surroundings\<close>

type_synonym path = "rstr list"

record disk =
  files :: "path \<Rightarrow> rstr option"

text \<open>
  The outcomes of the system calls of one crash-safe write: the temporary file (open, write,
  flush, fsync, permissions), the backup copy, the replacement (a rename, or on Windows
  \<open>MoveFileExW\<close> with the copy fallback), the copy that restores the backup, and whether each
  best-effort removal works. The \<open>_left\<close> fields are the contents a failed call leaves.
\<close>

record write_plan =
  temp_ok :: bool
  temp_left :: "rstr option"
  backup_ok :: bool
  backup_left :: "rstr option"
  on_windows :: bool
  move_ok :: bool
  access_denied :: bool
  in_appcontainer :: bool
  copy_ok :: bool
  copy_left :: "rstr option"
  restore_ok :: bool
  restore_left :: "rstr option"
  remove_ok :: "path \<Rightarrow> bool"

record ambient =
  now_ns :: int
  stamp :: rstr
  fmt_ts :: "int \<Rightarrow> rstr"
  parse_rfc3339 :: "rstr \<Rightarrow> int option"
  json_parse :: "rstr \<Rightarrow> json option"
  json_pretty :: "json \<Rightarrow> rstr option"
  json_compact :: "json \<Rightarrow> rstr"
  sha256_hex :: "rstr \<Rightarrow> rstr"
  uuid_hex :: "nat \<Rightarrow> rstr"
  env_var :: "rstr \<Rightarrow> rstr option"
  canonical :: "path \<Rightarrow> path option"
  mkdir_ok :: "path \<Rightarrow> bool"
  open_ok :: "path \<Rightarrow> bool"
  try_lock :: "path \<Rightarrow> nat \<Rightarrow> bool"
  read_ok :: "path \<Rightarrow> bool"
  plan_for :: "path \<Rightarrow> write_plan"
  is_absolute :: "path \<Rightarrow> bool"
  modified_time :: "path \<Rightarrow> int option"
  hash_order :: "rstr list \<Rightarrow> rstr list"
  read_dir :: "path \<Rightarrow> path list option"
  is_dir :: "path \<Rightarrow> bool"

text \<open>Documented behaviour of \<open>serde_json\<close>: what is written reads back.\<close>

definition serde_roundtrip :: "ambient \<Rightarrow> ambient \<Rightarrow> bool" where
  "serde_roundtrip A B \<longleftrightarrow> (\<forall>j c. json_pretty A j = Some c \<longrightarrow> json_parse B c = Some j)"

text \<open>Documented behaviour of \<open>HashMap\<close> iteration: every key once.\<close>

definition walks_keys :: "ambient \<Rightarrow> bool" where
  "walks_keys A \<longleftrightarrow> (\<forall>ks. distinct (hash_order A ks) \<and> set (hash_order A ks) = set ks)"

text \<open>The errors of the server (\<open>ToolError\<close>), one constructor per message of the code.\<close>

datatype (plugins only: code) tool_error =
    CouldNotCreateLockParent path
  | CouldNotOpenLock path
  | CouldNotAcquireLock path
  | CouldNotCreateProjectsFolder
  | CouldNotSave rstr
  | CouldNotSaveRestoreFailed rstr path
  | CouldNotSaveNoBackup rstr path
  | AgentIdRequired | AgentIdInvalid | RoleInvalid
  | TextRequired rstr
  | FilePathControlChars | FilePathTooLong
  | ReservedStatus rstr
  | CouldNotReadAgents | AgentsInvalidJson | CouldNotSerializeAgents
  | AgentsNotObject | UpsertFailed | SessionMissingAfterRegister
  | NeedsLaunchToken | AlreadyRegistered rstr rstr | LaunchTokenRequired
  | LaunchTokenExpired | LaunchTokenInvalid | PendingWithoutToken | LaunchConsumed
  | SessionTokenMissing | SessionTokenRequired | SessionTokenExpired | SessionTokenInvalid
  | RegisterFirst | LaunchPending | RoleMismatch rstr rstr | ToolNotAllowed rstr rstr
  | SelfDependency rstr | UnknownDependency rstr rstr | DuplicateDependency rstr rstr
  | DependencyCycle | Panicked
  | ProjectsDirUnresolved | PathUnresolved | ParentUnresolved | PathEscapes
  | ProjectError rstr

type_synonym 'a io = "disk \<Rightarrow> (tool_error + 'a) \<times> disk"

definition write_file :: "path \<Rightarrow> rstr option \<Rightarrow> disk \<Rightarrow> disk" where
  "write_file p c d = d\<lparr>files := (files d)(p := c)\<rparr>"

definition exists_file :: "disk \<Rightarrow> path \<Rightarrow> bool" where
  "exists_file d p \<longleftrightarrow> files d p \<noteq> None"

text \<open>\<open>let _ = remove_file(p)\<close>\<close>

definition try_remove :: "write_plan \<Rightarrow> path \<Rightarrow> disk \<Rightarrow> disk" where
  "try_remove W p d = (if remove_ok W p then write_file p None d else d)"

definition file_name :: "path \<Rightarrow> rstr option" where
  "file_name p = (if p = [] \<or> last p = lit ''..'' then None else Some (last p))"

definition with_file_name :: "path \<Rightarrow> rstr \<Rightarrow> path" where
  "with_file_name p n = (if p = [] then [n] else butlast p @ [n])"

definition file_stem :: "rstr \<Rightarrow> rstr" where
  "file_stem n =
     (let r = dropWhile (\<lambda>c. c \<noteq> 46) (rev n) in
      if r = [] \<or> tl r = [] then n else rev (tl r))"

definition with_extension :: "path \<Rightarrow> rstr \<Rightarrow> path" where
  "with_extension p ext =
     (case file_name p of None \<Rightarrow> p | Some n \<Rightarrow> with_file_name p (file_stem n @ lit ''.'' @ ext))"

section \<open>Locks\<close>

text \<open>\<open>for _ in 0..100\<close>: the attempt number at which the lock is granted, if any.\<close>

fun lock_attempts :: "(nat \<Rightarrow> bool) \<Rightarrow> nat \<Rightarrow> nat \<Rightarrow> nat option" where
  "lock_attempts try i 0 = None"
| "lock_attempts try i (Suc n) = (if try i then Some i else lock_attempts try (Suc i) n)"

definition acquire_lock_at :: "ambient \<Rightarrow> path \<Rightarrow> tool_error + unit" where
  "acquire_lock_at A lock_path =
     bindE (if lock_path = [] then Inr ()
            else assertE (mkdir_ok A (butlast lock_path)) (CouldNotCreateLockParent (butlast lock_path)))
     (\<lambda>_. bindE (assertE (open_ok A lock_path) (CouldNotOpenLock lock_path))
     (\<lambda>_. (case lock_attempts (try_lock A lock_path) 0 100 of
            Some _ \<Rightarrow> Inr ()
          | None \<Rightarrow> Inl (CouldNotAcquireLock lock_path))))"

definition with_file_lock :: "ambient \<Rightarrow> path \<Rightarrow> 'a io \<Rightarrow> 'a io" where
  "with_file_lock A lock_path f = bindS (liftE (acquire_lock_at A lock_path)) (\<lambda>_. f)"

definition agents_state_path :: "path \<Rightarrow> path" where
  "agents_state_path dir = dir @ [lit ''.aspis-agents.json'']"

definition agents_lock_path :: "path \<Rightarrow> path" where
  "agents_lock_path dir = dir @ [lit ''.aspis-agents.json.lock'']"

definition with_agents_lock :: "ambient \<Rightarrow> path \<Rightarrow> 'a io \<Rightarrow> 'a io" where
  "with_agents_lock A dir f =
     bindS (liftE (assertE (mkdir_ok A dir) CouldNotCreateProjectsFolder))
     (\<lambda>_. with_file_lock A (agents_lock_path dir) f)"

text \<open>Resolution of the projects directory from the environment (\<open>state/paths.rs\<close>).\<close>

definition env_trimmed :: "ambient \<Rightarrow> rstr \<Rightarrow> rstr option" where
  "env_trimmed A k = (case env_var A k of None \<Rightarrow> None
     | Some v \<Rightarrow> if trim v = [] then None else Some (trim v))"

fun first_some :: "('a \<Rightarrow> 'b option) \<Rightarrow> 'a list \<Rightarrow> 'b option" where
  "first_some f [] = None"
| "first_some f (x # xs) = (case f x of None \<Rightarrow> first_some f xs | Some y \<Rightarrow> Some y)"

definition resolve_projects_dir :: "ambient \<Rightarrow> (rstr \<Rightarrow> path) \<Rightarrow> path option \<Rightarrow> path" where
  "resolve_projects_dir A path_of cwd =
     (case first_some (env_trimmed A)
         [lit ''DEVBOULE_MCP_PROJECTS_DIR'', lit ''ASPIS_MCP_PROJECTS_DIR'', lit ''ASPIS_PROJECTS_DIR''] of
        Some t \<Rightarrow> path_of t
      | None \<Rightarrow> (case first_some (env_trimmed A) [lit ''DEVBOULE_MCP_ROOT'', lit ''ASPIS_MCP_ROOT''] of
          Some t \<Rightarrow> path_of t @ [lit ''projects'']
        | None \<Rightarrow> (case cwd of Some c \<Rightarrow> c | None \<Rightarrow> [lit ''.'']) @ [lit ''projects'']))"

section \<open>Crash-safe writes\<close>

datatype replaced = Replaced | ReplaceFailed

text \<open>\<open>replace_existing\<close>: a rename, or on Windows \<open>MoveFileExW\<close> followed, for a sandboxed
  writer that is denied access, by a copy that is not atomic.\<close>

definition replace_existing :: "write_plan \<Rightarrow> path \<Rightarrow> path \<Rightarrow> disk \<Rightarrow> replaced \<times> disk" where
  "replace_existing W temp target d =
     (if move_ok W then (Replaced, write_file temp None (write_file target (files d temp) d))
      else if \<not> on_windows W then (ReplaceFailed, d)
      else if \<not> access_denied W \<or> \<not> in_appcontainer W then (ReplaceFailed, d)
      else if copy_ok W then (Replaced, try_remove W temp (write_file target (files d temp) d))
      else (ReplaceFailed, write_file target (copy_left W) d))"

text \<open>The closure of \<open>write_text_crash_safe\<close>: whether it returned \<open>Ok\<close>, whether a valid backup
  was made, and the disk.\<close>

definition try_write :: "write_plan \<Rightarrow> path \<Rightarrow> path \<Rightarrow> path \<Rightarrow> rstr \<Rightarrow> disk
    \<Rightarrow> bool \<times> bool \<times> disk" where
  "try_write W temp bak target content d =
     (if \<not> temp_ok W then (False, False, write_file temp (temp_left W) d)
      else
        let d1 = write_file temp (Some content) d;
            had_backup = exists_file d target;
            (backup_created, d2) =
              (if had_backup
               then (if backup_ok W then (True, write_file bak (files d1 target) d1)
                     else (False, try_remove W bak (write_file bak (backup_left W) d1)))
               else (False, d1))
        in (case replace_existing W temp target d2 of
              (ReplaceFailed, d3) \<Rightarrow> (False, backup_created, d3)
            | (Replaced, d3) \<Rightarrow>
                (True, backup_created, if exists_file d3 bak then try_remove W bak d3 else d3)))"

definition temp_path :: "ambient \<Rightarrow> path \<Rightarrow> path" where
  "temp_path A p = with_file_name p
     ((case file_name p of Some n \<Rightarrow> n | None \<Rightarrow> lit ''file'') @ lit ''.'' @ stamp A @ lit ''.tmp'')"

definition backup_path :: "ambient \<Rightarrow> path \<Rightarrow> path" where
  "backup_path A p = with_file_name p
     ((case file_name p of Some n \<Rightarrow> n | None \<Rightarrow> lit ''file'') @ lit ''.'' @ stamp A @ lit ''.bak'')"

definition write_text_crash_safe :: "ambient \<Rightarrow> path \<Rightarrow> rstr \<Rightarrow> rstr \<Rightarrow> unit io" where
  "write_text_crash_safe A target content label d =
     (let W = plan_for A target; temp = temp_path A target; bak = backup_path A target;
          had_backup = exists_file d target
      in (case try_write W temp bak target content d of
            (True, _, d1) \<Rightarrow> (Inr (), d1)
          | (False, backup_created, d1) \<Rightarrow>
              let d2 = try_remove W temp d1
              in if backup_created then
                   (if restore_ok W
                    then (Inl (CouldNotSave label), try_remove W bak (write_file target (files d2 bak) d2))
                    else (Inl (CouldNotSaveRestoreFailed label bak), write_file target (restore_left W) d2))
                 else if had_backup then (Inl (CouldNotSaveNoBackup label target), d2)
                 else (Inl (CouldNotSave label),
                       if exists_file d2 target then try_remove W target d2 else d2)))"

section \<open>Path confinement\<close>

definition path_starts_with :: "path \<Rightarrow> path \<Rightarrow> bool" where
  "path_starts_with p q \<longleftrightarrow> take (length q) p = q"

text \<open>\<open>ensure_inside_projects\<close> of \<open>project_file.rs\<close>\<close>

definition ensure_inside_projects :: "ambient \<Rightarrow> path \<Rightarrow> path \<Rightarrow> disk \<Rightarrow> tool_error + path" where
  "ensure_inside_projects A dir p d =
     bindE (ok_or (canonical A dir) ProjectsDirUnresolved)
     (\<lambda>root. bindE
       (if exists_file d p then ok_or (canonical A p) PathUnresolved
        else bindE (ok_or (file_name p) PathEscapes)
          (\<lambda>name. bindE (ok_or (canonical A (butlast p)) ParentUnresolved)
          (\<lambda>parent. Inr (parent @ [name]))))
     (\<lambda>resolved. bindE (assertE (path_starts_with resolved root) PathEscapes)
     (\<lambda>_. Inr resolved)))"

section \<open>Facts\<close>

lemma files_write_file [simp]: "files (write_file p c d) q = (if q = p then c else files d q)"
  by (simp add: write_file_def)

lemma files_try_remove:
  "files (try_remove W p d) q = (if q = p \<and> remove_ok W p then None else files d q)"
  by (simp add: try_remove_def)

lemma files_try_remove_other [simp]: "q \<noteq> p \<Longrightarrow> files (try_remove W p d) q = files d q"
  by (simp add: files_try_remove)

lemma lock_attempts_Some_iff:
  "(\<exists>k. lock_attempts try i n = Some k) \<longleftrightarrow> (\<exists>k. i \<le> k \<and> k < i + n \<and> try k)"
proof (induction n arbitrary: i)
  case (Suc n)
  show ?case
  proof (cases "try i")
    case False
    have "(\<exists>k. Suc i \<le> k \<and> k < Suc i + n \<and> try k) \<longleftrightarrow> (\<exists>k. i \<le> k \<and> k < i + Suc n \<and> try k)"
      using False by (metis Suc_leD Suc_leI add_Suc_shift le_neq_implies_less)
    with False Suc show ?thesis by simp
  qed auto
qed simp

lemma acquire_lock_at_Inr_iff [elim_bind]:
  "acquire_lock_at A p = Inr u \<longleftrightarrow>
     (p = [] \<or> mkdir_ok A (butlast p)) \<and> open_ok A p \<and> (\<exists>k < 100. try_lock A p k)"
proof -
  have "(\<exists>k. lock_attempts (try_lock A p) 0 100 = Some k) \<longleftrightarrow> (\<exists>k < 100. try_lock A p k)"
    by (subst lock_attempts_Some_iff) simp
  then show ?thesis
    by (auto simp: acquire_lock_at_def elim_bind split: option.splits)
qed

lemma with_agents_lock_InrD:
  "with_agents_lock A dir f d = (Inr x, d') \<Longrightarrow> f d = (Inr x, d')"
  by (auto simp: with_agents_lock_def with_file_lock_def elim_bind)

text \<open>A critical section that fails before its body runs leaves the disk alone.\<close>

lemma with_agents_lock_cases:
  obtains (locked) "with_agents_lock A dir f d = f d"
  | (refused) e where "with_agents_lock A dir f d = (Inl e, d)"
proof (cases "mkdir_ok A dir \<and> is_ok (acquire_lock_at A (agents_lock_path dir))")
  case True
  then have "with_agents_lock A dir f d = f d"
    by (cases "acquire_lock_at A (agents_lock_path dir)")
      (simp_all add: with_agents_lock_def with_file_lock_def bindS_def liftE_def)
  then show ?thesis by (rule locked)
next
  case False
  then have "\<exists>e. with_agents_lock A dir f d = (Inl e, d)"
    by (cases "acquire_lock_at A (agents_lock_path dir)")
      (auto simp: with_agents_lock_def with_file_lock_def bindS_def liftE_def assertE_def)
  then show ?thesis using refused by blast
qed

lemma with_file_name_inj [simp]: "with_file_name p m = with_file_name p n \<longleftrightarrow> m = n"
  by (simp add: with_file_name_def)

lemma last_with_file_name [simp]: "last (with_file_name p n) = n" "with_file_name p n \<noteq> []"
  by (simp_all add: with_file_name_def)

lemma butlast_with_file_name: "butlast (with_file_name p n) = butlast p"
  by (simp add: with_file_name_def)

text \<open>The temporary file, the backup and the target are three different files.\<close>

lemma temp_neq_backup [simp]: "temp_path A p \<noteq> backup_path A p" "backup_path A p \<noteq> temp_path A p"
  by (simp_all add: temp_path_def backup_path_def lit_def)

lemma temp_neq_target [simp]:
  assumes "file_name p \<noteq> None"
  shows "temp_path A p \<noteq> p" "p \<noteq> temp_path A p" "backup_path A p \<noteq> p" "p \<noteq> backup_path A p"
proof -
  from assms obtain n where n1: "file_name p = Some n" by auto
  then have n: "file_name p = Some n" "last p = n"
    by (simp_all add: file_name_def split: if_splits)
  have "last (temp_path A p) = n @ lit ''.'' @ stamp A @ lit ''.tmp''"
       "last (backup_path A p) = n @ lit ''.'' @ stamp A @ lit ''.bak''"
    by (simp_all add: temp_path_def backup_path_def n)
  then have "last (temp_path A p) \<noteq> last p" "last (backup_path A p) \<noteq> last p"
    using n by (simp_all add: lit_def)
  then show "temp_path A p \<noteq> p" "p \<noteq> temp_path A p" "backup_path A p \<noteq> p" "p \<noteq> backup_path A p"
    by auto
qed

lemma file_name_append [simp]: "file_name (p @ [n]) = (if n = lit ''..'' then None else Some n)"
  by (simp add: file_name_def)

section \<open>What a crash-safe write leaves behind\<close>

lemma try_write_ok:
  assumes "try_write W temp bak target content d = (True, b, d')"
    and "temp \<noteq> bak" "temp \<noteq> target" "bak \<noteq> target"
  shows "files d' target = Some content"
  using assms by (auto simp: try_write_def replace_existing_def Let_def files_try_remove
      split: if_splits prod.splits)

text \<open>When the closure fails with a valid backup, the backup holds the old content; without
  one, only the non-atomic copy can have touched the target.\<close>

lemma try_write_fail:
  assumes "try_write W temp bak target content d = (False, b, d')"
    and "temp \<noteq> bak" "temp \<noteq> target" "bak \<noteq> target"
  shows "b \<Longrightarrow> files d target \<noteq> None \<and> files d' bak = files d target"
    and "files d' target = files d target \<or>
      (on_windows W \<and> access_denied W \<and> in_appcontainer W \<and> \<not> copy_ok W \<and>
       (files d target \<noteq> None \<longrightarrow> b = backup_ok W) \<and> files d' target = copy_left W)"
  using assms by (auto simp: try_write_def replace_existing_def Let_def files_try_remove
      exists_file_def split: if_splits prod.splits)

lemma try_write_frame:
  assumes "try_write W temp bak target content d = (r, b, d')"
    and "q \<noteq> temp" "q \<noteq> bak" "q \<noteq> target"
  shows "files d' q = files d q"
  using assms by (auto simp: try_write_def replace_existing_def Let_def files_try_remove
      split: if_splits prod.splits)

lemma write_text_frame:
  assumes "write_text_crash_safe A p content label d = (r, d')"
    and "q \<noteq> temp_path A p" "q \<noteq> backup_path A p" "q \<noteq> p"
  shows "files d' q = files d q"
proof -
  obtain ok b d1 where tw: "try_write (plan_for A p) (temp_path A p) (backup_path A p) p content d = (ok, b, d1)"
    by (metis prod_cases3)
  have "files d1 q = files d q"
    using try_write_frame [OF tw] assms(2-4) by blast
  with assms tw show ?thesis
    by (auto simp: write_text_crash_safe_def Let_def split: if_splits bool.splits)
qed

lemma write_text_Inr:
  assumes "write_text_crash_safe A p content label d = (Inr u, d')" and "file_name p \<noteq> None"
  shows "files d' p = Some content"
proof -
  obtain ok b d1 where tw: "try_write (plan_for A p) (temp_path A p) (backup_path A p) p content d = (ok, b, d1)"
    by (metis prod_cases3)
  from assms tw have "ok" "d1 = d'"
    by (auto simp: write_text_crash_safe_def Let_def split: if_splits bool.splits)
  with tw assms(2) show ?thesis
    using try_write_ok by simp
qed

lemma write_text_Inl:
  assumes "write_text_crash_safe A p content label d = (Inl e, d')" and "file_name p \<noteq> None"
  shows "(e = CouldNotSave label \<and> (files d p \<noteq> None \<longrightarrow> files d' p = files d p)) \<or>
    (e = CouldNotSaveRestoreFailed label (backup_path A p) \<and> files d' (backup_path A p) = files d p) \<or>
    (e = CouldNotSaveNoBackup label p \<and>
      (files d' p = files d p \<or> (on_windows (plan_for A p) \<and> access_denied (plan_for A p) \<and>
         in_appcontainer (plan_for A p) \<and> \<not> copy_ok (plan_for A p) \<and> \<not> backup_ok (plan_for A p))))"
proof -
  let ?W = "plan_for A p" and ?t = "temp_path A p" and ?k = "backup_path A p"
  obtain ok b d1 where tw: "try_write ?W ?t ?k p content d = (ok, b, d1)"
    by (metis prod_cases3)
  have n: "\<not> ok"
    using assms(1) tw by (auto simp: write_text_crash_safe_def Let_def)
  from tw n have tw0: "try_write ?W ?t ?k p content d = (False, b, d1)" by simp
  note ne = temp_neq_target [OF assms(2), of A]
  note fail = try_write_fail [OF tw0 temp_neq_backup(1) ne(1) ne(3)]
  show ?thesis
    using assms(1) tw0 fail ne
    by (auto simp: write_text_crash_safe_def Let_def files_try_remove exists_file_def split: if_splits)
qed


end
