(* ===== verification/AgentState.thy ===== *)
theory AgentState
  imports FileStore
begin

text \<open>
  The agents file of the coordination server, \<open>devboule-mcp/src/state/mod.rs\<close>: the validation
  of what an agent says about itself, the read--modify--write of the JSON document that holds
  sessions, claims and events, the session entry an agent owns in it, the event log, what is
  disclosed of the document to an agent, and the launch and session tokens that gate it. The
  document is kept as JSON, as in the code, so that keys the server does not know survive a
  rewrite.
\<close>

section \<open>Constants and clock\<close>

definition AGENTS_STATE_VERSION :: int where "AGENTS_STATE_VERSION = 2"
definition MAX_EVENTS :: nat where "MAX_EVENTS = 300"
definition MAX_SESSIONS :: nat where "MAX_SESSIONS = 200"
definition MAX_CLOSED_SESSIONS :: nat where "MAX_CLOSED_SESSIONS = 40"

definition VALID_ROLES :: "rstr list" where
  "VALID_ROLES = [lit ''coder'', lit ''verifier'', lit ''mini'', lit ''orchestrator'']"

text \<open>Two and twelve hours, in nanoseconds.\<close>

definition LAUNCH_TOKEN_WINDOW :: int where "LAUNCH_TOKEN_WINDOW = 2 * 3600 * 1000000000"
definition SESSION_TOKEN_WINDOW :: int where "SESSION_TOKEN_WINDOW = 12 * 3600 * 1000000000"

definition now_rfc3339 :: "ambient \<Rightarrow> rstr" where
  "now_rfc3339 A = fmt_ts A (now_ns A)"

definition event_id :: "ambient \<Rightarrow> nat \<Rightarrow> rstr" where
  "event_id A n = lit ''E'' @ show_nat (nat (now_ns A)) @ lit ''-'' @ take 8 (uuid_hex A n)"

definition parse_iso_timestamp :: "ambient \<Rightarrow> rstr option \<Rightarrow> int option" where
  "parse_iso_timestamp A v =
     (case v of None \<Rightarrow> None
      | Some v \<Rightarrow> let raw = trim v in
          if raw = [] then None
          else parse_rfc3339 A (if ends_with raw (lit ''Z'') then butlast raw @ lit ''+00:00'' else raw))"

section \<open>Validation\<close>

definition normalize_agent_id :: "rstr \<Rightarrow> tool_error + rstr" where
  "normalize_agent_id v =
     (let agent_id = trim v in
      if agent_id = [] then Inl AgentIdRequired
      else if utf8_len agent_id > 64 \<or>
              \<not> list_all (\<lambda>c. is_alnum c \<or> c = 46 \<or> c = 95 \<or> c = 45) agent_id
      then Inl AgentIdInvalid
      else Inr agent_id)"

definition role_alias :: "rstr \<Rightarrow> rstr" where
  "role_alias r = (if r = lit ''architect'' \<or> r = lit ''code'' then lit ''coder'' else r)"

definition normalize_role :: "rstr \<Rightarrow> tool_error + rstr" where
  "normalize_role v =
     (let role = role_alias (to_lower (trim v)) in
      if role \<notin> set VALID_ROLES then Inl RoleInvalid else Inr role)"

definition coerce_role :: "rstr \<Rightarrow> rstr" where
  "coerce_role v =
     (let role = role_alias (to_lower (trim v)) in
      if role \<in> set VALID_ROLES then role else lit ''coder'')"

definition roles_same_canonical :: "rstr \<Rightarrow> rstr \<Rightarrow> bool" where
  "roles_same_canonical a b \<longleftrightarrow> coerce_role a = coerce_role b"

definition MODEL_MAX_LEN :: nat where "MODEL_MAX_LEN = 64"

definition MODEL_FAMILIES :: "rstr list" where
  "MODEL_FAMILIES = [lit ''opus'', lit ''sonnet'', lit ''haiku'']"

definition normalize_model :: "rstr option \<Rightarrow> rstr" where
  "normalize_model value =
     (case value of None \<Rightarrow> []
      | Some v \<Rightarrow>
          let cleaned = to_lower (trim (collapse_ws v)) in
          if cleaned = [] then []
          else let cleaned = take MODEL_MAX_LEN cleaned in
            (case List.find (contains_sub cleaned) MODEL_FAMILIES of
               Some family \<Rightarrow> family | None \<Rightarrow> cleaned))"

definition clean_text :: "rstr \<Rightarrow> rstr \<Rightarrow> nat \<Rightarrow> tool_error + rstr" where
  "clean_text v label limit =
     (let text = trim (collapse_ws v) in
      if text = [] then Inl (TextRequired label) else Inr (take limit text))"

text \<open>\<open>while normalized.starts_with("./")\<close>\<close>

fun strip_dot_slash :: "rstr \<Rightarrow> rstr" where
  "strip_dot_slash (a # b # cs) =
     (if a = 46 \<and> b = 47 then strip_dot_slash cs else a # b # cs)"
| "strip_dot_slash cs = cs"

definition normalize_current_file_path :: "rstr \<Rightarrow> tool_error + rstr option" where
  "normalize_current_file_path v =
     (let text = trim v in
      if text = [] then Inr None
      else if list_ex (\<lambda>ch. ch < 32) text then Inl FilePathControlChars
      else if utf8_len text > 1024 then Inl FilePathTooLong
      else let normalized = strip_dot_slash (replace1 92 [47] text) in
        Inr (if normalized = [] then None else Some normalized))"

definition NEEDS_USER_STATUS :: rstr where "NEEDS_USER_STATUS = lit ''needs_user''"

definition NEEDS_USER_ALIASES :: "rstr list" where
  "NEEDS_USER_ALIASES = [lit ''awaiting_user'', lit ''blocked_on_user'']"

definition RESERVED_AGENT_STATUSES :: "rstr list" where
  "RESERVED_AGENT_STATUSES = [lit ''launch_pending'', lit ''closed'']"

definition normalize_agent_status :: "rstr \<Rightarrow> rstr" where
  "normalize_agent_status v =
     (let cleaned = to_lower (trim (collapse_ws v)) in
      if cleaned = [] then []
      else if cleaned = NEEDS_USER_STATUS \<or> cleaned \<in> set NEEDS_USER_ALIASES
      then NEEDS_USER_STATUS
      else cleaned)"

definition reject_reserved_agent_status :: "rstr \<Rightarrow> tool_error + unit" where
  "reject_reserved_agent_status status =
     (let lc = to_lower (trim status) in
      if lc \<in> set RESERVED_AGENT_STATUSES then Inl (ReservedStatus lc) else Inr ())"

section \<open>Subagents\<close>

definition SUBAGENT_LABEL_MAX_LEN :: nat where "SUBAGENT_LABEL_MAX_LEN = 80"
definition SUBAGENT_COUNT_MIN :: int where "SUBAGENT_COUNT_MIN = 1"
definition SUBAGENT_COUNT_MAX :: int where "SUBAGENT_COUNT_MAX = 9999"
definition SUBAGENTS_MAX :: nat where "SUBAGENTS_MAX = 32"

text \<open>The inner block of \<open>coerce_subagent_count\<close> either returns from the function (\<open>Inl\<close>) or
  yields the number (\<open>Inr\<close>).\<close>

fun subagent_number :: "json \<Rightarrow> int option + int" where
  "subagent_number (JInt i) = (if i \<le> i64_max then Inr i else Inl (Some SUBAGENT_COUNT_MAX))"
| "subagent_number (JFloat (Fin q)) =
     (if of_int \<lfloor>q\<rfloor> \<noteq> q then Inl None
      else if 2 ^ 63 < q then Inl (Some SUBAGENT_COUNT_MAX)
      else if q < - (2 ^ 63) then Inl None
      else Inr (min i64_max \<lfloor>q\<rfloor>))"
| "subagent_number (JFloat _) = Inl None"
| "subagent_number (JStr s) =
     (let text = trim s in
      if text = [] then Inl None
      else let negative = hd text = 45; digits = (if negative then tl text else text) in
        if digits = [] \<or> \<not> list_all is_digit digits then Inl None
        else let n = (if negative then - int (digits_val digits) else int (digits_val digits)) in
          if i64_min \<le> n \<and> n \<le> i64_max then Inr n
          else if negative then Inl None else Inl (Some SUBAGENT_COUNT_MAX))"
| "subagent_number _ = Inl None"

definition coerce_subagent_count :: "json \<Rightarrow> int option" where
  "coerce_subagent_count v =
     (case subagent_number v of
        Inl r \<Rightarrow> r
      | Inr number \<Rightarrow> if number < SUBAGENT_COUNT_MIN then None
                       else Some (min number SUBAGENT_COUNT_MAX))"

text \<open>The body of the loop: \<open>None\<close> is \<open>continue\<close>.\<close>

definition subagent_role :: "ambient \<Rightarrow> json option \<Rightarrow> json" where
  "subagent_role A r =
     (case r of None \<Rightarrow> JNull | Some JNull \<Rightarrow> JNull
      | Some r \<Rightarrow>
          let role_str = (case r of JStr s \<Rightarrow> s | other \<Rightarrow> json_compact A other) in
          if trim role_str = [] then JNull
          else (case normalize_role role_str of Inr r \<Rightarrow> JStr r | Inl _ \<Rightarrow> JNull))"

definition normalize_subagent :: "ambient \<Rightarrow> json \<Rightarrow> json option" where
  "normalize_subagent A entry =
     (case as_object entry of None \<Rightarrow> None
      | Some obj \<Rightarrow>
          let label = trim (collapse_ws (jstr_or (lit ''label'') [] entry)) in
          if label = [] then None
          else
            let raw_count = (case map_of obj (lit ''count'') of
                  None \<Rightarrow> JInt 1 | Some JNull \<Rightarrow> JInt 1 | Some v \<Rightarrow> v) in
            (case coerce_subagent_count raw_count of None \<Rightarrow> None
             | Some c \<Rightarrow> Some (JObj
                 [(lit ''label'', JStr (take SUBAGENT_LABEL_MAX_LEN label)),
                  (lit ''model'', JStr (normalize_model (jstr (lit ''model'') entry))),
                  (lit ''count'', JInt c),
                  (lit ''role'', subagent_role A (map_of obj (lit ''role'')))])))"

fun subagents_loop :: "ambient \<Rightarrow> json list \<Rightarrow> json list \<Rightarrow> json list" where
  "subagents_loop A result [] = result"
| "subagents_loop A result (entry # rest) =
     (case normalize_subagent A entry of
        None \<Rightarrow> subagents_loop A result rest
      | Some s \<Rightarrow> let result = result @ [s] in
          if length result \<ge> SUBAGENTS_MAX then result else subagents_loop A result rest)"

definition normalize_subagents :: "ambient \<Rightarrow> json \<Rightarrow> json list option" where
  "normalize_subagents A v = map_option (subagents_loop A []) (as_array v)"

section \<open>The agents document\<close>

definition default_agents_state :: "ambient \<Rightarrow> json" where
  "default_agents_state A = JObj
     [(lit ''version'', JInt AGENTS_STATE_VERSION),
      (lit ''updatedAt'', JStr (now_rfc3339 A)),
      (lit ''sessions'', JArr []),
      (lit ''claims'', JArr []),
      (lit ''events'', JArr []),
      (lit ''miniCoderDirectives'', JArr [])]"

definition is_closed :: "json \<Rightarrow> bool" where
  "is_closed s = (case jstr (lit ''status'') s of None \<Rightarrow> False | Some st \<Rightarrow> eq_ignore_case st (lit ''closed''))"

definition seen_key :: "json \<Rightarrow> rstr" where
  "seen_key s =
     (case Option.bind (case jget (lit ''lastSeenAt'') s of
            None \<Rightarrow> jget (lit ''firstSeenAt'') s | Some v \<Rightarrow> Some v) as_str of
        None \<Rightarrow> [] | Some k \<Rightarrow> k)"

text \<open>\<open>closed_idx\<close> after its sort, and the \<open>retain\<close> that drops a set of positions.\<close>

definition closed_by_age :: "json list \<Rightarrow> nat list" where
  "closed_by_age sessions =
     sort_key (\<lambda>i. seen_key (sessions ! i)) [i \<leftarrow> [0..<length sessions]. is_closed (sessions ! i)]"

definition drop_positions :: "nat list \<Rightarrow> 'a list \<Rightarrow> 'a list" where
  "drop_positions to_drop xs =
     map snd (filter (\<lambda>(i, _). i \<notin> set to_drop) (enumerate 0 xs))"

definition prune_closed_sessions :: "nat \<Rightarrow> json list \<Rightarrow> json list" where
  "prune_closed_sessions max_closed sessions =
     (let closed_idx = closed_by_age sessions in
      if length closed_idx \<le> max_closed then sessions
      else drop_positions (take (length closed_idx - max_closed) closed_idx) sessions)"

definition prune_over_max :: "json list \<Rightarrow> json list" where
  "prune_over_max sessions =
     (if length sessions > MAX_SESSIONS
      then drop_positions (take (length sessions - MAX_SESSIONS) (closed_by_age sessions)) sessions
      else sessions)"

definition normalize_session :: "fields \<Rightarrow> fields" where
  "normalize_session s =
     (let s = obj_or_insert (lit ''subagents'') (JArr []) s;
          s = (if \<not> obj_has (lit ''needsUser'') s then obj_insert (lit ''needsUser'') JNull s else s);
          stored = to_lower (trim (jstr_or (lit ''role'') [] (JObj s)));
          role = (if stored \<in> set VALID_ROLES \<or> stored = lit ''architect'' \<or> stored = lit ''code''
                  then stored else lit ''coder'')
      in obj_insert (lit ''role'') (JStr role) s)"

definition normalize_sessions :: "json list \<Rightarrow> json list" where
  "normalize_sessions sessions =
     prune_closed_sessions MAX_CLOSED_SESSIONS (prune_over_max (map (on_object normalize_session) sessions))"

definition normalize_version :: "fields \<Rightarrow> fields" where
  "normalize_version obj =
     (case map_of obj (lit ''version'') of
        Some (JInt i) \<Rightarrow>
          (if 0 \<le> i then
             (if i < AGENTS_STATE_VERSION then obj_insert (lit ''version'') (JInt AGENTS_STATE_VERSION) obj
              else obj)
           else obj_insert (lit ''version'') (JInt AGENTS_STATE_VERSION) obj)
      | _ \<Rightarrow> obj_insert (lit ''version'') (JInt AGENTS_STATE_VERSION) obj)"

definition normalize_agents_state :: "ambient \<Rightarrow> json \<Rightarrow> json" where
  "normalize_agents_state A state =
     (case as_object state of
        None \<Rightarrow> default_agents_state A
      | Some obj \<Rightarrow>
          let obj = normalize_version obj;
              obj = obj_or_insert (lit ''updatedAt'') (JStr (now_rfc3339 A)) obj;
              obj = obj_or_insert (lit ''sessions'') (JArr []) obj;
              obj = obj_or_insert (lit ''claims'') (JArr []) obj;
              obj = obj_or_insert (lit ''events'') (JArr []) obj
          in on_array (lit ''sessions'') normalize_sessions (JObj obj))"

definition read_agents_state :: "ambient \<Rightarrow> path \<Rightarrow> json io" where
  "read_agents_state A dir d =
     (let p = agents_state_path dir in
      case files d p of
        None \<Rightarrow> (Inr (default_agents_state A), d)
      | Some content \<Rightarrow>
          if \<not> read_ok A p then (Inl CouldNotReadAgents, d)
          else (case json_parse A content of
                  None \<Rightarrow> (Inl AgentsInvalidJson, d)
                | Some state \<Rightarrow> (Inr (normalize_agents_state A state), d)))"

text \<open>\<open>events.drain(0..drop_n)\<close>\<close>

definition cap_events :: "json list \<Rightarrow> json list" where
  "cap_events events = (if length events > MAX_EVENTS then keep_last MAX_EVENTS events else events)"

definition write_agents_state :: "ambient \<Rightarrow> path \<Rightarrow> json \<Rightarrow> json io" where
  "write_agents_state A dir state =
     (let state = normalize_agents_state A state;
          state = on_object (obj_insert (lit ''updatedAt'') (JStr (now_rfc3339 A))) state;
          state = on_array (lit ''events'') cap_events state
      in bindS (liftE (ok_or (json_pretty A state) CouldNotSerializeAgents))
         (\<lambda>content. bindS (write_text_crash_safe A (agents_state_path dir) content (lit ''agent state file''))
         (\<lambda>_. returnS state)))"

section \<open>Disclosure\<close>

definition SECRET_SESSION_KEYS :: "rstr list" where
  "SECRET_SESSION_KEYS =
     [lit ''launchTokenHash'', lit ''launchTokenIssuedAt'', lit ''sessionTokenHash'',
      lit ''sessionTokenIssuedAt'', lit ''launchConsumedAt'']"

definition scrub_session_secrets :: "json \<Rightarrow> json" where
  "scrub_session_secrets session = on_object (fold obj_remove SECRET_SESSION_KEYS) session"

definition sessions_of :: "json \<Rightarrow> json list" where
  "sessions_of state = (case jarr (lit ''sessions'') state of None \<Rightarrow> [] | Some xs \<Rightarrow> xs)"

definition has_agent_id :: "rstr \<Rightarrow> json \<Rightarrow> bool" where
  "has_agent_id agent_id s \<longleftrightarrow> jstr (lit ''agentId'') s = Some agent_id"

definition own_session :: "json \<Rightarrow> rstr \<Rightarrow> json option" where
  "own_session state agent_id =
     map_option scrub_session_secrets (List.find (has_agent_id agent_id) (sessions_of state))"

definition active_count :: "json list \<Rightarrow> nat" where
  "active_count sessions = length (filter (\<lambda>s. case jstr (lit ''status'') s of
     None \<Rightarrow> False | Some st \<Rightarrow> eq_ignore_case st (lit ''active'')) sessions)"

definition fleet_summary :: "json list \<Rightarrow> json" where
  "fleet_summary sessions =
     JObj [(lit ''sessions'', jnat (length sessions)), (lit ''active'', jnat (active_count sessions))]"

definition public_agents_state :: "json \<Rightarrow> rstr \<Rightarrow> json" where
  "public_agents_state state agent_id = JObj
     [(lit ''version'', jopt (jget (lit ''version'') state)),
      (lit ''updatedAt'', jopt (jget (lit ''updatedAt'') state)),
      (lit ''sessions'', JArr (case own_session state agent_id of None \<Rightarrow> [] | Some s \<Rightarrow> [s])),
      (lit ''fleet'', fleet_summary (sessions_of state))]"

definition ack_note :: rstr where
  "ack_note = lit ''agent_state returns your session + fleet counts only (no peer directive bodies). Heartbeat acks do not echo sessionToken -- keep using the token from agent_register; a missing token in the ack is NOT an error.''"

definition compact_session_ack :: "json \<Rightarrow> rstr \<Rightarrow> rstr option \<Rightarrow> json" where
  "compact_session_ack state agent_id session_token =
     (let ack = JObj
        [(lit ''version'', jopt (jget (lit ''version'') state)),
         (lit ''updatedAt'', jopt (jget (lit ''updatedAt'') state)),
         (lit ''session'', jopt (own_session state agent_id)),
         (lit ''fleet'', fleet_summary (sessions_of state)),
         (lit ''note'', JStr ack_note)]
      in case session_token of
           Some token \<Rightarrow> if token \<noteq> []
             then on_object (obj_insert (lit ''sessionToken'') (JStr token)) ack else ack
         | None \<Rightarrow> ack)"

section \<open>Session entries and events\<close>

definition find_session :: "json \<Rightarrow> rstr \<Rightarrow> json option" where
  "find_session state agent_id =
     (case jarr (lit ''sessions'') state of None \<Rightarrow> None
      | Some sessions \<Rightarrow> List.find (has_agent_id agent_id) sessions)"

text \<open>\<open>find_session_mut\<close> and a mutation of the fields it returns: the first session with that id.\<close>

definition find_session_mut :: "json \<Rightarrow> rstr \<Rightarrow> fields option" where
  "find_session_mut state agent_id = Option.bind (find_session state agent_id) as_object"

definition put_session :: "rstr \<Rightarrow> fields \<Rightarrow> json \<Rightarrow> json" where
  "put_session agent_id s = on_array (lit ''sessions'') (update_first (has_agent_id agent_id) (\<lambda>_. JObj s))"

definition push_event :: "json \<Rightarrow> json list \<Rightarrow> json list" where
  "push_event e events = events @ [e]"

definition make_event :: "ambient \<Rightarrow> nat \<Rightarrow> rstr \<Rightarrow> rstr \<Rightarrow> rstr \<Rightarrow> rstr \<Rightarrow> rstr option \<Rightarrow> rstr option
    \<Rightarrow> rstr option \<Rightarrow> json \<Rightarrow> json" where
  "make_event A n agent_id role event_type msg project_id task_id status evidence = JObj
     [(lit ''id'', JStr (event_id A n)),
      (lit ''timestamp'', JStr (now_rfc3339 A)),
      (lit ''agentId'', JStr agent_id),
      (lit ''role'', JStr role),
      (lit ''eventType'', JStr event_type),
      (lit ''projectId'', jopt_str project_id),
      (lit ''taskId'', jopt_str task_id),
      (lit ''status'', jopt_str status),
      (lit ''message'', JStr msg),
      (lit ''evidence'', evidence)]"

definition add_event :: "ambient \<Rightarrow> nat \<Rightarrow> rstr \<Rightarrow> rstr \<Rightarrow> rstr \<Rightarrow> rstr \<Rightarrow> rstr option \<Rightarrow> rstr option
    \<Rightarrow> rstr option \<Rightarrow> rstr option \<Rightarrow> json \<Rightarrow> tool_error + json" where
  "add_event A n agent_id role event_type message project_id task_id status evidence state =
     bindE (clean_text message (lit ''Event message'') 1000)
     (\<lambda>msg. bindE (case evidence of
          Some e \<Rightarrow> if trim e \<noteq> []
            then bindE (clean_text e (lit ''Evidence'') 2000) (\<lambda>e. Inr (JStr e)) else Inr JNull
        | None \<Rightarrow> Inr JNull)
     (\<lambda>evidence_val. Inr (on_array (lit ''events'')
        (push_event (make_event A n agent_id role event_type msg project_id task_id status evidence_val))
        state)))"

text \<open>\<open>if let Some(v) = value { if !v.trim().is_empty() { session.insert(k, clean_text(v)?) } }\<close>\<close>

definition insert_clean :: "rstr \<Rightarrow> rstr \<Rightarrow> nat \<Rightarrow> rstr option \<Rightarrow> fields \<Rightarrow> tool_error + fields" where
  "insert_clean k label limit value s =
     (case value of None \<Rightarrow> Inr s
      | Some v \<Rightarrow> if trim v = [] then Inr s
          else bindE (clean_text v label limit) (\<lambda>t. Inr (obj_insert k (JStr t) s)))"

definition insert_some :: "rstr \<Rightarrow> rstr option \<Rightarrow> fields \<Rightarrow> fields" where
  "insert_some k value s = (case value of None \<Rightarrow> s | Some v \<Rightarrow> obj_insert k (JStr v) s)"

definition needs_user_field :: "ambient \<Rightarrow> rstr \<Rightarrow> rstr \<Rightarrow> rstr option \<Rightarrow> fields \<Rightarrow> tool_error + fields" where
  "needs_user_field A clean_status raw_status message s =
     (if clean_status = NEEDS_USER_STATUS then
        let since = (case Option.bind (map_of s (lit ''needsUser'')) (jstr (lit ''since'')) of
              None \<Rightarrow> now_rfc3339 A | Some t \<Rightarrow> t)
        in bindE (case message of
               Some m \<Rightarrow> if trim m \<noteq> [] then clean_text m (lit ''Message'') 1000 else Inr NEEDS_USER_STATUS
             | None \<Rightarrow> Inr NEEDS_USER_STATUS)
           (\<lambda>needs_message. Inr (obj_insert (lit ''needsUser'') (JObj
              [(lit ''reason'', JStr raw_status),
               (lit ''message'', JStr needs_message),
               (lit ''since'', JStr since)]) s))
      else Inr (obj_insert (lit ''needsUser'') JNull s))"

text \<open>The block of \<open>upsert_session\<close> that rewrites the fields of the session.\<close>

definition upsert_fields :: "ambient \<Rightarrow> rstr \<Rightarrow> rstr \<Rightarrow> rstr \<Rightarrow> rstr \<Rightarrow> rstr option \<Rightarrow> rstr option
    \<Rightarrow> rstr option \<Rightarrow> json list option \<Rightarrow> rstr option \<Rightarrow> rstr option \<Rightarrow> fields \<Rightarrow> tool_error + fields" where
  "upsert_fields A role model clean_status raw_status message client fp subagents project_id task_id s =
     (let role_to_store = (case jstr (lit ''role'') (JObj s) of
            None \<Rightarrow> role
          | Some stored \<Rightarrow> if stored \<noteq> [] \<and> roles_same_canonical stored role then stored else role);
          s = obj_insert (lit ''role'') (JStr role_to_store) s;
          s = (if model \<noteq> [] then obj_insert (lit ''model'') (JStr model) s
               else if \<not> obj_has (lit ''model'') s then obj_insert (lit ''model'') (JStr []) s else s);
          s = obj_insert (lit ''status'') (JStr clean_status) s
      in bindE (insert_clean (lit ''message'') (lit ''Message'') 1000 message s)
         (\<lambda>s. bindE (insert_clean (lit ''client'') (lit ''Client'') 40 client s)
         (\<lambda>s.
           let s = insert_some (lit ''currentFilePath'') fp s;
               s = insert_some (lit ''currentProjectId'') project_id s;
               s = insert_some (lit ''currentTaskId'') task_id s;
               s = obj_insert (lit ''lastSeenAt'') (JStr (now_rfc3339 A)) s;
               s = (case subagents of
                      Some subs \<Rightarrow> obj_insert (lit ''subagents'') (JArr subs) s
                    | None \<Rightarrow> obj_or_insert (lit ''subagents'') (JArr []) s)
           in needs_user_field A clean_status raw_status message s)))"

text \<open>The state after the sessions array exists and holds an entry for the agent.\<close>

definition ensure_entry :: "ambient \<Rightarrow> rstr \<Rightarrow> json \<Rightarrow> json" where
  "ensure_entry A a state0 =
     (let state = on_object (obj_or_insert (lit ''sessions'') (JArr [])) state0 in
      if find_session state a = None
      then on_array (lit ''sessions'') (\<lambda>xs. xs @ [JObj
             [(lit ''agentId'', JStr a), (lit ''firstSeenAt'', JStr (now_rfc3339 A))]]) state
      else state)"

definition upsert_session :: "ambient \<Rightarrow> rstr \<Rightarrow> rstr \<Rightarrow> rstr option \<Rightarrow> rstr \<Rightarrow> rstr option \<Rightarrow> rstr option
    \<Rightarrow> rstr option \<Rightarrow> json option \<Rightarrow> rstr option \<Rightarrow> rstr option \<Rightarrow> json \<Rightarrow> tool_error + json" where
  "upsert_session A agent_id role model status message client file_path subagents project_id task_id state =
     bindE (normalize_agent_id agent_id)
     (\<lambda>clean_agent_id. bindE (clean_text status (lit ''Agent status'') 80)
     (\<lambda>raw_status.
        let n = normalize_agent_status raw_status;
            clean_status = (if n = [] then raw_status else n)
        in bindE (reject_reserved_agent_status clean_status)
     (\<lambda>_. bindE (case file_path of
            Some fp \<Rightarrow> if trim fp \<noteq> [] then normalize_current_file_path fp else Inr None
          | None \<Rightarrow> Inr None)
     (\<lambda>normalized_file_path.
        let normalized_subagents = Option.bind subagents (normalize_subagents A) in
        bindE (assertE (as_object state \<noteq> None) AgentsNotObject)
     (\<lambda>_.
        let state = ensure_entry A clean_agent_id state
        in bindE (ok_or (find_session_mut state clean_agent_id) UpsertFailed)
     (\<lambda>session. bindE (upsert_fields A role (normalize_model model) clean_status raw_status message
            client normalized_file_path normalized_subagents project_id task_id session)
     (\<lambda>session. Inr (put_session clean_agent_id session state))))))))"

section \<open>Launch and session tokens\<close>

definition hash_launch_token :: "ambient \<Rightarrow> rstr \<Rightarrow> rstr" where
  "hash_launch_token A token = sha256_hex A (trim token)"

definition hash_session_token :: "ambient \<Rightarrow> rstr \<Rightarrow> rstr" where
  "hash_session_token A token = sha256_hex A (trim token)"

definition generate_session_token :: "ambient \<Rightarrow> rstr" where
  "generate_session_token A = uuid_hex A 0 @ uuid_hex A 1"

definition unmanaged_privileged_agents_allowed :: "ambient \<Rightarrow> bool" where
  "unmanaged_privileged_agents_allowed A \<longleftrightarrow>
     list_ex (\<lambda>k. case env_var A k of None \<Rightarrow> False | Some v \<Rightarrow> trim v = lit ''1'')
       [lit ''DEVBOULE_MCP_ALLOW_UNMANAGED_PRIVILEGED_AGENTS'',
        lit ''ASPIS_MCP_ALLOW_UNMANAGED_PRIVILEGED_AGENTS'']"

text \<open>Equality of the two texts; the digests compared when the lengths differ are discarded.\<close>

definition constant_time_eq_hex :: "rstr \<Rightarrow> rstr \<Rightarrow> bool" where
  "constant_time_eq_hex a b = (if utf8_len a \<noteq> utf8_len b then False else a = b)"

definition status_lc :: "json \<Rightarrow> rstr" where
  "status_lc session = to_lower (trim (jstr_or (lit ''status'') [] session))"

definition expired :: "ambient \<Rightarrow> int option \<Rightarrow> int \<Rightarrow> bool" where
  "expired A issued window = (case issued of None \<Rightarrow> True | Some t \<Rightarrow> now_ns A - t > window)"

definition validate_launch_token_for_registration
    :: "ambient \<Rightarrow> json \<Rightarrow> rstr \<Rightarrow> rstr \<Rightarrow> rstr option \<Rightarrow> tool_error + json option" where
  "validate_launch_token_for_registration A state agent_id role launch_token =
     (case find_session state agent_id of
        None \<Rightarrow> if \<not> unmanaged_privileged_agents_allowed A then Inl NeedsLaunchToken else Inr None
      | Some session \<Rightarrow>
          let existing_role = coerce_role (jstr_or (lit ''role'') [] session) in
          if existing_role \<noteq> role then Inl (AlreadyRegistered agent_id existing_role)
          else let expected_hash = trim (jstr_or (lit ''launchTokenHash'') [] session) in
            if expected_hash \<noteq> [] then
              let token = trim (case launch_token of None \<Rightarrow> [] | Some t \<Rightarrow> t) in
              if token = [] then Inl LaunchTokenRequired
              else if expired A (parse_iso_timestamp A (jstr (lit ''launchTokenIssuedAt'') session))
                        LAUNCH_TOKEN_WINDOW then Inl LaunchTokenExpired
              else if \<not> constant_time_eq_hex (hash_launch_token A token) expected_hash
              then Inl LaunchTokenInvalid
              else Inr (Some session)
            else if status_lc session = lit ''launch_pending'' then Inl PendingWithoutToken
            else if trim (jstr_or (lit ''launchConsumedAt'') [] session) \<noteq> [] then Inl LaunchConsumed
            else Inr (Some session))"

definition require_session_token :: "ambient \<Rightarrow> json \<Rightarrow> rstr option \<Rightarrow> tool_error + unit" where
  "require_session_token A session session_token =
     (let expected_hash = trim (jstr_or (lit ''sessionTokenHash'') [] session);
          token = trim (case session_token of None \<Rightarrow> [] | Some t \<Rightarrow> t)
      in if expected_hash = [] then
           (if unmanaged_privileged_agents_allowed A \<and> token = [] then Inr () else Inl SessionTokenMissing)
         else if token = [] then Inl SessionTokenRequired
         else if expired A (parse_iso_timestamp A (jstr (lit ''sessionTokenIssuedAt'') session))
                   SESSION_TOKEN_WINDOW then Inl SessionTokenExpired
         else if \<not> constant_time_eq_hex (hash_session_token A token) expected_hash
         then Inl SessionTokenInvalid
         else Inr ())"

text \<open>\<open>seed_launch_pending\<close>\<close>

definition seed_launch_pending :: "ambient \<Rightarrow> path \<Rightarrow> rstr \<Rightarrow> rstr \<Rightarrow> rstr \<Rightarrow> unit io" where
  "seed_launch_pending A dir agent_id role launch_token =
     with_agents_lock A dir
       (bindS (read_agents_state A dir)
       (\<lambda>state.
          let session = JObj
                [(lit ''agentId'', JStr agent_id),
                 (lit ''role'', JStr role),
                 (lit ''status'', JStr (lit ''launch_pending'')),
                 (lit ''lastSeenAt'', JStr (lit ''2099-01-01T00:00:00+00:00'')),
                 (lit ''launchTokenHash'', JStr (hash_launch_token A launch_token)),
                 (lit ''launchTokenIssuedAt'', JStr (lit ''2099-01-01T00:00:00+00:00''))];
              state = on_array (lit ''sessions'')
                (\<lambda>xs. filter (\<lambda>s. \<not> has_agent_id agent_id s) xs @ [session]) state
          in bindS (write_agents_state A dir state) (\<lambda>_. returnS ())))"

section \<open>Pruning of the session list\<close>

lemma drop_positions_nths: "drop_positions D xs = nths xs (- set D)"
proof -
  have "filter (\<lambda>(i, _). i \<notin> set D) (zip [0..<length xs] xs)
      = map (\<lambda>(x, i). (i, x)) (filter (\<lambda>p. snd p \<in> - set D) (zip xs [0..<length xs]))"
    by (subst zip_commute) (simp add: filter_map o_def case_prod_beta)
  then show ?thesis
    by (simp add: drop_positions_def nths_def enumerate_eq_zip o_def case_prod_beta)
qed

text \<open>
  An eviction: of the elements that may go, the oldest go first. Sessions are evicted so here, consent requests in
  \<open>ConsentLaws\<close>.
\<close>

locale eviction =
  fixes evictable :: "'a \<Rightarrow> bool"
    and age :: "'a \<Rightarrow> 'k :: linorder"
    and by_age :: "'a list \<Rightarrow> nat list"
  assumes by_age: "by_age xs = sort_key (\<lambda>i. age (xs ! i)) (filter (\<lambda>i. evictable (xs ! i)) [0..<length xs])"
begin

lemma by_age_props:
  "set (by_age xs) = {i. i < length xs \<and> evictable (xs ! i)}"
  "distinct (by_age xs)"
  "sorted (map (\<lambda>i. age (xs ! i)) (by_age xs))"
  "length (by_age xs) = length (filter evictable xs)"
proof -
  show "set (by_age xs) = {i. i < length xs \<and> evictable (xs ! i)}"
    by (auto simp: by_age)
  show "distinct (by_age xs)" by (simp add: by_age)
  show "sorted (map (\<lambda>i. age (xs ! i)) (by_age xs))"
    by (simp add: by_age)
  show "length (by_age xs) = length (filter evictable xs)"
    by (simp add: by_age length_filter_conv_card cong: conj_cong)
qed

text \<open>Dropping the \<open>k\<close> oldest.\<close>

lemma evict_oldest:
  assumes "ys = drop_positions (take k (by_age xs)) xs"
  shows "filter (\<lambda>s. \<not> evictable s) ys = filter (\<lambda>s. \<not> evictable s) xs"
    and "length (filter evictable ys) = length (filter evictable xs) - k"
    and "\<And>s t. s \<in># mset xs - mset ys \<Longrightarrow> t \<in> set ys \<Longrightarrow> evictable t \<Longrightarrow> evictable s \<and> age s \<le> age t"
proof -
  let ?L = "by_age xs" and ?D = "set (take k (by_age xs))"
  note L = by_age_props [of xs]
  have ys: "ys = nths xs (- ?D)" by (simp add: assms drop_positions_nths)
  have D: "?D \<subseteq> {i. i < length xs \<and> evictable (xs ! i)}"
    using set_take_subset [of k ?L] L(1) by blast
  show "filter (\<lambda>s. \<not> evictable s) ys = filter (\<lambda>s. \<not> evictable s) xs"
    unfolding ys filter_nths filter_eq_nths [of _ xs] by (rule nths_cong_on) (use D in auto)
  have "{i. i < length xs \<and> i \<in> {i \<in> - ?D. i < length xs \<and> evictable (xs ! i)}} = set ?L - ?D"
    using L(1) by auto
  moreover have "card (set ?L - ?D) = length ?L - card ?D"
    using L(2) set_take_subset [of k ?L] by (simp add: card_Diff_subset distinct_card)
  moreover have "card ?D = min k (length ?L)"
    using L(2) by (simp add: distinct_card min.commute)
  ultimately show "length (filter evictable ys) = length (filter evictable xs) - k"
    unfolding ys filter_nths length_nths using L(4) by simp
  fix s t assume s: "s \<in># mset xs - mset ys" and t: "t \<in> set ys" "evictable t"
  have "mset xs - mset ys = mset (nths xs ?D)"
    unfolding ys using mset_nths_compl [of xs ?D] by (metis add_diff_cancel_right')
  with s obtain i where i: "i \<in> ?D" "i < length xs" "s = xs ! i"
    by (auto simp: set_nths)
  from t ys obtain j where j: "j \<notin> ?D" "j < length xs" "t = xs ! j"
    by (auto simp: set_nths)
  with t L(1) have "j \<in> set ?L" by simp
  then have "j \<in> set (drop k ?L)"
    using j(1) by (metis Un_iff append_take_drop_id set_append)
  moreover have "sorted (map (\<lambda>i. age (xs ! i)) (take k ?L @ drop k ?L))"
    using L(3) by simp
  ultimately have "age (xs ! i) \<le> age (xs ! j)"
    using i(1) unfolding map_append sorted_append by auto
  with i j D show "evictable s \<and> age s \<le> age t" by auto
qed

lemma length_evict:
  "length (drop_positions (take k (by_age xs)) xs) + min k (length (filter evictable xs)) = length xs"
proof -
  let ?ys = "drop_positions (take k (by_age xs)) xs"
  have "length (filter evictable ?ys) + length (filter (\<lambda>s. \<not> evictable s) ?ys) = length ?ys"
       "length (filter evictable xs) + length (filter (\<lambda>s. \<not> evictable s) xs) = length xs"
    by (simp_all add: sum_length_filter_compl)
  then show ?thesis
    using evict_oldest(1,2) [OF refl, of k xs] by simp
qed

end

interpretation closed: eviction is_closed seen_key closed_by_age
  by unfold_locales (simp add: closed_by_age_def)

lemmas closed_by_age_props = closed.by_age_props
lemmas drop_oldest = closed.evict_oldest
lemmas length_drop_oldest = closed.length_evict

lemma set_drop_positions: "set (drop_positions D xs) \<subseteq> set xs"
  by (simp add: drop_positions_nths set_nths_subset)

lemma prune_closed_live:
  "filter (\<lambda>s. \<not> is_closed s) (prune_closed_sessions m xs) = filter (\<lambda>s. \<not> is_closed s) xs"
  by (simp add: prune_closed_sessions_def Let_def drop_oldest(1))

lemma prune_closed_count:
  "length (filter is_closed (prune_closed_sessions m xs)) = min m (length (filter is_closed xs))"
  by (auto simp: prune_closed_sessions_def Let_def drop_oldest(2) closed_by_age_props)

lemma prune_closed_recent:
  assumes "s \<in># mset xs - mset (prune_closed_sessions m xs)"
    and "t \<in> set (prune_closed_sessions m xs)" "is_closed t"
  shows "is_closed s \<and> seen_key s \<le> seen_key t"
  using assms by (auto simp: prune_closed_sessions_def Let_def split: if_splits dest: drop_oldest(3) [OF refl])

lemma prune_closed_id: "length (filter is_closed xs) \<le> m \<Longrightarrow> prune_closed_sessions m xs = xs"
  by (simp add: prune_closed_sessions_def closed_by_age_props)

lemma set_prune_closed: "set (prune_closed_sessions m xs) \<subseteq> set xs"
  by (auto simp: prune_closed_sessions_def Let_def dest: subsetD [OF set_drop_positions])

lemma set_prune_over_max: "set (prune_over_max xs) \<subseteq> set xs"
  by (auto simp: prune_over_max_def dest: subsetD [OF set_drop_positions])

lemma prune_over_max_live:
  "filter (\<lambda>s. \<not> is_closed s) (prune_over_max xs) = filter (\<lambda>s. \<not> is_closed s) xs"
  by (simp add: prune_over_max_def drop_oldest(1))

lemma drop_positions_Nil [simp]: "drop_positions [] xs = xs"
  by (simp add: drop_positions_nths nths_all)

lemma prune_over_max_cases:
  "length (prune_over_max xs) \<le> MAX_SESSIONS \<or> filter is_closed (prune_over_max xs) = []"
proof (cases "length xs > MAX_SESSIONS")
  case True
  let ?k = "length xs - MAX_SESSIONS"
  from True have e: "prune_over_max xs = drop_positions (take ?k (closed_by_age xs)) xs"
    by (simp add: prune_over_max_def)
  show ?thesis
  proof (cases "length (filter is_closed xs) \<le> ?k")
    case True
    with drop_oldest(2) [OF e] show ?thesis by simp
  next
    case False
    then have "length (prune_over_max xs) + (length xs - MAX_SESSIONS) = length xs"
      using length_drop_oldest [of ?k xs] e by simp
    with True have "length (prune_over_max xs) \<le> MAX_SESSIONS" by arith
    then show ?thesis ..
  qed
qed (simp add: prune_over_max_def)

lemma prune_over_max_id:
  "length xs \<le> MAX_SESSIONS \<or> filter is_closed xs = [] \<Longrightarrow> prune_over_max xs = xs"
proof (erule disjE)
  assume "filter is_closed xs = []"
  then have "closed_by_age xs = []"
    using closed_by_age_props(4) [of xs] by simp
  then show ?thesis by (simp add: prune_over_max_def)
qed (simp add: prune_over_max_def)

lemma length_prune_closed_le: "length (prune_closed_sessions m xs) \<le> length xs"
  using length_drop_oldest [of "length (closed_by_age xs) - m" xs]
  by (auto simp: prune_closed_sessions_def Let_def)

lemma prune_over_max_prune_closed:
  "prune_over_max (prune_closed_sessions m (prune_over_max xs)) = prune_closed_sessions m (prune_over_max xs)"
proof (rule prune_over_max_id)
  let ?ys = "prune_over_max xs"
  show "length (prune_closed_sessions m ?ys) \<le> MAX_SESSIONS \<or> filter is_closed (prune_closed_sessions m ?ys) = []"
  proof (cases "filter is_closed ?ys = []")
    case True
    then show ?thesis using prune_closed_id [of ?ys m] by simp
  next
    case False
    then have "length ?ys \<le> MAX_SESSIONS" using prune_over_max_cases [of xs] by blast
    then show ?thesis using length_prune_closed_le [of m ?ys] by simp
  qed
qed

text \<open>pruning the session list to \<open>m\<close> closed sessions never drops a live session and keeps
  the live ones in order, leaves exactly the smaller of \<open>m\<close> and their number of closed ones,
  and drops only closed sessions last seen no later than every closed session it keeps.\<close>

theorem prune_closed_sessions_spec:
  "filter (\<lambda>s. \<not> is_closed s) (prune_closed_sessions m xs) = filter (\<lambda>s. \<not> is_closed s) xs \<and>
   length (filter is_closed (prune_closed_sessions m xs)) = min m (length (filter is_closed xs)) \<and>
   Ball (set_mset (mset xs - mset (prune_closed_sessions m xs)))
     (\<lambda>s. is_closed s \<and> Ball (set (filter is_closed (prune_closed_sessions m xs)))
       (\<lambda>t. seen_key s \<le> seen_key t))"
proof (intro conjI ballI)
  fix s assume s: "s \<in># mset xs - mset (prune_closed_sessions m xs)"
  show "is_closed s"
  proof (rule ccontr)
    assume "\<not> is_closed s"
    then have "count (mset ys) s = count (mset (filter (\<lambda>s. \<not> is_closed s) ys)) s" for ys
      by simp
    from this [of xs] this [of "prune_closed_sessions m xs"] s show False
      by (simp add: prune_closed_live in_diff_count del: mset_filter)
  qed
  fix t assume "t \<in> set (filter is_closed (prune_closed_sessions m xs))"
  with s show "seen_key s \<le> seen_key t"
    using prune_closed_recent by auto
qed (simp_all add: prune_closed_live prune_closed_count)

text \<open>Three sessions, two of them closed.\<close>

definition three_sessions :: "json list" where
  "three_sessions =
     [JObj [(lit ''agentId'', JStr (lit ''a'')), (lit ''status'', JStr (lit ''Closed'')), (lit ''lastSeenAt'', JStr (lit ''7''))],
      JObj [(lit ''agentId'', JStr (lit ''b'')), (lit ''status'', JStr (lit ''active''))],
      JObj [(lit ''agentId'', JStr (lit ''c'')), (lit ''status'', JStr (lit ''closed'')), (lit ''firstSeenAt'', JStr (lit ''3''))]]"

theorem prune_closed_sessions_spec_witness:
  "filter (\<lambda>s. \<not> is_closed s) (prune_closed_sessions 1 three_sessions) = [three_sessions ! 1] \<and>
   length (filter is_closed (prune_closed_sessions 1 three_sessions)) = 1"
proof -
  have e: "filter (\<lambda>s. \<not> is_closed s) three_sessions = [three_sessions ! 1]"
    "length (filter is_closed three_sessions) = 2"
    by code_simp+
  show ?thesis
    using prune_closed_sessions_spec [of 1 three_sessions] unfolding e by simp
qed

section \<open>Normalisation is idempotent\<close>

lemma role_lower_trim_lits [simp]:
  "to_lower (trim (lit ''architect'')) = lit ''architect''"
  "to_lower (trim (lit ''code'')) = lit ''code''"
  "to_lower (trim (lit ''coder'')) = lit ''coder''"
  "to_lower (trim (lit ''verifier'')) = lit ''verifier''"
  "to_lower (trim (lit ''mini'')) = lit ''mini''"
  "to_lower (trim (lit ''orchestrator'')) = lit ''orchestrator''"
  by code_simp+

lemma role_lower_trim_fixed: "r \<in> set VALID_ROLES \<Longrightarrow> to_lower (trim r) = r"
  unfolding VALID_ROLES_def by (simp, elim disjE) simp_all

text \<open>The roles a stored session keeps as they are: the valid ones and the two aliases.\<close>

definition stored_role :: "rstr \<Rightarrow> bool" where
  "stored_role r \<longleftrightarrow> r \<in> set VALID_ROLES \<or> r = lit ''architect'' \<or> r = lit ''code''"

lemma stored_role_fixed: "stored_role r \<Longrightarrow> to_lower (trim r) = r"
  by (auto simp: stored_role_def role_lower_trim_fixed)

lemma stored_role_coder [simp]: "stored_role (lit ''coder'')"
  by (simp add: stored_role_def VALID_ROLES_def)

text \<open>A session as \<open>normalize_agents_state\<close> leaves it.\<close>

definition session_normal :: "fields \<Rightarrow> bool" where
  "session_normal s \<longleftrightarrow> obj_has (lit ''subagents'') s \<and> obj_has (lit ''needsUser'') s \<and>
     (\<exists>r. map_of s (lit ''role'') = Some (JStr r) \<and> stored_role r)"

lemma session_normal_fixed: "session_normal s \<Longrightarrow> normalize_session s = s"
  by (auto simp: session_normal_def normalize_session_def Let_def obj_or_insert_same jstr_or_def
      jstr_def stored_role_fixed stored_role_def [symmetric] intro: obj_insert_same)

lemma normalize_session_normal: "session_normal (normalize_session s)"
  by (simp add: session_normal_def normalize_session_def Let_def stored_role_def [symmetric])

lemma normalize_sessions_idem: "normalize_sessions (normalize_sessions xs) = normalize_sessions xs"
proof -
  let ?f = "map (on_object normalize_session)"
  have sub: "set (normalize_sessions xs) \<subseteq> set (?f xs)"
    unfolding normalize_sessions_def using set_prune_closed set_prune_over_max by (meson subset_trans)
  have "on_object normalize_session y = y" if "y \<in> set (?f xs)" for y
  proof -
    from that obtain x where "y = on_object normalize_session x" by auto
    then show ?thesis
      by (cases x) (simp_all add: session_normal_fixed normalize_session_normal)
  qed
  with sub have "?f (normalize_sessions xs) = normalize_sessions xs"
    by (intro map_idI) blast
  then have "normalize_sessions (normalize_sessions xs) =
      prune_closed_sessions MAX_CLOSED_SESSIONS (prune_over_max (normalize_sessions xs))"
    by (simp only: normalize_sessions_def [of "normalize_sessions xs"])
  also have "prune_over_max (normalize_sessions xs) = normalize_sessions xs"
    by (simp add: normalize_sessions_def prune_over_max_prune_closed)
  also have "prune_closed_sessions MAX_CLOSED_SESSIONS (normalize_sessions xs) = normalize_sessions xs"
    by (rule prune_closed_id) (simp add: normalize_sessions_def prune_closed_count)
  finally show ?thesis .
qed

text \<open>A document with a current version and the four keys the server relies on.\<close>

definition state_shape :: "fields \<Rightarrow> bool" where
  "state_shape obj \<longleftrightarrow>
     (\<exists>v. map_of obj (lit ''version'') = Some (JInt v) \<and> AGENTS_STATE_VERSION \<le> v) \<and>
     list_all (\<lambda>k. obj_has k obj) [lit ''updatedAt'', lit ''sessions'', lit ''claims'', lit ''events'']"

lemma normalize_shaped:
  "state_shape obj \<Longrightarrow>
     normalize_agents_state A (JObj obj) = on_array (lit ''sessions'') normalize_sessions (JObj obj)"
  by (auto simp: state_shape_def normalize_agents_state_def normalize_version_def Let_def
      obj_or_insert_same AGENTS_STATE_VERSION_def)

lemma normalize_agents_state_obj:
  obtains obj where "state_shape obj"
    and "normalize_agents_state A (JObj kvs) = on_array (lit ''sessions'') normalize_sessions (JObj obj)"
    and "map_of obj (lit ''sessions'') = Some (case map_of kvs (lit ''sessions'') of None \<Rightarrow> JArr [] | Some v \<Rightarrow> v)"
    and "map_of obj (lit ''events'') = Some (case map_of kvs (lit ''events'') of None \<Rightarrow> JArr [] | Some v \<Rightarrow> v)"
    and "map_of obj (lit ''claims'') = Some (case map_of kvs (lit ''claims'') of None \<Rightarrow> JArr [] | Some v \<Rightarrow> v)"
    and "\<And>k. k \<notin> set [lit ''version'', lit ''updatedAt'', lit ''sessions'', lit ''claims'', lit ''events'']
           \<Longrightarrow> map_of obj k = map_of kvs k"
proof -
  let ?o1 = "normalize_version kvs"
  let ?o = "obj_or_insert (lit ''events'') (JArr []) (obj_or_insert (lit ''claims'') (JArr [])
     (obj_or_insert (lit ''sessions'') (JArr []) (obj_or_insert (lit ''updatedAt'') (JStr (now_rfc3339 A)) ?o1)))"
  have v: "\<exists>v. map_of ?o1 (lit ''version'') = Some (JInt v) \<and> AGENTS_STATE_VERSION \<le> v"
    by (auto simp: normalize_version_def AGENTS_STATE_VERSION_def split: option.splits json.splits)
  have o: "k \<noteq> lit ''version'' \<Longrightarrow> map_of ?o1 k = map_of kvs k" for k
    by (auto simp: normalize_version_def split: option.splits json.splits)
  show thesis
  proof (rule that [of ?o])
    show "state_shape ?o" using v by (auto simp: state_shape_def)
    show "normalize_agents_state A (JObj kvs) = on_array (lit ''sessions'') normalize_sessions (JObj ?o)"
      by (simp add: normalize_agents_state_def Let_def)
  qed (auto simp: o)
qed

lemma state_shape_on_array:
  assumes "state_shape obj" and "on_array (lit ''sessions'') f (JObj obj) = JObj obj'"
  shows "state_shape obj'"
proof -
  obtain kvs' where "on_array (lit ''sessions'') f (JObj obj) = JObj kvs'"
    and "\<And>k'. obj_has k' kvs' \<longleftrightarrow> obj_has k' obj"
    and "\<And>k'. k' \<noteq> lit ''sessions'' \<Longrightarrow> map_of kvs' k' = map_of obj k'"
    using on_array_JObj by metis
  with assms show ?thesis by (simp add: state_shape_def)
qed

lemma normalize_sessions_Nil [simp]: "normalize_sessions [] = []"
  by (simp add: normalize_sessions_def prune_over_max_def prune_closed_sessions_def closed_by_age_def)

lemma normalize_default: "normalize_agents_state B (default_agents_state A) = default_agents_state A"
proof -
  have "state_shape (the (as_object (default_agents_state A)))"
    by (simp add: state_shape_def default_agents_state_def obj_has_def)
  then have "normalize_agents_state B (default_agents_state A) =
      on_array (lit ''sessions'') normalize_sessions (default_agents_state A)"
    by (simp add: default_agents_state_def normalize_shaped)
  also have "\<dots> = default_agents_state A"
    by (rule on_array_id) (simp add: jarr_def default_agents_state_def)
  finally show ?thesis .
qed

lemma normalize_not_object: "as_object j = None \<Longrightarrow> normalize_agents_state A j = default_agents_state A"
  by (simp add: normalize_agents_state_def)


section \<open>Events\<close>

lemma push_cap_bound: "length (cap_events (push_event e xs)) \<le> MAX_EVENTS"
  by (simp add: cap_events_def push_event_def)

lemma set_cap_push: "set (cap_events (push_event e xs)) \<subseteq> insert e (set xs)"
  using set_keep_last [of MAX_EVENTS "push_event e xs"] by (auto simp: cap_events_def push_event_def)

interpretation event_log: bounded_log "\<lambda>e xs. cap_events (push_event e xs)" MAX_EVENTS
  by unfold_locales (rule push_cap_bound set_cap_push)+

section \<open>Facts about session entries\<close>

lemma has_agent_id_unique: "has_agent_id a s \<Longrightarrow> has_agent_id b s \<longleftrightarrow> b = a"
  by (auto simp: has_agent_id_def)

lemma has_agent_id_object: "has_agent_id a s \<Longrightarrow> \<exists>kvs. s = JObj kvs"
  by (cases s) (auto simp: has_agent_id_def jstr_def)

lemma find_session_has_id: "find_session state a = Some s \<Longrightarrow> has_agent_id a s"
  by (auto simp: find_session_def dest: find_SomeD split: option.splits)

lemma find_session_mut_eq:
  "find_session_mut state a = Some s \<longleftrightarrow> find_session state a = Some (JObj s)"
  by (auto simp: find_session_mut_def bind_eq_Some_conv)

lemma find_session_sessions_of: "find_session state a = List.find (has_agent_id a) (sessions_of state)"
  by (simp add: find_session_def sessions_of_def split: option.splits)

lemma find_session_put_same:
  "has_agent_id a (JObj s) \<Longrightarrow>
     find_session (put_session a s state) a = map_option (\<lambda>_. JObj s) (find_session state a)"
  by (simp add: find_session_def put_session_def jarr_on_array_same find_update_first_same
      split: option.splits)

lemma find_session_put_other:
  "has_agent_id a (JObj s) \<Longrightarrow> b \<noteq> a \<Longrightarrow> find_session (put_session a s state) b = find_session state b"
  by (auto simp: find_session_def put_session_def jarr_on_array_same split: option.splits
      intro!: find_update_first_other dest: has_agent_id_unique)

lemma find_session_on_array_other:
  "k \<noteq> lit ''sessions'' \<Longrightarrow> find_session (on_array k f state) a = find_session state a"
  by (simp add: find_session_def jarr_on_array_other)

lemma jget_put_session_other:
  "k \<noteq> lit ''sessions'' \<Longrightarrow> jget k (put_session a s state) = jget k state"
  by (simp add: put_session_def jget_on_array)

section \<open>What an upsert changes\<close>

definition UPSERT_KEYS :: "rstr list" where
  "UPSERT_KEYS = [lit ''role'', lit ''model'', lit ''status'', lit ''message'', lit ''client'',
     lit ''currentFilePath'', lit ''currentProjectId'', lit ''currentTaskId'', lit ''lastSeenAt'',
     lit ''subagents'', lit ''needsUser'']"

lemma insert_clean_get:
  "insert_clean k l n v s = Inr s' \<Longrightarrow> k' \<noteq> k \<Longrightarrow> map_of s' k' = map_of s k'"
  by (auto simp: insert_clean_def elim_bind split: option.splits if_splits)

lemma insert_some_get: "k' \<noteq> k \<Longrightarrow> map_of (insert_some k v s) k' = map_of s k'"
  by (simp add: insert_some_def split: option.splits)

lemma needs_user_get:
  "needs_user_field A c r m s = Inr s' \<Longrightarrow> k' \<noteq> lit ''needsUser'' \<Longrightarrow> map_of s' k' = map_of s k'"
  by (auto simp: needs_user_field_def Let_def elim_bind split: if_splits)

lemma upsert_fields_frame:
  assumes "upsert_fields A role model cs rs message client fp subs pid tid s = Inr s'"
    and "k \<notin> set UPSERT_KEYS"
  shows "map_of s' k = map_of s k"
  using assms
  by (auto simp: upsert_fields_def Let_def elim_bind UPSERT_KEYS_def insert_some_get
      dest!: insert_clean_get [where k' = k] needs_user_get [where k' = k] split: option.splits)

lemma upsert_fields_status:
  assumes "upsert_fields A role model cs rs message client fp subs pid tid s = Inr s'"
  shows "map_of s' (lit ''status'') = Some (JStr cs)"
  using assms
  by (auto simp: upsert_fields_def Let_def elim_bind insert_some_get
      dest!: insert_clean_get [where k' = "lit ''status''"] needs_user_get [where k' = "lit ''status''"]
      split: option.splits)

lemma upsert_fields_role:
  assumes "upsert_fields A role model cs rs message client fp subs pid tid s = Inr s'"
  shows "\<exists>r. map_of s' (lit ''role'') = Some (JStr r) \<and> (r = role \<or>
    (jstr (lit ''role'') (JObj s) = Some r \<and> roles_same_canonical r role))"
  using assms
  by (auto simp: upsert_fields_def Let_def elim_bind insert_some_get
      dest!: insert_clean_get [where k' = "lit ''role''"] needs_user_get [where k' = "lit ''role''"]
      split: option.splits if_splits)

lemma agentId_not_upserted [simp]: "lit ''agentId'' \<notin> set UPSERT_KEYS"
  by (simp add: UPSERT_KEYS_def)

text \<open>The session an upsert starts from: the stored one, or a fresh entry.\<close>

definition base_session :: "ambient \<Rightarrow> json \<Rightarrow> rstr \<Rightarrow> fields" where
  "base_session A state a = (case find_session_mut state a of
     Some s \<Rightarrow> s
   | None \<Rightarrow> [(lit ''agentId'', JStr a), (lit ''firstSeenAt'', JStr (now_rfc3339 A))])"

lemma sessions_of_or_insert [simp]:
  "sessions_of (on_object (obj_or_insert (lit ''sessions'') (JArr [])) state) = sessions_of state"
  by (cases state) (auto simp: sessions_of_def jarr_def split: option.splits)

lemma jget_or_insert_other:
  "k \<noteq> lit ''sessions'' \<Longrightarrow>
     jget k (on_object (obj_or_insert (lit ''sessions'') v) state) = jget k state"
  by (cases state) auto

lemma jget_ensure_entry: "k \<noteq> lit ''sessions'' \<Longrightarrow> jget k (ensure_entry A a state) = jget k state"
  by (simp add: ensure_entry_def Let_def jget_on_array jget_or_insert_other del: jget_on_object)

lemma fresh_entry_id: "has_agent_id b (JObj [(lit ''agentId'', JStr a), (k, v)]) \<longleftrightarrow> b = a"
  by (auto simp: has_agent_id_def jstr_def)

lemma sessions_of_on_array:
  "sessions_of (on_array (lit ''sessions'') f state) =
     (if jarr (lit ''sessions'') state = None then [] else f (sessions_of state))"
  by (simp add: sessions_of_def jarr_on_array_same split: option.splits)

lemma find_ensure_entry_other:
  assumes "b \<noteq> a"
  shows "find_session (ensure_entry A a state) b = find_session state b"
proof -
  let ?st = "on_object (obj_or_insert (lit ''sessions'') (JArr [])) state"
  have "find_session ?st b = find_session state b"
    by (simp add: find_session_sessions_of)
  moreover have "find_session (ensure_entry A a state) b = find_session ?st b"
    using assms by (auto simp: ensure_entry_def Let_def find_session_def jarr_on_array_same find_append
        fresh_entry_id split: option.splits)
  ultimately show ?thesis by simp
qed

lemma find_ensure_entry_same:
  assumes "find_session_mut (ensure_entry A a state) a = Some s"
  shows "s = base_session A state a"
proof -
  let ?st = "on_object (obj_or_insert (lit ''sessions'') (JArr [])) state"
  have e: "find_session ?st a = find_session state a"
    by (simp add: find_session_sessions_of)
  show ?thesis
  proof (cases "find_session state a")
    case None
    with assms e show ?thesis
      by (auto simp: base_session_def ensure_entry_def Let_def find_session_mut_def find_session_def
          jarr_on_array_same find_append fresh_entry_id split: option.splits)
  next
    case (Some j)
    with assms e show ?thesis
      by (auto simp: base_session_def ensure_entry_def Let_def find_session_mut_def)
  qed
qed

lemma others_ensure_entry:
  "filter (\<lambda>x. \<not> has_agent_id a x) (sessions_of (ensure_entry A a state)) =
   filter (\<lambda>x. \<not> has_agent_id a x) (sessions_of state)"
proof -
  let ?st = "on_object (obj_or_insert (lit ''sessions'') (JArr [])) state"
  have "jarr (lit ''sessions'') ?st = None \<Longrightarrow> sessions_of state = []"
    by (cases state) (auto simp: sessions_of_def jarr_def split: option.splits)
  then show ?thesis
    by (auto simp: ensure_entry_def Let_def sessions_of_on_array fresh_entry_id)
qed

lemma others_put_session:
  "has_agent_id a (JObj s) \<Longrightarrow>
   filter (\<lambda>x. \<not> has_agent_id a x) (sessions_of (put_session a s state)) =
   filter (\<lambda>x. \<not> has_agent_id a x) (sessions_of state)"
  by (auto simp: put_session_def sessions_of_on_array filter_update_first_other)
    (simp add: sessions_of_def)

lemma base_session_id:
  "find_session_mut (ensure_entry A a state) a = Some s \<Longrightarrow> has_agent_id a (JObj s)"
  by (simp add: find_session_mut_eq find_session_has_id)

lemma upsert_session_spec:
  assumes "upsert_session A agent_id role model status message client fp subs pid tid state = Inr state'"
  obtains a cs s' where "normalize_agent_id agent_id = Inr a"
    and "find_session state' a = Some (JObj s')"
    and "\<And>k. k \<notin> set UPSERT_KEYS \<Longrightarrow> map_of s' k = map_of (base_session A state a) k"
    and "map_of s' (lit ''status'') = Some (JStr cs)"
    and "to_lower (trim cs) \<notin> set RESERVED_AGENT_STATUSES"
    and "cs = (let raw = trim (collapse_ws status) in
           if normalize_agent_status (take 80 raw) = [] then take 80 raw else normalize_agent_status (take 80 raw))"
    and "\<exists>r. map_of s' (lit ''role'') = Some (JStr r) \<and> (r = role \<or>
           (jstr (lit ''role'') (JObj (base_session A state a)) = Some r \<and> roles_same_canonical r role))"
    and "\<And>b. b \<noteq> a \<Longrightarrow> find_session state' b = find_session state b"
    and "filter (\<lambda>x. \<not> has_agent_id a x) (sessions_of state') = filter (\<lambda>x. \<not> has_agent_id a x) (sessions_of state)"
    and "\<And>k. k \<noteq> lit ''sessions'' \<Longrightarrow> jget k state' = jget k state"
proof -
  from assms obtain a raw fp' s s' where
    a: "normalize_agent_id agent_id = Inr a" and raw: "clean_text status (lit ''Agent status'') 80 = Inr raw"
    and rej: "is_ok (reject_reserved_agent_status (let n = normalize_agent_status raw in if n = [] then raw else n))"
    and s: "find_session_mut (ensure_entry A a state) a = Some s"
    and up: "upsert_fields A role (normalize_model model) (let n = normalize_agent_status raw in if n = [] then raw else n)
        raw message client fp' (Option.bind subs (normalize_subagents A)) pid tid s = Inr s'"
    and st: "state' = put_session a s' (ensure_entry A a state)"
    unfolding upsert_session_def Let_def elim_bind is_ok_iff by blast
  note b = find_ensure_entry_same [OF s]
  have id: "has_agent_id a (JObj s')"
    using base_session_id [OF s] upsert_fields_frame [OF up agentId_not_upserted]
    by (simp add: has_agent_id_def jstr_def)
  have found: "find_session (ensure_entry A a state) a = Some (JObj s)"
    using s by (simp add: find_session_mut_eq)
  have raw': "raw = take 80 (trim (collapse_ws status))"
    using raw by (auto simp: clean_text_def Let_def split: if_splits)
  show thesis
  proof (rule that [OF a])
    show "find_session state' a = Some (JObj s')"
      by (simp add: st find_session_put_same [OF id] found)
    show "\<And>k. k \<notin> set UPSERT_KEYS \<Longrightarrow> map_of s' k = map_of (base_session A state a) k"
      using upsert_fields_frame [OF up] b by simp
    show "map_of s' (lit ''status'') = Some (JStr (let n = normalize_agent_status raw in if n = [] then raw else n))"
      by (rule upsert_fields_status [OF up])
    show "to_lower (trim (let n = normalize_agent_status raw in if n = [] then raw else n)) \<notin> set RESERVED_AGENT_STATUSES"
      using rej by (simp add: is_ok_iff reject_reserved_agent_status_def Let_def split: if_splits)
    show "\<exists>r. map_of s' (lit ''role'') = Some (JStr r) \<and> (r = role \<or>
        (jstr (lit ''role'') (JObj (base_session A state a)) = Some r \<and> roles_same_canonical r role))"
      using upsert_fields_role [OF up] b by simp
    show "\<And>b. b \<noteq> a \<Longrightarrow> find_session state' b = find_session state b"
      by (simp add: st find_session_put_other [OF id] find_ensure_entry_other)
    show "filter (\<lambda>x. \<not> has_agent_id a x) (sessions_of state') = filter (\<lambda>x. \<not> has_agent_id a x) (sessions_of state)"
      by (simp add: st others_put_session [OF id] others_ensure_entry)
    show "\<And>k. k \<noteq> lit ''sessions'' \<Longrightarrow> jget k state' = jget k state"
      by (simp add: st jget_put_session_other jget_ensure_entry)
  qed (simp add: raw' Let_def)
qed

section \<open>Disclosure and tokens: what holds\<close>

lemma map_of_fold_remove:
  "map_of (fold obj_remove ks s) k = (if k \<in> set ks then None else map_of s k)"
  by (rule obj.get_fold_del)

lemma jget_scrub:
  "jget k (scrub_session_secrets s) = (if k \<in> set SECRET_SESSION_KEYS then None else jget k s)"
  by (cases s) (simp_all add: scrub_session_secrets_def map_of_fold_remove)

lemma agentId_not_secret [simp]: "lit ''agentId'' \<notin> set SECRET_SESSION_KEYS"
  by (simp add: SECRET_SESSION_KEYS_def)

lemma own_session_Some:
  "own_session state a = Some s \<Longrightarrow> has_agent_id a s \<and> (\<forall>k \<in> set SECRET_SESSION_KEYS. jget k s = None)"
  by (auto simp: own_session_def has_agent_id_def jstr_def jget_scrub dest!: find_SomeD)

text \<open>the view an agent gets of the agents file holds at most one session, its own, and
  that session carries no launch or session token hash, issue time or consumption mark.\<close>

theorem public_agents_state_own_only:
  "\<exists>ss. jarr (lit ''sessions'') (public_agents_state state a) = Some ss \<and> length ss \<le> 1 \<and>
     list_all (\<lambda>s. has_agent_id a s \<and> list_all (\<lambda>k. jget k s = None) SECRET_SESSION_KEYS) ss"
proof -
  have "jarr (lit ''sessions'') (public_agents_state state a) =
      Some (case own_session state a of None \<Rightarrow> [] | Some s \<Rightarrow> [s])"
    by (simp add: public_agents_state_def jarr_def)
  then show ?thesis
    using own_session_Some [of state a] by (auto simp: list_all_iff split: option.splits)
qed

definition is_active :: "json \<Rightarrow> bool" where
  "is_active s = (case jstr (lit ''status'') s of None \<Rightarrow> False | Some st \<Rightarrow> eq_ignore_case st (lit ''active''))"

lemma active_count_is_active: "active_count ss = length (filter is_active ss)"
  unfolding active_count_def is_active_def ..

lemma count_update_first:
  "(\<And>x. List.find p xs = Some x \<Longrightarrow> q (f x) = q x) \<Longrightarrow>
     length (filter q (update_first p f xs)) = length (filter q xs)"
  by (induction xs) auto

lemma own_session_put_other:
  "has_agent_id b (JObj s) \<Longrightarrow> a \<noteq> b \<Longrightarrow> own_session (put_session b s state) a = own_session state a"
  by (simp add: own_session_def find_session_put_other flip: find_session_sessions_of)

lemma fleet_summary_put:
  assumes "find_session state b = Some t" and "is_active (JObj s) = is_active t"
  shows "fleet_summary (sessions_of (put_session b s state)) = fleet_summary (sessions_of state)"
proof -
  have "length (filter is_active (sessions_of (put_session b s state))) = length (filter is_active (sessions_of state))"
    using assms by (auto simp: put_session_def sessions_of_on_array find_session_sessions_of
        intro!: count_update_first) (simp_all add: sessions_of_def)
  moreover have "length (sessions_of (put_session b s state)) = length (sessions_of state)"
    using assms(1) by (auto simp: put_session_def sessions_of_on_array find_session_def split: option.splits)
  ultimately show ?thesis by (simp add: fleet_summary_def active_count_is_active)
qed

text \<open>C34: what an agent sees of the agents file does not depend on a peer's session beyond
  whether the peer is active: replacing the peer's session (its tokens, message, file, task)
  changes nothing in the view.\<close>

theorem public_agents_state_noninterference:
  assumes "has_agent_id b (JObj s)" and "a \<noteq> b"
    and "find_session state b = Some t" and "is_active (JObj s) = is_active t"
  shows "public_agents_state (put_session b s state) a = public_agents_state state a"
  unfolding public_agents_state_def
  using assms by (simp add: jget_put_session_other own_session_put_other fleet_summary_put)

theorem public_agents_state_noninterference_witness:
  "public_agents_state (put_session (lit ''b'')
      [(lit ''agentId'', JStr (lit ''b'')), (lit ''status'', JStr (lit ''ACTIVE'')), (lit ''sessionTokenHash'', JStr (lit ''h''))]
      (JObj [(lit ''sessions'', JArr three_sessions)])) (lit ''a'') =
   public_agents_state (JObj [(lit ''sessions'', JArr three_sessions)]) (lit ''a'')"
proof (rule public_agents_state_noninterference)
  show "find_session (JObj [(lit ''sessions'', JArr three_sessions)]) (lit ''b'') = Some (three_sessions ! 1)"
    by code_simp
  show "is_active (JObj [(lit ''agentId'', JStr (lit ''b'')), (lit ''status'', JStr (lit ''ACTIVE'')),
      (lit ''sessionTokenHash'', JStr (lit ''h''))]) = is_active (three_sessions ! 1)"
    by code_simp
qed (code_simp)+

lemma constant_time_eq_hex_iff [simp]: "constant_time_eq_hex a b \<longleftrightarrow> a = b"
  by (auto simp: constant_time_eq_hex_def)

lemma not_expired_iff: "\<not> expired A x w \<longleftrightarrow> (\<exists>t. x = Some t \<and> now_ns A - t \<le> w)"
  by (auto simp: expired_def not_less split: option.splits)

text \<open>a tool call passes the session-token gate exactly when the session holds a token hash,
  the call brings a non-blank token with that hash, and the token was issued at most twelve
  hours ago; or when the session holds no hash, the call brings no token and the unmanaged
  switch is on. The switch never replaces the check of a session that has a hash.\<close>

theorem require_session_token_iff:
  "is_ok (require_session_token A session tok) \<longleftrightarrow>
     (let expected = trim (jstr_or (lit ''sessionTokenHash'') [] session);
          token = trim (case tok of None \<Rightarrow> [] | Some t \<Rightarrow> t) in
      if expected = [] then token = [] \<and> unmanaged_privileged_agents_allowed A
      else token \<noteq> [] \<and> sha256_hex A token = expected \<and>
        (case parse_iso_timestamp A (jstr (lit ''sessionTokenIssuedAt'') session) of
           None \<Rightarrow> False | Some t \<Rightarrow> now_ns A - t \<le> SESSION_TOKEN_WINDOW))"
  by (auto simp: require_session_token_def Let_def hash_session_token_def expired_def
      split: option.splits)

text \<open>A registration is let through only with a fresh, matching launch token, or for a session
  that was never given one and has not used one up, or unmanaged.\<close>

lemma validate_launch_token_Inr:
  assumes "validate_launch_token_for_registration A state a role tok = Inr r"
  shows "case find_session state a of
      None \<Rightarrow> r = None \<and> unmanaged_privileged_agents_allowed A
    | Some session \<Rightarrow> r = Some session \<and> coerce_role (jstr_or (lit ''role'') [] session) = role \<and>
        (let expected = trim (jstr_or (lit ''launchTokenHash'') [] session);
             token = trim (case tok of None \<Rightarrow> [] | Some t \<Rightarrow> t) in
         if expected = [] then status_lc session \<noteq> lit ''launch_pending'' \<and>
           trim (jstr_or (lit ''launchConsumedAt'') [] session) = []
         else token \<noteq> [] \<and> sha256_hex A token = expected \<and>
           (\<exists>t. parse_iso_timestamp A (jstr (lit ''launchTokenIssuedAt'') session) = Some t \<and>
              now_ns A - t \<le> LAUNCH_TOKEN_WINDOW))"
  using assms
  by (auto simp: validate_launch_token_for_registration_def Let_def hash_launch_token_def expired_def
      split: option.splits if_splits)

end
