(* ===== verification/Environment.thy ===== *)
theory Environment
  imports FileStore
begin

text \<open>
  A concrete environment, in which the hypotheses of the properties can be met: a printer and a
  parser of JSON values that round-trip (a prefix code, not the JSON syntax), a clock whose
  times print as decimals, digests and uuids without blanks, and a disk whose calls all
  succeed. It stands for no code of the repository; the properties are stated for every
  environment, and this one is the one they are exercised in.
\<close>

section \<open>A prefix code for JSON values\<close>

definition enc_str :: "rstr \<Rightarrow> int list" where
  "enc_str s = int (length s) # s"

fun enc :: "json \<Rightarrow> int list" where
  "enc JNull = [0]"
| "enc (JBool b) = [1, if b then 1 else 0]"
| "enc (JInt i) = [2, i]"
| "enc (JFloat (Fin q)) = (case quotient_of q of (a, b) \<Rightarrow> [3, a, b])"
| "enc (JFloat PosInf) = [4]"
| "enc (JFloat NegInf) = [5]"
| "enc (JFloat NaN) = [6]"
| "enc (JStr s) = 7 # enc_str s"
| "enc (JArr xs) = 8 # int (length xs) # concat (map enc xs)"
| "enc (JObj kvs) = 9 # int (length kvs) # concat (map (\<lambda>(k, v). enc_str k @ enc v) kvs)"

fun dec_str :: "int list \<Rightarrow> (rstr \<times> int list) option" where
  "dec_str [] = None"
| "dec_str (n # r) = Some (take (nat n) r, drop (nat n) r)"

fun dec :: "nat \<Rightarrow> int list \<Rightarrow> (json \<times> int list) option"
  and decs :: "nat \<Rightarrow> nat \<Rightarrow> int list \<Rightarrow> (json list \<times> int list) option"
  and decf :: "nat \<Rightarrow> nat \<Rightarrow> int list \<Rightarrow> (fields \<times> int list) option" where
  "dec 0 s = None"
| "dec (Suc n) [] = None"
| "dec (Suc n) (t # r) =
     (if t = 0 then Some (JNull, r)
      else if t = 1 then (case r of [] \<Rightarrow> None | b # r \<Rightarrow> Some (JBool (b = 1), r))
      else if t = 2 then (case r of [] \<Rightarrow> None | i # r \<Rightarrow> Some (JInt i, r))
      else if t = 3 then (case r of a # b # r \<Rightarrow> Some (JFloat (Fin (of_int a / of_int b)), r) | _ \<Rightarrow> None)
      else if t = 4 then Some (JFloat PosInf, r)
      else if t = 5 then Some (JFloat NegInf, r)
      else if t = 6 then Some (JFloat NaN, r)
      else if t = 7 then map_option (\<lambda>(s, r). (JStr s, r)) (dec_str r)
      else if t = 8 then (case r of [] \<Rightarrow> None
        | k # r \<Rightarrow> map_option (\<lambda>(xs, r). (JArr xs, r)) (decs n (nat k) r))
      else if t = 9 then (case r of [] \<Rightarrow> None
        | k # r \<Rightarrow> map_option (\<lambda>(xs, r). (JObj xs, r)) (decf n (nat k) r))
      else None)"
| "decs n 0 s = Some ([], s)"
| "decs 0 (Suc k) s = None"
| "decs (Suc n) (Suc k) s = (case dec n s of None \<Rightarrow> None
     | Some (x, r) \<Rightarrow> map_option (\<lambda>(xs, r). (x # xs, r)) (decs n k r))"
| "decf n 0 s = Some ([], s)"
| "decf 0 (Suc k) s = None"
| "decf (Suc n) (Suc k) s = (case dec_str s of None \<Rightarrow> None
     | Some (key, r) \<Rightarrow> (case dec n r of None \<Rightarrow> None
       | Some (x, r) \<Rightarrow> map_option (\<lambda>(xs, r). ((key, x) # xs, r)) (decf n k r)))"

lemma dec_str_enc [simp]: "dec_str (enc_str s @ r) = Some (s, r)"
  by (simp add: enc_str_def)

lemma enc_nonempty: "0 < length (enc j)"
  by (cases j rule: enc.cases) (auto split: prod.splits)

lemma decs_enc:
  "(\<And>x n r. x \<in> set xs \<Longrightarrow> 2 * length (enc x) \<le> n \<Longrightarrow> dec n (enc x @ r) = Some (x, r)) \<Longrightarrow>
     2 * length (concat (map enc xs)) + 1 \<le> n \<Longrightarrow>
     decs n (length xs) (concat (map enc xs) @ r) = Some (xs, r)"
proof (induction xs arbitrary: n r)
  case (Cons x xs)
  from Cons.prems(2) obtain m where m: "n = Suc m" by (cases n) auto
  have d: "dec m (enc x @ t) = Some (x, t)" for t
    using Cons.prems m by simp
  have l: "2 * length (concat (map enc xs)) + 1 \<le> m"
    using Cons.prems(2) m enc_nonempty [of x] by (simp del: length_greater_0_conv)
  have "decs m (length xs) (concat (map enc xs) @ r) = Some (xs, r)"
    using Cons.prems by (intro Cons.IH [OF _ l]) auto
  with d m show ?case by simp
qed simp

lemma decf_enc:
  "(\<And>k x n r. (k, x) \<in> set kvs \<Longrightarrow> 2 * length (enc x) \<le> n \<Longrightarrow> dec n (enc x @ r) = Some (x, r)) \<Longrightarrow>
     2 * length (concat (map (\<lambda>(k, v). enc_str k @ enc v) kvs)) + 1 \<le> n \<Longrightarrow>
     decf n (length kvs) (concat (map (\<lambda>(k, v). enc_str k @ enc v) kvs) @ r) = Some (kvs, r)"
proof (induction kvs arbitrary: n r)
  case (Cons kx kvs)
  obtain k x where kx: "kx = (k, x)" by (cases kx)
  from Cons.prems(2) obtain m where m: "n = Suc m" by (cases n) auto
  have d: "dec m (enc x @ t) = Some (x, t)" for t
    using Cons.prems m kx by (auto intro: Cons.prems(1) [of k x])
  have l: "2 * length (concat (map (\<lambda>(k, v). enc_str k @ enc v) kvs)) + 1 \<le> m"
    using Cons.prems(2) m kx enc_nonempty [of x] by (simp del: length_greater_0_conv)
  have "decf m (length kvs) (concat (map (\<lambda>(k, v). enc_str k @ enc v) kvs) @ r) = Some (kvs, r)"
    using Cons.prems(1) by (intro Cons.IH [OF _ l]) auto
  with d m kx show ?case by simp
qed simp

lemma dec_enc: "2 * length (enc j) \<le> n \<Longrightarrow> dec n (enc j @ r) = Some (j, r)"
proof (induction j arbitrary: n r)
  case (JFloat x)
  then obtain m where m: "n = Suc m" using enc_nonempty [of "JFloat x"] by (cases n) auto
  show ?case
  proof (cases x)
    case (Fin q)
    obtain a b where q: "quotient_of q = (a, b)" by (cases "quotient_of q")
    then have "q = of_int a / of_int b" by (rule quotient_of_div)
    with q Fin m show ?thesis by simp
  qed (simp_all add: m)
next
  case (JArr xs)
  then obtain m where m: "n = Suc m" by (cases n) auto
  have "decs m (length xs) (concat (map enc xs) @ r) = Some (xs, r)"
    using JArr m by (intro decs_enc) auto
  then show ?case by (simp add: m)
next
  case (JObj kvs)
  then obtain m where m: "n = Suc m" by (cases n) auto
  have "decf m (length kvs) (concat (map (\<lambda>(k, v). enc_str k @ enc v) kvs) @ r) = Some (kvs, r)"
    using JObj m by (intro decf_enc) (auto simp: snds.simps)
  then show ?case by (simp add: m)
next
  case (JStr s)
  then obtain m where "n = Suc m" by (cases n) auto
  then show ?case by simp
qed (case_tac n; simp)+

text \<open>The code as text, in characters that are neither blanks nor backquotes.\<close>

definition up_char :: "int \<Rightarrow> rchar" where
  "up_char i = (if 0 \<le> i then i + 20000 else i)"

definition down_char :: "rchar \<Rightarrow> int" where
  "down_char c = (if 20000 \<le> c then c - 20000 else c)"

definition show_json :: "json \<Rightarrow> rstr" where
  "show_json j = map up_char (enc j)"

definition demo_parse :: "rstr \<Rightarrow> json option" where
  "demo_parse s = map_option fst (dec (2 * length s) (map down_char s))"

lemma down_up [simp]: "down_char (up_char i) = i"
  by (simp add: up_char_def down_char_def)

lemma demo_parse_show [simp]: "demo_parse (show_json j) = Some j"
  using dec_enc [of j "2 * length (enc j)" "[]"] by (simp add: demo_parse_def show_json_def o_def)

lemma show_json_plain: "\<forall>c \<in> set (show_json j). \<not> is_ws c \<and> c \<noteq> 96"
  by (auto simp: show_json_def up_char_def is_ws_def split: if_splits)

section \<open>A surrounding where everything works\<close>

definition demo_plan :: write_plan where
  "demo_plan = \<lparr>temp_ok = True, temp_left = None, backup_ok = True, backup_left = None,
     on_windows = False, move_ok = True, access_denied = False, in_appcontainer = False,
     copy_ok = True, copy_left = None, restore_ok = True, restore_left = None,
     remove_ok = (\<lambda>_. True)\<rparr>"

definition parse_dec :: "rstr \<Rightarrow> int option" where
  "parse_dec s = (case s of [] \<Rightarrow> None
     | c # cs \<Rightarrow> Some (if c = 45 then - int (digits_val cs) else int (digits_val s)))"

definition demo_digest :: "rstr \<Rightarrow> rstr" where
  "demo_digest s = lit ''h'' @ concat (map (\<lambda>c. lit ''.'' @ show_int c) s)"

definition demo_uuid :: "nat \<Rightarrow> rstr" where
  "demo_uuid n = lit ''u'' @ show_nat n"

text \<open>The environment at time \<open>t\<close>.\<close>

definition demo :: "int \<Rightarrow> ambient" where
  "demo t = \<lparr>now_ns = t, stamp = lit ''7-42'', fmt_ts = show_int, parse_rfc3339 = parse_dec,
     json_parse = demo_parse, json_pretty = (\<lambda>j. Some (show_json j)), json_compact = show_json,
     sha256_hex = demo_digest, uuid_hex = demo_uuid, env_var = (\<lambda>_. None), canonical = Some,
     mkdir_ok = (\<lambda>_. True), open_ok = (\<lambda>_. True), try_lock = (\<lambda>_ _. True),
     read_ok = (\<lambda>_. True), plan_for = (\<lambda>_. demo_plan), is_absolute = (\<lambda>_. True),
     modified_time = (\<lambda>_. Some 1), hash_order = remdups,
     read_dir = (\<lambda>_. Some []), is_dir = (\<lambda>_. True)\<rparr>"

text \<open>The same, with JSON documents kept in a table under short names.\<close>

definition table_env :: "int \<Rightarrow> (rstr \<times> json) list \<Rightarrow> ambient" where
  "table_env t tbl = (demo t)\<lparr>json_parse := map_of tbl,
     json_pretty := (\<lambda>j. map_of (map (\<lambda>(k, v). (v, k)) tbl) j)\<rparr>"

definition demo_dir :: path where "demo_dir = [lit ''p'']"

definition demo_disk :: "(path \<times> rstr) list \<Rightarrow> disk" where
  "demo_disk fs = \<lparr>files = map_of fs\<rparr>"

lemma demo_walks_keys [simp]: "walks_keys (demo t)"
  by (simp add: walks_keys_def demo_def)

lemma demo_serde [simp]: "serde_roundtrip (demo s) (demo t)"
  by (simp add: serde_roundtrip_def demo_def)

lemma digit_not_ws: "is_digit c \<Longrightarrow> \<not> is_ws c"
  by (auto simp: is_digit_def is_ws_def)

lemma show_int_not_ws: "\<forall>c \<in> set (show_int i). \<not> is_ws c"
  using show_nat_digits by (auto simp: show_int_def lit_def digit_not_ws) (simp add: is_ws_def)

lemma show_int_nonempty [simp]: "show_int i \<noteq> []"
  by (simp add: show_int_def)

lemma hd_show_nat: "is_digit (hd (show_nat n))"
  using show_nat_digits [of n] by (cases "show_nat n") auto

lemma last_show_nat: "is_digit (last (show_nat n))"
  using show_nat_digits [of n] by (cases "show_nat n" rule: rev_cases) auto

lemma last_show_int: "is_digit (last (show_int i))"
  by (simp add: show_int_def last_show_nat)

lemma parse_dec_show_int [simp]: "parse_dec (show_int i) = Some i"
proof (cases "i < 0")
  case True
  then show ?thesis by (simp add: parse_dec_def show_int_def lit_def)
next
  case False
  have "hd (show_nat (nat i)) \<noteq> 45" using hd_show_nat [of "nat i"] by (auto simp: is_digit_def)
  then show ?thesis using False digits_val_show_nat [of "nat i"]
    by (cases "show_nat (nat i)") (auto simp: parse_dec_def show_int_def)
qed

lemma demo_digest_not_ws: "\<forall>c \<in> set (demo_digest s). \<not> is_ws c"
  using show_int_not_ws by (auto simp: demo_digest_def lit_def) (simp_all add: is_ws_def)

lemma demo_uuid_not_ws: "\<forall>c \<in> set (demo_uuid n). \<not> is_ws c"
  using show_nat_digits by (auto simp: demo_uuid_def lit_def digit_not_ws) (simp add: is_ws_def)

section \<open>A write that is torn half way\<close>

text \<open>A sandboxed Windows writer whose move is denied and whose copy truncates the target.\<close>

definition torn_plan :: write_plan where
  "torn_plan = demo_plan\<lparr>on_windows := True, move_ok := False, access_denied := True,
     in_appcontainer := True, copy_ok := False, copy_left := Some []\<rparr>"

definition torn_write :: "(tool_error + unit) \<times> disk" where
  "torn_write = write_text_crash_safe ((demo 0)\<lparr>plan_for := (\<lambda>_. torn_plan)\<rparr>) [lit ''f''] (lit ''new'')
     (lit ''agent state file'') (demo_disk [([lit ''f''], lit ''old'')])"


end
