(* ===== verification/FsReplace.thy ===== *)
theory FsReplace
  imports Environment
begin

text \<open>
  The desktop app's replacement of a file by a temporary one with a backup,
  \<open>src-tauri/src/backend/fs_replace.rs\<close>: an atomic rename (\<open>MoveFileExW\<close> on Windows), and, for a
  writer that asks for it and really runs in an AppContainer, the fallback to a copy that is not
  atomic. The outcomes of the system calls are the \<open>write_plan\<close> of the call.
\<close>

datatype (plugins only: code) replace_error =
    BackupFailed rstr
  | SavedTempLeft rstr
  | RestoreAlsoFailed rstr path
  | SaveTempLeft rstr path
  | SaveFailed rstr

text \<open>\<open>ReplaceFailure\<close> by its flag \<open>target_committed\<close>.\<close>

datatype (plugins only: code) host_replaced = HostReplaced | HostFailed bool

definition host_replace_existing :: "write_plan \<Rightarrow> bool \<Rightarrow> path \<Rightarrow> path \<Rightarrow> disk \<Rightarrow> host_replaced \<times> disk" where
  "host_replace_existing W allow_copy_fallback temp target d =
     (if move_ok W then (HostReplaced, write_file temp None (write_file target (files d temp) d))
      else if \<not> on_windows W then (HostFailed False, d)
      else if \<not> allow_copy_fallback \<or> \<not> in_appcontainer W then (HostFailed False, d)
      else if \<not> access_denied W then (HostFailed False, d)
      else if copy_ok W then
        (let d1 = write_file target (files d temp) d in
         if remove_ok W temp then (HostReplaced, write_file temp None d1) else (HostFailed True, d1))
      else (HostFailed False, write_file target (copy_left W) d))"

definition replace_file_with_backup_impl
    :: "write_plan \<Rightarrow> path \<Rightarrow> path \<Rightarrow> path \<Rightarrow> rstr \<Rightarrow> bool \<Rightarrow> disk \<Rightarrow> (replace_error + unit) \<times> disk" where
  "replace_file_with_backup_impl W temp target bak label allow_copy_fallback d =
     (let had_backup = exists_file d target in
      if had_backup \<and> \<not> backup_ok W then (Inl (BackupFailed label), write_file bak (backup_left W) d)
      else
        let d1 = (if had_backup then write_file bak (files d target) d else d) in
        (case host_replace_existing W allow_copy_fallback temp target d1 of
           (HostReplaced, d2) \<Rightarrow> (Inr (), try_remove W bak d2)
         | (HostFailed True, d2) \<Rightarrow> (Inl (SavedTempLeft label), try_remove W bak d2)
         | (HostFailed False, d2) \<Rightarrow>
             if had_backup \<and> \<not> restore_ok W
             then (Inl (RestoreAlsoFailed label bak), write_file target (restore_left W) d2)
             else
               let d3 = (if had_backup then try_remove W bak (write_file target (files d2 bak) d2)
                         else if exists_file d2 target then try_remove W target d2 else d2)
               in if exists_file d3 temp \<and> remove_ok W temp
                  then (Inl (SaveFailed label), write_file temp None d3)
                  else (Inl (SaveTempLeft label temp), d3)))"

definition replace_file_with_backup
    :: "write_plan \<Rightarrow> path \<Rightarrow> path \<Rightarrow> path \<Rightarrow> rstr \<Rightarrow> disk \<Rightarrow> (replace_error + unit) \<times> disk" where
  "replace_file_with_backup W temp target bak label =
     replace_file_with_backup_impl W temp target bak label False"

definition replace_file_with_backup_with_fallback
    :: "write_plan \<Rightarrow> path \<Rightarrow> path \<Rightarrow> path \<Rightarrow> rstr \<Rightarrow> disk \<Rightarrow> (replace_error + unit) \<times> disk" where
  "replace_file_with_backup_with_fallback W temp target bak label =
     replace_file_with_backup_impl W temp target bak label True"

section \<open>What a replacement leaves\<close>

lemma replace_impl_frame:
  "replace_file_with_backup_impl W temp target bak label b d = (r, d') \<Longrightarrow>
     q \<notin> {target, temp, bak} \<Longrightarrow> files d' q = files d q"
  by (auto simp: replace_file_with_backup_impl_def host_replace_existing_def Let_def
      split: if_splits bool.splits)

lemma replace_impl_outcome:
  assumes "replace_file_with_backup_impl W temp target bak label b d = (r, d')"
    and "distinct [temp, target, bak]"
  shows "case r of
      Inr _ \<Rightarrow> files d' target = files d temp
    | Inl (SavedTempLeft _) \<Rightarrow> files d' target = files d temp \<and> b \<and> in_appcontainer W
    | Inl (RestoreAlsoFailed _ p) \<Rightarrow> p = bak \<and> files d' bak = files d target \<and> files d target \<noteq> None
    | Inl _ \<Rightarrow> files d' target = files d target \<or>
        (files d target = None \<and> b \<and> on_windows W \<and> in_appcontainer W \<and> \<not> copy_ok W)"
  using assms
  by (auto simp: replace_file_with_backup_impl_def host_replace_existing_def Let_def exists_file_def
      files_try_remove split: if_splits bool.splits)

text \<open>C38: a replacement without the copy fallback is all or nothing: when it reports success the target
  holds the new text; when it reports failure the target holds the old text, or the error names the
  backup file and the backup holds it. It never touches a file other than the target, the temporary
  and the backup.\<close>

theorem replace_with_backup_safe:
  assumes "replace_file_with_backup W temp target bak label d = (r, d')"
    and "distinct [temp, target, bak]"
  shows "(case r of
      Inr _ \<Rightarrow> files d' target = files d temp
    | Inl (RestoreAlsoFailed _ p) \<Rightarrow> p = bak \<and> files d' bak = files d target
    | Inl _ \<Rightarrow> files d' target = files d target) \<and>
    (\<forall>q. q \<notin> {target, temp, bak} \<longrightarrow> files d' q = files d q)"
  using replace_impl_outcome [OF assms(1) [unfolded replace_file_with_backup_def] assms(2)]
    replace_impl_frame [OF assms(1) [unfolded replace_file_with_backup_def]]
  by (auto split: sum.splits replace_error.splits)

text \<open>a replacement with the copy fallback loses nothing either: an error that reports the new text
  as saved means it is there; every other error leaves the old text in the target or in the named
  backup, or concerns a first write in a sandboxed Windows process whose copy failed half way.\<close>

theorem replace_with_fallback_safe:
  assumes "replace_file_with_backup_with_fallback W temp target bak label d = (r, d')"
    and "distinct [temp, target, bak]"
  shows "case r of
      Inr _ \<Rightarrow> files d' target = files d temp
    | Inl (SavedTempLeft _) \<Rightarrow> files d' target = files d temp \<and> in_appcontainer W
    | Inl (RestoreAlsoFailed _ p) \<Rightarrow> p = bak \<and> files d' bak = files d target \<and> files d target \<noteq> None
    | Inl _ \<Rightarrow> files d' target = files d target \<or>
        (files d target = None \<and> on_windows W \<and> in_appcontainer W \<and> \<not> copy_ok W)"
  using replace_impl_outcome [OF assms(1) [unfolded replace_file_with_backup_with_fallback_def] assms(2)]
  by (auto split: sum.splits replace_error.splits)

section \<open>A sandboxed writer whose copy fails half way\<close>

definition torn_disk :: disk where
  "torn_disk = demo_disk [([lit ''f''], lit ''old''), ([lit ''f.tmp''], lit ''new'')]"

definition torn_replace :: "(replace_error + unit) \<times> disk" where
  "torn_replace = replace_file_with_backup_with_fallback torn_plan [lit ''f.tmp''] [lit ''f''] [lit ''f.bak'']
     (lit ''ledger'') torn_disk"

lemma torn_replace_result: "fst torn_replace = Inl (SaveFailed (lit ''ledger''))"
  by code_simp

theorem replace_with_fallback_safe_witness: "files (snd torn_replace) [lit ''f''] = Some (lit ''old'')"
proof -
  have e: "replace_file_with_backup_with_fallback torn_plan [lit ''f.tmp''] [lit ''f''] [lit ''f.bak'']
     (lit ''ledger'') torn_disk = (Inl (SaveFailed (lit ''ledger'')), snd torn_replace)"
    using torn_replace_result unfolding torn_replace_def by (metis prod.collapse)
  have "distinct [[lit ''f.tmp''], [lit ''f''], [lit ''f.bak'']]" by simp
  from replace_with_fallback_safe [OF e this] show ?thesis
    by (simp add: torn_disk_def demo_disk_def)
qed

definition denied_replace :: "(replace_error + unit) \<times> disk" where
  "denied_replace = replace_file_with_backup torn_plan [lit ''f.tmp''] [lit ''f''] [lit ''f.bak'']
     (lit ''ledger'') torn_disk"

lemma denied_replace_result: "fst denied_replace = Inl (SaveFailed (lit ''ledger''))"
  by code_simp

theorem replace_with_backup_safe_witness: "files (snd denied_replace) [lit ''f''] = Some (lit ''old'')"
proof -
  have e: "replace_file_with_backup torn_plan [lit ''f.tmp''] [lit ''f''] [lit ''f.bak'']
     (lit ''ledger'') torn_disk = (Inl (SaveFailed (lit ''ledger'')), snd denied_replace)"
    using denied_replace_result unfolding denied_replace_def by (metis prod.collapse)
  have "distinct [[lit ''f.tmp''], [lit ''f''], [lit ''f.bak'']]" by simp
  from replace_with_backup_safe [OF e this] show ?thesis
    by (simp add: torn_disk_def demo_disk_def)
qed

end
