(* ===== verification/CensorSchema.thy ===== *)
theory CensorSchema
  imports FileStore "HOL-Library.Word" "HOL-Library.Monad_Syntax"
begin

text \<open>
  The types of the Censor's ledger and their on-disk form, \<open>backend/censor/schema.rs\<close>: what
  \<open>serde\<close> derives from the attributes of the types (camelCase keys, lowercase or kebab-case
  variant names, a default for every missing field, unknown keys ignored). The on-disk form is a
  contract with another writer, so both directions are written out, and the properties say that
  they are inverse and that reading tolerates missing and unknown fields.
\<close>

section \<open>Types\<close>

datatype (plugins only: code) severity = High | Medium | Low

fun rank :: "severity \<Rightarrow> nat" where
  "rank High = 2"
| "rank Medium = 1"
| "rank Low = 0"

text \<open>Severities are ordered by their rank.\<close>

instantiation severity :: linorder
begin

definition less_eq_severity :: "severity \<Rightarrow> severity \<Rightarrow> bool" where
  "less_eq_severity a b \<longleftrightarrow> rank a \<le> rank b"

definition less_severity :: "severity \<Rightarrow> severity \<Rightarrow> bool" where
  "less_severity a b \<longleftrightarrow> rank a < rank b"

instance
proof
  fix a b :: severity
  show "a \<le> b \<Longrightarrow> b \<le> a \<Longrightarrow> a = b"
    by (cases a; cases b) (simp_all add: less_eq_severity_def)
qed (auto simp: less_eq_severity_def less_severity_def)

end

datatype (plugins only: code) category = Security | Correctness | Complexity | Duplication | DeadCode | Style

fun id_token :: "category \<Rightarrow> rstr" where
  "id_token Security = lit ''security''"
| "id_token Correctness = lit ''correctness''"
| "id_token Complexity = lit ''complexity''"
| "id_token Duplication = lit ''duplication''"
| "id_token DeadCode = lit ''dead-code''"
| "id_token Style = lit ''style''"

datatype (plugins only: code) verdict = Suspected | Confirmed

datatype (plugins only: code) disposition = Open | Fixed | Fp | Wontfix

record provenance_entry =
  pv_actor :: rstr
  pv_action :: rstr
  pv_role :: rstr
  pv_at :: rstr

record finding =
  fi_id :: rstr
  fi_file :: rstr
  fi_content_hash :: rstr
  fi_line :: "32 word option"
  fi_severity :: severity
  fi_category :: category
  fi_source :: rstr
  fi_title :: rstr
  fi_body :: rstr
  fi_verdict :: verdict
  fi_disposition :: disposition
  fi_provenance :: "provenance_entry list"
  fi_created_at :: rstr
  fi_commit :: "rstr option"

record shard =
  sh_file_rel_path :: rstr
  sh_content_hash :: rstr
  sh_updated_at :: rstr
  sh_findings :: "finding list"

definition compute_id :: "ambient \<Rightarrow> rstr \<Rightarrow> 32 word option \<Rightarrow> category \<Rightarrow> rstr \<Rightarrow> rstr \<Rightarrow> rstr" where
  "compute_id A file_rel_path line cat source title =
     (let line_token = (case line of Some n \<Rightarrow> show_nat (unat n) | None \<Rightarrow> []) in
      sha256_hex A (file_rel_path @ [31] @ line_token @ [31] @ id_token cat @ [31] @ source @ [31] @ title))"

section \<open>Names of variants and fields\<close>

fun severity_name :: "severity \<Rightarrow> rstr" where
  "severity_name High = lit ''high''"
| "severity_name Medium = lit ''medium''"
| "severity_name Low = lit ''low''"

fun verdict_name :: "verdict \<Rightarrow> rstr" where
  "verdict_name Suspected = lit ''suspected''"
| "verdict_name Confirmed = lit ''confirmed''"

fun disposition_name :: "disposition \<Rightarrow> rstr" where
  "disposition_name Open = lit ''open''"
| "disposition_name Fixed = lit ''fixed''"
| "disposition_name Fp = lit ''fp''"
| "disposition_name Wontfix = lit ''wontfix''"

definition PROVENANCE_FIELDS :: "rstr list" where
  "PROVENANCE_FIELDS = [lit ''actor'', lit ''action'', lit ''role'', lit ''at'']"

definition FINDING_FIELDS :: "rstr list" where
  "FINDING_FIELDS = [lit ''id'', lit ''file'', lit ''contentHash'', lit ''line'', lit ''severity'',
     lit ''category'', lit ''source'', lit ''title'', lit ''body'', lit ''verdict'', lit ''disposition'',
     lit ''provenance'', lit ''createdAt'', lit ''commit'']"

definition SHARD_FIELDS :: "rstr list" where
  "SHARD_FIELDS = [lit ''fileRelPath'', lit ''contentHash'', lit ''updatedAt'', lit ''findings'']"

section \<open>Reading, as \<open>serde\<close> derives it\<close>

text \<open>A struct is read from an object, or from an array with the fields in order; an array that is too
  long is refused.\<close>

definition de_fields :: "rstr list \<Rightarrow> json \<Rightarrow> fields option" where
  "de_fields names j =
     (case j of JObj kvs \<Rightarrow> Some kvs
      | JArr xs \<Rightarrow> if length xs \<le> length names then Some (zip names xs) else None
      | _ \<Rightarrow> None)"

text \<open>\<open>#[serde(default)]\<close>\<close>

definition de_field :: "rstr \<Rightarrow> 'a \<Rightarrow> (json \<Rightarrow> 'a option) \<Rightarrow> fields \<Rightarrow> 'a option" where
  "de_field k dflt f kvs = (case map_of kvs k of None \<Rightarrow> Some dflt | Some v \<Rightarrow> f v)"

definition de_option :: "(json \<Rightarrow> 'a option) \<Rightarrow> json \<Rightarrow> 'a option option" where
  "de_option f j = (if j = JNull then Some None else map_option Some (f j))"

definition de_u32 :: "json \<Rightarrow> 32 word option" where
  "de_u32 j = (case j of JInt i \<Rightarrow> if 0 \<le> i \<and> i < 2 ^ 32 then Some (word_of_int i) else None | _ \<Rightarrow> None)"

text \<open>A unit variant is its name, or an object with the name as its only key and a null.\<close>

definition de_enum :: "('a \<Rightarrow> rstr) \<Rightarrow> 'a list \<Rightarrow> json \<Rightarrow> 'a option" where
  "de_enum name variants j =
     (case j of JStr s \<Rightarrow> List.find (\<lambda>v. name v = s) variants
      | JObj [(s, JNull)] \<Rightarrow> List.find (\<lambda>v. name v = s) variants
      | _ \<Rightarrow> None)"

fun de_all :: "(json \<Rightarrow> 'a option) \<Rightarrow> json list \<Rightarrow> 'a list option" where
  "de_all f [] = Some []"
| "de_all f (j # js) = do { x \<leftarrow> f j; xs \<leftarrow> de_all f js; Some (x # xs) }"

definition de_vec :: "(json \<Rightarrow> 'a option) \<Rightarrow> json \<Rightarrow> 'a list option" where
  "de_vec f j = Option.bind (as_array j) (de_all f)"

definition de_severity :: "json \<Rightarrow> severity option" where
  "de_severity = de_enum severity_name [High, Medium, Low]"

definition de_category :: "json \<Rightarrow> category option" where
  "de_category = de_enum id_token [Security, Correctness, Complexity, Duplication, DeadCode, Style]"

definition de_verdict :: "json \<Rightarrow> verdict option" where
  "de_verdict = de_enum verdict_name [Suspected, Confirmed]"

definition de_disposition :: "json \<Rightarrow> disposition option" where
  "de_disposition = de_enum disposition_name [Open, Fixed, Fp, Wontfix]"

definition de_provenance :: "json \<Rightarrow> provenance_entry option" where
  "de_provenance j = do {
     kvs \<leftarrow> de_fields PROVENANCE_FIELDS j;
     actor \<leftarrow> de_field (lit ''actor'') [] as_str kvs;
     action \<leftarrow> de_field (lit ''action'') [] as_str kvs;
     role \<leftarrow> de_field (lit ''role'') [] as_str kvs;
     at' \<leftarrow> de_field (lit ''at'') [] as_str kvs;
     Some \<lparr>pv_actor = actor, pv_action = action, pv_role = role, pv_at = at'\<rparr> }"

definition de_finding :: "json \<Rightarrow> finding option" where
  "de_finding j = do {
     kvs \<leftarrow> de_fields FINDING_FIELDS j;
     id' \<leftarrow> de_field (lit ''id'') [] as_str kvs;
     file \<leftarrow> de_field (lit ''file'') [] as_str kvs;
     hash \<leftarrow> de_field (lit ''contentHash'') [] as_str kvs;
     line \<leftarrow> de_field (lit ''line'') None (de_option de_u32) kvs;
     sev \<leftarrow> de_field (lit ''severity'') Medium de_severity kvs;
     cat \<leftarrow> de_field (lit ''category'') Correctness de_category kvs;
     source \<leftarrow> de_field (lit ''source'') [] as_str kvs;
     title \<leftarrow> de_field (lit ''title'') [] as_str kvs;
     body \<leftarrow> de_field (lit ''body'') [] as_str kvs;
     verdict \<leftarrow> de_field (lit ''verdict'') Suspected de_verdict kvs;
     disposition \<leftarrow> de_field (lit ''disposition'') Open de_disposition kvs;
     provenance \<leftarrow> de_field (lit ''provenance'') [] (de_vec de_provenance) kvs;
     created_at \<leftarrow> de_field (lit ''createdAt'') [] as_str kvs;
     commit \<leftarrow> de_field (lit ''commit'') None (de_option as_str) kvs;
     Some \<lparr>fi_id = id', fi_file = file, fi_content_hash = hash, fi_line = line, fi_severity = sev,
       fi_category = cat, fi_source = source, fi_title = title, fi_body = body, fi_verdict = verdict,
       fi_disposition = disposition, fi_provenance = provenance, fi_created_at = created_at,
       fi_commit = commit\<rparr> }"

definition de_shard :: "json \<Rightarrow> shard option" where
  "de_shard j = do {
     kvs \<leftarrow> de_fields SHARD_FIELDS j;
     path \<leftarrow> de_field (lit ''fileRelPath'') [] as_str kvs;
     hash \<leftarrow> de_field (lit ''contentHash'') [] as_str kvs;
     updated_at \<leftarrow> de_field (lit ''updatedAt'') [] as_str kvs;
     findings \<leftarrow> de_field (lit ''findings'') [] (de_vec de_finding) kvs;
     Some \<lparr>sh_file_rel_path = path, sh_content_hash = hash, sh_updated_at = updated_at,
       sh_findings = findings\<rparr> }"

section \<open>Writing\<close>

definition ser_option :: "('a \<Rightarrow> json) \<Rightarrow> 'a option \<Rightarrow> json" where
  "ser_option f x = (case x of None \<Rightarrow> JNull | Some v \<Rightarrow> f v)"

definition ser_provenance :: "provenance_entry \<Rightarrow> json" where
  "ser_provenance p = JObj (zip PROVENANCE_FIELDS (map JStr [pv_actor p, pv_action p, pv_role p, pv_at p]))"

definition ser_finding :: "finding \<Rightarrow> json" where
  "ser_finding f = JObj (zip FINDING_FIELDS
     [JStr (fi_id f), JStr (fi_file f), JStr (fi_content_hash f),
      ser_option (\<lambda>w. JInt (uint w)) (fi_line f),
      JStr (severity_name (fi_severity f)), JStr (id_token (fi_category f)), JStr (fi_source f),
      JStr (fi_title f), JStr (fi_body f), JStr (verdict_name (fi_verdict f)),
      JStr (disposition_name (fi_disposition f)), JArr (map ser_provenance (fi_provenance f)),
      JStr (fi_created_at f), ser_option JStr (fi_commit f)])"

definition ser_shard :: "shard \<Rightarrow> json" where
  "ser_shard s = JObj (zip SHARD_FIELDS
     [JStr (sh_file_rel_path s), JStr (sh_content_hash s), JStr (sh_updated_at s),
      JArr (map ser_finding (sh_findings s))])"

section \<open>The on-disk contract\<close>

lemma de_all_map: "(\<And>x. f (g x) = Some x) \<Longrightarrow> de_all f (map g xs) = Some xs"
  by (induction xs) auto

lemma de_severity_name [simp]: "de_severity (JStr (severity_name s)) = Some s"
  by (cases s) (simp_all add: de_severity_def de_enum_def)

lemma de_category_name [simp]: "de_category (JStr (id_token c)) = Some c"
  by (cases c) (simp_all add: de_category_def de_enum_def)

lemma de_verdict_name [simp]: "de_verdict (JStr (verdict_name v)) = Some v"
  by (cases v) (simp_all add: de_verdict_def de_enum_def)

lemma de_disposition_name [simp]: "de_disposition (JStr (disposition_name x)) = Some x"
  by (cases x) (simp_all add: de_disposition_def de_enum_def)

lemma de_line_ser [simp]: "de_option de_u32 (ser_option (\<lambda>w. JInt (uint w)) x) = Some x"
  using uint_lt2p [where 'a = 32] by (cases x) (simp_all add: de_option_def ser_option_def de_u32_def)

lemma de_commit_ser [simp]: "de_option as_str (ser_option JStr x) = Some x"
  by (cases x) (simp_all add: de_option_def ser_option_def)

lemma de_provenance_ser [simp]: "de_provenance (ser_provenance p) = Some p"
  by (simp add: de_provenance_def ser_provenance_def de_fields_def de_field_def PROVENANCE_FIELDS_def)

lemma de_finding_ser [simp]: "de_finding (ser_finding f) = Some f"
  by (simp add: de_finding_def ser_finding_def de_fields_def de_field_def FINDING_FIELDS_def de_vec_def
      de_all_map [of de_provenance ser_provenance])

lemma de_shard_ser: "de_shard (ser_shard s) = Some s"
  by (simp add: de_shard_def ser_shard_def de_fields_def de_field_def SHARD_FIELDS_def de_vec_def
      de_all_map [of de_finding ser_finding])

text \<open>C40: whatever shard the app writes, reading its JSON gives the same shard: no finding, line,
  disposition, audit entry or commit is lost or altered.\<close>

theorem shard_roundtrip: "de_shard (ser_shard s) = Some s \<and> (ser_shard s = ser_shard t \<longrightarrow> s = t)"
  by (metis de_shard_ser option.inject)

theorem shard_roundtrip_witness:
  "de_shard (ser_shard \<lparr>sh_file_rel_path = lit ''a.rs'', sh_content_hash = lit ''h'', sh_updated_at = [], sh_findings = []\<rparr>) =
     Some \<lparr>sh_file_rel_path = lit ''a.rs'', sh_content_hash = lit ''h'', sh_updated_at = [], sh_findings = []\<rparr>"
  using shard_roundtrip by blast

lemma map_of_filter_key: "map_of (filter (\<lambda>(k, _). P k) kvs) k = (if P k then map_of kvs k else None)"
  by (induction kvs) auto

lemma de_field_tolerant:
  "map_of extra k = None \<Longrightarrow>
     de_field k d g (filter (\<lambda>(k, _). P k) kvs @ extra) = (if P k then de_field k d g kvs else Some d)"
  by (auto simp: de_field_def map_add_def map_of_filter_key split: option.splits)

lemma if_Some_eq: "(if b then Some x else Some d) = Some y \<longleftrightarrow> y = (if b then x else d)"
  by auto

text \<open>reading tolerates other builds: if a finding is readable, it stays readable when any of its
  fields are dropped and unknown ones are added; a dropped severity reads as medium, a dropped
  disposition as open, a dropped verdict as suspected, and what is kept reads as before.\<close>

theorem finding_forward_compatible:
  assumes "de_finding (JObj kvs) = Some f" and "set FINDING_FIELDS \<inter> fst ` set extra = {}"
  shows "\<exists>f'. de_finding (JObj (filter (\<lambda>(k, _). P k) kvs @ extra)) = Some f' \<and>
    fi_id f' = (if P (lit ''id'') then fi_id f else []) \<and>
    fi_content_hash f' = (if P (lit ''contentHash'') then fi_content_hash f else []) \<and>
    fi_line f' = (if P (lit ''line'') then fi_line f else None) \<and>
    fi_severity f' = (if P (lit ''severity'') then fi_severity f else Medium) \<and>
    fi_verdict f' = (if P (lit ''verdict'') then fi_verdict f else Suspected) \<and>
    fi_disposition f' = (if P (lit ''disposition'') then fi_disposition f else Open) \<and>
    fi_provenance f' = (if P (lit ''provenance'') then fi_provenance f else [])"
proof -
  have "map_of extra k = None" if "k \<in> set FINDING_FIELDS" for k
    using assms(2) that by (auto simp: map_of_eq_None_iff)
  then have x: "list_all (\<lambda>k. map_of extra k = None) FINDING_FIELDS"
    by (simp add: list_all_iff)
  show ?thesis
    using assms(1)
    by (simp only: de_finding_def de_fields_def json.case bind_eq_Some_conv option.inject)
      (elim exE conjE, hypsubst, use x in \<open>simp add: de_field_tolerant if_Some_eq FINDING_FIELDS_def
        split del: if_split cong del: if_weak_cong\<close>)
qed

theorem finding_forward_compatible_witness:
  "\<exists>f'. de_finding (JObj (filter (\<lambda>(k, _). k \<noteq> lit ''disposition'')
       [(lit ''id'', JStr (lit ''x'')), (lit ''disposition'', JStr (lit ''fp''))] @ [(lit ''new'', JNull)])) = Some f' \<and>
     fi_id f' = lit ''x'' \<and> fi_disposition f' = Open"
proof -
  have "de_finding (JObj [(lit ''id'', JStr (lit ''x'')), (lit ''disposition'', JStr (lit ''fp''))]) \<noteq> None"
    by (simp add: de_finding_def de_fields_def de_field_def de_disposition_def de_enum_def)
  then obtain f where f: "de_finding (JObj [(lit ''id'', JStr (lit ''x'')), (lit ''disposition'', JStr (lit ''fp''))]) = Some f"
    by blast
  then have "fi_id f = lit ''x''"
    by (auto simp: de_finding_def de_fields_def de_field_def de_disposition_def de_enum_def)
  moreover have "set FINDING_FIELDS \<inter> fst ` set [(lit ''new'', JNull)] = {}"
    by (simp add: FINDING_FIELDS_def)
  ultimately show ?thesis
    using finding_forward_compatible [OF f, of "[(lit ''new'', JNull)]" "\<lambda>k. k \<noteq> lit ''disposition''"] by auto
qed

end
