(* ===== verification/CensorLedger.thy ===== *)
theory CensorLedger
  imports FsReplace CensorSchema "HOL-Library.AList"
begin

text \<open>
  The Censor's ledger, \<open>backend/censor/ledger.rs\<close>: one shard per source file under the project's
  \<open>.aspis-censor\<close> directory, named by the hash of the file's relative path; the merge of a review
  pass into the shard, and the disposition of a finding with its audit trail. The process id and
  counter in the names of the temporary files are the \<open>stamp\<close> of the surrounding, and a hash map
  is walked in \<open>hash_order\<close>.
\<close>

datatype (plugins only: code) ledger_error =
    RelAbsolute rstr | RelParent rstr | RelDash rstr
  | LockDirFailed path | LockOpenFailed path | LockBusy path
  | ShardCorrupt path | ShardUnreadable path | ShardNotSerialized
  | TempNotWritten path | ShardNotReplaced replace_error
  | NoShard rstr | NoFinding rstr rstr | ListingFailed path

type_synonym 'a lio = "disk \<Rightarrow> (ledger_error + 'a) \<times> disk"

section \<open>The audit trail\<close>

definition CENSOR_PROVENANCE_MAX :: nat where "CENSOR_PROVENANCE_MAX = 50"

definition push_provenance :: "provenance_entry \<Rightarrow> provenance_entry list \<Rightarrow> provenance_entry list" where
  "push_provenance entry provenance =
     (if provenance \<noteq> [] \<and> pv_actor (last provenance) = pv_actor entry \<and>
         pv_action (last provenance) = pv_action entry
      then provenance
      else keep_last CENSOR_PROVENANCE_MAX (provenance @ [entry]))"

section \<open>Relative paths\<close>

text \<open>The loop over the characters, with the flag \<open>prev_slash\<close>.\<close>

fun collapse_slashes :: "bool \<Rightarrow> rstr \<Rightarrow> rstr" where
  "collapse_slashes prev_slash [] = []"
| "collapse_slashes prev_slash (ch # cs) =
     (if ch = 47 then (if prev_slash then collapse_slashes True cs else ch # collapse_slashes True cs)
      else ch # collapse_slashes False cs)"

definition normalize_rel_path :: "rstr \<Rightarrow> rstr" where
  "normalize_rel_path file_rel_path = collapse_slashes False (replace1 92 [47] file_rel_path)"

definition CENSOR_DIR :: rstr where "CENSOR_DIR = lit ''.aspis-censor''"

definition censor_dir :: "path \<Rightarrow> path" where
  "censor_dir root_path = root_path @ [CENSOR_DIR]"

text \<open>The pieces of a text between slashes, and \<open>Path::components\<close> of it: empty pieces vanish, \<open>.\<close>
  does too except at the front of a relative path.\<close>

fun slash_pieces :: "rstr \<Rightarrow> rstr \<Rightarrow> rstr list" where
  "slash_pieces cur [] = [cur]"
| "slash_pieces cur (c # cs) = (if c = 47 then cur # slash_pieces [] cs else slash_pieces (cur @ [c]) cs)"

datatype (plugins only: code) path_component = RootDir | CurDir | ParentDir | Normal rstr

definition piece_component :: "rstr \<Rightarrow> path_component" where
  "piece_component s = (if s = lit ''..'' then ParentDir else Normal s)"

definition path_components :: "rstr \<Rightarrow> path_component list" where
  "path_components s =
     (let pieces = slash_pieces [] s in
      (if starts_with s [47] then [RootDir] else if hd pieces = lit ''.'' then [CurDir] else []) @
      map piece_component (filter (\<lambda>p. p \<noteq> [] \<and> p \<noteq> lit ''.'') pieces))"

fun check_components :: "rstr \<Rightarrow> path_component list \<Rightarrow> ledger_error + unit" where
  "check_components rel [] = Inr ()"
| "check_components rel (ParentDir # cs) = Inl (RelParent rel)"
| "check_components rel (RootDir # cs) = Inl (RelAbsolute rel)"
| "check_components rel (Normal name # cs) =
     (if starts_with name [45] then Inl (RelDash rel) else check_components rel cs)"
| "check_components rel (CurDir # cs) = check_components rel cs"

definition validate_rel_path :: "rstr \<Rightarrow> ledger_error + unit" where
  "validate_rel_path rel =
     (let normalized = replace1 92 [47] rel in
      if (case normalized of c # d # _ \<Rightarrow> d = 58 \<and> is_alpha c | _ \<Rightarrow> False) then Inl (RelAbsolute rel)
      else check_components rel (path_components normalized))"

definition shard_path :: "ambient \<Rightarrow> path \<Rightarrow> rstr \<Rightarrow> ledger_error + path" where
  "shard_path A root_path file_rel_path =
     bindE (validate_rel_path file_rel_path) (\<lambda>_.
     Inr (censor_dir root_path @ [sha256_hex A (normalize_rel_path file_rel_path) @ lit ''.json'']))"

section \<open>Shard files\<close>

definition lock_shard :: "ambient \<Rightarrow> path \<Rightarrow> ledger_error + unit" where
  "lock_shard A shard_file =
     (let lock_path = with_extension shard_file (lit ''json.lock'') in
      bindE (assertE (mkdir_ok A (butlast shard_file)) (LockDirFailed shard_file)) (\<lambda>_.
      bindE (assertE (open_ok A lock_path) (LockOpenFailed lock_path)) (\<lambda>_.
      assertE (lock_attempts (try_lock A lock_path) 0 100 \<noteq> None) (LockBusy lock_path))))"

text \<open>\<open>read_ok\<close> is false when the read fails for another reason than an absent file.\<close>

definition read_shard_at :: "ambient \<Rightarrow> path \<Rightarrow> shard option lio" where
  "read_shard_at A p d =
     (if \<not> read_ok A p then (Inl (ShardUnreadable p), d)
      else (case files d p of
        None \<Rightarrow> (Inr None, d)
      | Some content \<Rightarrow>
          (case Option.bind (json_parse A content) de_shard of
             Some s \<Rightarrow> (Inr (Some s), d)
           | None \<Rightarrow> (Inl (ShardCorrupt p), d))))"

definition read_shard :: "ambient \<Rightarrow> path \<Rightarrow> rstr \<Rightarrow> shard option lio" where
  "read_shard A root_path file_rel_path =
     bindS (liftE (shard_path A root_path file_rel_path)) (read_shard_at A)"

definition path_extension :: "path \<Rightarrow> rstr option" where
  "path_extension p = Option.bind (file_name p) (\<lambda>n.
     let r = rev n; ext = takeWhile (\<lambda>c. c \<noteq> 46) r; rest = dropWhile (\<lambda>c. c \<noteq> 46) r in
     if rest = [] \<or> tl rest = [] then None else Some (rev ext))"

text \<open>Without a directory or file of that name the listing is empty; \<open>read_dir\<close> is \<open>None\<close> when it
  cannot be read.\<close>

definition list_shards :: "ambient \<Rightarrow> path \<Rightarrow> shard list lio" where
  "list_shards A root_path d =
     (let dir = censor_dir root_path in
      if \<not> is_dir A dir \<and> \<not> exists_file d dir then (Inr [], d)
      else (case read_dir A dir of
        None \<Rightarrow> (Inl (ListingFailed dir), d)
      | Some entries \<Rightarrow>
          (Inr (List.map_filter (\<lambda>p. if path_extension p \<noteq> Some (lit ''json'') then None
             else (case fst (read_shard_at A p d) of Inr s \<Rightarrow> s | Inl _ \<Rightarrow> None)) entries), d)))"

definition shard_temp :: "ambient \<Rightarrow> path \<Rightarrow> path" where
  "shard_temp A p = with_extension p (lit ''json.'' @ stamp A @ lit ''.tmp'')"

definition shard_backup :: "ambient \<Rightarrow> path \<Rightarrow> path" where
  "shard_backup A p = with_extension p (lit ''json.'' @ stamp A @ lit ''.bak'')"

definition write_shard_locked :: "ambient \<Rightarrow> path \<Rightarrow> shard \<Rightarrow> unit lio" where
  "write_shard_locked A p s d =
     (case json_pretty A (ser_shard s) of
        None \<Rightarrow> (Inl ShardNotSerialized, d)
      | Some content \<Rightarrow>
          let W = plan_for A p; temp = shard_temp A p in
          if \<not> temp_ok W then (Inl (TempNotWritten temp), try_remove W temp (write_file temp (temp_left W) d))
          else (case replace_file_with_backup W temp p (shard_backup A p) (lit ''censor shard'')
                    (write_file temp (Some content) d) of
                  (Inr _, d') \<Rightarrow> (Inr (), d')
                | (Inl e, d') \<Rightarrow> (Inl (ShardNotReplaced e), d')))"

definition write_shard :: "ambient \<Rightarrow> path \<Rightarrow> shard \<Rightarrow> unit lio" where
  "write_shard A root_path s =
     bindS (liftE (shard_path A root_path (sh_file_rel_path s))) (\<lambda>p.
     bindS (liftE (lock_shard A p)) (\<lambda>_.
     write_shard_locked A p s))"

section \<open>Merging a review pass\<close>

definition is_stale :: "finding \<Rightarrow> rstr \<Rightarrow> bool" where
  "is_stale f current_hash \<longleftrightarrow> fi_content_hash f \<noteq> current_hash"

text \<open>The loop over the old findings: those whose source is not refreshed, and a map of the
  survivors by id, in which a later finding replaces an earlier one.\<close>

fun partition_old :: "rstr \<Rightarrow> (rstr \<Rightarrow> bool) \<Rightarrow> finding list \<Rightarrow> finding list \<times> (rstr \<times> finding) list
    \<Rightarrow> finding list \<times> (rstr \<times> finding) list" where
  "partition_old new_hash is_refreshed [] acc = acc"
| "partition_old new_hash is_refreshed (f # fs) (kept_other, survivors) =
     partition_old new_hash is_refreshed fs
       (if fi_content_hash f \<noteq> new_hash then (kept_other, survivors)
        else if is_refreshed (fi_source f) then (kept_other, AList.update (fi_id f) f survivors)
        else (kept_other @ [f], survivors))"

text \<open>A new finding is stamped with the hash and takes over the lifecycle of the survivor of its id.\<close>

definition adopt :: "rstr \<Rightarrow> (rstr \<times> finding) list \<Rightarrow> finding \<Rightarrow> finding" where
  "adopt new_hash survivors f =
     (let f = f\<lparr>fi_content_hash := new_hash\<rparr> in
      case map_of survivors (fi_id f) of
        Some prev \<Rightarrow> f\<lparr>fi_disposition := fi_disposition prev, fi_provenance := fi_provenance prev\<rparr>
      | None \<Rightarrow> f)"

text \<open>The loop over the new findings: the order of the first occurrences, and the map of the last.\<close>

fun dedup_new :: "rstr \<Rightarrow> (rstr \<times> finding) list \<Rightarrow> finding list \<Rightarrow> rstr list \<times> (rstr \<times> finding) list
    \<Rightarrow> rstr list \<times> (rstr \<times> finding) list" where
  "dedup_new new_hash survivors [] acc = acc"
| "dedup_new new_hash survivors (f # fs) (order, deduped) =
     (let f = adopt new_hash survivors f in
      dedup_new new_hash survivors fs
        (if map_of deduped (fi_id f) = None then order @ [fi_id f] else order,
         AList.update (fi_id f) f deduped))"

text \<open>\<open>merged.retain(|f| seen_ids.insert(f.id.clone()))\<close>\<close>

fun retain_first :: "rstr list \<Rightarrow> finding list \<Rightarrow> finding list" where
  "retain_first seen [] = []"
| "retain_first seen (f # fs) =
     (if fi_id f \<in> set seen then retain_first seen fs else f # retain_first (fi_id f # seen) fs)"

definition judged_left :: "ambient \<Rightarrow> rstr list \<Rightarrow> (rstr \<times> finding) list \<Rightarrow> finding list" where
  "judged_left A emitted survivors =
     List.map_filter (\<lambda>i. case map_of survivors i of
         None \<Rightarrow> None
       | Some f \<Rightarrow> if i \<notin> set emitted \<and> fi_disposition f \<noteq> Open then Some f else None)
       (hash_order A (map fst survivors))"

definition supersede_inner :: "ambient \<Rightarrow> shard option \<Rightarrow> finding list \<Rightarrow> rstr \<Rightarrow> rstr list option
    \<Rightarrow> rstr \<Rightarrow> rstr \<Rightarrow> shard" where
  "supersede_inner A old new_findings new_hash refreshed file_rel_path now =
     (let is_refreshed = (\<lambda>source. case refreshed of None \<Rightarrow> True | Some srcs \<Rightarrow> source \<in> set srcs);
          (kept_other, survivors) = (case old of None \<Rightarrow> ([], [])
             | Some s \<Rightarrow> partition_old new_hash is_refreshed (sh_findings s) ([], []));
          (order, deduped) = dedup_new new_hash survivors new_findings ([], []);
          merged = kept_other @ List.map_filter (map_of deduped) order @ judged_left A order survivors
      in \<lparr>sh_file_rel_path = file_rel_path, sh_content_hash = new_hash, sh_updated_at = now,
           sh_findings = retain_first [] merged\<rparr>)"

definition supersede :: "ambient \<Rightarrow> shard option \<Rightarrow> finding list \<Rightarrow> rstr \<Rightarrow> rstr \<Rightarrow> rstr \<Rightarrow> shard" where
  "supersede A old new_findings new_hash file_rel_path now =
     supersede_inner A old new_findings new_hash None file_rel_path now"

definition supersede_sources :: "ambient \<Rightarrow> shard option \<Rightarrow> finding list \<Rightarrow> rstr \<Rightarrow> rstr list
    \<Rightarrow> rstr \<Rightarrow> rstr \<Rightarrow> shard" where
  "supersede_sources A old new_findings new_hash refreshed file_rel_path now =
     supersede_inner A old new_findings new_hash (Some refreshed) file_rel_path now"

definition read_supersede_write_shard :: "ambient \<Rightarrow> path \<Rightarrow> finding list \<Rightarrow> rstr \<Rightarrow> rstr list
    \<Rightarrow> rstr \<Rightarrow> rstr \<Rightarrow> shard lio" where
  "read_supersede_write_shard A root_path new_findings new_hash refreshed file_rel_path now =
     bindS (liftE (shard_path A root_path file_rel_path)) (\<lambda>p.
     bindS (liftE (lock_shard A p)) (\<lambda>_.
     bindS (read_shard_at A p) (\<lambda>existing.
     let merged = supersede_sources A existing new_findings new_hash refreshed file_rel_path now in
     bindS (write_shard_locked A p merged) (\<lambda>_. returnS merged))))"

section \<open>Disposing of a finding\<close>

fun disposition_action :: "disposition \<Rightarrow> rstr" where
  "disposition_action Open = lit ''reopen''"
| "disposition_action Fixed = lit ''fixed''"
| "disposition_action Fp = lit ''fp''"
| "disposition_action Wontfix = lit ''wontfix''"

definition dispose :: "disposition \<Rightarrow> rstr \<Rightarrow> rstr \<Rightarrow> finding \<Rightarrow> finding" where
  "dispose new_disposition actor now f =
     f\<lparr>fi_disposition := new_disposition,
       fi_provenance := push_provenance \<lparr>pv_actor = actor, pv_action = disposition_action new_disposition,
         pv_role = [], pv_at = now\<rparr> (fi_provenance f)\<rparr>"

definition dispose_finding :: "ambient \<Rightarrow> path \<Rightarrow> rstr \<Rightarrow> rstr \<Rightarrow> disposition \<Rightarrow> rstr \<Rightarrow> rstr \<Rightarrow> unit lio" where
  "dispose_finding A root_path file_rel_path finding_id new_disposition actor now =
     bindS (liftE (shard_path A root_path file_rel_path)) (\<lambda>p.
     bindS (liftE (lock_shard A p)) (\<lambda>_.
     bindS (read_shard_at A p) (\<lambda>existing.
     bindS (liftE (ok_or existing (NoShard file_rel_path))) (\<lambda>s.
     bindS (liftE (assertE (list_ex (\<lambda>f. fi_id f = finding_id) (sh_findings s))
       (NoFinding finding_id file_rel_path))) (\<lambda>_.
     write_shard_locked A p
       (s\<lparr>sh_findings := update_first (\<lambda>f. fi_id f = finding_id) (dispose new_disposition actor now) (sh_findings s),
          sh_updated_at := now\<rparr>))))))"

section \<open>The audit trail is bounded\<close>

lemma push_provenance_bound:
  "length xs \<le> CENSOR_PROVENANCE_MAX \<Longrightarrow> length (push_provenance x xs) \<le> CENSOR_PROVENANCE_MAX"
  by (auto simp: push_provenance_def)

lemma push_provenance_subset: "set (push_provenance x xs) \<subseteq> insert x (set xs)"
  using set_keep_last [of CENSOR_PROVENANCE_MAX "xs @ [x]"] by (auto simp: push_provenance_def)

lemma push_provenance_last:
  "push_provenance x xs \<noteq> [] \<and> pv_actor (last (push_provenance x xs)) = pv_actor x \<and>
     pv_action (last (push_provenance x xs)) = pv_action x"
proof (cases "push_provenance x xs = xs \<and> xs \<noteq> [] \<and> pv_actor (last xs) = pv_actor x \<and> pv_action (last xs) = pv_action x")
  case False
  then have p: "push_provenance x xs = keep_last CENSOR_PROVENANCE_MAX (xs @ [x])"
    by (auto simp: push_provenance_def)
  have "last (keep_last CENSOR_PROVENANCE_MAX (xs @ [x])) = x"
    using last_keep_last [of "xs @ [x]" CENSOR_PROVENANCE_MAX] by (simp add: CENSOR_PROVENANCE_MAX_def)
  moreover have "keep_last CENSOR_PROVENANCE_MAX (xs @ [x]) \<noteq> []"
    using length_keep_last [of CENSOR_PROVENANCE_MAX "xs @ [x]"]
    by (simp add: CENSOR_PROVENANCE_MAX_def flip: length_greater_0_conv)
  ultimately show ?thesis by (simp add: p)
qed auto

lemma push_provenance_idem: "push_provenance x (push_provenance x xs) = push_provenance x xs"
  using push_provenance_last [of x xs] by (simp add: push_provenance_def [of x "push_provenance x xs"])

interpretation audit_trail: bounded_log push_provenance CENSOR_PROVENANCE_MAX
  by unfold_locales (use push_provenance_bound push_provenance_subset in auto)

section \<open>The merge, piece by piece\<close>

lemma partition_old_kept:
  "fst (partition_old h R fs acc) = fst acc @ filter (\<lambda>f. fi_content_hash f = h \<and> \<not> R (fi_source f)) fs"
  by (induction h R fs acc rule: partition_old.induct) auto

lemma partition_old_survivor:
  "map_of (snd (partition_old h R fs acc)) i = Some f \<Longrightarrow>
     map_of (snd acc) i = Some f \<or>
     (f \<in> set fs \<and> fi_id f = i \<and> fi_content_hash f = h \<and> R (fi_source f))"
  by (induction h R fs acc rule: partition_old.induct) (auto simp: update_conv' split: if_splits)

lemma partition_old_other:
  "i \<notin> fi_id ` set fs \<Longrightarrow> map_of (snd (partition_old h R fs acc)) i = map_of (snd acc) i"
  by (induction h R fs acc rule: partition_old.induct) (auto simp: update_conv')

lemma partition_old_survives:
  "f \<in> set fs \<Longrightarrow> fi_content_hash f = h \<Longrightarrow> R (fi_source f) \<Longrightarrow> distinct (map fi_id fs) \<Longrightarrow>
     map_of (snd (partition_old h R fs acc)) (fi_id f) = Some f"
proof (induction h R fs acc rule: partition_old.induct)
  case (2 h R g fs kept surv)
  show ?case
  proof (cases "f = g")
    case True
    with 2 show ?thesis by (simp add: partition_old_other update_conv')
  next
    case False
    with 2 show ?thesis by auto
  qed
qed simp

lemma adopt_simps [simp]:
  "fi_id (adopt h surv f) = fi_id f" "fi_content_hash (adopt h surv f) = h"
  by (simp_all add: adopt_def Let_def split: option.splits)

lemma adopt_lifecycle:
  "map_of surv (fi_id f) = Some prev \<Longrightarrow>
     fi_disposition (adopt h surv f) = fi_disposition prev \<and> fi_provenance (adopt h surv f) = fi_provenance prev"
  by (simp add: adopt_def)

text \<open>What the loop over the new findings keeps.\<close>

definition dedup_inv :: "rstr \<Rightarrow> (rstr \<times> finding) list \<Rightarrow> finding list \<Rightarrow> rstr list \<times> (rstr \<times> finding) list \<Rightarrow> bool" where
  "dedup_inv h surv fs acc \<longleftrightarrow> distinct (fst acc) \<and> set (fst acc) = dom (map_of (snd acc)) \<and>
     set (fst acc) = fi_id ` set fs \<and>
     (\<forall>i g. map_of (snd acc) i = Some g \<longrightarrow> fi_id g = i \<and> (\<exists>f \<in> set fs. g = adopt h surv f))"

lemma dedup_inv_step:
  assumes "dedup_inv h surv done (order, deduped)"
  shows "dedup_inv h surv (done @ [f])
    (if map_of deduped (fi_id f) = None then order @ [fi_id f] else order,
     AList.update (fi_id f) (adopt h surv f) deduped)"
  using assms by (auto simp: dedup_inv_def update_conv' split: if_splits)

lemma dedup_new_inv:
  "dedup_inv h surv done acc \<Longrightarrow> dedup_inv h surv (done @ fs) (dedup_new h surv fs acc)"
proof (induction h surv fs acc arbitrary: "done" rule: dedup_new.induct)
  case (2 h surv f fs order deduped)
  from 2(1) [OF refl dedup_inv_step [OF 2(2), of f, folded adopt_simps(1) [of h surv f]]]
  show ?case by (simp add: Let_def)
qed simp

lemma dedup_new_spec: "dedup_inv h surv fs (dedup_new h surv fs ([], []))"
proof -
  have "dedup_inv h surv [] ([], [])" by (simp add: dedup_inv_def)
  from dedup_new_inv [OF this, of fs] show ?thesis by simp
qed

lemma retain_first_ids:
  "distinct (map fi_id (retain_first seen fs))"
  "fi_id ` set (retain_first seen fs) = fi_id ` set fs - set seen"
  by (induction seen fs rule: retain_first.induct) auto

lemma retain_first_subset: "set (retain_first seen fs) \<subseteq> set fs"
  by (induction seen fs rule: retain_first.induct) auto

lemma retain_first_keeps:
  "fi_id f \<notin> fi_id ` set pre \<Longrightarrow> fi_id f \<notin> set seen \<Longrightarrow> f \<in> set (retain_first seen (pre @ f # post))"
  by (induction pre arbitrary: seen) auto

lemma retain_first_prefix:
  "distinct (map fi_id xs) \<Longrightarrow> fi_id ` set xs \<inter> set seen = {} \<Longrightarrow>
     \<exists>zs. retain_first seen (xs @ ys) = xs @ zs"
proof (induction xs arbitrary: seen)
  case (Cons x xs)
  have "\<exists>zs. retain_first (fi_id x # seen) (xs @ ys) = xs @ zs"
    using Cons.prems by (intro Cons.IH) auto
  with Cons.prems show ?case by auto
qed simp

lemma in_map_filter: "y \<in> set (List.map_filter f xs) \<longleftrightarrow> (\<exists>x \<in> set xs. f x = Some y)"
  by (force simp: map_filter_def)

lemma judged_left_iff:
  assumes "walks_keys A" and "\<And>i g. map_of surv i = Some g \<Longrightarrow> fi_id g = i"
  shows "g \<in> set (judged_left A emitted surv) \<longleftrightarrow>
    map_of surv (fi_id g) = Some g \<and> fi_id g \<notin> set emitted \<and> fi_disposition g \<noteq> Open"
proof -
  have "set (hash_order A (map fst surv)) = dom (map_of surv)"
    using assms(1) by (simp add: walks_keys_def dom_map_of_conv_image_fst)
  moreover have "(case map_of surv i of None \<Rightarrow> None
      | Some f \<Rightarrow> if i \<notin> set emitted \<and> fi_disposition f \<noteq> Open then Some f else None) = Some g \<longleftrightarrow>
      map_of surv i = Some g \<and> i \<notin> set emitted \<and> fi_disposition g \<noteq> Open" for i
    by (auto split: option.splits)
  ultimately have "g \<in> set (judged_left A emitted surv) \<longleftrightarrow>
      (\<exists>i. map_of surv i = Some g \<and> i \<notin> set emitted \<and> fi_disposition g \<noteq> Open)"
    by (auto simp: judged_left_def in_map_filter)
  then show ?thesis using assms(2) by blast
qed

section \<open>What a merge keeps, drops and carries over\<close>

definition findings_of :: "shard option \<Rightarrow> finding list" where
  "findings_of old = (case old of None \<Rightarrow> [] | Some s \<Rightarrow> sh_findings s)"

definition refreshes :: "rstr list option \<Rightarrow> rstr \<Rightarrow> bool" where
  "refreshes refreshed source = (case refreshed of None \<Rightarrow> True | Some srcs \<Rightarrow> source \<in> set srcs)"

text \<open>The three buckets of a merge, before the final pass over ids.\<close>

lemma supersede_buckets:
  obtains surv fresh where
    "sh_findings (supersede_inner A old new h refreshed path now) =
       retain_first [] (filter (\<lambda>f. fi_content_hash f = h \<and> \<not> refreshes refreshed (fi_source f)) (findings_of old)
         @ fresh @ judged_left A (map fi_id fresh) surv)"
    and "\<And>i f. map_of surv i = Some f \<Longrightarrow>
       f \<in> set (findings_of old) \<and> fi_id f = i \<and> fi_content_hash f = h \<and> refreshes refreshed (fi_source f)"
    and "\<And>f. distinct (map fi_id (findings_of old)) \<Longrightarrow> f \<in> set (findings_of old) \<Longrightarrow> fi_content_hash f = h \<Longrightarrow>
       refreshes refreshed (fi_source f) \<Longrightarrow> map_of surv (fi_id f) = Some f"
    and "fi_id ` set fresh = fi_id ` set new"
    and "\<And>g. g \<in> set fresh \<Longrightarrow> \<exists>f \<in> set new. g = adopt h surv f"
proof -
  let ?part = "partition_old h (refreshes refreshed) (findings_of old) ([], [])"
  let ?surv = "snd ?part"
  let ?dd = "dedup_new h ?surv new ([], [])"
  let ?fresh = "List.map_filter (map_of (snd ?dd)) (fst ?dd)"
  have inv: "dedup_inv h ?surv new ?dd" by (rule dedup_new_spec)
  have f: "?fresh = map (the \<circ> map_of (snd ?dd)) (fst ?dd)"
    using inv by (auto simp: dedup_inv_def map_filter_def intro!: arg_cong [where f = "map _"] filter_True)
  have ids: "map fi_id ?fresh = fst ?dd"
    unfolding f using inv by (auto simp: dedup_inv_def intro!: map_idI)
  have k: "fst ?part = filter (\<lambda>f. fi_content_hash f = h \<and> \<not> refreshes refreshed (fi_source f)) (findings_of old)"
    by (simp add: partition_old_kept)
  show thesis
  proof (rule that)
    show "sh_findings (supersede_inner A old new h refreshed path now) =
       retain_first [] (filter (\<lambda>f. fi_content_hash f = h \<and> \<not> refreshes refreshed (fi_source f)) (findings_of old)
         @ ?fresh @ judged_left A (map fi_id ?fresh) ?surv)"
      unfolding ids k [symmetric] by (cases old)
        (simp_all add: supersede_inner_def Let_def findings_of_def refreshes_def [abs_def] split: prod.splits)
    show "map_of ?surv i = Some f \<Longrightarrow> f \<in> set (findings_of old) \<and> fi_id f = i \<and> fi_content_hash f = h \<and>
        refreshes refreshed (fi_source f)" for i f
      using partition_old_survivor [of h "refreshes refreshed" "findings_of old" "([], [])" i f] by simp
    show "distinct (map fi_id (findings_of old)) \<Longrightarrow> f \<in> set (findings_of old) \<Longrightarrow> fi_content_hash f = h \<Longrightarrow>
        refreshes refreshed (fi_source f) \<Longrightarrow> map_of ?surv (fi_id f) = Some f" for f
      by (rule partition_old_survives)
    have "set (fst ?dd) = fi_id ` set new" using inv unfolding dedup_inv_def by blast
    with arg_cong [OF ids, of set] show "fi_id ` set ?fresh = fi_id ` set new" by simp
    show "g \<in> set ?fresh \<Longrightarrow> \<exists>f \<in> set new. g = adopt h ?surv f" for g
      using inv by (auto simp: dedup_inv_def in_map_filter)
  qed
qed

text \<open>a merged shard is well formed whatever was merged: no two findings share an id, every finding
  carries the new content hash, and every finding comes either from the new pass or, at the same
  hash, from the old shard.\<close>

theorem supersede_well_formed:
  assumes "walks_keys A"
  shows "distinct (map fi_id (sh_findings (supersede_inner A old new h refreshed path now))) \<and>
    (\<forall>g \<in> set (sh_findings (supersede_inner A old new h refreshed path now)).
       fi_content_hash g = h \<and> (g \<in> set (findings_of old) \<or> fi_id g \<in> fi_id ` set new)) \<and>
    fi_id ` set new \<subseteq> fi_id ` set (sh_findings (supersede_inner A old new h refreshed path now))"
proof (rule supersede_buckets [of A old new h refreshed path now])
  fix surv :: "(rstr \<times> finding) list" and fresh :: "finding list"
  let ?m = "sh_findings (supersede_inner A old new h refreshed path now)"
  let ?kept = "filter (\<lambda>f. fi_content_hash f = h \<and> \<not> refreshes refreshed (fi_source f)) (findings_of old)"
  assume m: "?m = retain_first [] (?kept @ fresh @ judged_left A (map fi_id fresh) surv)"
    and s: "\<And>i f. map_of surv i = Some f \<Longrightarrow>
       f \<in> set (findings_of old) \<and> fi_id f = i \<and> fi_content_hash f = h \<and> refreshes refreshed (fi_source f)"
    and ids: "fi_id ` set fresh = fi_id ` set new"
    and fr: "\<And>g. g \<in> set fresh \<Longrightarrow> \<exists>f \<in> set new. g = adopt h surv f"
  have j: "g \<in> set (findings_of old) \<and> fi_content_hash g = h" if "g \<in> set (judged_left A (map fi_id fresh) surv)" for g
    using that s judged_left_iff [OF assms, of surv g] by blast
  have "fi_content_hash g = h \<and> (g \<in> set (findings_of old) \<or> fi_id g \<in> fi_id ` set new)" if "g \<in> set ?m" for g
  proof -
    from that have "g \<in> set ?kept \<or> g \<in> set fresh \<or> g \<in> set (judged_left A (map fi_id fresh) surv)"
      unfolding m using retain_first_subset by fastforce
    then show ?thesis using j fr by fastforce
  qed
  moreover have "fi_id ` set new \<subseteq> fi_id ` set ?m"
    unfolding m retain_first_ids(2) using ids by auto
  ultimately show ?thesis unfolding m using retain_first_ids(1) by blast
qed

text \<open>C35: a review pass never loses a human judgement. For an old shard without duplicate ids, at an
  unchanged content hash: a finding with a disposition other than open is still there afterwards
  under its id, with its disposition and audit trail, whether or not the pass reports it again; a
  finding of a source the pass did not run is kept as it is; an open finding of a source that ran
  and did not report it again is gone.\<close>

theorem supersede_keeps_judgements:
  assumes "walks_keys A" and d: "distinct (map fi_id (findings_of old))"
    and f: "f \<in> set (findings_of old)" "fi_content_hash f = h"
  shows "(fi_disposition f \<noteq> Open \<longrightarrow>
      (\<exists>g \<in> set (sh_findings (supersede_inner A old new h refreshed path now)). fi_id g = fi_id f \<and>
         fi_disposition g = fi_disposition f \<and> fi_provenance g = fi_provenance f)) \<and>
    (\<not> refreshes refreshed (fi_source f) \<longrightarrow>
      f \<in> set (sh_findings (supersede_inner A old new h refreshed path now))) \<and>
    (fi_disposition f = Open \<and> refreshes refreshed (fi_source f) \<and> fi_id f \<notin> fi_id ` set new \<longrightarrow>
      fi_id f \<notin> fi_id ` set (sh_findings (supersede_inner A old new h refreshed path now)))"
proof (rule supersede_buckets [of A old new h refreshed path now])
  fix surv :: "(rstr \<times> finding) list" and fresh :: "finding list"
  let ?m = "sh_findings (supersede_inner A old new h refreshed path now)"
  let ?R = "refreshes refreshed"
  let ?kept = "filter (\<lambda>f. fi_content_hash f = h \<and> \<not> ?R (fi_source f)) (findings_of old)"
  let ?judged = "judged_left A (map fi_id fresh) surv"
  assume m: "?m = retain_first [] (?kept @ fresh @ ?judged)"
    and s: "\<And>i f. map_of surv i = Some f \<Longrightarrow>
       f \<in> set (findings_of old) \<and> fi_id f = i \<and> fi_content_hash f = h \<and> ?R (fi_source f)"
    and sv: "\<And>f. distinct (map fi_id (findings_of old)) \<Longrightarrow> f \<in> set (findings_of old) \<Longrightarrow> fi_content_hash f = h \<Longrightarrow>
       ?R (fi_source f) \<Longrightarrow> map_of surv (fi_id f) = Some f"
    and ids: "fi_id ` set fresh = fi_id ` set new"
    and fr: "\<And>g. g \<in> set fresh \<Longrightarrow> \<exists>f \<in> set new. g = adopt h surv f"
  have dk: "distinct (map fi_id ?kept)" using d by (simp add: distinct_map_filter)
  have inj: "g = f" if "g \<in> set (findings_of old)" "fi_id g = fi_id f" for g
    using that f(1) d by (metis distinct_map inj_onD)
  obtain zs where zs: "?m = ?kept @ zs"
    using retain_first_prefix [OF dk, of "[]" "fresh @ ?judged"] m by auto
  have other: "f \<in> set ?m" if "\<not> ?R (fi_source f)" using zs that f by simp
  have j: "g \<in> set ?judged \<longleftrightarrow> map_of surv (fi_id g) = Some g \<and> fi_id g \<notin> fi_id ` set fresh \<and> fi_disposition g \<noteq> Open" for g
    using judged_left_iff [OF assms(1), of surv g "map fi_id fresh"] s by simp
  have origin: "g \<in> set fresh \<or> (g = f \<and> (\<not> ?R (fi_source f) \<or> fi_disposition f \<noteq> Open))"
    if "g \<in> set ?m" "fi_id g = fi_id f" for g
  proof -
    from that(1) consider "g \<in> set ?kept" | "g \<in> set fresh" | "g \<in> set ?judged"
      unfolding m using retain_first_subset by fastforce
    then show ?thesis
    proof cases
      case 1
      then show ?thesis using inj [OF _ that(2)] by simp
    next
      case 3
      then have "map_of surv (fi_id g) = Some g" "fi_disposition g \<noteq> Open" using j by blast+
      with s [of "fi_id g" g] show ?thesis using inj [OF _ that(2)] by blast
    qed simp
  qed
  have judged: "\<exists>g \<in> set ?m. fi_id g = fi_id f \<and> fi_disposition g = fi_disposition f \<and> fi_provenance g = fi_provenance f"
    if "fi_disposition f \<noteq> Open" "?R (fi_source f)"
  proof -
    have sf: "map_of surv (fi_id f) = Some f" using sv [OF d f that(2)] .
    have "fi_id f \<in> fi_id ` set ?m"
      unfolding m retain_first_ids(2) using j [of f] sf that(1) by auto
    then obtain g where g: "g \<in> set ?m" "fi_id g = fi_id f" by (metis imageE)
    from origin [OF g] show ?thesis
    proof (elim disjE)
      assume "g \<in> set fresh"
      then obtain n where "n \<in> set new" "g = adopt h surv n" using fr by blast
      with adopt_lifecycle [of surv n f h] sf g show ?thesis by (intro bexI [of _ g]) simp_all
    qed (use g in blast)
  qed
  have gone: "fi_id f \<notin> fi_id ` set ?m"
    if "fi_disposition f = Open" "?R (fi_source f)" "fi_id f \<notin> fi_id ` set new"
  proof
    assume "fi_id f \<in> fi_id ` set ?m"
    then obtain g where g: "g \<in> set ?m" "fi_id g = fi_id f" by (metis imageE)
    from origin [OF g] that(1,2) have "g \<in> set fresh" by blast
    then have "fi_id f \<in> fi_id ` set fresh" using g(2) by (metis imageI)
    with ids that(3) show False by simp
  qed
  show ?thesis using other judged gone by blast
qed

section \<open>Paths of shards\<close>

lemma starts_with_single: "starts_with s [c] \<longleftrightarrow> s \<noteq> [] \<and> hd s = c"
  by (cases s) (auto simp: starts_with_def)

definition plain_component :: "path_component \<Rightarrow> bool" where
  "plain_component c \<longleftrightarrow> c \<noteq> ParentDir \<and> c \<noteq> RootDir \<and> (\<forall>n. c = Normal n \<longrightarrow> \<not> starts_with n [45])"

lemma check_components_Inr:
  "check_components rel cs = Inr () \<longleftrightarrow> (\<forall>c \<in> set cs. plain_component c)"
  by (induction rel cs rule: check_components.induct) (simp_all add: plain_component_def)

lemma check_components_error: "check_components rel cs = Inl e \<Longrightarrow> e \<in> {RelAbsolute rel, RelParent rel, RelDash rel}"
  by (induction rel cs rule: check_components.induct) (auto split: if_splits)

lemma plain_piece:
  "(p \<noteq> [] \<and> p \<noteq> lit ''.'' \<longrightarrow> plain_component (piece_component p)) \<longleftrightarrow> p \<noteq> lit ''..'' \<and> \<not> starts_with p [45]"
proof -
  have dot: "\<not> starts_with (lit ''.'') [45]" "\<not> starts_with [] [45]" "lit ''..'' \<noteq> []" "lit ''..'' \<noteq> lit ''.''"
    by (simp_all add: starts_with_def lit_def)
  show ?thesis
  proof (cases "p = lit ''..''")
    case False
    with dot show ?thesis by (cases "p = []"; cases "p = lit ''.''") (simp_all add: piece_component_def plain_component_def)
  qed (use dot in \<open>simp add: piece_component_def plain_component_def\<close>)
qed

lemma path_components_ok:
  "(\<forall>c \<in> set (path_components s). plain_component c) \<longleftrightarrow>
     \<not> starts_with s [47] \<and> (\<forall>p \<in> set (slash_pieces [] s). p \<noteq> lit ''..'' \<and> \<not> starts_with p [45])"
proof -
  have "(\<forall>c \<in> set (map piece_component (filter (\<lambda>p. p \<noteq> [] \<and> p \<noteq> lit ''.'') ps)). plain_component c) \<longleftrightarrow>
      (\<forall>p \<in> set ps. p \<noteq> lit ''..'' \<and> \<not> starts_with p [45])" for ps
    unfolding plain_piece [symmetric] by auto
  moreover have "(\<forall>c \<in> set (if starts_with s [47] then [RootDir] else if b then [CurDir] else []). plain_component c)
      \<longleftrightarrow> \<not> starts_with s [47]" for b
    by (simp add: plain_component_def)
  ultimately show ?thesis unfolding path_components_def Let_def set_append ball_Un by blast
qed

text \<open>the path check accepts exactly the texts that, read with either slash as a separator, have
  no drive prefix, do not start with a separator, and have no piece that is two dots or starts
  with a dash; so an accepted path can neither leave the project nor pass for an option.\<close>

theorem validate_rel_path_exact:
  "validate_rel_path rel = Inr () \<longleftrightarrow>
     (let s = replace1 92 [47] rel in
      \<not> (2 \<le> length s \<and> s ! 1 = 58 \<and> is_alpha (s ! 0)) \<and> \<not> starts_with s [47] \<and>
      list_all (\<lambda>p. p \<noteq> lit ''..'' \<and> \<not> starts_with p [45]) (slash_pieces [] s))"
proof -
  have d: "(case s of c # e # _ \<Rightarrow> e = 58 \<and> is_alpha c | _ \<Rightarrow> False) \<longleftrightarrow>
      2 \<le> length s \<and> s ! 1 = 58 \<and> is_alpha (s ! 0)" for s :: rstr
    by (cases s; cases "tl s") auto
  show ?thesis
    unfolding validate_rel_path_def Let_def d
    by (simp add: check_components_Inr path_components_ok list_all_iff)
qed

lemma collapse_flag: "collapse_slashes b (c # s) = (if c = 47 \<and> b then [] else [c]) @ collapse_slashes (c = 47) s"
  by simp

lemma collapse_append:
  "collapse_slashes b (xs @ ys) = collapse_slashes b xs @ collapse_slashes (if xs = [] then b else last xs = 47) ys"
  by (induction xs arbitrary: b) auto

lemma collapse_idem: "collapse_slashes b (collapse_slashes b s) = collapse_slashes b s"
proof (induction s arbitrary: b)
  case (Cons c s)
  show ?case
  proof (cases "c = 47")
    case True
    then show ?thesis using Cons.IH [of True] by (cases b) simp_all
  qed (use Cons.IH [of False] in simp)
qed simp

lemma collapse_no_backslash: "92 \<notin> set s \<Longrightarrow> 92 \<notin> set (collapse_slashes b s)"
  by (induction s arbitrary: b) auto

lemma replace1_backslash: "92 \<notin> set (replace1 92 [47] s)"
  by (auto simp: replace1_def split: if_splits)

lemma replace1_id: "a \<notin> set s \<Longrightarrow> replace1 a r s = s"
  by (induction s) (auto simp: replace1_def)

lemma replace1_append: "replace1 a r (xs @ ys) = replace1 a r xs @ replace1 a r ys"
  by (simp add: replace1_def)

text \<open>one file has one shard however its path is spelled: a backslash for a slash, or slashes
  doubled anywhere, give the same normal form, and the normal form is its own.\<close>

theorem normalize_rel_path_canonical:
  "normalize_rel_path (xs @ [92] @ ys) = normalize_rel_path (xs @ [47] @ ys) \<and>
   normalize_rel_path (xs @ [47, 47] @ ys) = normalize_rel_path (xs @ [47] @ ys) \<and>
   normalize_rel_path (normalize_rel_path xs) = normalize_rel_path xs"
proof (intro conjI)
  show "normalize_rel_path (xs @ [92] @ ys) = normalize_rel_path (xs @ [47] @ ys)"
    by (simp only: normalize_rel_path_def replace1_append) (simp add: replace1_def)
  show "normalize_rel_path (xs @ [47, 47] @ ys) = normalize_rel_path (xs @ [47] @ ys)"
    by (simp only: normalize_rel_path_def replace1_append collapse_append) (simp add: replace1_def)
  show "normalize_rel_path (normalize_rel_path xs) = normalize_rel_path xs"
    using collapse_no_backslash [OF replace1_backslash, of False xs]
    by (simp add: normalize_rel_path_def replace1_id collapse_idem)
qed

lemma shard_path_Inr:
  assumes "shard_path A dir rel = Inr p"
  shows "p = censor_dir dir @ [sha256_hex A (normalize_rel_path rel) @ lit ''.json'']"
  using assms by (auto simp: shard_path_def elim_bind)

lemma file_stem_json: "file_stem (n @ lit ''.json'') = (if n = [] then lit ''.json'' else n)"
  by (cases n rule: rev_cases) (auto simp: file_stem_def lit_def)

lemma shard_files_distinct:
  assumes "shard_path A dir rel = Inr p"
  shows "distinct [shard_temp A p, p, shard_backup A p]"
proof -
  let ?n = "sha256_hex A (normalize_rel_path rel) @ lit ''.json''"
  have p: "p = censor_dir dir @ [?n]" by (rule shard_path_Inr [OF assms])
  have l: "last ?n = 110" "?n \<noteq> lit ''..''" by (auto simp: lit_def append_eq_Cons_conv)
  have fn: "file_name p = Some ?n" using l(2) by (simp add: p)
  have t: "last (last (shard_temp A p)) = 112" "last (last (shard_backup A p)) = 107"
    using fn by (simp_all add: shard_temp_def shard_backup_def with_extension_def) (simp_all add: lit_def)
  have "last (last p) = 110" using l(1) by (simp add: p)
  with t have "distinct (map (\<lambda>q. last (last q)) [shard_temp A p, p, shard_backup A p])" by simp
  then show ?thesis by (simp only: distinct_map)
qed

end
