(* ===== verification/Directive.thy ===== *)
theory Directive
  imports AgentState CensorLedger "HOL-Library.Product_Lexorder"
begin

text \<open>
  The queue of worker directives of the desktop app, \<open>backend/mini_coder.rs\<close>: a directive and its life, the scheduler
  \<open>plan_tick\<close>, the bounded queue, the supervisor's messages, and the reader of a worker's result file. \<open>Executor\<close>
  runs them; the texts of errors are shortened.
\<close>

section \<open>Directives\<close>

definition MAX_DIRECTIVES :: nat where "MAX_DIRECTIVES = 50"
definition DEFAULT_WALL_CLOCK_CAP_SECS :: int where "DEFAULT_WALL_CLOCK_CAP_SECS = 600"
definition DEFAULT_RETRY_WALL_CLOCK_CAP_SECS :: int where "DEFAULT_RETRY_WALL_CLOCK_CAP_SECS = 300"
definition DEFAULT_LAUNCH_CAP_SECS :: int where "DEFAULT_LAUNCH_CAP_SECS = 60"
definition MAX_RESULT_BYTES :: nat where "MAX_RESULT_BYTES = 2 ^ 20"

datatype mini_status = Pending | Launching | Running | Done | NeedsClarification | AbortedByHuman | Failed | Timeout

definition is_terminal :: "mini_status \<Rightarrow> bool" where
  "is_terminal s \<longleftrightarrow> s \<in> {Done, NeedsClarification, AbortedByHuman, Failed, Timeout}"

definition is_active_status :: "mini_status \<Rightarrow> bool" where
  "is_active_status s \<longleftrightarrow> s \<in> {Launching, Running}"

record mini_edit =
  ed_path :: rstr
  ed_old :: rstr
  ed_new :: rstr

record mini_result =
  rs_status :: rstr
  rs_output :: "rstr option"
  rs_files_touched :: "rstr list"
  rs_edits :: "mini_edit list"
  rs_question :: "rstr option"
  rs_partial :: "rstr option"
  rs_error :: "rstr option"
  rs_net_blocked :: bool
  rs_folder_write_blocked :: "rstr option"

record outcome =
  oc_status :: mini_status
  oc_output :: "rstr option"
  oc_files_touched :: "rstr list"
  oc_edits :: "mini_edit list"
  oc_question :: "rstr option"
  oc_partial :: "rstr option"
  oc_error :: "rstr option"
  oc_net_blocked :: bool
  oc_folder_write_blocked :: "rstr option"

definition outcome_default :: outcome where
  "outcome_default = \<lparr>oc_status = Pending, oc_output = None, oc_files_touched = [], oc_edits = [], oc_question = None,
     oc_partial = None, oc_error = None, oc_net_blocked = False, oc_folder_write_blocked = None\<rparr>"

definition outcome_done :: "mini_result \<Rightarrow> outcome" where
  "outcome_done r = \<lparr>oc_status = Done, oc_output = rs_output r, oc_files_touched = rs_files_touched r, oc_edits = rs_edits r,
     oc_question = None, oc_partial = rs_partial r, oc_error = None, oc_net_blocked = rs_net_blocked r,
     oc_folder_write_blocked = rs_folder_write_blocked r\<rparr>"

definition failed_from_result :: "mini_result \<Rightarrow> outcome" where
  "failed_from_result r =
     (let error = (case rs_error r of Some e \<Rightarrow> e | None \<Rightarrow> lit ''agentic coder failed (no detail in result file)'') in
      \<lparr>oc_status = Failed, oc_output = rs_output r, oc_files_touched = rs_files_touched r, oc_edits = rs_edits r,
       oc_question = None, oc_partial = rs_partial r, oc_error = Some error, oc_net_blocked = rs_net_blocked r,
       oc_folder_write_blocked = rs_folder_write_blocked r\<rparr>)"

definition outcome_failed :: "rstr \<Rightarrow> outcome" where
  "outcome_failed error = outcome_default\<lparr>oc_status := Failed, oc_error := Some error\<rparr>"

definition outcome_timeout :: "rstr \<Rightarrow> outcome" where
  "outcome_timeout error = outcome_default\<lparr>oc_status := Timeout, oc_error := Some error\<rparr>"

definition outcome_aborted :: "rstr \<Rightarrow> outcome" where
  "outcome_aborted error = outcome_default\<lparr>oc_status := AbortedByHuman, oc_error := Some error\<rparr>"

definition outcome_needs_clarification :: "mini_result \<Rightarrow> outcome" where
  "outcome_needs_clarification r =
     \<lparr>oc_status = NeedsClarification, oc_output = rs_output r, oc_files_touched = rs_files_touched r, oc_edits = rs_edits r,
      oc_question = rs_question r, oc_partial = rs_partial r, oc_error = None, oc_net_blocked = rs_net_blocked r,
      oc_folder_write_blocked = rs_folder_write_blocked r\<rparr>"

datatype write_mode = EmitEdits | AgenticIterative

datatype directive_tier = Mini | Main

record directive =
  dv_id :: rstr
  dv_parent :: rstr
  dv_status :: mini_status
  dv_task :: rstr
  dv_files :: "rstr list"
  dv_write :: bool
  dv_write_mode :: write_mode
  dv_tier :: directive_tier
  dv_project :: "rstr option"
  dv_task_id :: "rstr option"
  dv_backend :: "rstr option"
  dv_allow_oracle :: bool
  dv_kill :: bool
  dv_steer :: "rstr list"
  dv_result_path :: rstr
  dv_agent :: "rstr option"
  dv_created :: rstr
  dv_claimed :: "rstr option"
  dv_scratch :: "rstr option"
  dv_started :: "rstr option"
  dv_result :: "outcome option"
  dv_attempt :: "32 word"
  dv_parent_directive :: "rstr option"
  dv_ticket :: "int option"
  dv_collected :: "bool option"

abbreviation terminal :: "directive \<Rightarrow> bool" where "terminal d \<equiv> is_terminal (dv_status d)"
abbreviation active :: "directive \<Rightarrow> bool" where "active d \<equiv> is_active_status (dv_status d)"

section \<open>Transitions\<close>

definition apply_claim :: "directive \<Rightarrow> rstr \<Rightarrow> rstr + directive" where
  "apply_claim d claimed_at =
     (if dv_status d \<noteq> Pending then Inl (lit ''cannot claim'')
      else Inr (d\<lparr>dv_status := Launching, dv_claimed := Some claimed_at\<rparr>))"

definition apply_launched :: "directive \<Rightarrow> rstr \<Rightarrow> rstr \<Rightarrow> rstr + directive" where
  "apply_launched d agent_id started_at =
     (if dv_status d \<noteq> Launching then Inl (lit ''cannot mark running'')
      else Inr (d\<lparr>dv_agent := Some agent_id, dv_started := Some started_at, dv_status := Running\<rparr>))"

definition apply_outcome :: "directive \<Rightarrow> outcome \<Rightarrow> rstr + directive" where
  "apply_outcome d oc =
     (if \<not> active d then Inl (lit ''cannot apply outcome'')
      else Inr (d\<lparr>dv_status := oc_status oc, dv_result := Some oc\<rparr>))"

definition apply_timeout :: "directive \<Rightarrow> rstr \<Rightarrow> rstr + directive" where
  "apply_timeout d reason = apply_outcome d (outcome_timeout reason)"

definition apply_aborted :: "directive \<Rightarrow> rstr \<Rightarrow> rstr + directive" where
  "apply_aborted d reason = apply_outcome d (outcome_aborted reason)"

definition apply_failed :: "directive \<Rightarrow> rstr \<Rightarrow> rstr + directive" where
  "apply_failed d reason = apply_outcome d (outcome_failed reason)"

section \<open>The supervisor's messages\<close>

definition MAX_STEER_MESSAGE_LEN :: nat where "MAX_STEER_MESSAGE_LEN = 2000"
definition MAX_STEER_QUEUE_LEN :: nat where "MAX_STEER_QUEUE_LEN = 8"
definition MAX_STEER_BLOCK_LEN :: nat where "MAX_STEER_BLOCK_LEN = 4000"

definition is_steer_stop :: "rstr \<Rightarrow> bool" where
  "is_steer_stop message \<longleftrightarrow> eq_ignore_case (trim message) (lit ''stop'')"

definition is_forbidden_command_char :: "rchar \<Rightarrow> bool" where
  "is_forbidden_command_char ch \<longleftrightarrow>
     ch < 32 \<or> 127 \<le> ch \<and> ch < 160 \<or> ch = 0xad \<or> ch = 0x61c \<or> ch = 0x180e \<or> 0x200b \<le> ch \<and> ch \<le> 0x200f \<or>
     0x202a \<le> ch \<and> ch \<le> 0x202e \<or> 0x2060 \<le> ch \<and> ch \<le> 0x2064 \<or> 0x2066 \<le> ch \<and> ch \<le> 0x2069 \<or> ch = 0xfeff"

definition sanitize_steer_message :: "rstr \<Rightarrow> rstr" where
  "sanitize_steer_message message = collapse_ws (filter (\<lambda>c. \<not> (is_forbidden_command_char c \<and> \<not> is_ws c)) message)"

text \<open>The loop of \<open>fold_steer_block\<close>: the body, and whether it was cut.\<close>

fun steer_body :: "rstr \<Rightarrow> rstr list \<Rightarrow> rstr \<times> bool" where
  "steer_body body [] = (body, False)"
| "steer_body body (m # ms) =
     (let line = lit ''- '' @ m; added = length line + (if body = [] then 0 else 1) in
      if body \<noteq> [] \<and> length body + added > MAX_STEER_BLOCK_LEN then (body, True)
      else steer_body ((if body = [] then [] else body @ [10]) @ line) ms)"

definition fold_steer_block :: "rstr list \<Rightarrow> rstr option" where
  "fold_steer_block messages =
     (let lines = filter (\<lambda>m. m \<noteq> [] \<and> \<not> is_steer_stop m) (map trim messages) in
      if lines = [] then None
      else case steer_body [] lines of (body, truncated) \<Rightarrow>
        Some (lit ''SUPERVISOR STEERING (apply these corrections this round):'' @ [10] @ body @
          (if truncated then [10] @ lit ''- ['' @ [0x2026] @ lit '' additional steering corrections truncated]'' else [])))"

section \<open>The scheduler\<close>

text \<open>The host: whether it is Windows, and \<open>str::to_lowercase\<close>.\<close>

record mini_host =
  mh_windows :: bool
  mh_lowercase :: "rstr \<Rightarrow> rstr"
  mh_time :: "rstr \<Rightarrow> int option"

definition normalize_path_for_compare :: "mini_host \<Rightarrow> rstr \<Rightarrow> rstr" where
  "normalize_path_for_compare H p =
     (let slashed = replace1 92 [47] p in if mh_windows H then mh_lowercase H slashed else slashed)"

definition file_set :: "mini_host \<Rightarrow> directive \<Rightarrow> rstr set" where
  "file_set H d = set (map (normalize_path_for_compare H) (dv_files d))"

definition active_file_set :: "mini_host \<Rightarrow> directive list \<Rightarrow> rstr set" where
  "active_file_set H ds = \<Union> (file_set H ` set (filter active ds))"

definition files_disjoint_from_active :: "mini_host \<Rightarrow> directive \<Rightarrow> directive list \<Rightarrow> bool" where
  "files_disjoint_from_active H candidate ds \<longleftrightarrow>
     list_all (\<lambda>f. normalize_path_for_compare H f \<notin> active_file_set H ds) (dv_files candidate)"

record tick_plan =
  tp_claims :: "rstr list"
  tp_timeouts :: "rstr list"
  tp_stuck :: "rstr list"

definition queue_order :: "directive \<Rightarrow> rstr \<times> rstr" where
  "queue_order d = (dv_created d, dv_id d)"

text \<open>The walk over the pending directives, with the claims that are left.\<close>

fun choose_claims :: "mini_host \<Rightarrow> nat \<Rightarrow> rstr set \<Rightarrow> directive list \<Rightarrow> rstr list" where
  "choose_claims H 0 taken ds = []"
| "choose_claims H n taken [] = []"
| "choose_claims H (Suc n) taken (d # ds) =
     (if \<exists>f \<in> file_set H d. f \<in> taken then choose_claims H (Suc n) taken ds
      else dv_id d # choose_claims H n (taken \<union> file_set H d) ds)"

text \<open>\<open>signed_duration_since\<close> in whole seconds, on times in nanoseconds, and an anchor that may be missing.\<close>

definition num_seconds :: "int \<Rightarrow> int" where
  "num_seconds ns = (if ns < 0 then - ((- ns) div 10 ^ 9) else ns div 10 ^ 9)"

definition elapsed_at_least :: "mini_host \<Rightarrow> int \<Rightarrow> rstr option \<Rightarrow> int \<Rightarrow> bool" where
  "elapsed_at_least H now anchor limit =
     (case Option.bind anchor (\<lambda>t. mh_time H (trim t)) of None \<Rightarrow> False | Some t \<Rightarrow> num_seconds (now - t) \<ge> limit)"

definition wall_cap :: "int \<Rightarrow> int \<Rightarrow> directive \<Rightarrow> int" where
  "wall_cap cap retry_cap d = (if dv_attempt d \<ge> 1 then max retry_cap 1 else max cap 1)"

definition plan_tick :: "mini_host \<Rightarrow> directive list \<Rightarrow> rstr \<Rightarrow> int \<Rightarrow> int \<Rightarrow> int \<Rightarrow> nat \<Rightarrow> rstr set \<Rightarrow> tick_plan" where
  "plan_tick H ds now cap retry_cap launch_cap max_concurrent inflight =
     (let active_count = length (filter active ds);
          claims = (if active_count < max_concurrent
            then choose_claims H (max_concurrent - active_count) (active_file_set H ds)
              (sort_key queue_order (filter (\<lambda>d. dv_status d = Pending) ds))
            else []);
          (timeouts, stuck) = (case mh_time H (trim now) of
             None \<Rightarrow> ([], [])
           | Some t \<Rightarrow>
               (map dv_id (filter (\<lambda>d. dv_status d = Running \<and> dv_id d \<notin> inflight \<and>
                  elapsed_at_least H t (dv_started d) (wall_cap cap retry_cap d)) ds),
                map dv_id (filter (\<lambda>d. dv_status d = Launching \<and> elapsed_at_least H t (dv_claimed d) (max launch_cap 1)) ds)))
      in \<lparr>tp_claims = claims, tp_timeouts = timeouts, tp_stuck = stuck\<rparr>)"

definition DEFAULT_MAX_CONCURRENT :: nat where "DEFAULT_MAX_CONCURRENT = 2"

definition effective_max_concurrent :: "8 word option \<Rightarrow> nat" where
  "effective_max_concurrent configured = (case configured of Some n \<Rightarrow> unat (max 1 (min 4 n)) | None \<Rightarrow> DEFAULT_MAX_CONCURRENT)"

section \<open>The bounded queue\<close>

definition evictable :: "rstr list \<Rightarrow> directive \<Rightarrow> bool" where
  "evictable protect d \<longleftrightarrow> terminal d \<and> dv_id d \<notin> set protect"

definition terminal_idx :: "rstr list \<Rightarrow> directive list \<Rightarrow> nat list" where
  "terminal_idx protect ds = sort_key (\<lambda>i. queue_order (ds ! i)) (filter (\<lambda>i. evictable protect (ds ! i)) [0..<length ds])"

definition cap_directives_protecting :: "nat \<Rightarrow> rstr list \<Rightarrow> directive list \<Rightarrow> directive list" where
  "cap_directives_protecting limit protect ds =
     (if length ds \<le> limit then ds else drop_positions (take (length ds - limit) (terminal_idx protect ds)) ds)"

definition cap_directives :: "nat \<Rightarrow> directive list \<Rightarrow> directive list" where
  "cap_directives limit ds = cap_directives_protecting limit [] ds"

section \<open>The result file\<close>

definition has_drive_prefix :: "rstr \<Rightarrow> bool" where
  "has_drive_prefix s \<longleftrightarrow> (case s of c # d # _ \<Rightarrow> is_alpha c \<and> d = 58 | _ \<Rightarrow> False)"

definition validate_result_rel_path :: "mini_host \<Rightarrow> rstr \<Rightarrow> rstr + unit" where
  "validate_result_rel_path H rel =
     (let normalized = replace1 92 [47] rel in
      if mh_windows H \<and> has_drive_prefix normalized then Inl (lit ''result path must be relative'')
      else case List.find (\<lambda>c. c = ParentDir \<or> c = RootDir) (path_components normalized) of
        Some ParentDir \<Rightarrow> Inl (lit ''result path must not contain ..'')
      | Some RootDir \<Rightarrow> Inl (lit ''result path must be relative'')
      | _ \<Rightarrow> Inr ())"

definition de_bool :: "json \<Rightarrow> bool option" where
  "de_bool j = (case j of JBool b \<Rightarrow> Some b | _ \<Rightarrow> None)"

definition MINI_EDIT_FIELDS :: "rstr list" where
  "MINI_EDIT_FIELDS = map lit [''path'', ''oldString'', ''newString'']"

definition de_mini_edit :: "json \<Rightarrow> mini_edit option" where
  "de_mini_edit j = do {
     kvs \<leftarrow> de_fields MINI_EDIT_FIELDS j;
     path \<leftarrow> de_field (lit ''path'') [] as_str kvs;
     old \<leftarrow> de_field (lit ''oldString'') [] as_str kvs;
     new \<leftarrow> de_field (lit ''newString'') [] as_str kvs;
     Some \<lparr>ed_path = path, ed_old = old, ed_new = new\<rparr> }"

definition MINI_RESULT_FIELDS :: "rstr list" where
  "MINI_RESULT_FIELDS = map lit [''status'', ''output'', ''filesTouched'', ''edits'', ''question'', ''partial'', ''error'',
     ''netBlocked'', ''folderWriteBlocked'']"

definition de_mini_result :: "json \<Rightarrow> mini_result option" where
  "de_mini_result j = do {
     kvs \<leftarrow> de_fields MINI_RESULT_FIELDS j;
     status \<leftarrow> de_field (lit ''status'') [] as_str kvs;
     out \<leftarrow> de_field (lit ''output'') None (de_option as_str) kvs;
     touched \<leftarrow> de_field (lit ''filesTouched'') [] (de_vec as_str) kvs;
     edits \<leftarrow> de_field (lit ''edits'') [] (de_vec de_mini_edit) kvs;
     question \<leftarrow> de_field (lit ''question'') None (de_option as_str) kvs;
     part \<leftarrow> de_field (lit ''partial'') None (de_option as_str) kvs;
     err \<leftarrow> de_field (lit ''error'') None (de_option as_str) kvs;
     net \<leftarrow> de_field (lit ''netBlocked'') False de_bool kvs;
     folder \<leftarrow> de_field (lit ''folderWriteBlocked'') None (de_option as_str) kvs;
     Some \<lparr>rs_status = status, rs_output = out, rs_files_touched = touched, rs_edits = edits, rs_question = question,
       rs_partial = part, rs_error = err, rs_net_blocked = net, rs_folder_write_blocked = folder\<rparr> }"

text \<open>
  What the file system answers for a result file: where a path leads, whether it opens and reads, how many bytes are read
  (all of them, or one more than the limit), and their text, if they are UTF-8; and \<open>serde_json\<close>'s parser.
\<close>

record result_io =
  ri_canonical :: "path \<Rightarrow> path option"
  ri_opens :: "path \<Rightarrow> bool"
  ri_reads :: "path \<Rightarrow> bool"
  ri_bytes :: "path \<Rightarrow> nat"
  ri_text :: "path \<Rightarrow> rstr option"
  ri_parse :: "rstr \<Rightarrow> json option"

text \<open>\<open>Path::join\<close> with a relative path: its normal pieces, \<open>.\<close> and empty ones dropped.\<close>

definition join_rel :: "path \<Rightarrow> rstr \<Rightarrow> path" where
  "join_rel base rel = base @ filter (\<lambda>p. p \<noteq> [] \<and> p \<noteq> lit ''.'') (slash_pieces [] rel)"

definition outcome_of_result :: "mini_result \<Rightarrow> outcome" where
  "outcome_of_result r =
     (if rs_status r = lit ''done'' then outcome_done r
      else if rs_status r = lit ''needs_clarification'' then outcome_needs_clarification r
      else if rs_status r = lit ''failed'' then failed_from_result r
      else outcome_failed (lit ''result file has unrecognized status''))"

definition read_result_file :: "mini_host \<Rightarrow> result_io \<Rightarrow> path \<Rightarrow> rstr \<Rightarrow> outcome" where
  "read_result_file H io scratch_root result_rel_path =
     (case validate_result_rel_path H result_rel_path of
        Inl e \<Rightarrow> outcome_failed (lit ''invalid result path: '' @ e)
      | Inr _ \<Rightarrow>
          let target = join_rel scratch_root (replace1 92 [47] result_rel_path) in
          if take (length scratch_root) target \<noteq> scratch_root then outcome_failed (lit ''result path escapes scratch root'')
          else if \<not> ri_opens io target then outcome_failed (lit ''result file missing or unreadable'')
          else if \<not> ri_reads io target then outcome_failed (lit ''result file unreadable'')
          else if ri_bytes io target > MAX_RESULT_BYTES then outcome_failed (lit ''result file too large'')
          else case ri_text io target of
            None \<Rightarrow> outcome_failed (lit ''result file is not valid UTF-8'')
          | Some raw \<Rightarrow> (case Option.bind (ri_parse io raw) de_mini_result of
                None \<Rightarrow> outcome_failed (lit ''result file is malformed JSON'')
              | Some r \<Rightarrow> outcome_of_result r))"

end
