(* ===== verification/MiniEdit.thy ===== *)
theory MiniEdit
  imports Directive
begin

text \<open>
  The edits that a worker emits, \<open>backend/mini_edit_apply.rs\<close>: the only writer of a one-shot worker's changes. An
  edit names a file and a text to replace; the text is located by three tiers, exactly, up to white space, or by
  similarity. A batch is checked in memory before anything is written. \<open>MiniEditLaws\<close> states what is proved.
\<close>

section \<open>Paths\<close>

definition normalize_edit_rel :: "rstr \<Rightarrow> rstr" where
  "normalize_edit_rel path =
     join_with [47] (filter (\<lambda>seg. seg \<noteq> [] \<and> seg \<noteq> lit ''.'') (slash_pieces [] (replace1 92 [47] path)))"

definition MAX_MINI_EDITS :: nat where "MAX_MINI_EDITS = 40"
definition MAX_MINI_ALLOWLIST_FILES :: nat where "MAX_MINI_ALLOWLIST_FILES = 10"

section \<open>Locating a text\<close>

text \<open>A ratio is a number of type \<open>f32\<close>; its comparisons and differences are exact here. Spans are in characters.\<close>

datatype match_tier = Exact | Whitespace | Fuzzy rat

definition FUZZY_MATCH_MIN_RATIO :: rat where "FUZZY_MATCH_MIN_RATIO = 92 / 100"
definition FUZZY_MATCH_MIN_MARGIN :: rat where "FUZZY_MATCH_MIN_MARGIN = 5 / 100"
definition FUZZY_WINDOW_LINE_DELTA :: nat where "FUZZY_WINDOW_LINE_DELTA = 1"
definition FUZZY_MAX_FILE_BYTES :: nat where "FUZZY_MAX_FILE_BYTES = 256 * 1024"

type_synonym span = "nat \<times> nat"

definition slice_of :: "span \<Rightarrow> rstr \<Rightarrow> rstr" where
  "slice_of sp text = take (snd sp - fst sp) (drop (fst sp) text)"

definition line_start_offsets :: "rstr \<Rightarrow> nat list" where
  "line_start_offsets text = [0] @ map (\<lambda>i. i + 1) (filter (\<lambda>i. text ! i = 10) [0..<length text]) @ [length text]"

text \<open>\<open>split('\n')\<close>\<close>

fun newline_pieces :: "rstr \<Rightarrow> rstr \<Rightarrow> rstr list" where
  "newline_pieces cur [] = [cur]"
| "newline_pieces cur (c # cs) = (if c = 10 then cur # newline_pieces [] cs else newline_pieces (cur @ [c]) cs)"

definition strip_newline :: "rstr \<Rightarrow> rstr" where
  "strip_newline s = (if ends_with s [10] then butlast s else s)"

definition normalize_ws_block :: "rstr \<Rightarrow> rstr" where
  "normalize_ws_block block = join_with [10] (map (\<lambda>line. join_with space (split_ws line)) (newline_pieces [] (strip_newline block)))"

definition old_block_shape :: "rstr \<Rightarrow> nat \<times> bool" where
  "old_block_shape old = (length (newline_pieces [] (strip_newline old)), ends_with old [10])"

definition window_span :: "nat list \<Rightarrow> rstr \<Rightarrow> nat \<Rightarrow> nat \<Rightarrow> bool \<Rightarrow> span" where
  "window_span starts text first win consume_trailing_nl =
     (let start = starts ! first; raw_end = starts ! (first + win) in
      if consume_trailing_nl then (start, raw_end)
      else (start, if raw_end > start \<and> text ! (raw_end - 1) = 10 then raw_end - 1 else raw_end))"

text \<open>The windows of a number of lines, from the first line on.\<close>

definition line_windows :: "rstr \<Rightarrow> nat \<Rightarrow> bool \<Rightarrow> span list" where
  "line_windows text win ends_nl =
     (let starts = line_start_offsets text; line_count = length starts - 1 in
      if win > line_count then [] else map (\<lambda>first. window_span starts text first win ends_nl) [0..<line_count - win + 1])"

text \<open>The loop of the second tier, with the hit it has found.\<close>

fun whitespace_scan :: "rstr \<Rightarrow> rstr \<Rightarrow> span option \<Rightarrow> span list \<Rightarrow> span option" where
  "whitespace_scan content target hit [] = hit"
| "whitespace_scan content target hit (sp # rest) =
     (if normalize_ws_block (slice_of sp content) = target
      then (if hit \<noteq> None then None else whitespace_scan content target (Some sp) rest)
      else whitespace_scan content target hit rest)"

definition find_whitespace_span :: "rstr \<Rightarrow> rstr \<Rightarrow> span option" where
  "find_whitespace_span text old =
     (let target = normalize_ws_block old; (win, ends_nl) = old_block_shape old in
      if target = [] then None
      else if win = 0 then None
      else whitespace_scan text target None (line_windows text win ends_nl))"

definition spans_overlap :: "span \<Rightarrow> span \<Rightarrow> bool" where
  "spans_overlap a b \<longleftrightarrow> fst a < snd b \<and> fst b < snd a"

text \<open>
  The third tier: the best window so far and the best other one. \<open>R\<close> is the ratio of \<open>similar\<close>, a library: of a window
  and the text that is looked for.
\<close>

type_synonym fuzzy_state = "(rat \<times> span) option \<times> rat option"

definition beats :: "rat \<Rightarrow> rat option \<Rightarrow> bool" where
  "beats r second \<longleftrightarrow> (case second of None \<Rightarrow> True | Some s \<Rightarrow> r > s)"

definition fuzzy_step :: "(span \<Rightarrow> rat) \<Rightarrow> span \<Rightarrow> fuzzy_state \<Rightarrow> fuzzy_state" where
  "fuzzy_step score sp st = (case st of (best, second) \<Rightarrow>
     (case best of
        Some (best_ratio, best_span) \<Rightarrow>
          if best_ratio \<ge> score sp
          then (best, if \<not> spans_overlap sp best_span \<and> beats (score sp) second then Some (score sp) else second)
          else (Some (score sp, sp), if \<not> spans_overlap best_span sp \<and> beats best_ratio second then Some best_ratio else second)
      | None \<Rightarrow> (Some (score sp, sp), second)))"

definition fuzzy_windows :: "rstr \<Rightarrow> rstr \<Rightarrow> span list" where
  "fuzzy_windows text old =
     (let line_count = length (line_start_offsets text) - 1; (base, ends_nl) = old_block_shape old;
          lo = max (base - FUZZY_WINDOW_LINE_DELTA) 1; hi = min (base + FUZZY_WINDOW_LINE_DELTA) line_count in
      concat (map (\<lambda>win. line_windows text win ends_nl) [lo..<hi + 1]))"

definition find_fuzzy_span :: "(rstr \<Rightarrow> rstr \<Rightarrow> rat) \<Rightarrow> rstr \<Rightarrow> rstr \<Rightarrow> (span \<times> rat) option" where
  "find_fuzzy_span R text old =
     (if utf8_len text > FUZZY_MAX_FILE_BYTES then None
      else if fst (old_block_shape old) = 0 \<or> length (line_start_offsets text) - 1 = 0 then None
      else case fold (fuzzy_step (\<lambda>sp. R (slice_of sp text) old)) (fuzzy_windows text old) (None, None) of
        (None, _) \<Rightarrow> None
      | (Some (best_ratio, best_span), second) \<Rightarrow>
          if best_ratio < FUZZY_MATCH_MIN_RATIO then None
          else if (case second of Some s \<Rightarrow> best_ratio - s < FUZZY_MATCH_MIN_MARGIN | None \<Rightarrow> False) then None
          else Some (best_span, best_ratio))"

text \<open>\<open>matches(old).count()\<close>: the occurrences from left to right that do not overlap; \<open>k\<close> characters are still inside one.\<close>

fun count_matches :: "rstr \<Rightarrow> nat \<Rightarrow> rstr \<Rightarrow> nat" where
  "count_matches p k [] = 0"
| "count_matches p (Suc k) (c # cs) = count_matches p k cs"
| "count_matches p 0 (c # cs) =
     (if starts_with (c # cs) p then Suc (count_matches p (length p - 1) cs) else count_matches p 0 cs)"

datatype locate_error = MatchesTimes nat | NoConfidentMatch

definition locate_edit_span :: "(rstr \<Rightarrow> rstr \<Rightarrow> rat) \<Rightarrow> rstr \<Rightarrow> rstr \<Rightarrow> locate_error + span \<times> match_tier" where
  "locate_edit_span R text old =
     (let exact = count_matches old 0 text in
      if exact = 1 then (case find_sub old text of Some start \<Rightarrow> Inr ((start, start + length old), Exact) | None \<Rightarrow> Inl NoConfidentMatch)
      else if exact > 1 then Inl (MatchesTimes exact)
      else case find_whitespace_span text old of
        Some sp \<Rightarrow> Inr (sp, Whitespace)
      | None \<Rightarrow> (case find_fuzzy_span R text old of
            Some (sp, ratio) \<Rightarrow> Inr (sp, Fuzzy ratio)
          | None \<Rightarrow> Inl NoConfidentMatch))"

definition replace_range :: "span \<Rightarrow> rstr \<Rightarrow> rstr \<Rightarrow> rstr" where
  "replace_range sp new text = take (fst sp) text @ new @ drop (snd sp) text"

section \<open>Applying a batch\<close>

text \<open>
  The file system as one system call after the other sees it: where a path leads, and whether anything is there. It is
  looked at in the first pass, and again before each write; links may have changed in between.
\<close>

record fs_view =
  fv_canonical :: "path \<Rightarrow> path option"
  fv_present :: "path \<Rightarrow> bool"

record edit_io =
  io_check :: fs_view
  io_write :: "rstr \<Rightarrow> fs_view"
  io_readable :: "path \<Rightarrow> bool"
  io_write_ok :: "rstr \<Rightarrow> bool"
  io_left :: "rstr \<Rightarrow> rstr option"

datatype edit_problem = EmptyPath | BadPath ledger_error | NotAllowed | AlreadyExists | ParentMissing | Escapes | Missing
  | Unreadable | DuplicateCreate | NotLocated locate_error

datatype edit_error = TooManyEdits nat | AllowlistSize nat | RootUnresolved | EditError nat edit_problem | WriteError rstr

definition is_write_error :: "edit_error \<Rightarrow> bool" where
  "is_write_error e \<longleftrightarrow> (case e of WriteError _ \<Rightarrow> True | _ \<Rightarrow> False)"

definition inside :: "path \<Rightarrow> path \<Rightarrow> bool" where
  "inside base p \<longleftrightarrow> take (length base) p = base"

text \<open>What the first pass has in memory: the texts, the old ones, the order of the files, and how each edit was located.\<close>

record batch =
  ba_contents :: "rstr \<Rightarrow> rstr option"
  ba_old :: "rstr \<Rightarrow> rstr option"
  ba_order :: "rstr list"
  ba_tiers :: "(rstr \<times> match_tier) list"

definition batch_empty :: batch where
  "batch_empty = \<lparr>ba_contents = Map.empty, ba_old = Map.empty, ba_order = [], ba_tiers = []\<rparr>"

definition load_file :: "rstr \<Rightarrow> rstr \<Rightarrow> rstr \<Rightarrow> batch \<Rightarrow> batch" where
  "load_file rel old text b =
     b\<lparr>ba_old := (ba_old b)(rel \<mapsto> old), ba_contents := (ba_contents b)(rel \<mapsto> text), ba_order := ba_order b @ [rel]\<rparr>"

definition splice_edit :: "(rstr \<Rightarrow> rstr \<Rightarrow> rat) \<Rightarrow> nat \<Rightarrow> mini_edit \<Rightarrow> rstr \<Rightarrow> rstr \<Rightarrow> batch \<Rightarrow> edit_error + batch" where
  "splice_edit R i e rel text b =
     (case locate_edit_span R text (ed_old e) of
        Inl err \<Rightarrow> Inl (EditError i (NotLocated err))
      | Inr (sp, tier) \<Rightarrow>
          Inr (b\<lparr>ba_contents := (ba_contents b)(rel \<mapsto> replace_range sp (ed_new e) text), ba_tiers := ba_tiers b @ [(rel, tier)]\<rparr>))"

definition check_edit ::
    "(rstr \<Rightarrow> rstr \<Rightarrow> rat) \<Rightarrow> edit_io \<Rightarrow> disk \<Rightarrow> path \<Rightarrow> rstr set \<Rightarrow> nat \<Rightarrow> mini_edit \<Rightarrow> batch \<Rightarrow> edit_error + batch" where
  "check_edit R io d canon_root allowed i e b =
     (let rel = normalize_edit_rel (ed_path e); full = join_rel canon_root rel; view = io_check io in
      if rel = [] then Inl (EditError i EmptyPath)
      else case validate_rel_path rel of Inl err \<Rightarrow> Inl (EditError i (BadPath err))
      | Inr _ \<Rightarrow>
        if rel \<notin> allowed then Inl (EditError i NotAllowed)
        else case ba_contents b rel of
          Some text \<Rightarrow> if ed_old e = [] then Inl (EditError i DuplicateCreate) else splice_edit R i e rel text b
        | None \<Rightarrow>
            if ed_old e = [] then
              (if fv_present view full then Inl (EditError i AlreadyExists)
               else case fv_canonical view (butlast full) of None \<Rightarrow> Inl (EditError i ParentMissing)
               | Some canon_parent \<Rightarrow>
                   if \<not> inside canon_root canon_parent then Inl (EditError i Escapes)
                   else Inr (load_file rel [] (ed_new e) b))
            else
              (case fv_canonical view full of None \<Rightarrow> Inl (EditError i Missing)
               | Some canon_target \<Rightarrow>
                   if \<not> inside canon_root canon_target then Inl (EditError i Escapes)
                   else case (if io_readable io canon_target then files d canon_target else None) of
                     None \<Rightarrow> Inl (EditError i Unreadable)
                   | Some text \<Rightarrow> splice_edit R i e rel text (load_file rel text text b)))"

fun check_edits ::
    "(rstr \<Rightarrow> rstr \<Rightarrow> rat) \<Rightarrow> edit_io \<Rightarrow> disk \<Rightarrow> path \<Rightarrow> rstr set \<Rightarrow> nat \<Rightarrow> mini_edit list \<Rightarrow> batch \<Rightarrow> edit_error + batch" where
  "check_edits R io d canon_root allowed i [] b = Inr b"
| "check_edits R io d canon_root allowed i (e # es) b =
     bindE (check_edit R io d canon_root allowed i e b) (check_edits R io d canon_root allowed (Suc i) es)"

text \<open>Where a write goes, if it is allowed: through the link at the path, or to a new file in the resolved parent.\<close>

definition write_target :: "fs_view \<Rightarrow> path \<Rightarrow> path \<Rightarrow> path option" where
  "write_target view canon_root full =
     (if fv_present view full
      then (case fv_canonical view full of None \<Rightarrow> None | Some t \<Rightarrow> if inside canon_root t then Some t else None)
      else (case fv_canonical view (butlast full) of None \<Rightarrow> None
            | Some p \<Rightarrow> if inside canon_root p then Some (p @ [last full]) else None))"

fun flush_files :: "edit_io \<Rightarrow> path \<Rightarrow> (rstr \<Rightarrow> rstr option) \<Rightarrow> rstr list \<Rightarrow> disk \<Rightarrow> (edit_error + unit) \<times> disk" where
  "flush_files io canon_root contents [] d = (Inr (), d)"
| "flush_files io canon_root contents (rel # rels) d =
     (case write_target (io_write io rel) canon_root (join_rel canon_root rel) of
        None \<Rightarrow> (Inl (WriteError rel), d)
      | Some t \<Rightarrow>
          if io_write_ok io rel then flush_files io canon_root contents rels (write_file t (contents rel) d)
          else (Inl (WriteError rel), write_file t (io_left io rel) d))"

record apply_result =
  ar_applied :: "rstr list"
  ar_snapshots :: "(rstr \<times> rstr) list"
  ar_match_tiers :: "(rstr \<times> match_tier) list"

definition apply_emitted_edits ::
    "(rstr \<Rightarrow> rstr \<Rightarrow> rat) \<Rightarrow> edit_io \<Rightarrow> path \<Rightarrow> rstr list \<Rightarrow> mini_edit list \<Rightarrow> disk \<Rightarrow> (edit_error + apply_result) \<times> disk" where
  "apply_emitted_edits R io project_root allowlist edits d =
     (if edits = [] then (Inr \<lparr>ar_applied = [], ar_snapshots = [], ar_match_tiers = []\<rparr>, d)
      else if length edits > MAX_MINI_EDITS then (Inl (TooManyEdits (length edits)), d)
      else if allowlist = [] \<or> length allowlist > MAX_MINI_ALLOWLIST_FILES then (Inl (AllowlistSize (length allowlist)), d)
      else case fv_canonical (io_check io) project_root of
        None \<Rightarrow> (Inl RootUnresolved, d)
      | Some canon_root \<Rightarrow>
          (case check_edits R io d canon_root (set (map normalize_edit_rel allowlist)) 0 edits batch_empty of
             Inl err \<Rightarrow> (Inl err, d)
           | Inr b \<Rightarrow>
               (case flush_files io canon_root (ba_contents b) (ba_order b) d of
                  (Inl err, d') \<Rightarrow> (Inl err, d')
                | (Inr _, d') \<Rightarrow>
                    (Inr \<lparr>ar_applied = ba_order b,
                      ar_snapshots = map (\<lambda>rel. (case ba_old b rel of Some t \<Rightarrow> t | None \<Rightarrow> [],
                        case ba_contents b rel of Some t \<Rightarrow> t | None \<Rightarrow> [])) (ba_order b),
                      ar_match_tiers = ba_tiers b\<rparr>, d'))))"

text \<open>What a finished worker's edits come to: its outcome, the files that changed, and the disk.\<close>

definition apply_write_directive_edits ::
    "(rstr \<Rightarrow> rstr \<Rightarrow> rat) \<Rightarrow> edit_io \<Rightarrow> path option \<Rightarrow> directive \<Rightarrow> outcome \<Rightarrow> disk \<Rightarrow> outcome \<times> rstr list \<times> disk" where
  "apply_write_directive_edits R io project_root dv oc d =
     (if oc_edits oc = [] then
        (if dv_write dv \<and> dv_write_mode dv \<noteq> AgenticIterative \<and> oc_status oc = Done then oc\<lparr>oc_files_touched := []\<rparr> else oc, [], d)
      else if \<not> dv_write dv \<or> oc_status oc \<noteq> Done then (oc\<lparr>oc_edits := []\<rparr>, [], d)
      else case project_root of
        None \<Rightarrow> (outcome_failed (lit ''write directive finished without a resolvable project root''), [], d)
      | Some base \<Rightarrow>
          (case apply_emitted_edits R io base (dv_files dv) (oc_edits oc) d of
             (Inr r, d') \<Rightarrow> (oc\<lparr>oc_edits := [], oc_files_touched := ar_applied r\<rparr>, ar_applied r, d')
           | (Inl _, d') \<Rightarrow> (outcome_failed (lit ''emitted edits rejected''), [], d')))"

end
