(* ===== verification/Executor.thy ===== *)
theory Executor
  imports MiniEdit
begin

text \<open>
  The executor that runs the worker directives, \<open>backend/mini_coder_executor.rs\<close>: one thread that makes a pass every
  tick, and the Stop and steer commands of the user; and the other writers of the queue, \<open>main_coder.rs\<close> and the tools of
  \<open>devboule-mcp/src/tools/mini_coder.rs\<close>. Each critical section under the lock of the agents document is a function on the
  state; \<open>fleet_step\<close> interleaves them. \<open>ExecutorLaws\<close> states what is proved.
\<close>

section \<open>The shared state\<close>

text \<open>What the executor keeps of a session, and the agents document: the queue and the sessions.\<close>

record worker_session =
  ws_agent :: rstr
  ws_role :: rstr
  ws_status :: rstr
  ws_client :: "rstr option"
  ws_message :: "rstr option"
  ws_project :: "rstr option"
  ws_task :: "rstr option"
  ws_first_seen :: "rstr option"
  ws_last_seen :: "rstr option"
  ws_launch_hash :: "rstr option"
  ws_launch_issued :: "rstr option"
  ws_host :: "rstr option"
  ws_parent :: "rstr option"

record live =
  lv_queue :: "directive list"
  lv_sessions :: "worker_session list"

abbreviation has_id :: "rstr \<Rightarrow> directive \<Rightarrow> bool" where "has_id i d \<equiv> dv_id d = i"

definition blank :: "rstr option \<Rightarrow> bool" where
  "blank x \<longleftrightarrow> (case x of None \<Rightarrow> True | Some s \<Rightarrow> trim s = [])"

section \<open>Sessions\<close>

definition short_id :: "rstr \<Rightarrow> rstr \<Rightarrow> rstr" where
  "short_id fallback s = (case take 8 (filter is_alnum s) of [] \<Rightarrow> fallback | t \<Rightarrow> t)"

definition mini_agent_id :: "directive \<Rightarrow> rstr" where
  "mini_agent_id d = lit ''mini-'' @ short_id (lit ''p'') (dv_parent d) @ lit ''-'' @ short_id (lit ''x'') (dv_id d)"

definition upsert_mini_session ::
    "rstr \<Rightarrow> rstr \<Rightarrow> rstr \<Rightarrow> rstr option \<Rightarrow> rstr \<Rightarrow> rstr \<Rightarrow> rstr option \<Rightarrow> directive_tier \<Rightarrow> live \<Rightarrow> live" where
  "upsert_mini_session now agent_id parent_agent_id current_project_id started_at client oracle_token_hash tier lv =
     (let is_main = (tier = Main);
          stamp = (\<lambda>s. case oracle_token_hash of None \<Rightarrow> s
            | Some h \<Rightarrow> s\<lparr>ws_launch_hash := Some h, ws_launch_issued := Some now\<rparr>);
          refresh = (\<lambda>s.
            if ws_status s = lit ''done'' then s
            else let s1 = s\<lparr>ws_status := lit ''active'', ws_parent := Some parent_agent_id\<rparr>;
                     s2 = (if is_main then stamp (s1\<lparr>ws_role := lit ''coder'', ws_message := Some (lit ''Main coder running'')\<rparr>)
                       else if oracle_token_hash \<noteq> None then stamp (s1\<lparr>ws_role := lit ''mini''\<rparr>) else s1);
                     s3 = (if current_project_id \<noteq> None then s2\<lparr>ws_project := current_project_id\<rparr> else s2)
                 in s3\<lparr>ws_last_seen := Some now\<rparr>)
      in if \<exists>s \<in> set (lv_sessions lv). ws_agent s = agent_id
         then lv\<lparr>lv_sessions := update_first (\<lambda>s. ws_agent s = agent_id) refresh (lv_sessions lv)\<rparr>
         else lv\<lparr>lv_sessions := lv_sessions lv @
           [\<lparr>ws_agent = agent_id, ws_role = (if oracle_token_hash \<noteq> None \<and> \<not> is_main then lit ''mini'' else lit ''coder''),
             ws_status = lit ''active'', ws_client = Some client,
             ws_message = Some (if is_main then lit ''Main coder running'' else lit ''Mini-coder running''),
             ws_project = current_project_id, ws_task = None, ws_first_seen = Some started_at, ws_last_seen = Some started_at,
             ws_launch_hash = oracle_token_hash, ws_launch_issued = map_option (\<lambda>_. now) oracle_token_hash,
             ws_host = Some (lit ''app''), ws_parent = Some parent_agent_id\<rparr>]\<rparr>)"

definition close_mini_session :: "rstr \<Rightarrow> live \<Rightarrow> live" where
  "close_mini_session agent_id lv =
     lv\<lparr>lv_sessions := update_first (\<lambda>s. ws_agent s = agent_id)
       (\<lambda>s. s\<lparr>ws_status := lit ''done'', ws_launch_hash := None, ws_launch_issued := None\<rparr>) (lv_sessions lv)\<rparr>"

definition close_known :: "rstr option \<Rightarrow> live \<Rightarrow> live" where
  "close_known agent_id lv = (case agent_id of None \<Rightarrow> lv | Some aid \<Rightarrow> close_mini_session aid lv)"

definition parent_is_gone :: "live \<Rightarrow> rstr \<Rightarrow> bool" where
  "parent_is_gone lv parent_agent_id =
     (case List.find (\<lambda>s. ws_agent s = parent_agent_id) (lv_sessions lv) of
        Some s \<Rightarrow> eq_ignore_case (trim (ws_status s)) (lit ''closed'')
      | None \<Rightarrow> True)"

definition APP_USER_PARENT :: rstr where "APP_USER_PARENT = lit ''app-user''"

definition is_app_authored :: "directive \<Rightarrow> bool" where
  "is_app_authored d \<longleftrightarrow> dv_parent d = APP_USER_PARENT \<and> \<not> blank (dv_project d)"

definition directive_project :: "live \<Rightarrow> directive \<Rightarrow> rstr option" where
  "directive_project snapshot d =
     (if is_app_authored d then dv_project d
      else Option.bind (List.find (\<lambda>s. ws_agent s = dv_parent d) (lv_sessions snapshot)) ws_project)"

definition directive_parent_gone :: "live \<Rightarrow> directive \<Rightarrow> bool" where
  "directive_parent_gone snapshot d \<longleftrightarrow> \<not> is_app_authored d \<and> parent_is_gone snapshot (dv_parent d)"

section \<open>Critical sections of the executor\<close>

definition transition_directive :: "rstr \<Rightarrow> (directive \<Rightarrow> rstr + directive) \<Rightarrow> live \<Rightarrow> live" where
  "transition_directive i apply lv =
     lv\<lparr>lv_queue := update_first (has_id i) (\<lambda>d. case apply d of Inr next \<Rightarrow> next | Inl _ \<Rightarrow> d) (lv_queue lv)\<rparr>"

definition cap_pass_protecting :: "rstr list \<Rightarrow> live \<Rightarrow> live" where
  "cap_pass_protecting protect lv = lv\<lparr>lv_queue := cap_directives_protecting MAX_DIRECTIVES protect (lv_queue lv)\<rparr>"

definition cap_pass :: "live \<Rightarrow> live" where
  "cap_pass lv = lv\<lparr>lv_queue := cap_directives MAX_DIRECTIVES (lv_queue lv)\<rparr>"

text \<open>The three reaps: the live directive ends as aborted if it was stopped, otherwise as told; its session is closed.\<close>

definition reap :: "(directive \<Rightarrow> rstr + directive) \<Rightarrow> directive \<Rightarrow> live \<Rightarrow> live" where
  "reap apply d lv =
     cap_pass_protecting [dv_id d] (close_known (dv_agent d)
       (transition_directive (dv_id d)
         (\<lambda>live. if dv_kill live then apply_aborted live (lit ''stopped by human (Stop button)'') else apply live) lv))"

definition reap_timeout :: "directive \<Rightarrow> live \<Rightarrow> live" where
  "reap_timeout = reap (\<lambda>live. apply_timeout live (lit ''wall-clock cap exceeded''))"

definition reap_stuck :: "directive \<Rightarrow> live \<Rightarrow> live" where
  "reap_stuck = reap (\<lambda>live. apply_failed live (lit ''launch did not complete (stuck launching)''))"

definition reap_parent_gone :: "directive \<Rightarrow> live \<Rightarrow> live" where
  "reap_parent_gone = reap (\<lambda>live. apply_failed live (lit ''parent coder is gone''))"

text \<open>The claim, under the lock: whether it was won, and the state.\<close>

definition claim_directive :: "mini_host \<Rightarrow> rstr \<Rightarrow> rstr \<Rightarrow> live \<Rightarrow> bool \<times> live" where
  "claim_directive H claimed_at i lv =
     (case List.find (has_id i) (lv_queue lv) of
        None \<Rightarrow> (False, cap_pass lv)
      | Some candidate \<Rightarrow>
          if dv_status candidate \<noteq> Pending then (False, cap_pass lv)
          else if \<not> files_disjoint_from_active H candidate (lv_queue lv) then (False, cap_pass lv)
          else case apply_claim candidate claimed_at of
            Inr next \<Rightarrow> (True, cap_pass (lv\<lparr>lv_queue := update_first (has_id i) (\<lambda>_. next) (lv_queue lv)\<rparr>))
          | Inl _ \<Rightarrow> (False, cap_pass lv))"

definition fail_launching :: "rstr \<Rightarrow> rstr \<Rightarrow> live \<Rightarrow> live" where
  "fail_launching i reason lv =
     (let oc = outcome_failed reason;
          session_ids = (case List.find (has_id i) (lv_queue lv) of None \<Rightarrow> []
            | Some d \<Rightarrow> mini_agent_id d # (case dv_agent d of Some a \<Rightarrow> [a] | None \<Rightarrow> []))
      in fold close_mini_session session_ids
           (lv\<lparr>lv_queue := update_first (has_id i) (\<lambda>d. d\<lparr>dv_status := oc_status oc, dv_result := Some oc\<rparr>) (lv_queue lv)\<rparr>))"

text \<open>What a successful launch brings: the scratch folder, the backend's label, a token's hash, a task of the parent.\<close>

record launched =
  ln_scratch :: rstr
  ln_client :: rstr
  ln_hash :: "rstr option"
  ln_parent_task :: "rstr option"

definition inherited_task :: "directive \<Rightarrow> rstr option \<Rightarrow> rstr option" where
  "inherited_task d parent_task =
     (if dv_tier d \<noteq> Main \<or> \<not> blank (dv_task_id d) then None else if blank parent_task then None else parent_task)"

definition session_before_launch :: "rstr \<Rightarrow> rstr \<Rightarrow> directive \<Rightarrow> rstr \<Rightarrow> launched \<Rightarrow> live \<Rightarrow> live" where
  "session_before_launch now pre_started d project_id l lv =
     (case ln_hash l of None \<Rightarrow> lv
      | Some h \<Rightarrow> upsert_mini_session now (mini_agent_id d) (dv_parent d) (Some project_id) pre_started (ln_client l) (Some h) (dv_tier d) lv)"

definition launched_section :: "rstr \<Rightarrow> rstr \<Rightarrow> directive \<Rightarrow> rstr \<Rightarrow> launched \<Rightarrow> live \<Rightarrow> live" where
  "launched_section now started_at d project_id l lv =
     (let nest_id = mini_agent_id d;
          inherited = inherited_task d (ln_parent_task l);
          session_task = (if blank (dv_task_id d) then inherited else dv_task_id d);
          lv1 = transition_directive (dv_id d) (\<lambda>live. bindE (apply_launched live nest_id started_at) (\<lambda>next.
            Inr (next\<lparr>dv_scratch := Some (ln_scratch l),
              dv_task_id := (if blank (dv_task_id next) \<and> inherited \<noteq> None then inherited else dv_task_id next)\<rparr>))) lv;
          lv2 = upsert_mini_session now nest_id (dv_parent d) (Some project_id) started_at (ln_client l) (ln_hash l) (dv_tier d) lv1;
          lv3 = (case session_task of None \<Rightarrow> lv2
            | Some t \<Rightarrow> lv2\<lparr>lv_sessions := update_first (\<lambda>s. ws_agent s = nest_id) (\<lambda>s. s\<lparr>ws_task := Some t\<rparr>) (lv_sessions lv2)\<rparr>)
      in cap_pass lv3)"

text \<open>The result of a worker whose process has ended, and the last write of its pass.\<close>

definition read_result_outcome :: "mini_host \<Rightarrow> result_io \<Rightarrow> path \<Rightarrow> rstr \<Rightarrow> outcome" where
  "read_result_outcome H io scratch_root result_rel_path =
     (case ri_canonical io scratch_root of
        None \<Rightarrow> outcome_failed (lit ''scratch root unresolved'')
      | Some canon_root \<Rightarrow> (case ri_canonical io (join_rel scratch_root (replace1 92 [47] result_rel_path)) of
          None \<Rightarrow> outcome_failed (lit ''result file missing or unresolved'')
        | Some canon_target \<Rightarrow>
            if \<not> inside canon_root canon_target then outcome_failed (lit ''result file escapes scratch root (symlink)'')
            else read_result_file H io scratch_root result_rel_path))"

definition finalize_outcome :: "mini_host \<Rightarrow> result_io \<Rightarrow> (rstr \<Rightarrow> path) \<Rightarrow> directive \<Rightarrow> outcome" where
  "finalize_outcome H io to_path d =
     (if dv_kill d then outcome_aborted (lit ''stopped by human (Stop button)'')
      else case dv_scratch d of
        Some p \<Rightarrow> if trim p \<noteq> [] then read_result_outcome H io (to_path p) (dv_result_path d)
          else outcome_failed (lit ''missing persisted scratch path'')
      | None \<Rightarrow> outcome_failed (lit ''missing persisted scratch path''))"

definition finalize_section :: "directive \<Rightarrow> outcome \<Rightarrow> live \<Rightarrow> live" where
  "finalize_section d oc lv =
     (let session_close_id = (case dv_agent d of Some a \<Rightarrow> a | None \<Rightarrow> mini_agent_id d);
          lv1 = close_mini_session session_close_id
            (lv\<lparr>lv_queue := update_first (has_id (dv_id d)) (\<lambda>live. live\<lparr>dv_status := oc_status oc, dv_result := Some oc\<rparr>) (lv_queue lv)\<rparr>)
      in if mini_agent_id d \<noteq> session_close_id then close_mini_session (mini_agent_id d) lv1 else lv1)"

definition sweep_orphaned_launching :: "(rstr \<Rightarrow> bool) \<Rightarrow> live \<Rightarrow> live \<Rightarrow> live" where
  "sweep_orphaned_launching pty_exists snapshot lv =
     (let stuck_ids = map dv_id (filter (\<lambda>d. dv_status d = Launching \<and>
            (case dv_agent d of None \<Rightarrow> True | Some a \<Rightarrow> \<not> pty_exists a)) (lv_queue snapshot))
      in if stuck_ids = [] then lv
         else cap_pass (fold (\<lambda>i. transition_directive i (\<lambda>d. apply_failed d (lit ''launch orphaned by app restart''))) stuck_ids lv))"

section \<open>Stop and steer\<close>

definition in_chain :: "rstr \<Rightarrow> directive \<Rightarrow> bool" where
  "in_chain first d \<longleftrightarrow> dv_id d = first \<or> dv_parent_directive d = Some first"

definition kill_chain :: "rstr \<Rightarrow> directive list \<Rightarrow> directive list" where
  "kill_chain first = map (\<lambda>d. if in_chain first d \<and> \<not> terminal d then d\<lparr>dv_kill := True\<rparr> else d)"

definition mark_kill_requested :: "rstr \<Rightarrow> live \<Rightarrow> rstr option \<times> live" where
  "mark_kill_requested agent_id lv =
     (case List.find (\<lambda>d. dv_agent d = Some agent_id) (lv_queue lv) of
        None \<Rightarrow> (None, lv)
      | Some matched \<Rightarrow>
          if terminal matched then (None, lv)
          else let ds = kill_chain (dv_id matched) (lv_queue lv);
                   live_pty = List.find (\<lambda>d. dv_agent d \<noteq> None) (filter (\<lambda>d. in_chain (dv_id matched) d \<and> active d) ds)
               in (Some (case Option.bind live_pty dv_agent of Some a \<Rightarrow> a | None \<Rightarrow> agent_id), lv\<lparr>lv_queue := ds\<rparr>))"

definition mini_coder_kill :: "rstr \<Rightarrow> live \<Rightarrow> rstr option \<times> live" where
  "mini_coder_kill agent_id lv = (case mark_kill_requested agent_id lv of (target, lv1) \<Rightarrow> (target, cap_pass lv1))"

datatype steer_outcome = Queued "rstr option" nat | Stopped "rstr option" | QueueFull nat | NoOp

text \<open>The position of the last maximum, as \<open>max_by_key\<close> finds it.\<close>

fun last_max :: "('a \<Rightarrow> 'k :: linorder) \<Rightarrow> 'a list \<Rightarrow> 'a option" where
  "last_max key [] = None"
| "last_max key (x # xs) = (case last_max key xs of None \<Rightarrow> Some x | Some y \<Rightarrow> if key x > key y then Some x else Some y)"

definition steer_target :: "rstr \<Rightarrow> directive list \<Rightarrow> nat option" where
  "steer_target first ds =
     (case List.find (\<lambda>i. in_chain first (ds ! i) \<and> active (ds ! i)) [0..<length ds] of
        Some i \<Rightarrow> Some i
      | None \<Rightarrow> last_max (\<lambda>i. dv_attempt (ds ! i)) (filter (\<lambda>i. in_chain first (ds ! i) \<and> \<not> terminal (ds ! i)) [0..<length ds]))"

definition mark_steer_requested :: "rstr \<Rightarrow> rstr \<Rightarrow> live \<Rightarrow> steer_outcome \<times> live" where
  "mark_steer_requested agent_id message lv =
     (let trimmed = trim message; ds = lv_queue lv in
      if trimmed = [] then (NoOp, lv)
      else if is_steer_stop trimmed then
        (case mark_kill_requested agent_id lv of (Some a, lv1) \<Rightarrow> (Stopped (Some a), lv1) | (None, lv1) \<Rightarrow> (NoOp, lv1))
      else case List.find (\<lambda>d. dv_agent d = Some agent_id) ds of
        None \<Rightarrow> (NoOp, lv)
      | Some matched \<Rightarrow>
          if terminal matched then (NoOp, lv)
          else case steer_target (dv_id matched) ds of
            None \<Rightarrow> (NoOp, lv)
          | Some i \<Rightarrow>
              if length (dv_steer (ds ! i)) \<ge> MAX_STEER_QUEUE_LEN then (QueueFull (length (dv_steer (ds ! i))), lv)
              else let d = (ds ! i)\<lparr>dv_steer := dv_steer (ds ! i) @ [take MAX_STEER_MESSAGE_LEN trimmed]\<rparr>
                   in (Queued (dv_agent d) (length (dv_steer d)), lv\<lparr>lv_queue := ds[i := d]\<rparr>))"

definition mini_coder_steer :: "rstr \<Rightarrow> rstr \<Rightarrow> live \<Rightarrow> (rstr + steer_outcome) \<times> live" where
  "mini_coder_steer agent_id message lv =
     (let sanitized = sanitize_steer_message message in
      if sanitized = [] then (Inl (lit ''Steer message is required.''), lv)
      else case mark_steer_requested agent_id (take MAX_STEER_MESSAGE_LEN sanitized) lv of (res, lv1) \<Rightarrow> (Inr res, cap_pass lv1))"

section \<open>The other writers of the queue\<close>

text \<open>\<open>append_main_coder_directive\<close>, after its validation: the directive of the app and its place in the queue.\<close>

definition main_directive :: "rstr \<Rightarrow> rstr \<Rightarrow> rstr \<Rightarrow> rstr list \<Rightarrow> rstr option \<Rightarrow> rstr \<Rightarrow> directive" where
  "main_directive i project_id task fs task_id now =
     \<lparr>dv_id = i, dv_parent = APP_USER_PARENT, dv_status = Pending, dv_task = task, dv_files = fs, dv_write = True,
       dv_write_mode = AgenticIterative, dv_tier = Main, dv_project = Some project_id,
       dv_task_id = (if blank task_id then None else map_option trim task_id), dv_backend = None, dv_allow_oracle = False,
       dv_kill = False, dv_steer = [], dv_result_path = i @ lit ''.json'', dv_agent = None, dv_created = now, dv_claimed = None,
       dv_scratch = None, dv_started = None, dv_result = None, dv_attempt = 0, dv_parent_directive = None, dv_ticket = None,
       dv_collected = None\<rparr>"

definition append_main_coder_directive :: "directive \<Rightarrow> live \<Rightarrow> live" where
  "append_main_coder_directive d lv = cap_pass (lv\<lparr>lv_queue := lv_queue lv @ [d]\<rparr>)"

text \<open>The tools of the MCP server write the same rows as JSON; here they are rows.\<close>

definition MAX_NON_TERMINAL_PER_PARENT :: nat where "MAX_NON_TERMINAL_PER_PARENT = 16"

definition cap_mini_coder_directives :: "directive list \<Rightarrow> directive list" where
  "cap_mini_coder_directives ds =
     (let drop_count = length ds - MAX_DIRECTIVES;
          ended = filter terminal ds;
          collected = sort_key queue_order (filter (\<lambda>d. dv_collected d = Some True) ended);
          uncollected = sort_key queue_order (filter (\<lambda>d. dv_collected d \<noteq> Some True) ended);
          drop_ids = set (map dv_id (take drop_count (collected @ uncollected)))
      in if length ds \<le> MAX_DIRECTIVES \<or> ended = [] then ds else filter (\<lambda>d. dv_id d \<notin> drop_ids) ds)"

datatype spawn_refusal = NoLiveParent | OnDraft | QueueFlooded | ParentFlooded

definition parent_is_live :: "live \<Rightarrow> rstr \<Rightarrow> bool" where
  "parent_is_live lv a =
     (case List.find (\<lambda>s. ws_agent s = a) (lv_sessions lv) of None \<Rightarrow> False
      | Some s \<Rightarrow> trim (ws_status s) \<noteq> [] \<and> \<not> eq_ignore_case (trim (ws_status s)) (lit ''closed'') \<and>
          \<not> eq_ignore_case (trim (ws_status s)) (lit ''launch_pending''))"

record spawn_request =
  sp_id :: rstr
  sp_agent :: rstr
  sp_task :: rstr
  sp_files :: "rstr list"
  sp_backend :: "rstr option"
  sp_oracle :: bool
  sp_write :: bool
  sp_mode :: write_mode
  sp_tier :: directive_tier
  sp_task_id :: "rstr option"
  sp_created :: rstr

definition spawn_directive :: "spawn_request \<Rightarrow> directive" where
  "spawn_directive r =
     \<lparr>dv_id = sp_id r, dv_parent = sp_agent r, dv_status = Pending, dv_task = sp_task r, dv_files = sp_files r, dv_write = sp_write r,
       dv_write_mode = sp_mode r, dv_tier = sp_tier r, dv_project = None, dv_task_id = sp_task_id r, dv_backend = sp_backend r,
       dv_allow_oracle = sp_oracle r, dv_kill = False, dv_steer = [], dv_result_path = sp_id r @ lit ''.json'', dv_agent = None,
       dv_created = sp_created r, dv_claimed = None, dv_scratch = None, dv_started = None, dv_result = None, dv_attempt = 0,
       dv_parent_directive = None, dv_ticket = None, dv_collected = None\<rparr>"

text \<open>The critical section of \<open>dispatch_spawn_mini_coder\<close>; whether the session's project is a draft is given.\<close>

definition spawn_section :: "bool \<Rightarrow> spawn_request \<Rightarrow> live \<Rightarrow> spawn_refusal + live" where
  "spawn_section on_draft r lv =
     (let open_rows = filter (\<lambda>d. \<not> terminal d) (lv_queue lv) in
      if \<not> parent_is_live lv (sp_agent r) then Inl NoLiveParent
      else if on_draft then Inl OnDraft
      else if length open_rows \<ge> MAX_DIRECTIVES then Inl QueueFlooded
      else if length (filter (\<lambda>d. dv_parent d = sp_agent r) open_rows) \<ge> MAX_NON_TERMINAL_PER_PARENT then Inl ParentFlooded
      else Inr (lv\<lparr>lv_queue := cap_mini_coder_directives (lv_queue lv @ [spawn_directive r])\<rparr>))"

text \<open>The stamp of \<open>await_mini_directive\<close> when its poll has run out.\<close>

definition await_stamp :: "rstr \<Rightarrow> live \<Rightarrow> live" where
  "await_stamp i lv = lv\<lparr>lv_queue := update_first (has_id i)
     (\<lambda>d. if dv_result d \<noteq> None \<or> terminal d then d
       else let oc = (if dv_kill d then outcome_aborted (lit ''stopped by human (Stop button)'')
             else if dv_status d = Running \<or> dv_status d = Launching then outcome_timeout (lit ''poll timed out'')
             else outcome_failed (lit ''executor did not start this mini within the poll window.''))
            in d\<lparr>dv_status := oc_status oc, dv_result := Some oc\<rparr>) (lv_queue lv)\<rparr>"

definition stamp_collected :: "rstr \<Rightarrow> live \<Rightarrow> live" where
  "stamp_collected i lv = lv\<lparr>lv_queue := update_first (has_id i) (\<lambda>d. d\<lparr>dv_collected := Some True\<rparr>) (lv_queue lv)\<rparr>"

definition MINI_CHAIN_MAX_DEPTH :: nat where "MINI_CHAIN_MAX_DEPTH = 256"

text \<open>The climb to the root of a retry chain, with the steps that are left.\<close>

fun climb_to_root :: "(rstr \<Rightarrow> directive option) \<Rightarrow> nat \<Rightarrow> rstr set \<Rightarrow> directive \<Rightarrow> directive" where
  "climb_to_root by_id 0 seen node = node"
| "climb_to_root by_id (Suc n) seen node =
     (if dv_id node \<in> seen then node
      else case dv_parent_directive node of None \<Rightarrow> node
        | Some p \<Rightarrow> if trim p = [] then node
            else case by_id (trim p) of None \<Rightarrow> node | Some parent \<Rightarrow> climb_to_root by_id n (insert (dv_id node) seen) parent)"

definition resolve_mini_root_directive :: "directive list \<Rightarrow> rstr \<Rightarrow> directive option" where
  "resolve_mini_root_directive ds i =
     (let by_id = map_of (rev (map (\<lambda>d. (dv_id d, d)) ds)) in
      map_option (climb_to_root by_id MINI_CHAIN_MAX_DEPTH {}) (by_id i))"

datatype steer_reply = NotFound | NotOwner | AlreadyTerminal | SteerStopped | SteerQueueFull nat | SteerQueued nat

text \<open>\<open>steer_mini_coder\<close>, after the check of its message.\<close>

definition steer_section :: "rstr \<Rightarrow> rstr \<Rightarrow> rstr \<Rightarrow> live \<Rightarrow> steer_reply \<times> live" where
  "steer_section agent_id i message lv =
     (let ds = lv_queue lv;
          chain = filter (\<lambda>k. in_chain i (ds ! k)) [0..<length ds];
          owner = (case resolve_mini_root_directive ds i of None \<Rightarrow> [] | Some r \<Rightarrow> dv_parent r);
          is_open = (\<lambda>k. \<not> terminal (ds ! k));
          target = (case List.find is_open chain of Some k \<Rightarrow> k
            | None \<Rightarrow> (case List.find (\<lambda>k. dv_id (ds ! k) = i) chain of Some k \<Rightarrow> k | None \<Rightarrow> hd chain))
      in if chain = [] then (NotFound, lv)
         else if owner \<noteq> agent_id then (NotOwner, lv)
         else if list_all (\<lambda>k. terminal (ds ! k)) chain then (AlreadyTerminal, lv)
         else if is_steer_stop message then (SteerStopped, lv\<lparr>lv_queue := kill_chain i ds\<rparr>)
         else if length (dv_steer (ds ! target)) \<ge> MAX_STEER_QUEUE_LEN then (SteerQueueFull (length (dv_steer (ds ! target))), lv)
         else (SteerQueued (Suc (length (dv_steer (ds ! target)))),
           lv\<lparr>lv_queue := ds[target := (ds ! target)\<lparr>dv_steer := dv_steer (ds ! target) @ [message]\<rparr>]\<rparr>))"

section \<open>A pass, and the fleet\<close>

text \<open>
  What a pass has left to do, each with the directive as the pass's snapshot has it: to reap, to look at a running one (and
  whether its parent was gone), to claim one, with the project of its parent, and to launch one that was claimed.
\<close>

datatype job = ReapTimeout directive | ReapStuck directive | Inspect directive bool | ClaimJob directive "rstr option"
  | LaunchJob directive "rstr option"

definition found :: "directive list \<Rightarrow> rstr list \<Rightarrow> directive list" where
  "found ds ids = List.map_filter (\<lambda>i. List.find (has_id i) ds) ids"

definition pass_jobs :: "live \<Rightarrow> tick_plan \<Rightarrow> job list" where
  "pass_jobs snapshot plan =
     (let ds = lv_queue snapshot in
      map ReapTimeout (found ds (tp_timeouts plan)) @ map ReapStuck (found ds (tp_stuck plan)) @
      map (\<lambda>d. Inspect d (directive_parent_gone snapshot d))
        (filter (\<lambda>d. dv_status d = Running \<and> dv_id d \<notin> set (tp_timeouts plan) \<and> dv_agent d \<noteq> None) ds) @
      map (\<lambda>d. ClaimJob d (directive_project snapshot d)) (found ds (tp_claims plan)))"

definition run_pass_jobs :: "mini_host \<Rightarrow> rstr \<Rightarrow> 8 word option \<Rightarrow> rstr set \<Rightarrow> live \<Rightarrow> job list" where
  "run_pass_jobs H now configured inflight snapshot =
     (if lv_queue snapshot = [] then []
      else pass_jobs snapshot (plan_tick H (lv_queue snapshot) now DEFAULT_WALL_CLOCK_CAP_SECS DEFAULT_RETRY_WALL_CLOCK_CAP_SECS
        DEFAULT_LAUNCH_CAP_SECS (effective_max_concurrent configured) inflight))"

definition launchable :: "mini_host \<Rightarrow> directive \<Rightarrow> rstr option \<Rightarrow> bool" where
  "launchable H d project \<longleftrightarrow> \<not> blank project \<and> validate_result_rel_path H (dv_result_path d) = Inr ()"

text \<open>The folder that a worker's edits go to: the parent of its scratch folder.\<close>

definition apply_root :: "(rstr \<Rightarrow> path) \<Rightarrow> directive \<Rightarrow> path option" where
  "apply_root to_path d =
     (case dv_scratch d of None \<Rightarrow> None
      | Some p \<Rightarrow> if trim p = [] then None else if to_path p = [] then None else Some (butlast (to_path p)))"

record fleet =
  fl_live :: live
  fl_todo :: "job list"

text \<open>A step of the executor, or of another writer. Where the executor looks at processes or at a later snapshot, both answers are steps.
  The ids of new directives are random, and new.\<close>

inductive fleet_step :: "mini_host \<Rightarrow> fleet \<Rightarrow> fleet \<Rightarrow> bool" for H where
  pass: "fleet_step H \<lparr>fl_live = lv, fl_todo = []\<rparr> \<lparr>fl_live = lv, fl_todo = run_pass_jobs H now configured inflight lv\<rparr>"
| timeout: "fleet_step H \<lparr>fl_live = lv, fl_todo = ReapTimeout d # js\<rparr> \<lparr>fl_live = reap_timeout d lv, fl_todo = js\<rparr>"
| stuck: "fleet_step H \<lparr>fl_live = lv, fl_todo = ReapStuck d # js\<rparr> \<lparr>fl_live = reap_stuck d lv, fl_todo = js\<rparr>"
| gone: "fleet_step H \<lparr>fl_live = lv, fl_todo = Inspect d True # js\<rparr> \<lparr>fl_live = reap_parent_gone d lv, fl_todo = js\<rparr>"
| working: "fleet_step H \<lparr>fl_live = lv, fl_todo = Inspect d g # js\<rparr> \<lparr>fl_live = lv, fl_todo = js\<rparr>"
| ended: "apply_write_directive_edits R eio (apply_root to_path d) d (finalize_outcome H rio to_path d) disk = (oc, touched, disk') \<Longrightarrow>
    fleet_step H \<lparr>fl_live = lv, fl_todo = Inspect d g # js\<rparr> \<lparr>fl_live = finalize_section d oc lv, fl_todo = js\<rparr>"
| claim: "claim_directive H now (dv_id d) lv = (won, lv') \<Longrightarrow>
    fleet_step H \<lparr>fl_live = lv, fl_todo = ClaimJob d p # js\<rparr> \<lparr>fl_live = lv', fl_todo = (if won then LaunchJob d p # js else js)\<rparr>"
| refused: "fleet_step H \<lparr>fl_live = lv, fl_todo = LaunchJob d p # js\<rparr> \<lparr>fl_live = fail_launching (dv_id d) reason lv, fl_todo = js\<rparr>"
| granted: "launchable H d (Some p) \<Longrightarrow>
    fleet_step H \<lparr>fl_live = lv, fl_todo = LaunchJob d (Some p) # js\<rparr>
      \<lparr>fl_live = session_before_launch now pre_started d p l lv, fl_todo = LaunchJob d (Some p) # js\<rparr>"
| launched: "launchable H d (Some p) \<Longrightarrow>
    fleet_step H \<lparr>fl_live = lv, fl_todo = LaunchJob d (Some p) # js\<rparr> \<lparr>fl_live = launched_section now started d p l lv, fl_todo = js\<rparr>"
| stop: "fleet_step H \<lparr>fl_live = lv, fl_todo = js\<rparr> \<lparr>fl_live = snd (mini_coder_kill a lv), fl_todo = js\<rparr>"
| steer: "fleet_step H \<lparr>fl_live = lv, fl_todo = js\<rparr> \<lparr>fl_live = snd (mini_coder_steer a m lv), fl_todo = js\<rparr>"
| append: "i \<notin> dv_id ` set (lv_queue lv) \<Longrightarrow> fleet_step H \<lparr>fl_live = lv, fl_todo = js\<rparr>
    \<lparr>fl_live = append_main_coder_directive (main_directive i project task fs task_id now) lv, fl_todo = js\<rparr>"
| spawn: "sp_id r \<notin> dv_id ` set (lv_queue lv) \<Longrightarrow> spawn_section draft r lv = Inr lv' \<Longrightarrow> fleet_step H \<lparr>fl_live = lv, fl_todo = js\<rparr> \<lparr>fl_live = lv', fl_todo = js\<rparr>"
| await: "fleet_step H \<lparr>fl_live = lv, fl_todo = js\<rparr> \<lparr>fl_live = await_stamp i lv, fl_todo = js\<rparr>"
| collect: "fleet_step H \<lparr>fl_live = lv, fl_todo = js\<rparr> \<lparr>fl_live = stamp_collected i lv, fl_todo = js\<rparr>"
| tool_steer: "fleet_step H \<lparr>fl_live = lv, fl_todo = js\<rparr> \<lparr>fl_live = snd (steer_section a i m lv), fl_todo = js\<rparr>"
| restart: "fleet_step H \<lparr>fl_live = lv, fl_todo = js\<rparr> \<lparr>fl_live = sweep_orphaned_launching pty lv0 lv, fl_todo = []\<rparr>"

end
