(* ===== verification/MiniEditLaws.thy ===== *)
theory MiniEditLaws
  imports MiniEdit
begin

text \<open>
  What is proved of the edits of \<open>MiniEdit\<close>: which span each tier finds; that a batch writes only to allowlisted files
  under the project, and nothing if it is rejected; that it does to every file what its edits do one after the other; and
  what a worker's outcome says of it.
\<close>

section \<open>Occurrences\<close>

lemma starts_with_Nil: "p \<noteq> [] \<Longrightarrow> \<not> starts_with [] p"
  by (simp add: starts_with_def)

lemma find_sub_Some:
  "find_sub p s = Some i \<Longrightarrow> starts_with (drop i s) p \<and> (\<forall>j < i. \<not> starts_with (drop j s) p)"
proof (induction p s arbitrary: i rule: find_sub.induct)
  case (1 p)
  then show ?case by (simp add: starts_with_def split: if_splits)
next
  case (2 p c cs)
  show ?case
  proof (cases "starts_with (c # cs) p")
    case False
    with "2.prems" obtain k where "i = Suc k" "find_sub p cs = Some k" by auto
    then show ?thesis using "2.IH" [OF False] False by (auto simp: less_Suc_eq_0_disj)
  qed (use "2.prems" in simp)
qed

lemma find_sub_None: "find_sub p s = None \<Longrightarrow> \<not> starts_with (drop j s) p"
proof (induction p s arbitrary: j rule: find_sub.induct)
  case (1 p)
  then show ?case by (simp add: starts_with_def split: if_splits)
next
  case (2 p c cs)
  then show ?case by (cases j) (auto split: if_splits)
qed

lemma count_matches_drop: "count_matches p k s = count_matches p 0 (drop k s)"
  by (induction p k s rule: count_matches.induct) auto

lemma count_matches_Cons:
  "count_matches p 0 (c # cs) = (if starts_with (c # cs) p then Suc (count_matches p 0 (drop (length p - 1) cs)) else count_matches p 0 cs)"
  using count_matches_drop [of p "length p - 1" cs] by simp

lemma count_matches_0: "p \<noteq> [] \<Longrightarrow> count_matches p 0 s = 0 \<Longrightarrow> \<not> starts_with (drop j s) p"
proof (induction s arbitrary: j)
  case Nil
  then show ?case by (simp add: starts_with_Nil)
next
  case (Cons c cs)
  then show ?case by (cases j) (auto split: if_splits)
qed

lemma count_matches_1:
  assumes "p \<noteq> []" and "count_matches p 0 s = 1"
  obtains i where "find_sub p s = Some i" and "\<And>j. starts_with (drop j s) p \<Longrightarrow> i \<le> j \<and> j < i + length p"
  using assms
proof (induction s arbitrary: thesis)
  case (Cons c cs)
  show ?case
  proof (cases "starts_with (c # cs) p")
    case True
    then have "count_matches p 0 (drop (length p - 1) cs) = 0" using Cons.prems(3) by (simp add: count_matches_Cons del: count_matches.simps)
    moreover have "drop (length p) (c # cs) = drop (length p - 1) cs" using Cons.prems(2) by (cases "length p") auto
    ultimately have later: "\<not> starts_with (drop j (drop (length p) (c # cs))) p" for j
      using count_matches_0 [OF Cons.prems(2)] by metis
    have "j < length p" if "starts_with (drop j (c # cs)) p" for j
    proof (rule ccontr)
      assume "\<not> j < length p"
      then show False using later [of "j - length p"] that by simp
    qed
    with True show ?thesis by (intro Cons.prems(1) [of 0]) auto
  next
    case False
    then have "count_matches p 0 cs = 1" using Cons.prems(3) by simp
    then obtain i where i: "find_sub p cs = Some i" "\<And>j. starts_with (drop j cs) p \<Longrightarrow> i \<le> j \<and> j < i + length p"
      using Cons.IH Cons.prems(2) by blast
    have "Suc i \<le> j \<and> j < Suc i + length p" if "starts_with (drop j (c # cs)) p" for j
      using that False i(2) [of "j - 1"] by (cases j) auto
    with i(1) False show ?thesis by (intro Cons.prems(1) [of "Suc i"]) auto
  qed
qed simp

text \<open>The count misses overlaps: an anchor may occur twice and count as one.\<close>

lemma overlapping_anchor_accepted:
  "locate_edit_span R (lit ''aaa'') (lit ''aa'') = Inr ((0, 2), Exact)" and "starts_with (drop 1 (lit ''aaa'')) (lit ''aa'')"
  by (simp_all add: locate_edit_span_def lit_def starts_with_def Let_def)

section \<open>Windows\<close>

lemma line_starts: "sorted (line_start_offsets text)" "\<forall>x \<in> set (line_start_offsets text). x \<le> length text"
proof -
  have "sorted (map (\<lambda>i. i + 1) (filter P [0..<n]))" for P and n :: nat
    by (rule sorted_wrt_map_mono [of "(\<le>)"]) (auto intro: sorted_wrt_filter)
  then show "sorted (line_start_offsets text)" by (auto simp: line_start_offsets_def sorted_append)
  show "\<forall>x \<in> set (line_start_offsets text). x \<le> length text" by (auto simp: line_start_offsets_def)
qed

lemma window_bounds:
  assumes "first + w < length (line_start_offsets text)"
  shows "fst (window_span (line_start_offsets text) text first w nl) \<le> snd (window_span (line_start_offsets text) text first w nl) \<and>
    snd (window_span (line_start_offsets text) text first w nl) \<le> length text"
proof -
  let ?s = "line_start_offsets text"
  have "?s ! first \<le> ?s ! (first + w)" using line_starts(1) assms by (intro sorted_nth_mono) auto
  moreover have "?s ! (first + w) \<le> length text" using line_starts(2) assms nth_mem by blast
  ultimately show ?thesis by (auto simp: window_span_def Let_def)
qed

lemma line_windows_bounds:
  assumes "sp \<in> set (line_windows s w nl)"
  shows "fst sp \<le> snd sp \<and> snd sp \<le> length s"
proof -
  let ?n = "length (line_start_offsets s)"
  obtain first where f: "first < ?n - 1 - w + 1" "w \<le> ?n - 1" "sp = window_span (line_start_offsets s) s first w nl"
    using assms unfolding line_windows_def Let_def by (auto simp del: upt_Suc split: if_splits)
  have "0 < ?n" by (simp add: line_start_offsets_def)
  with f(1,2) have "first + w < ?n" by arith
  then show ?thesis unfolding f(3) by (rule window_bounds)
qed

lemma whitespace_scan_Some:
  "whitespace_scan s target hit sps = Some sp \<longleftrightarrow>
     (case hit of None \<Rightarrow> filter (\<lambda>w. normalize_ws_block (slice_of w s) = target) sps = [sp]
      | Some h \<Rightarrow> h = sp \<and> filter (\<lambda>w. normalize_ws_block (slice_of w s) = target) sps = [])"
  by (induction s target hit sps rule: whitespace_scan.induct) (auto split: option.splits)

text \<open>The windows of the second tier.\<close>

definition aligned_windows :: "rstr \<Rightarrow> rstr \<Rightarrow> span list" where
  "aligned_windows s old = (case old_block_shape old of (w, ends_nl) \<Rightarrow> line_windows s w ends_nl)"

lemma aligned_bounds: "sp \<in> set (aligned_windows s old) \<Longrightarrow> fst sp \<le> snd sp \<and> snd sp \<le> length s"
  by (auto simp: aligned_windows_def line_windows_bounds split: prod.splits)

lemma whitespace_span_Some:
  assumes "find_whitespace_span s old = Some sp"
  shows "normalize_ws_block old \<noteq> []"
    and "filter (\<lambda>w. normalize_ws_block (slice_of w s) = normalize_ws_block old) (aligned_windows s old) = [sp]"
  using assms by (auto simp: find_whitespace_span_def aligned_windows_def Let_def whitespace_scan_Some split: prod.splits if_splits)

lemma fuzzy_bounds: "sp \<in> set (fuzzy_windows s old) \<Longrightarrow> fst sp \<le> snd sp \<and> snd sp \<le> length s"
  by (auto simp: fuzzy_windows_def Let_def line_windows_bounds simp del: upt_Suc split: prod.splits)

text \<open>The best window of the third tier scores highest.\<close>

lemma fuzzy_fold:
  assumes "fold (fuzzy_step score) sps st = (Some (r, sp), second)"
    and "\<And>r' sp'. fst st = Some (r', sp') \<Longrightarrow> r' = score sp' \<and> sp' \<in> S"
  shows "r = score sp \<and> sp \<in> S \<union> set sps \<and> (\<forall>w \<in> set sps. score w \<le> r) \<and> (\<forall>r' sp'. fst st = Some (r', sp') \<longrightarrow> r' \<le> r)"
  using assms
proof (induction sps arbitrary: st S)
  case (Cons w sps)
  obtain best sec where st: "st = (best, sec)" by (cases st)
  have step: "\<And>r' sp'. fst (fuzzy_step score w st) = Some (r', sp') \<Longrightarrow> r' = score sp' \<and> sp' \<in> insert w S"
    using Cons.prems(2) by (auto simp: fuzzy_step_def st split: option.splits prod.splits if_splits)
  have "\<exists>r' sp'. fst (fuzzy_step score w st) = Some (r', sp') \<and> score w \<le> r' \<and>
      (\<forall>r'' sp''. best = Some (r'', sp'') \<longrightarrow> r'' \<le> r')"
    by (auto simp: fuzzy_step_def st split: option.splits prod.splits)
  then obtain r' sp' where s': "fst (fuzzy_step score w st) = Some (r', sp')" "score w \<le> r'" "\<And>r'' sp''. best = Some (r'', sp'') \<Longrightarrow> r'' \<le> r'"
    by blast
  have "fold (fuzzy_step score) sps (fuzzy_step score w st) = (Some (r, sp), second)" using Cons.prems(1) by simp
  from Cons.IH [OF this step] have IH: "r = score sp" "sp \<in> insert w S \<union> set sps" "\<forall>w \<in> set sps. score w \<le> r" "r' \<le> r"
    using s'(1) by blast+
  have "r'' \<le> r" if "best = Some (r'', sp'')" for r'' sp'' using s'(3) [OF that] IH(4) by simp
  with IH s'(2) show ?case by (auto simp: st)
qed auto

lemma fuzzy_span_Some:
  assumes "find_fuzzy_span R text old = Some (sp, r)"
  shows "r = R (slice_of sp text) old" and "sp \<in> set (fuzzy_windows text old)" and "r \<ge> FUZZY_MATCH_MIN_RATIO"
    and "\<And>w. w \<in> set (fuzzy_windows text old) \<Longrightarrow> R (slice_of w text) old \<le> r"
proof -
  let ?score = "\<lambda>sp. R (slice_of sp text) old"
  obtain second where f: "fold (fuzzy_step ?score) (fuzzy_windows text old) (None, None) = (Some (r, sp), second)"
    and r: "r \<ge> FUZZY_MATCH_MIN_RATIO"
    using assms by (auto simp: find_fuzzy_span_def split: if_splits prod.splits option.splits)
  from fuzzy_fold [OF f, of "{}"] r show "r = ?score sp" "sp \<in> set (fuzzy_windows text old)" "r \<ge> FUZZY_MATCH_MIN_RATIO"
    "\<And>w. w \<in> set (fuzzy_windows text old) \<Longrightarrow> ?score w \<le> r" by auto
qed

text \<open>
  The third tier can take one of two near ties for the only one: a window that overlaps the best of its time is
  forgotten, also when a better one, from which it is disjoint, comes later.
\<close>

lemma near_tie_forgotten:
  "fold (fuzzy_step (\<lambda>sp. if sp = (0, 3) then 95 / 100 else if sp = (2, 5) then 96 / 100 else 97 / 100)) [(0, 3), (2, 5), (4, 7)] (None, None)
     = (Some (97 / 100, (4, 7)), None)"
  and "\<not> spans_overlap (0, 3) (4, 7)" and "97 / 100 - 95 / 100 < FUZZY_MATCH_MIN_MARGIN"
  by (simp_all add: fuzzy_step_def spans_overlap_def FUZZY_MATCH_MIN_MARGIN_def)

section \<open>Where an edit goes\<close>

text \<open>C24: an edit replaces a text that is in the file: an exact anchor, all of whose occurrences overlap; or, without one, the only
  window of the anchor's lines that equals it up to white space; or a window of ratio 0.92 or more that no other one beats.\<close>

theorem located_span:
  assumes "old \<noteq> []" and "locate_edit_span R s old = Inr (sp, tier)"
  shows "fst sp \<le> snd sp \<and> snd sp \<le> length s \<and>
    (case tier of
       Exact \<Rightarrow> slice_of sp s = old \<and> (\<forall>j. starts_with (drop j s) old \<longrightarrow> fst sp \<le> j \<and> j < snd sp)
     | Whitespace \<Rightarrow> (\<forall>j. \<not> starts_with (drop j s) old) \<and> normalize_ws_block old \<noteq> [] \<and>
         filter (\<lambda>w. normalize_ws_block (slice_of w s) = normalize_ws_block old) (aligned_windows s old) = [sp]
     | Fuzzy r \<Rightarrow> (\<forall>j. \<not> starts_with (drop j s) old) \<and> r = R (slice_of sp s) old \<and> r \<ge> 92 / 100 \<and>
         sp \<in> set (fuzzy_windows s old) \<and> (\<forall>w \<in> set (fuzzy_windows s old). R (slice_of w s) old \<le> r))"
proof -
  consider (exact) i where "count_matches old 0 s = 1" "find_sub old s = Some i" "sp = (i, i + length old)" "tier = Exact"
    | (ws) "count_matches old 0 s = 0" "find_whitespace_span s old = Some sp" "tier = Whitespace"
    | (fuzzy) r where "count_matches old 0 s = 0" "find_fuzzy_span R s old = Some (sp, r)" "tier = Fuzzy r"
    using assms(2) by (auto simp: locate_edit_span_def Let_def split: if_splits option.splits)
  then show ?thesis
  proof cases
    case exact
    obtain k where k: "find_sub old s = Some k" "\<And>j. starts_with (drop j s) old \<Longrightarrow> k \<le> j \<and> j < k + length old"
      by (rule count_matches_1 [OF assms(1) exact(1)]) blast
    have "starts_with (drop i s) old" using find_sub_Some [OF exact(2)] by blast
    then have "take (length old) (drop i s) = old" by (simp add: starts_with_def)
    moreover from this have "length old \<le> length s - i" by (metis length_drop length_take min.cobounded1 min.commute)
    ultimately show ?thesis using k exact assms(1) by (cases "length s < i") (auto simp: slice_of_def)
  next
    case ws
    then have "sp \<in> set (filter (\<lambda>w. normalize_ws_block (slice_of w s) = normalize_ws_block old) (aligned_windows s old))"
      by (simp add: whitespace_span_Some(2))
    then have "sp \<in> set (aligned_windows s old)" by simp
    from aligned_bounds [OF this] show ?thesis
      using ws whitespace_span_Some [OF ws(2)] count_matches_0 [OF assms(1) ws(1)] by auto
  next
    case fuzzy
    then show ?thesis using fuzzy_span_Some [OF fuzzy(2)] count_matches_0 [OF assms(1) fuzzy(1)] fuzzy_bounds
      by (auto simp: FUZZY_MATCH_MIN_RATIO_def)
  qed
qed

section \<open>Paths of a batch\<close>

definition plain_piece :: "rstr \<Rightarrow> bool" where
  "plain_piece p \<longleftrightarrow> p \<noteq> [] \<and> p \<noteq> lit ''.'' \<and> 47 \<notin> set p"

lemma slash_pieces_plain: "47 \<notin> set cur \<Longrightarrow> p \<in> set (slash_pieces cur s) \<Longrightarrow> 47 \<notin> set p"
  by (induction s arbitrary: cur) (fastforce split: if_splits)+

lemma slash_pieces_append: "47 \<notin> set p \<Longrightarrow> slash_pieces cur (p @ s) = slash_pieces (cur @ p) s"
  by (induction p arbitrary: cur) auto

lemma slash_pieces_join: "\<forall>p \<in> set ps. plain_piece p \<Longrightarrow> ps \<noteq> [] \<Longrightarrow> slash_pieces [] (join_with [47] ps) = ps"
proof (induction ps)
  case (Cons p ps)
  show ?case
  proof (cases ps)
    case Nil
    then show ?thesis using Cons.prems slash_pieces_append [of p "[]" "[]"] by (simp add: plain_piece_def)
  next
    case (Cons q qs)
    then show ?thesis using Cons.IH Cons.prems slash_pieces_append [of p "[]" "47 # join_with [47] ps"]
      by (simp add: plain_piece_def)
  qed
qed simp

lemma normalize_edit_rel_pieces:
  obtains ps where "normalize_edit_rel path = join_with [47] ps" and "\<forall>p \<in> set ps. plain_piece p"
proof
  let ?ps = "filter (\<lambda>seg. seg \<noteq> [] \<and> seg \<noteq> lit ''.'') (slash_pieces [] (replace1 92 [47] path))"
  show "normalize_edit_rel path = join_with [47] ?ps" by (simp add: normalize_edit_rel_def)
  show "\<forall>p \<in> set ?ps. plain_piece p" using slash_pieces_plain [of "[]"] by (auto simp: plain_piece_def)
qed

lemma join_rel_normalized:
  assumes "normalize_edit_rel path \<noteq> []"
  obtains ps where "ps \<noteq> []" and "normalize_edit_rel path = join_with [47] ps" and "join_rel base (normalize_edit_rel path) = base @ ps"
proof -
  obtain ps where ps: "normalize_edit_rel path = join_with [47] ps" "\<forall>p \<in> set ps. plain_piece p"
    by (rule normalize_edit_rel_pieces)
  with assms have "ps \<noteq> []" by auto
  moreover have "filter (\<lambda>p. p \<noteq> [] \<and> p \<noteq> lit ''.'') ps = ps" using ps(2) by (simp add: plain_piece_def)
  ultimately show ?thesis using that [of ps] ps slash_pieces_join [OF ps(2)] by (simp add: join_rel_def)
qed

lemma join_rel_inj:
  assumes "normalize_edit_rel p \<noteq> []" "normalize_edit_rel q \<noteq> []"
    and "join_rel base (normalize_edit_rel p) = join_rel base (normalize_edit_rel q)"
  shows "normalize_edit_rel p = normalize_edit_rel q"
  using assms by (metis join_rel_normalized same_append_eq)

section \<open>What a batch does\<close>

lemma splice_edit_Inr [elim_bind]:
  "splice_edit R i e rel s b = Inr b' \<longleftrightarrow>
     (\<exists>sp tier. locate_edit_span R s (ed_old e) = Inr (sp, tier) \<and>
        b' = b\<lparr>ba_contents := (ba_contents b)(rel \<mapsto> replace_range sp (ed_new e) s), ba_tiers := ba_tiers b @ [(rel, tier)]\<rparr>)"
  by (auto simp: splice_edit_def split: sum.splits)

text \<open>The three ways in which an edit passes the first pass: a new file, a file that is loaded, and one that was loaded before.\<close>

lemma check_edit_Inr:
  assumes "check_edit R io d canon allowed i e b = Inr b'" and "rel = normalize_edit_rel (ed_path e)"
  shows "rel \<noteq> [] \<and> validate_rel_path rel = Inr () \<and> rel \<in> allowed"
    and "ba_contents b rel = None \<and> ed_old e = [] \<and> \<not> fv_present (io_check io) (join_rel canon rel) \<and> b' = load_file rel [] (ed_new e) b
      \<or> ed_old e \<noteq> [] \<and> (\<exists>s b1. splice_edit R i e rel s b1 = Inr b' \<and>
          (ba_contents b rel = Some s \<and> b1 = b \<or>
           (\<exists>t. ba_contents b rel = None \<and> fv_canonical (io_check io) (join_rel canon rel) = Some t \<and> inside canon t \<and>
              files d t = Some s \<and> b1 = load_file rel s s b)))"
  using assms
  by (auto simp: check_edit_def Let_def simp del: sum.case_eq_if split: if_splits sum.splits option.splits)

lemma check_edit_files:
  assumes "check_edit R io d canon allowed i e b = Inr b'" and "rel = normalize_edit_rel (ed_path e)"
  shows "\<exists>t. ba_contents b' = (ba_contents b)(rel \<mapsto> t) \<and>
    ba_order b' = (if ba_contents b rel = None then ba_order b @ [rel] else ba_order b)"
  using check_edit_Inr(2) [OF assms]
  by (elim disjE conjE exE) (force simp: load_file_def splice_edit_Inr)+

definition edit_rel :: "rstr \<Rightarrow> bool" where
  "edit_rel rel \<longleftrightarrow> rel \<noteq> [] \<and> (\<exists>path. rel = normalize_edit_rel path)"

text \<open>The files that a batch has in memory are those of its edits, and allowed.\<close>

definition batch_ok :: "rstr set \<Rightarrow> rstr set \<Rightarrow> batch \<Rightarrow> bool" where
  "batch_ok allowed rels b \<longleftrightarrow> dom (ba_contents b) = set (ba_order b) \<and>
     (\<forall>rel \<in> set (ba_order b). edit_rel rel \<and> validate_rel_path rel = Inr () \<and> rel \<in> allowed \<and> rel \<in> rels)"

lemma check_edit_ok:
  assumes "check_edit R io d canon allowed i e b = Inr b'" and "batch_ok allowed rels b"
  shows "batch_ok allowed (insert (normalize_edit_rel (ed_path e)) rels) b'"
proof -
  let ?rel = "normalize_edit_rel (ed_path e)"
  note rel = check_edit_Inr(1) [OF assms(1) refl]
  then have "edit_rel ?rel" by (auto simp: edit_rel_def)
  moreover obtain t where "ba_contents b' = (ba_contents b)(?rel \<mapsto> t)"
      "ba_order b' = (if ba_contents b ?rel = None then ba_order b @ [?rel] else ba_order b)"
    using check_edit_files [OF assms(1) refl] by blast
  ultimately show ?thesis using assms(2) rel unfolding batch_ok_def by (auto split: if_splits)
qed

lemma check_edits_ok:
  "check_edits R io d canon allowed i es b = Inr b' \<Longrightarrow> batch_ok allowed rels b \<Longrightarrow>
     batch_ok allowed (rels \<union> (\<lambda>e. normalize_edit_rel (ed_path e)) ` set es) b'"
proof (induction es arbitrary: i b rels)
  case (Cons e es)
  then obtain b1 where "check_edit R io d canon allowed i e b = Inr b1" "check_edits R io d canon allowed (Suc i) es b1 = Inr b'"
    by (auto simp: elim_bind)
  from Cons.IH [OF this(2) check_edit_ok [OF this(1) Cons.prems(2)]] show ?case by simp
qed simp

lemma batch_empty_ok: "batch_ok allowed rels batch_empty"
  by (simp add: batch_ok_def batch_empty_def)

lemma splice_edit_Inl: "splice_edit R i e rel s b \<noteq> Inl (WriteError r)"
  by (simp add: splice_edit_def split: sum.split)

lemma check_edit_Inl: "check_edit R io d canon allowed i e b \<noteq> Inl (WriteError r)"
  unfolding check_edit_def Let_def by (simp add: splice_edit_Inl split: if_split sum.split option.split)

lemma check_edits_write_error: "check_edits R io d canon allowed i es b = Inl err \<Longrightarrow> \<not> is_write_error err"
proof (induction es arbitrary: i b)
  case (Cons e es)
  then show ?case by (cases "check_edit R io d canon allowed i e b") (auto simp: is_write_error_def check_edit_Inl split: edit_error.splits)
qed simp

text \<open>How a batch ends.\<close>

lemma apply_emitted_cases:
  assumes "apply_emitted_edits R io base allow edits d = (res, d')"
  obtains (kept) "d' = d" "\<And>e. res = Inl e \<Longrightarrow> \<not> is_write_error e" "\<And>r. res = Inr r \<Longrightarrow> edits = [] \<and> ar_applied r = []"
  | (flushed) canon b fl where "fv_canonical (io_check io) base = Some canon" "length edits \<le> MAX_MINI_EDITS" "length allow \<le> MAX_MINI_ALLOWLIST_FILES"
      "check_edits R io d canon (set (map normalize_edit_rel allow)) 0 edits batch_empty = Inr b"
      "flush_files io canon (ba_contents b) (ba_order b) d = (fl, d')"
      "case fl of Inl e \<Rightarrow> res = Inl e | Inr _ \<Rightarrow> (\<exists>r. res = Inr r \<and> ar_applied r = ba_order b)"
  using assms
  by (auto simp: apply_emitted_edits_def is_write_error_def dest: check_edits_write_error split: if_splits option.splits sum.splits prod.splits)

lemma flush_files_error: "flush_files io canon contents rels d = (Inl e, d') \<Longrightarrow> is_write_error e"
  by (induction rels arbitrary: d) (auto simp: is_write_error_def split: option.splits if_splits)

lemma flush_files_changes:
  "flush_files io canon contents rels d = (fl, d') \<Longrightarrow> files d' p \<noteq> files d p \<Longrightarrow>
     \<exists>rel \<in> set rels. write_target (io_write io rel) canon (join_rel canon rel) = Some p"
proof (induction rels arbitrary: d)
  case (Cons rel rels)
  show ?case
  proof (cases "write_target (io_write io rel) canon (join_rel canon rel) = Some p")
    case False
    then have same: "files (write_file t c d) p = files d p" if "write_target (io_write io rel) canon (join_rel canon rel) = Some t" for t c
      using that by (auto simp: write_file_def)
    show ?thesis using Cons.prems Cons.IH [of "write_file _ _ d"] same by (auto split: option.splits if_splits)
  qed simp
qed simp

lemma inside_iff: "inside b p \<longleftrightarrow> (\<exists>q. p = b @ q)"
  by (auto simp: inside_def) (metis append_take_drop_id)

lemma write_target_inside: "write_target view canon full = Some p \<Longrightarrow> inside canon p"
  by (auto simp: write_target_def inside_iff split: if_splits option.splits)

text \<open>C22: a batch changes a file only where an edit of it names an allowlisted path that is clean and, when it is written,
  still leads inside the project; and only if all edits were accepted, so that a rejected batch changes nothing.\<close>

theorem edits_confined:
  assumes "apply_emitted_edits R io base allow edits d = (res, d')" and "files d' p \<noteq> files d p"
  shows "\<exists>canon b rel e. fv_canonical (io_check io) base = Some canon \<and> inside canon p \<and>
    write_target (io_write io rel) canon (join_rel canon rel) = Some p \<and>
    e \<in> set edits \<and> rel = normalize_edit_rel (ed_path e) \<and> validate_rel_path rel = Inr () \<and> rel \<in> normalize_edit_rel ` set allow \<and>
    check_edits R io d canon (normalize_edit_rel ` set allow) 0 edits batch_empty = Inr b \<and>
    (case res of Inl err \<Rightarrow> is_write_error err | Inr r \<Rightarrow> rel \<in> set (ar_applied r))"
  using assms(1)
proof (cases rule: apply_emitted_cases)
  case kept
  then show ?thesis using assms(2) by simp
next
  case (flushed canon b fl)
  from flush_files_changes [OF flushed(5) assms(2)] obtain rel where
    rel: "rel \<in> set (ba_order b)" "write_target (io_write io rel) canon (join_rel canon rel) = Some p" by blast
  with check_edits_ok [OF flushed(4) batch_empty_ok, of "{}"] have ok: "validate_rel_path rel = Inr ()"
    "rel \<in> normalize_edit_rel ` set allow" "rel \<in> (\<lambda>e. normalize_edit_rel (ed_path e)) ` set edits"
    by (auto simp: batch_ok_def)
  moreover have "case res of Inl err \<Rightarrow> is_write_error err | Inr r \<Rightarrow> rel \<in> set (ar_applied r)"
    using flushed(5,6) rel(1) flush_files_error by (auto split: sum.splits)
  ultimately show ?thesis using flushed(1,4) rel(2) write_target_inside [OF rel(2)] by auto
qed

section \<open>A batch as single edits\<close>

text \<open>The specification: each edit is done to the file on the disk before the next one is looked at, or cannot be done.\<close>

definition edit_in_place :: "(rstr \<Rightarrow> rstr \<Rightarrow> rat) \<Rightarrow> path \<Rightarrow> mini_edit \<Rightarrow> disk \<Rightarrow> disk option" where
  "edit_in_place R canon e d =
     (let full = join_rel canon (normalize_edit_rel (ed_path e)) in
      if ed_old e = [] then (if files d full = None then Some (write_file full (Some (ed_new e)) d) else None)
      else case files d full of None \<Rightarrow> None
        | Some s \<Rightarrow> (case locate_edit_span R s (ed_old e) of Inl _ \<Rightarrow> None
            | Inr (sp, _) \<Rightarrow> Some (write_file full (Some (replace_range sp (ed_new e) s)) d)))"

fun edits_in_place :: "(rstr \<Rightarrow> rstr \<Rightarrow> rat) \<Rightarrow> path \<Rightarrow> mini_edit list \<Rightarrow> disk \<Rightarrow> disk option" where
  "edits_in_place R canon [] d = Some d"
| "edits_in_place R canon (e # es) d = Option.bind (edit_in_place R canon e d) (edits_in_place R canon es)"

text \<open>The disk once the files of a batch are written.\<close>

definition flushed :: "path \<Rightarrow> (rstr \<Rightarrow> rstr option) \<Rightarrow> rstr list \<Rightarrow> disk \<Rightarrow> disk" where
  "flushed canon contents rels = fold (\<lambda>rel. write_file (join_rel canon rel) (contents rel)) rels"

lemma join_edit_rel_inj: "edit_rel p \<Longrightarrow> edit_rel q \<Longrightarrow> join_rel canon p = join_rel canon q \<longleftrightarrow> p = q"
  using join_rel_inj by (auto simp: edit_rel_def)

lemma flushed_snoc [simp]: "flushed canon c (rels @ [rel]) d = write_file (join_rel canon rel) (c rel) (flushed canon c rels d)"
  by (simp add: flushed_def)

lemma flushed_Nil [simp]: "flushed canon c [] d = d"
  by (simp add: flushed_def)

lemma files_flushed:
  assumes "\<forall>r \<in> set rels. edit_rel r" and "edit_rel rel"
  shows "files (flushed canon c rels d) (join_rel canon rel) = (if rel \<in> set rels then c rel else files d (join_rel canon rel))"
  using assms by (induction rels rule: rev_induct) (auto simp: write_file_def join_edit_rel_inj)

lemma flushed_cong: "(\<And>r. r \<in> set rels \<Longrightarrow> c r = c' r) \<Longrightarrow> flushed canon c rels d = flushed canon c' rels d"
  by (induction rels rule: rev_induct) auto

lemma flushed_unused: "rel \<notin> set rels \<Longrightarrow> flushed canon (c(rel := v)) rels d = flushed canon c rels d"
  by (rule flushed_cong) auto

lemma flushed_new:
  "rel \<notin> set rels \<Longrightarrow> flushed canon (c(rel := v)) (rels @ [rel]) d = write_file (join_rel canon rel) v (flushed canon c rels d)"
  unfolding flushed_snoc flushed_unused by simp

lemma write_file_twice [simp]: "write_file p v (write_file p w d) = write_file p v d"
  by (simp add: write_file_def)

lemma write_file_swap: "p \<noteq> q \<Longrightarrow> write_file p v (write_file q w d) = write_file q w (write_file p v d)"
  by (simp add: write_file_def fun_upd_twist)

lemma flushed_again:
  assumes "\<forall>r \<in> set rels. edit_rel r" and "edit_rel rel" and "rel \<in> set rels"
  shows "flushed canon (c(rel := v)) rels d = write_file (join_rel canon rel) v (flushed canon c rels d)"
  using assms
proof (induction rels rule: rev_induct)
  case (snoc r rels)
  show ?case
  proof (cases "r = rel")
    case True
    have "write_file (join_rel canon rel) v (flushed canon (c(rel := v)) rels d) = write_file (join_rel canon rel) v (flushed canon c rels d)"
    proof (cases "rel \<in> set rels")
      case True
      then have "flushed canon (c(rel := v)) rels d = write_file (join_rel canon rel) v (flushed canon c rels d)"
        by (intro snoc.IH) (use snoc.prems in auto)
      then show ?thesis by simp
    qed (simp add: flushed_unused)
    then show ?thesis by (simp only: True flushed_snoc fun_upd_same write_file_twice)
  next
    case False
    then have "join_rel canon rel \<noteq> join_rel canon r" using snoc.prems by (simp add: join_edit_rel_inj)
    with False snoc show ?thesis by (simp add: write_file_swap)
  qed
qed simp

text \<open>
  A tree without links, as far as the edits reach: a path leads to itself, its folder is there, and what is there is a file
  that can be read and written.
\<close>

definition plain_tree :: "edit_io \<Rightarrow> path \<Rightarrow> rstr set \<Rightarrow> disk \<Rightarrow> bool" where
  "plain_tree io canon rels d \<longleftrightarrow> (\<forall>rel \<in> rels. let full = join_rel canon rel in
     fv_canonical (io_check io) full = (if files d full = None then None else Some full) \<and>
     (fv_present (io_check io) full \<longleftrightarrow> files d full \<noteq> None) \<and> io_readable io full \<and>
     fv_canonical (io_check io) (butlast full) = Some (butlast full) \<and>
     write_target (io_write io rel) canon full = Some full \<and> io_write_ok io rel)"

lemma flush_files_plain:
  "(\<forall>rel \<in> set rels. write_target (io_write io rel) canon (join_rel canon rel) = Some (join_rel canon rel) \<and> io_write_ok io rel) \<Longrightarrow>
     flush_files io canon c rels d = (Inr (), flushed canon c rels d)"
  by (induction rels arbitrary: d) (auto simp: flushed_def)

lemma inside_join:
  assumes "edit_rel rel"
  shows "inside canon (join_rel canon rel) \<and> inside canon (butlast (join_rel canon rel))"
proof -
  obtain ps where "ps \<noteq> []" "join_rel canon rel = canon @ ps"
    using assms join_rel_normalized unfolding edit_rel_def by metis
  then show ?thesis by (auto simp: inside_iff butlast_append)
qed

text \<open>One edit in memory is the same edit in place.\<close>

lemma check_edit_simulates:
  assumes ok: "batch_ok allowed rels b" and plain: "plain_tree io canon {rel} d"
    and rel: "rel = normalize_edit_rel (ed_path e)" "rel \<noteq> []" "validate_rel_path rel = Inr ()" "rel \<in> allowed"
  shows "case check_edit R io d canon allowed i e b of
      Inl err \<Rightarrow> (\<exists>pr. err = EditError i pr) \<and> edit_in_place R canon e (flushed canon (ba_contents b) (ba_order b) d) = None
    | Inr b' \<Rightarrow> edit_in_place R canon e (flushed canon (ba_contents b) (ba_order b) d) = Some (flushed canon (ba_contents b') (ba_order b') d)"
proof -
  let ?full = "join_rel canon rel" and ?d = "flushed canon (ba_contents b) (ba_order b) d"
  have er: "edit_rel rel" "\<forall>r \<in> set (ba_order b). edit_rel r" using rel ok by (auto simp: edit_rel_def batch_ok_def)
  have dom: "ba_contents b rel = None \<longleftrightarrow> rel \<notin> set (ba_order b)" using ok by (auto simp: batch_ok_def)
  have now: "files ?d ?full = (if rel \<in> set (ba_order b) then ba_contents b rel else files d ?full)"
    using files_flushed [OF er(2,1)] .
  note in_root = inside_join [OF er(1), of canon]
  note defs = check_edit_def edit_in_place_def Let_def rel(1) [symmetric]
  show ?thesis
  proof (cases "ba_contents b rel")
    case None
    with dom now have "rel \<notin> set (ba_order b)" "files ?d ?full = files d ?full" by auto
    then show ?thesis using rel(2-) None plain in_root
      by (cases "files d ?full") (auto simp: defs plain_tree_def splice_edit_def load_file_def flushed_unused split: sum.split)
  next
    case (Some s)
    with dom now have "rel \<in> set (ba_order b)" "files ?d ?full = Some s" by auto
    then show ?thesis using rel(2-) Some flushed_again [OF er(2,1)]
      by (auto simp: defs splice_edit_def split: sum.split)
  qed
qed

lemma plain_tree_mono: "plain_tree io canon rels d \<Longrightarrow> rels' \<subseteq> rels \<Longrightarrow> plain_tree io canon rels' d"
  unfolding plain_tree_def by blast

lemma check_edits_simulates:
  assumes "batch_ok allowed {} b \<or> batch_ok allowed rels b" and "plain_tree io canon ((\<lambda>e. normalize_edit_rel (ed_path e)) ` set es) d"
    and "\<forall>e \<in> set es. normalize_edit_rel (ed_path e) \<in> allowed \<and> normalize_edit_rel (ed_path e) \<noteq> [] \<and>
      validate_rel_path (normalize_edit_rel (ed_path e)) = Inr ()"
  shows "case check_edits R io d canon allowed i es b of
      Inl err \<Rightarrow> (\<exists>j pr. err = EditError j pr) \<and> edits_in_place R canon es (flushed canon (ba_contents b) (ba_order b) d) = None
    | Inr b' \<Rightarrow> edits_in_place R canon es (flushed canon (ba_contents b) (ba_order b) d) = Some (flushed canon (ba_contents b') (ba_order b') d)"
  using assms
proof (induction es arbitrary: i b rels)
  case (Cons e es)
  let ?rel = "normalize_edit_rel (ed_path e)"
  obtain rels0 where ok: "batch_ok allowed rels0 b" using Cons.prems(1) by blast
  have "plain_tree io canon {?rel} d" using Cons.prems(2) by (rule plain_tree_mono) auto
  from check_edit_simulates [OF ok this refl, where R = R and i = i] Cons.prems(3)
  have sim: "case check_edit R io d canon allowed i e b of
      Inl err \<Rightarrow> (\<exists>pr. err = EditError i pr) \<and> edit_in_place R canon e (flushed canon (ba_contents b) (ba_order b) d) = None
    | Inr b' \<Rightarrow> edit_in_place R canon e (flushed canon (ba_contents b) (ba_order b) d) = Some (flushed canon (ba_contents b') (ba_order b') d)"
    by simp
  show ?case
  proof (cases "check_edit R io d canon allowed i e b")
    case (Inr b1)
    have "plain_tree io canon ((\<lambda>e. normalize_edit_rel (ed_path e)) ` set es) d" using Cons.prems(2) by (rule plain_tree_mono) auto
    from Cons.IH [OF disjI2 [OF check_edit_ok [OF Inr ok]] this, of "Suc i"] Cons.prems(3) sim Inr show ?thesis
      by (auto split: sum.splits)
  qed (use sim in auto)
qed simp

text \<open>C23: on a plain tree a batch of allowed edits within the bounds does exactly what its edits do one after the other, and is
  accepted exactly if each of them can be done; otherwise nothing is written.\<close>

theorem batch_is_sequential:
  assumes "fv_canonical (io_check io) base = Some canon" and "length edits \<le> 40" and "allow \<noteq> []" and "length allow \<le> 10"
    and "\<forall>e \<in> set edits. normalize_edit_rel (ed_path e) \<in> normalize_edit_rel ` set allow \<and> normalize_edit_rel (ed_path e) \<noteq> [] \<and>
      validate_rel_path (normalize_edit_rel (ed_path e)) = Inr ()"
    and "plain_tree io canon ((\<lambda>e. normalize_edit_rel (ed_path e)) ` set edits) d"
  shows "case edits_in_place R canon edits d of
      Some d' \<Rightarrow> (\<exists>r. apply_emitted_edits R io base allow edits d = (Inr r, d'))
    | None \<Rightarrow> (\<exists>i pr. apply_emitted_edits R io base allow edits d = (Inl (EditError i pr), d))"
proof (cases "edits = []")
  case True
  then show ?thesis by (simp add: apply_emitted_edits_def)
next
  case False
  note start = check_edits_simulates [OF disjI1 [OF batch_empty_ok] assms(6), where allowed = "normalize_edit_rel ` set allow" and R = R and i = 0]
  show ?thesis
  proof (cases "check_edits R io d canon (normalize_edit_rel ` set allow) 0 edits batch_empty")
    case (Inl err)
    then show ?thesis using start assms(1-5) False
      by (auto simp: apply_emitted_edits_def batch_empty_def MAX_MINI_EDITS_def MAX_MINI_ALLOWLIST_FILES_def)
  next
    case (Inr b)
    have "set (ba_order b) \<subseteq> (\<lambda>e. normalize_edit_rel (ed_path e)) ` set edits"
      using check_edits_ok [OF Inr batch_empty_ok, of "{}"] by (auto simp: batch_ok_def)
    then have "flush_files io canon (ba_contents b) (ba_order b) d = (Inr (), flushed canon (ba_contents b) (ba_order b) d)"
      using assms(6) by (intro flush_files_plain) (auto simp: plain_tree_def Let_def)
    then show ?thesis using start assms(1-5) False Inr
      by (auto simp: apply_emitted_edits_def batch_empty_def MAX_MINI_EDITS_def MAX_MINI_ALLOWLIST_FILES_def)
  qed
qed

section \<open>An example\<close>

definition demo_edit_file :: path where
  "demo_edit_file = [lit ''p'', lit ''a.rs'']"

definition demo_edit_io :: edit_io where
  "demo_edit_io = (let view = \<lparr>fv_canonical = Some, fv_present = (\<lambda>p. p = demo_edit_file)\<rparr> in
     \<lparr>io_check = view, io_write = (\<lambda>_. view), io_readable = (\<lambda>_. True), io_write_ok = (\<lambda>_. True), io_left = (\<lambda>_. None)\<rparr>)"

definition demo_edit :: mini_edit where
  "demo_edit = \<lparr>ed_path = lit ''./a.rs'', ed_old = lit ''ab'', ed_new = lit ''c''\<rparr>"

definition demo_edit_disk :: "rstr \<Rightarrow> disk" where
  "demo_edit_disk s = \<lparr>files = [demo_edit_file \<mapsto> s]\<rparr>"

lemma demo_edit_path: "normalize_edit_rel (ed_path demo_edit) = lit ''a.rs''" "normalize_edit_rel (lit ''a.rs'') = lit ''a.rs''"
  "join_rel [lit ''p''] (lit ''a.rs'') = demo_edit_file" "validate_rel_path (lit ''a.rs'') = Inr ()"
  by code_simp+

lemma demo_edit_located: "locate_edit_span (\<lambda>_ _. 0) (lit ''x ab y'') (lit ''ab'') = Inr ((2, 4), Exact)"
  by code_simp

lemma demo_edit_plain: "plain_tree demo_edit_io [lit ''p''] {lit ''a.rs''} (demo_edit_disk s)"
  by (simp add: plain_tree_def demo_edit_path demo_edit_io_def demo_edit_disk_def write_target_def inside_def Let_def)
    (simp add: demo_edit_file_def)

lemma demo_edit_run: "edits_in_place (\<lambda>_ _. 0) [lit ''p''] [demo_edit] (demo_edit_disk (lit ''x ab y'')) = Some (demo_edit_disk (lit ''x c y''))"
proof -
  have "ed_old demo_edit = lit ''ab''" "ed_new demo_edit = lit ''c''" "lit ''ab'' \<noteq> []" by (simp_all add: demo_edit_def lit_def)
  moreover have "replace_range (2, 4) (lit ''c'') (lit ''x ab y'') = lit ''x c y''" by code_simp
  ultimately show ?thesis
    by (simp add: edit_in_place_def demo_edit_path demo_edit_disk_def demo_edit_located write_file_def)
qed

theorem located_span_witness:
  "slice_of (2, 4) (lit ''x ab y'') = lit ''ab'' \<and> {j. starts_with (drop j (lit ''x ab y'')) (lit ''ab'')} \<subseteq> {2..<4}"
  using located_span [OF _ demo_edit_located] by auto

lemma demo_edit_applied:
  "\<exists>r. apply_emitted_edits (\<lambda>_ _. 0) demo_edit_io [lit ''p''] [lit ''a.rs''] [demo_edit] (demo_edit_disk (lit ''x ab y'')) =
     (Inr r, demo_edit_disk (lit ''x c y''))"
proof -
  have old: "ed_old demo_edit = lit ''ab''" "ed_new demo_edit = lit ''c''" "lit ''ab'' \<noteq> []" "lit ''a.rs'' \<noteq> []"
    by (simp_all add: demo_edit_def lit_def)
  have "replace_range (2, 4) (lit ''c'') (lit ''x ab y'') = lit ''x c y''" by code_simp
  moreover have "inside [lit ''p''] demo_edit_file" by (simp add: inside_def demo_edit_file_def)
  moreover have "fv_canonical (io_check demo_edit_io) p = Some p" "fv_canonical (io_write demo_edit_io r) p = Some p"
    "fv_present (io_write demo_edit_io r) p = (p = demo_edit_file)" "io_readable demo_edit_io p" "io_write_ok demo_edit_io r" for p r
    by (simp_all add: demo_edit_io_def Let_def)
  ultimately show ?thesis
    by (simp add: apply_emitted_edits_def MAX_MINI_EDITS_def MAX_MINI_ALLOWLIST_FILES_def check_edit_def demo_edit_path old
        batch_empty_def splice_edit_def demo_edit_located load_file_def demo_edit_disk_def write_target_def write_file_def Let_def)
qed

theorem edits_confined_witness:
  "inside [lit ''p''] demo_edit_file \<and> lit ''a.rs'' \<in> normalize_edit_rel ` set [lit ''a.rs'']"
proof -
  obtain r where "apply_emitted_edits (\<lambda>_ _. 0) demo_edit_io [lit ''p''] [lit ''a.rs''] [demo_edit] (demo_edit_disk (lit ''x ab y'')) =
     (Inr r, demo_edit_disk (lit ''x c y''))" using demo_edit_applied by blast
  moreover have "files (demo_edit_disk (lit ''x c y'')) demo_edit_file \<noteq> files (demo_edit_disk (lit ''x ab y'')) demo_edit_file"
    by (simp add: demo_edit_disk_def lit_def)
  moreover have "fv_canonical (io_check demo_edit_io) [lit ''p''] = Some [lit ''p'']" by (simp add: demo_edit_io_def Let_def)
  ultimately show ?thesis using edits_confined by (fastforce simp: demo_edit_path)
qed

theorem batch_is_sequential_witness:
  "\<exists>r. apply_emitted_edits (\<lambda>_ _. 0) demo_edit_io [lit ''p''] [lit ''a.rs''] [demo_edit] (demo_edit_disk (lit ''x ab y'')) =
     (Inr r, demo_edit_disk (lit ''x c y''))"
proof -
  have "fv_canonical (io_check demo_edit_io) [lit ''p''] = Some [lit ''p'']" by (simp add: demo_edit_io_def Let_def)
  moreover have "lit ''a.rs'' \<noteq> []" by (simp add: lit_def)
  ultimately have "case edits_in_place (\<lambda>_ _. 0) [lit ''p''] [demo_edit] (demo_edit_disk (lit ''x ab y'')) of
      Some d' \<Rightarrow> (\<exists>r. apply_emitted_edits (\<lambda>_ _. 0) demo_edit_io [lit ''p''] [lit ''a.rs''] [demo_edit] (demo_edit_disk (lit ''x ab y'')) = (Inr r, d'))
    | None \<Rightarrow> (\<exists>i pr. apply_emitted_edits (\<lambda>_ _. 0) demo_edit_io [lit ''p''] [lit ''a.rs''] [demo_edit] (demo_edit_disk (lit ''x ab y'')) =
        (Inl (EditError i pr), demo_edit_disk (lit ''x ab y'')))"
    by (intro batch_is_sequential) (simp_all add: demo_edit_path demo_edit_plain)
  then show ?thesis by (simp only: demo_edit_run option.case)
qed

section \<open>The outcome of a worker\<close>

text \<open>a finished worker's edits never outlive their application; the disk changes only for a write directive that is done
  with edits and a project; the files it touched are exactly the ones written; and its status changes at most from done to
  failed, which it does exactly if the edits cannot be applied.\<close>

theorem emitted_edits_outcome:
  assumes "apply_write_directive_edits R io base dv oc d = (oc', touched, d')"
  shows "oc_edits oc' = [] \<and>
    (let applies = dv_write dv \<and> oc_status oc = Done \<and> oc_edits oc \<noteq> [];
         run = map_option (\<lambda>b. apply_emitted_edits R io b (dv_files dv) (oc_edits oc) d) base in
     (if applies then d' = (case run of Some (_, d1) \<Rightarrow> d1 | None \<Rightarrow> d) else d' = d) \<and>
     (oc_status oc' \<noteq> oc_status oc \<longleftrightarrow> applies \<and> (\<nexists>r d1. run = Some (Inr r, d1))) \<and>
     (oc_status oc' \<noteq> oc_status oc \<longrightarrow> oc_status oc' = Failed \<and> touched = []) \<and>
     (applies \<and> oc_status oc' = Done \<longrightarrow>
        (\<exists>r. run = Some (Inr r, d') \<and> oc_files_touched oc' = ar_applied r \<and> touched = ar_applied r)) \<and>
     (dv_write dv \<and> oc_status oc' = Done \<and> dv_write_mode dv = EmitEdits \<longrightarrow> oc_files_touched oc' = touched))"
  using assms
  by (auto simp: apply_write_directive_edits_def Let_def outcome_failed_def outcome_default_def split: if_splits option.splits prod.splits sum.splits)

definition demo_directive :: directive where
  "demo_directive = \<lparr>dv_id = lit ''m1'', dv_parent = lit ''s1'', dv_status = Running, dv_task = lit ''t'', dv_files = [lit ''a.rs''],
     dv_write = True, dv_write_mode = EmitEdits, dv_tier = Mini, dv_project = None, dv_task_id = None, dv_backend = None,
     dv_allow_oracle = False, dv_kill = False, dv_steer = [], dv_result_path = lit ''result.json'', dv_agent = None,
     dv_created = lit ''2026'', dv_claimed = None, dv_scratch = None, dv_started = None, dv_result = None, dv_attempt = 0,
     dv_parent_directive = None, dv_ticket = None, dv_collected = None\<rparr>"

theorem emitted_edits_outcome_witness:
  "\<exists>oc. oc_status oc = Done \<and> oc_edits oc = [] \<and> oc_files_touched oc = [] \<and>
     apply_write_directive_edits (\<lambda>_ _. 0) demo_edit_io None demo_directive
       (outcome_default\<lparr>oc_status := Done, oc_files_touched := [lit ''b.rs'']\<rparr>) (demo_edit_disk []) = (oc, [], demo_edit_disk [])"
proof -
  let ?in = "outcome_default\<lparr>oc_status := Done, oc_files_touched := [lit ''b.rs'']\<rparr>"
  let ?out = "outcome_default\<lparr>oc_status := Done\<rparr>"
  have run: "apply_write_directive_edits (\<lambda>_ _. 0) demo_edit_io None demo_directive ?in (demo_edit_disk []) = (?out, [], demo_edit_disk [])"
    by (simp add: apply_write_directive_edits_def demo_directive_def outcome_default_def)
  from emitted_edits_outcome [OF run] run show ?thesis by (intro exI [of _ ?out]) (simp add: outcome_default_def)
qed

end
