(* ===== verification/ExecutorLaws.thy ===== *)
theory ExecutorLaws
  imports Executor MiniEditLaws "HOL-Library.Sublist"
begin

text \<open>
  What is proved of the worker directives: which ones the scheduler claims and reaps; that in every run at most four are
  active and no two of them have a file in common; what every row of the queue looks like; that no open row is lost, and a
  Stop stays; and how a stopped worker ends.
\<close>

section \<open>The scheduler\<close>

text \<open>The directives behind the ids of \<open>choose_claims\<close>.\<close>

fun chosen :: "mini_host \<Rightarrow> nat \<Rightarrow> rstr set \<Rightarrow> directive list \<Rightarrow> directive list" where
  "chosen H 0 taken ds = []"
| "chosen H (Suc n) taken [] = []"
| "chosen H (Suc n) taken (d # ds) =
     (if file_set H d \<inter> taken \<noteq> {} then chosen H (Suc n) taken ds else d # chosen H n (taken \<union> file_set H d) ds)"

lemma choose_claims_chosen: "choose_claims H n taken ds = map dv_id (chosen H n taken ds)"
  by (induction H n taken ds rule: chosen.induct) auto

lemma chosen_bound: "length (chosen H n taken ds) \<le> n \<and> subseq (chosen H n taken ds) ds"
  by (induction H n taken ds rule: chosen.induct) auto

lemma chosen_free: "c \<in> set (chosen H n taken ds) \<Longrightarrow> file_set H c \<inter> taken = {}"
  by (induction H n taken ds rule: chosen.induct) (auto split: if_splits)

lemma chosen_disjoint: "sorted_wrt (\<lambda>c c'. file_set H c \<inter> file_set H c' = {}) (chosen H n taken ds)"
proof (induction H n taken ds rule: chosen.induct)
  case (3 H n taken d ds)
  then show ?case using chosen_free [of _ H n "taken \<union> file_set H d" ds] by auto
qed auto

text \<open>A directive is passed over only for want of room, or for a file of an active or an older one.\<close>

lemma chosen_maximal:
  "sorted (map queue_order ds) \<Longrightarrow> d \<in> set ds \<Longrightarrow> d \<notin> set (chosen H n taken ds) \<Longrightarrow>
     length (chosen H n taken ds) = n \<or> file_set H d \<inter> taken \<noteq> {} \<or>
     (\<exists>c \<in> set (chosen H n taken ds). queue_order c \<le> queue_order d \<and> file_set H c \<inter> file_set H d \<noteq> {})"
proof (induction H n taken ds rule: chosen.induct)
  case (3 H n taken e ds)
  show ?case
  proof (cases "file_set H e \<inter> taken \<noteq> {}")
    case True
    with 3 show ?thesis by auto
  next
    case False
    with "3.prems" have d: "d \<in> set ds" "d \<notin> set (chosen H n (taken \<union> file_set H e) ds)" "queue_order e \<le> queue_order d" by auto
    with "3.IH"(2) [OF False] "3.prems"(1) False show ?thesis by auto
  qed
qed auto

lemma elapsed_iff:
  "elapsed_at_least H now anchor limit \<longleftrightarrow> (\<exists>a t. anchor = Some a \<and> mh_time H (trim a) = Some t \<and> num_seconds (now - t) \<ge> limit)"
  by (cases anchor) (auto simp: elapsed_at_least_def split: option.splits)

lemma claims_of_plan:
  "tp_claims (plan_tick H ds now cap retry launch m inflight) = map dv_id
     (chosen H (m - length (filter active ds)) (active_file_set H ds) (sort_key queue_order (filter (\<lambda>d. dv_status d = Pending) ds)))"
proof (cases "length (filter active ds) < m")
  case False
  then have "m - length (filter active ds) = 0" by simp
  then show ?thesis using False by (simp add: plan_tick_def Let_def split: option.split)
qed (simp add: plan_tick_def Let_def choose_claims_chosen split: option.split)

text \<open>The claims of a tick.\<close>

definition claims_exact :: "mini_host \<Rightarrow> directive list \<Rightarrow> nat \<Rightarrow> directive list \<Rightarrow> directive list \<Rightarrow> bool" where
  "claims_exact H ds m pending cs \<longleftrightarrow> subseq cs pending \<and> length cs + length (filter active ds) \<le> max m (length (filter active ds)) \<and>
     sorted_wrt (\<lambda>c c'. file_set H c \<inter> file_set H c' = {}) cs \<and>
     (\<forall>c \<in> set cs. \<forall>a \<in> set ds. active a \<longrightarrow> file_set H c \<inter> file_set H a = {}) \<and>
     (\<forall>d \<in> set pending - set cs. length cs + length (filter active ds) \<ge> m \<or> (\<exists>a \<in> set ds. active a \<and> file_set H a \<inter> file_set H d \<noteq> {}) \<or>
        (\<exists>c \<in> set cs. queue_order c \<le> queue_order d \<and> file_set H c \<inter> file_set H d \<noteq> {}))"

lemma chosen_exact:
  assumes "sorted (map queue_order pending)"
  shows "claims_exact H ds m pending (chosen H (m - length (filter active ds)) (active_file_set H ds) pending)"
proof -
  let ?m = "m - length (filter active ds)" and ?T = "active_file_set H ds"
  let ?cs = "chosen H ?m ?T pending"
  have T: "?T \<inter> F = {} \<longleftrightarrow> (\<forall>a \<in> set ds. active a \<longrightarrow> file_set H a \<inter> F = {})" for F by (auto simp: active_file_set_def)
  have "\<forall>d \<in> set pending - set ?cs. length ?cs = ?m \<or> file_set H d \<inter> ?T \<noteq> {} \<or>
      (\<exists>c \<in> set ?cs. queue_order c \<le> queue_order d \<and> file_set H c \<inter> file_set H d \<noteq> {})"
    using chosen_maximal [OF assms] by blast
  then have "\<forall>d \<in> set pending - set ?cs. length ?cs + length (filter active ds) \<ge> m \<or> (\<exists>a \<in> set ds. active a \<and> file_set H a \<inter> file_set H d \<noteq> {}) \<or>
      (\<exists>c \<in> set ?cs. queue_order c \<le> queue_order d \<and> file_set H c \<inter> file_set H d \<noteq> {})"
    using T by (metis Int_commute le_diff_conv order_refl)
  moreover have "\<forall>c \<in> set ?cs. \<forall>a \<in> set ds. active a \<longrightarrow> file_set H c \<inter> file_set H a = {}"
    using chosen_free T by (metis Int_commute)
  moreover have "length ?cs + length (filter active ds) \<le> max m (length (filter active ds))"
    using chosen_bound [of H ?m ?T pending] by auto
  ultimately show ?thesis unfolding claims_exact_def using chosen_bound chosen_disjoint by blast
qed

text \<open>C21: a tick claims pending directives, oldest first, with files that are disjoint from each other's and from those of the
  active ones, and passes one over only when all places are taken or for a file of an active or of an older claimed one; and it
  reaps exactly the running ones, not in flight, and the launching ones whose time is over.\<close>

theorem plan_tick_exact:
  "let plan = plan_tick H ds now cap retry launch m inflight; pending = sort_key queue_order (filter (\<lambda>d. dv_status d = Pending) ds) in
     (\<exists>cs. tp_claims plan = map dv_id cs \<and> claims_exact H ds m pending cs) \<and>
     set (tp_timeouts plan) = {dv_id d | d t. d \<in> set ds \<and> mh_time H (trim now) = Some t \<and> dv_status d = Running \<and> dv_id d \<notin> inflight \<and>
       elapsed_at_least H t (dv_started d) (max (if dv_attempt d \<ge> 1 then retry else cap) 1)} \<and>
     set (tp_stuck plan) = {dv_id d | d t. d \<in> set ds \<and> mh_time H (trim now) = Some t \<and> dv_status d = Launching \<and>
       elapsed_at_least H t (dv_claimed d) (max launch 1)}"
proof -
  have "claims_exact H ds m (sort_key queue_order (filter (\<lambda>d. dv_status d = Pending) ds))
      (chosen H (m - length (filter active ds)) (active_file_set H ds) (sort_key queue_order (filter (\<lambda>d. dv_status d = Pending) ds)))"
    by (rule chosen_exact) simp
  then show ?thesis unfolding Let_def claims_of_plan
    by (auto simp: plan_tick_def Let_def wall_cap_def split: option.splits)
qed

text \<open>An older directive that waits for one file reserves none of its others: younger ones can take them, again and again.\<close>

lemma older_overtaken:
  assumes "files_a = {x}" "file_set H b = {x, y}" "file_set H c = {y}" "x \<noteq> y"
  shows "choose_claims H 1 files_a [b, c] = [dv_id c]"
  using assms by simp

section \<open>The active directives of a queue\<close>

definition active_files :: "mini_host \<Rightarrow> directive list \<Rightarrow> rstr set list" where
  "active_files H ds = map (file_set H) (filter active ds)"

lemma active_files_sub: "subseq ds' ds \<Longrightarrow> subseq (active_files H ds') (active_files H ds)"
  unfolding active_files_def by (intro subseq_map) simp

lemma active_files_rows:
  "list_all2 (\<lambda>d d'. active d' \<longrightarrow> active d \<and> file_set H d' = file_set H d) ds ds' \<Longrightarrow> subseq (active_files H ds') (active_files H ds)"
  by (induction rule: list_all2_induct) (auto simp: active_files_def)

section \<open>What a step does to a queue\<close>

definition stage :: "mini_status \<Rightarrow> nat" where
  "stage s = (case s of Pending \<Rightarrow> 0 | Launching \<Rightarrow> 1 | Running \<Rightarrow> 2 | _ \<Rightarrow> 3)"

text \<open>What a row looks like at each stage.\<close>

definition well_formed :: "directive \<Rightarrow> bool" where
  "well_formed d \<longleftrightarrow> (case dv_status d of
       Pending \<Rightarrow> dv_result d = None \<and> dv_claimed d = None \<and> dv_agent d = None
     | Launching \<Rightarrow> dv_result d = None \<and> dv_claimed d \<noteq> None \<and> dv_agent d = None
     | Running \<Rightarrow> dv_result d = None \<and> dv_claimed d \<noteq> None \<and> dv_agent d \<noteq> None \<and> dv_started d \<noteq> None \<and> dv_scratch d \<noteq> None
     | _ \<Rightarrow> (\<exists>oc. dv_result d = Some oc \<and> oc_status oc = dv_status d))"

text \<open>What a row keeps, and where it may go; only a claim makes one active.\<close>

definition row_kept :: "directive \<Rightarrow> directive \<Rightarrow> bool" where
  "row_kept d d' \<longleftrightarrow> dv_id d' = dv_id d \<and> dv_task d' = dv_task d \<and> dv_files d' = dv_files d \<and> dv_write d' = dv_write d \<and>
     (dv_kill d \<longrightarrow> dv_kill d') \<and> prefix (dv_steer d) (dv_steer d') \<and> stage (dv_status d) \<le> stage (dv_status d')"

definition row_step :: "directive \<Rightarrow> directive \<Rightarrow> bool" where
  "row_step d d' \<longleftrightarrow> row_kept d d' \<and> (active d' \<longrightarrow> active d) \<and> (well_formed d \<longrightarrow> well_formed d')"

lemma row_step_refl [simp]: "row_step d d"
  by (simp add: row_step_def row_kept_def)

lemma row_step_trans: "row_step a b \<Longrightarrow> row_step b c \<Longrightarrow> row_step a c"
  by (auto simp: row_step_def row_kept_def)

lemma stage_simps [simp]: "stage Pending = 0" "stage Launching = 1" "stage Running = 2" "is_terminal s \<Longrightarrow> stage s = 3" "stage s \<le> 3"
  by (auto simp: stage_def is_terminal_def split: mini_status.split)

lemma terminal_status [simp]: "is_terminal Done" "is_terminal NeedsClarification" "is_terminal AbortedByHuman" "is_terminal Failed"
  "is_terminal Timeout" "\<not> is_terminal Pending" "\<not> is_terminal Launching" "\<not> is_terminal Running"
  by (simp_all add: is_terminal_def)

lemma active_not_terminal: "is_active_status s \<Longrightarrow> \<not> is_terminal s" "is_active_status Launching" "is_active_status Running"
  "\<not> is_active_status Pending"
  by (auto simp: is_active_status_def)

lemma well_formed_terminal: "is_terminal (dv_status d) \<Longrightarrow> well_formed d \<longleftrightarrow> (\<exists>oc. dv_result d = Some oc \<and> oc_status oc = dv_status d)"
  by (cases "dv_status d") (auto simp: well_formed_def)

text \<open>A row that ends only if its id is one of some.\<close>

definition row_in :: "rstr set \<Rightarrow> directive \<Rightarrow> directive \<Rightarrow> bool" where
  "row_in S d d' \<longleftrightarrow> row_step d d' \<and> (terminal d' \<longrightarrow> terminal d \<or> dv_id d' \<in> S)"

lemma row_in_simps [simp]: "row_in UNIV = row_step" "row_in S d d"
  by (auto simp: row_in_def fun_eq_iff)

text \<open>A row ends.\<close>

lemma row_ends: "is_terminal (oc_status oc) \<Longrightarrow> row_step d (d\<lparr>dv_status := oc_status oc, dv_result := Some oc\<rparr>)"
  using active_not_terminal(1) by (auto simp: row_step_def row_kept_def well_formed_terminal)

lemma outcome_status [simp]: "oc_status (outcome_failed e) = Failed" "oc_status (outcome_timeout e) = Timeout"
  "oc_status (outcome_aborted e) = AbortedByHuman"
  by (simp_all add: outcome_failed_def outcome_timeout_def outcome_aborted_def)

lemma row_apply_outcome: "is_terminal (oc_status oc) \<Longrightarrow> apply_outcome d oc = Inr d' \<Longrightarrow> row_step d d'"
  by (auto simp: apply_outcome_def row_ends split: if_splits)

lemma row_failure: "apply_failed d e = Inr d' \<Longrightarrow> row_step d d'" "apply_timeout d e = Inr d' \<Longrightarrow> row_step d d'"
  "apply_aborted d e = Inr d' \<Longrightarrow> row_step d d'"
  by (auto simp: apply_failed_def apply_timeout_def apply_aborted_def elim: row_apply_outcome [rotated])

lemma row_launched:
  assumes "apply_launched d a s = Inr d1" "d' = d1\<lparr>dv_scratch := Some p, dv_task_id := t\<rparr>"
  shows "row_in {} d d'"
  using assms by (auto simp: row_in_def apply_launched_def row_step_def row_kept_def well_formed_def active_not_terminal split: if_splits)

lemma row_flags: "row_in S d (d\<lparr>dv_kill := True\<rparr>)" "row_in S d (d\<lparr>dv_steer := dv_steer d @ ms\<rparr>)" "row_in S d (d\<lparr>dv_collected := c\<rparr>)"
  by (auto simp: row_in_def row_step_def row_kept_def well_formed_def split: mini_status.splits)

text \<open>The rows that are left when ended ones are dropped, but for those of some ids.\<close>

definition evicts :: "rstr set \<Rightarrow> directive list \<Rightarrow> directive list \<Rightarrow> bool" where
  "evicts S ds ds' \<longleftrightarrow> subseq ds' ds \<and> (\<forall>d \<in> set ds. \<not> terminal d \<or> dv_id d \<in> S \<longrightarrow> d \<in> set ds')"

lemma evicts_refl [simp]: "evicts S ds ds"
  by (simp add: evicts_def)

interpretation worker_queue: eviction "evictable protect" queue_order "terminal_idx protect"
  by unfold_locales (simp add: terminal_idx_def)

lemma cap_evicts: "evicts (set protect) ds (cap_directives_protecting n protect ds)"
proof (cases "length ds \<le> n")
  case False
  let ?ds = "drop_positions (take (length ds - n) (terminal_idx protect ds)) ds"
  have "filter (\<lambda>d. \<not> evictable protect d) ?ds = filter (\<lambda>d. \<not> evictable protect d) ds"
    by (rule worker_queue.evict_oldest(1)) (rule refl)
  then have "set (filter (\<lambda>d. \<not> evictable protect d) ds) \<subseteq> set ?ds" by (metis filter_is_subset)
  then have "\<forall>d \<in> set ds. \<not> terminal d \<or> dv_id d \<in> set protect \<longrightarrow> d \<in> set ?ds" by (auto simp: evictable_def)
  moreover have "subseq ?ds ds" by (auto simp: drop_positions_nths subseq_conv_nths)
  ultimately show ?thesis using False by (simp add: cap_directives_protecting_def evicts_def)
qed (simp add: cap_directives_protecting_def)

text \<open>A step other than a claim: rows make steps, pending rows with new ids join, and ended rows are evicted; if the step is
  \<open>lossless\<close>, only rows that had ended before.\<close>

definition queue_step :: "bool \<Rightarrow> directive list \<Rightarrow> directive list \<Rightarrow> bool" where
  "queue_step lossless ds ds' \<longleftrightarrow> (\<exists>ds1 new. list_all2 row_step ds ds1 \<and> subseq ds' (ds1 @ new) \<and>
     (lossless \<longrightarrow> list_all2 (\<lambda>d d1. terminal d \<or> d1 \<in> set ds') ds ds1) \<and>
     (\<forall>d \<in> set new. dv_status d = Pending \<and> well_formed d \<and> dv_id d \<notin> dv_id ` set ds) \<and> distinct (map dv_id new))"

lemma rows_refl [simp]: "list_all2 (row_in S) ds ds"
  by (simp add: list_all2_refl)

lemma rows_update_first: "(\<And>d. p d \<Longrightarrow> row_in S d (f d)) \<Longrightarrow> list_all2 (row_in S) ds (update_first p f ds)"
  by (induction ds) auto

lemma rows_map: "(\<And>d. row_in S d (f d)) \<Longrightarrow> list_all2 (row_in S) ds (map f ds)"
  by (simp add: list_all2_conv_all_nth)

lemma rows_list_update: "(i < length ds \<Longrightarrow> row_in S (ds ! i) d) \<Longrightarrow> list_all2 (row_in S) ds (ds[i := d])"
  by (cases "i < length ds") (auto simp: list_all2_conv_all_nth nth_list_update)

lemma rows_trans: "list_all2 row_step ds ds1 \<Longrightarrow> list_all2 row_step ds1 ds2 \<Longrightarrow> list_all2 row_step ds ds2"
  by (rule list_all2_trans [of row_step row_step row_step]) (auto intro: row_step_trans)

lemma step_capped:
  assumes "list_all2 (row_in S) ds ds1" and "evicts S (ds1 @ new) ds'"
    and "\<forall>d \<in> set new. dv_status d = Pending \<and> well_formed d \<and> dv_id d \<notin> dv_id ` set ds" and "distinct (map dv_id new)"
  shows "queue_step True ds ds'"
proof -
  have "terminal (ds ! k) \<or> ds1 ! k \<in> set ds'" if "k < length ds1" for k
    using assms(1,2) that nth_mem [OF that] by (auto simp: list_all2_conv_all_nth row_in_def evicts_def)
  then have "list_all2 (\<lambda>d d1. terminal d \<or> d1 \<in> set ds') ds ds1" using assms(1) by (simp add: list_all2_conv_all_nth)
  moreover have "list_all2 row_step ds ds1" using assms(1) by (rule list_all2_mono) (simp add: row_in_def)
  ultimately show ?thesis using assms(2-4) unfolding queue_step_def evicts_def by blast
qed

lemma step_rows: "list_all2 row_step ds ds' \<Longrightarrow> queue_step True ds ds'"
  using step_capped [of UNIV ds ds' "[]" ds'] by simp

lemma step_append:
  "evicts {} (ds @ [d]) ds' \<Longrightarrow> dv_status d = Pending \<Longrightarrow> well_formed d \<Longrightarrow> dv_id d \<notin> dv_id ` set ds \<Longrightarrow> queue_step True ds ds'"
  by (rule step_capped [where ?new = "[d]"]) simp_all

lemma step_row:
  "(\<And>d. p d \<Longrightarrow> row_step d (f d)) \<Longrightarrow> queue_step True ds (update_first p f ds)"
  using rows_update_first [of p UNIV f] by (simp add: step_rows)

lemma step_same [simp]: "queue_step True ds ds"
  by (rule step_rows) (simp add: list_all2_refl)

lemma step_lossy: "queue_step b ds ds' \<Longrightarrow> queue_step False ds ds'"
  unfolding queue_step_def by blast

text \<open>The sections of the executor, the commands and the tools make such steps.\<close>

lemma queue_simps [simp]:
  "lv_queue (close_mini_session a lv) = lv_queue lv" "lv_queue (close_known x lv) = lv_queue lv"
  "lv_queue (upsert_mini_session now a p pr st c h t lv) = lv_queue lv"
  "lv_queue (fold close_mini_session as lv) = lv_queue lv"
  "lv_queue (session_before_launch now st d pj l lv) = lv_queue lv"
proof -
  show close: "lv_queue (close_mini_session a lv) = lv_queue lv" for a lv by (simp add: close_mini_session_def)
  show "lv_queue (close_known x lv) = lv_queue lv" by (simp add: close_known_def close split: option.split)
  show upsert: "lv_queue (upsert_mini_session now a p pr st c h t lv) = lv_queue lv" for now a p pr st c h t
    by (simp add: upsert_mini_session_def Let_def)
  show "lv_queue (fold close_mini_session as lv) = lv_queue lv" by (induction as arbitrary: lv) (simp_all add: close)
  show "lv_queue (session_before_launch now st d pj l lv) = lv_queue lv"
    by (simp add: session_before_launch_def upsert split: option.split)
qed

lemma queue_of_case: "lv_queue (case x of None \<Rightarrow> lv | Some t \<Rightarrow> lv\<lparr>lv_sessions := f t\<rparr>) = lv_queue lv"
  by (cases x) simp_all

lemma queue_capped: "evicts {} (lv_queue lv) (lv_queue (cap_pass lv))" "evicts (set ps) (lv_queue lv) (lv_queue (cap_pass_protecting ps lv))"
  using cap_evicts [of "[]"] by (simp_all add: cap_pass_def cap_pass_protecting_def cap_directives_def cap_evicts)

lemma step_cap_pass: "list_all2 (row_in {}) ds (lv_queue lv) \<Longrightarrow> queue_step True ds (lv_queue (cap_pass lv))"
  "list_all2 (row_in (set ps)) ds (lv_queue lv) \<Longrightarrow> queue_step True ds (lv_queue (cap_pass_protecting ps lv))"
  using queue_capped by (auto intro: step_capped [where ?new = "[]"])

lemma rows_transition:
  "(\<And>d d'. dv_id d = i \<Longrightarrow> apply d = Inr d' \<Longrightarrow> row_in S d d') \<Longrightarrow>
     list_all2 (row_in S) (lv_queue lv) (lv_queue (transition_directive i apply lv))"
  by (auto simp: transition_directive_def intro!: rows_update_first split: sum.split)

lemma step_reap:
  assumes "\<And>d d'. apply d = Inr d' \<Longrightarrow> row_step d d'"
  shows "queue_step True (lv_queue lv) (lv_queue (reap apply d lv))"
proof -
  have "list_all2 (row_in (set [dv_id d])) (lv_queue lv) (lv_queue (transition_directive (dv_id d)
      (\<lambda>l. if dv_kill l then apply_aborted l (lit ''stopped by human (Stop button)'') else apply l) lv))"
    using assms row_failure(3) by (intro rows_transition) (auto simp: row_in_def row_step_def row_kept_def split: if_splits)
  then show ?thesis unfolding reap_def by (intro step_cap_pass(2)) simp
qed

lemma step_reaps:
  "queue_step True (lv_queue lv) (lv_queue (reap_timeout d lv))" "queue_step True (lv_queue lv) (lv_queue (reap_stuck d lv))"
  "queue_step True (lv_queue lv) (lv_queue (reap_parent_gone d lv))"
  unfolding reap_timeout_def reap_stuck_def reap_parent_gone_def
  by (rule step_reap, erule row_failure)+

lemma step_fail_launching: "queue_step True (lv_queue lv) (lv_queue (fail_launching i reason lv))"
  using row_ends [of "outcome_failed reason"] by (auto simp: fail_launching_def Let_def intro!: step_row)

lemma step_finalize: "is_terminal (oc_status oc) \<Longrightarrow> queue_step True (lv_queue lv) (lv_queue (finalize_section d oc lv))"
  by (auto simp: finalize_section_def Let_def intro!: step_row row_ends)

lemma step_launched: "queue_step True (lv_queue lv) (lv_queue (launched_section now st d pr l lv))"
proof -
  let ?f = "\<lambda>live. bindE (apply_launched live (mini_agent_id d) st) (\<lambda>next. Inr (next\<lparr>dv_scratch := Some (ln_scratch l),
    dv_task_id := (if blank (dv_task_id next) \<and> inherited_task d (ln_parent_task l) \<noteq> None then inherited_task d (ln_parent_task l) else dv_task_id next)\<rparr>))"
  have "list_all2 (row_in {}) (lv_queue lv) (lv_queue (transition_directive (dv_id d) ?f lv))"
    by (intro rows_transition) (auto simp: elim_bind intro: row_launched [OF _ refl])
  then show ?thesis unfolding launched_section_def Let_def by (intro step_cap_pass(1)) (simp only: queue_of_case queue_simps)
qed

lemma step_sweep: "queue_step False (lv_queue lv) (lv_queue (sweep_orphaned_launching pty lv0 lv))"
proof -
  let ?f = "\<lambda>i. transition_directive i (\<lambda>d. apply_failed d (lit ''launch orphaned by app restart''))"
  have "list_all2 row_step (lv_queue lv) (lv_queue (fold ?f is lv))" for "is"
  proof (induction "is" arbitrary: lv)
    case (Cons i "is")
    have "list_all2 row_step (lv_queue lv) (lv_queue (?f i lv))" using rows_transition [where S = UNIV] row_failure(1) by simp
    with Cons show ?case by (auto intro: rows_trans)
  qed (simp add: list_all2_refl)
  then have "queue_step False (lv_queue lv) (lv_queue (cap_pass (fold ?f is lv)))" for "is"
    using queue_capped(1) [of "fold ?f is lv"] unfolding queue_step_def evicts_def
    by (intro exI [of _ "lv_queue (fold ?f is lv)"] exI [of _ "[]"]) simp
  moreover have "queue_step False (lv_queue lv) (lv_queue lv)" by (rule step_lossy [OF step_same])
  ultimately show ?thesis by (simp add: sweep_orphaned_launching_def Let_def)
qed

lemma rows_kill: "list_all2 (row_in {}) (lv_queue lv) (lv_queue (snd (mark_kill_requested a lv)))"
  by (auto simp: mark_kill_requested_def Let_def kill_chain_def row_flags intro!: rows_map split: option.split)

lemma step_stop: "queue_step True (lv_queue lv) (lv_queue (snd (mini_coder_kill a lv)))"
  using step_cap_pass(1) [OF rows_kill] by (simp add: mini_coder_kill_def case_prod_beta)

lemma rows_steer: "list_all2 (row_in {}) (lv_queue lv) (lv_queue (snd (mark_steer_requested a m lv)))"
  using rows_kill [of lv a]
  by (auto simp: mark_steer_requested_def Let_def row_flags intro!: rows_list_update split: option.split prod.split)

lemma step_steer: "queue_step True (lv_queue lv) (lv_queue (snd (mini_coder_steer a m lv)))"
proof -
  have "queue_step True (lv_queue lv) (lv_queue (cap_pass (snd (mark_steer_requested a s lv))))" for s
    by (rule step_cap_pass(1) [OF rows_steer])
  then show ?thesis by (simp add: mini_coder_steer_def Let_def step_rows case_prod_beta)
qed

lemma step_append_main:
  "i \<notin> dv_id ` set (lv_queue lv) \<Longrightarrow> queue_step True (lv_queue lv) (lv_queue (append_main_coder_directive (main_directive i pr t fs ti now) lv))"
  unfolding append_main_coder_directive_def
  by (rule step_append [where d = "main_directive i pr t fs ti now"])
    (use queue_capped(1) [of "lv\<lparr>lv_queue := lv_queue lv @ [main_directive i pr t fs ti now]\<rparr>"] in
      \<open>auto simp: main_directive_def well_formed_def\<close>)

lemma mcp_cap_evicts: "distinct (map dv_id ds) \<Longrightarrow> evicts {} ds (cap_mini_coder_directives ds)"
proof -
  assume dist: "distinct (map dv_id ds)"
  let ?ended = "filter terminal ds"
  let ?order = "sort_key queue_order (filter (\<lambda>d. dv_collected d = Some True) ?ended) @
    sort_key queue_order (filter (\<lambda>d. dv_collected d \<noteq> Some True) ?ended)"
  have ended: "d \<in> set ds \<and> terminal d" if "d \<in> set (take k ?order)" for d k using set_take_subset [of k ?order] that by auto
  have same: "d = e" if "d \<in> set ds" "e \<in> set ds" "dv_id d = dv_id e" for d e using dist that by (metis distinct_map inj_onD)
  have keep: "dv_id d \<notin> dv_id ` set (take k ?order)" if "d \<in> set ds" "\<not> terminal d" for d k
  proof
    assume "dv_id d \<in> dv_id ` set (take k ?order)"
    then obtain e where "e \<in> set (take k ?order)" "dv_id d = dv_id e" by blast
    with ended [of e k] same [of d e] that show False by blast
  qed
  have "cap_mini_coder_directives ds = ds \<or>
      (\<exists>k. cap_mini_coder_directives ds = filter (\<lambda>d. dv_id d \<notin> dv_id ` set (take k ?order)) ds)"
    unfolding cap_mini_coder_directives_def Let_def set_map by metis
  moreover have "evicts {} ds (filter (\<lambda>d. dv_id d \<notin> dv_id ` set (take k ?order)) ds)" for k
    unfolding evicts_def using keep [of _ k] by (simp only: set_filter mem_Collect_eq subseq_filter_left) blast
  ultimately show ?thesis using evicts_refl by metis
qed

lemma step_spawn:
  assumes "distinct (map dv_id (lv_queue lv))" and "sp_id r \<notin> dv_id ` set (lv_queue lv)" and "spawn_section draft r lv = Inr lv'"
  shows "queue_step True (lv_queue lv) (lv_queue lv')"
proof -
  have "lv_queue lv' = cap_mini_coder_directives (lv_queue lv @ [spawn_directive r])"
    using assms(3) by (auto simp: spawn_section_def Let_def split: if_splits)
  moreover have "distinct (map dv_id (lv_queue lv @ [spawn_directive r]))" using assms(1,2) by (auto simp: spawn_directive_def)
  ultimately show ?thesis
    using step_append [OF mcp_cap_evicts] assms(2) by (simp add: spawn_directive_def well_formed_def)
qed

lemma row_maybe_ends: "is_terminal (oc_status oc) \<Longrightarrow>
    row_step d (if P then d else let oc = oc in d\<lparr>dv_status := oc_status oc, dv_result := Some oc\<rparr>)"
  unfolding Let_def by (cases P) (simp_all only: if_True if_False row_step_refl row_ends)

lemma step_await: "queue_step True (lv_queue lv) (lv_queue (await_stamp i lv))"
  unfolding await_stamp_def by (simp del: Let_def, intro step_row row_maybe_ends) simp

lemma step_collected: "queue_step True (lv_queue lv) (lv_queue (stamp_collected i lv))"
  using row_flags [of UNIV] by (simp add: stamp_collected_def step_row)

lemma step_tool_steer: "queue_step True (lv_queue lv) (lv_queue (snd (steer_section a i m lv)))"
proof -
  have kill: "queue_step True (lv_queue lv) (kill_chain i (lv_queue lv))"
    using rows_map [of UNIV "\<lambda>d. if in_chain i d \<and> \<not> terminal d then d\<lparr>dv_kill := True\<rparr> else d"] row_flags(1) [of UNIV]
    by (simp add: step_rows kill_chain_def)
  have "queue_step True (lv_queue lv) ((lv_queue lv)[k := (lv_queue lv ! k)\<lparr>dv_steer := dv_steer (lv_queue lv ! k) @ [m]\<rparr>])" for k
    using rows_list_update [of k "lv_queue lv" UNIV] row_flags(2) [of UNIV] by (simp add: step_rows)
  with kill show ?thesis unfolding steer_section_def Let_def by simp
qed

text \<open>What a finished worker's row is given is terminal.\<close>

lemma read_result_terminal: "is_terminal (oc_status (read_result_file H io base rel))"
proof -
  have "is_terminal (oc_status (outcome_of_result r))" for r
    by (simp add: outcome_of_result_def outcome_done_def outcome_needs_clarification_def failed_from_result_def Let_def)
  then show ?thesis by (simp add: read_result_file_def Let_def split: sum.split option.split)
qed

lemma finalize_terminal: "is_terminal (oc_status (finalize_outcome H io to_path d))"
  by (simp add: finalize_outcome_def read_result_outcome_def read_result_terminal split: option.split)

lemma applied_terminal:
  "apply_write_directive_edits R io base dv oc d = (oc', touched, d') \<Longrightarrow> is_terminal (oc_status oc) \<Longrightarrow> is_terminal (oc_status oc')"
  by (auto simp: apply_write_directive_edits_def split: if_splits option.splits prod.splits sum.splits)

section \<open>Claims\<close>

text \<open>A claim that is won makes one pending row launching, whose files no active row has.\<close>

lemma claim_won:
  assumes "claim_directive H now i lv = (True, lv')"
  obtains us c vs ds1 where "lv_queue lv = us @ c # vs" and "dv_status c = Pending" and "dv_id c = i"
    and "\<And>a. a \<in> set us \<union> set vs \<Longrightarrow> active a \<Longrightarrow> file_set H c \<inter> file_set H a = {}"
    and "evicts {} (us @ c\<lparr>dv_status := Launching, dv_claimed := Some now\<rparr> # vs) (lv_queue lv')"
proof -
  obtain c where c: "List.find (has_id i) (lv_queue lv) = Some c" "dv_status c = Pending" "files_disjoint_from_active H c (lv_queue lv)"
    and lv': "lv' = cap_pass (lv\<lparr>lv_queue := update_first (has_id i) (\<lambda>_. c\<lparr>dv_status := Launching, dv_claimed := Some now\<rparr>) (lv_queue lv)\<rparr>)"
    using assms by (auto simp: claim_directive_def apply_claim_def split: option.splits if_splits)
  let ?c = "c\<lparr>dv_status := Launching, dv_claimed := Some now\<rparr>"
  obtain k where k: "k < length (lv_queue lv)" "lv_queue lv ! k = c" "dv_id c = i"
      "update_first (has_id i) (\<lambda>_. ?c) (lv_queue lv) = (lv_queue lv)[k := ?c]"
    using update_first_list_update [OF c(1), of "\<lambda>_. ?c"] by metis
  let ?us = "take k (lv_queue lv)" and ?vs = "drop (Suc k) (lv_queue lv)"
  have split: "lv_queue lv = ?us @ c # ?vs" using k(1,2) id_take_nth_drop by blast
  have "lv_queue lv' = lv_queue (cap_pass (lv\<lparr>lv_queue := ?us @ ?c # ?vs\<rparr>))" using lv' k(1,4) by (simp add: upd_conv_take_nth_drop)
  then have "evicts {} (?us @ ?c # ?vs) (lv_queue lv')" using queue_capped(1) [of "lv\<lparr>lv_queue := ?us @ ?c # ?vs\<rparr>"] by simp
  moreover have "file_set H c \<inter> file_set H a = {}" if "a \<in> set ?us \<union> set ?vs" "active a" for a
  proof -
    have "a \<in> set (lv_queue lv)" using that(1) by (auto dest: in_set_takeD in_set_dropD)
    with that(2) c(3) show ?thesis by (fastforce simp: files_disjoint_from_active_def active_file_set_def list_all_iff file_set_def)
  qed
  ultimately show ?thesis using that [OF split c(2) k(3)] by blast
qed

lemma claim_lost: "claim_directive H now i lv = (False, lv') \<Longrightarrow> queue_step True (lv_queue lv) (lv_queue lv')"
  by (auto simp: claim_directive_def step_cap_pass split: option.splits if_splits sum.splits)

section \<open>The invariants of a queue\<close>

lemma ids_rows: "list_all2 row_step ds ds1 \<Longrightarrow> map dv_id ds1 = map dv_id ds"
  by (induction rule: list_all2_induct) (auto simp: row_step_def row_kept_def)

lemma subseq_distinct_map: "subseq xs ys \<Longrightarrow> distinct (map f ys) \<Longrightarrow> distinct (map f xs)"
  by (auto simp: subseq_conv_nths nths_map [symmetric])

lemma subseq_set: "subseq xs ys \<Longrightarrow> set xs \<subseteq> set ys"
  by (metis notin_set_nthsI subseq_conv_nths subsetI)

lemma step_distinct:
  assumes "queue_step b ds ds'" and "distinct (map dv_id ds)"
  shows "distinct (map dv_id ds')"
proof -
  obtain ds1 new where q: "list_all2 row_step ds ds1" "subseq ds' (ds1 @ new)" "\<forall>d \<in> set new. dv_id d \<notin> dv_id ` set ds" "distinct (map dv_id new)"
    using assms(1) unfolding queue_step_def by blast
  have "set (map dv_id ds) \<inter> set (map dv_id new) = {}" using q(3) by (force simp: image_iff)
  then have "distinct (map dv_id (ds1 @ new))" using q(4) assms(2) ids_rows [OF q(1)] by (simp del: set_map)
  with q(2) show ?thesis by (rule subseq_distinct_map)
qed

lemma step_well_formed:
  assumes "queue_step b ds ds'" and "\<forall>d \<in> set ds. well_formed d"
  shows "\<forall>d \<in> set ds'. well_formed d"
proof -
  obtain ds1 new where q: "list_all2 row_step ds ds1" "subseq ds' (ds1 @ new)" "\<forall>d \<in> set new. well_formed d"
    using assms(1) unfolding queue_step_def by blast
  have "well_formed (ds1 ! k)" if "k < length ds1" for k
    using q(1) assms(2) that by (auto simp: list_all2_conv_all_nth row_step_def)
  then have "\<forall>d \<in> set ds1. well_formed d" by (auto simp: in_set_conv_nth)
  then show ?thesis using q(2,3) subseq_set by fastforce
qed

lemma step_active:
  assumes "queue_step b ds ds'"
  shows "subseq (active_files H ds') (active_files H ds)"
proof -
  obtain ds1 new where q: "list_all2 row_step ds ds1" "subseq ds' (ds1 @ new)" "\<forall>d \<in> set new. dv_status d = Pending"
    using assms unfolding queue_step_def by blast
  have "list_all2 (\<lambda>d d'. active d' \<longrightarrow> active d \<and> file_set H d' = file_set H d) ds ds1"
    using q(1) by (rule list_all2_mono) (auto simp: row_step_def row_kept_def file_set_def)
  then have rows: "subseq (active_files H ds1) (active_files H ds)" by (rule active_files_rows)
  have "active_files H (ds1 @ new) = active_files H ds1"
    using q(3) by (auto simp: active_files_def active_not_terminal filter_empty_conv)
  with active_files_sub [OF q(2), of H] have "subseq (active_files H ds') (active_files H ds1)" by simp
  from this rows show ?thesis by (rule subseq_order.order_trans)
qed

lemma step_keeps_open:
  assumes "queue_step True ds ds'" and "d \<in> set ds" and "\<not> terminal d"
  shows "\<exists>d' \<in> set ds'. row_kept d d'"
proof -
  obtain ds1 where q: "list_all2 row_step ds ds1" "list_all2 (\<lambda>d d1. terminal d \<or> d1 \<in> set ds') ds ds1"
    using assms(1) unfolding queue_step_def by blast
  obtain k where "k < length ds" "ds ! k = d" using assms(2) by (auto simp: in_set_conv_nth)
  then have "row_step d (ds1 ! k)" "ds1 ! k \<in> set ds'" using q assms(3) by (auto simp: list_all2_conv_all_nth)
  then show ?thesis by (auto simp: row_step_def)
qed

text \<open>Disjoint active rows; the claims a pass has left count as active.\<close>

definition files_apart :: "'a set list \<Rightarrow> bool" where
  "files_apart = sorted_wrt (\<lambda>A B. A \<inter> B = {})"

lemma files_apart_sub: "subseq xs ys \<Longrightarrow> files_apart ys \<Longrightarrow> files_apart xs"
  unfolding files_apart_def
proof (induction rule: list_emb.induct)
  case (list_emb_Cons2 A B xs ys)
  then show ?case using subseq_set by fastforce
qed auto

lemma files_apart_insert: "files_apart (xs @ ys) \<Longrightarrow> (\<And>A. A \<in> set xs \<union> set ys \<Longrightarrow> F \<inter> A = {}) \<Longrightarrow> files_apart (xs @ F # ys)"
  by (auto simp: files_apart_def sorted_wrt_append)

definition claims_left :: "job list \<Rightarrow> nat" where
  "claims_left js = length (filter (\<lambda>j. case j of ClaimJob _ _ \<Rightarrow> True | _ \<Rightarrow> False) js)"

lemma claims_left_simps [simp]:
  "claims_left [] = 0" "claims_left (xs @ ys) = claims_left xs + claims_left ys" "claims_left (ReapTimeout d # js) = claims_left js"
  "claims_left (ReapStuck d # js) = claims_left js" "claims_left (Inspect d g # js) = claims_left js"
  "claims_left (ClaimJob d p # js) = Suc (claims_left js)" "claims_left (LaunchJob d p # js) = claims_left js"
  by (simp_all add: claims_left_def)

lemma claims_left_map: "claims_left (map ReapTimeout ds) = 0" "claims_left (map ReapStuck ds) = 0"
  "claims_left (map (\<lambda>d. Inspect d (g d)) ds) = 0" "claims_left (map (\<lambda>d. ClaimJob d (p d)) ds) = length ds"
  by (induction ds) auto

lemma length_found: "length (found ds ids) \<le> length ids"
  by (induction ids) (auto simp: found_def List.map_filter_simps split: option.split)

lemma max_concurrent: "effective_max_concurrent c \<le> 4"
proof (cases c)
  case (Some w)
  have "max 1 (min 4 w) \<le> (4 :: 8 word)" by (intro max.boundedI) simp_all
  then have "unat (max 1 (min 4 w)) \<le> 4" by (simp add: word_le_nat_alt)
  with Some show ?thesis by (simp add: effective_max_concurrent_def)
qed (simp add: effective_max_concurrent_def DEFAULT_MAX_CONCURRENT_def)

lemma pass_claims:
  "claims_left (run_pass_jobs H now c inflight lv) + length (active_files H (lv_queue lv)) \<le> max 4 (length (active_files H (lv_queue lv)))"
proof -
  let ?n = "effective_max_concurrent c"
  let ?plan = "plan_tick H (lv_queue lv) now DEFAULT_WALL_CLOCK_CAP_SECS DEFAULT_RETRY_WALL_CLOCK_CAP_SECS DEFAULT_LAUNCH_CAP_SECS ?n inflight"
  have "length (tp_claims ?plan) \<le> ?n - length (filter active (lv_queue lv))"
    using chosen_bound by (auto simp: claims_of_plan)
  moreover have "claims_left (pass_jobs lv ?plan) \<le> length (tp_claims ?plan)"
    using length_found [of "lv_queue lv" "tp_claims ?plan"] by (simp add: pass_jobs_def Let_def claims_left_map)
  ultimately show ?thesis using max_concurrent [of c] by (auto simp: run_pass_jobs_def active_files_def max_def)
qed

section \<open>Runs\<close>

definition fleet_ok :: "mini_host \<Rightarrow> fleet \<Rightarrow> bool" where
  "fleet_ok H fl \<longleftrightarrow> distinct (map dv_id (lv_queue (fl_live fl))) \<and> (\<forall>d \<in> set (lv_queue (fl_live fl)). well_formed d) \<and>
     files_apart (active_files H (lv_queue (fl_live fl))) \<and> length (active_files H (lv_queue (fl_live fl))) + claims_left (fl_todo fl) \<le> 4"

lemma step_session: "queue_step True (lv_queue lv) (lv_queue (session_before_launch now st d p l lv))"
  by simp

lemma fleet_queue_step:
  assumes "fleet_ok H \<lparr>fl_live = lv, fl_todo = js\<rparr>" and "queue_step b (lv_queue lv) (lv_queue lv')" and "claims_left js' \<le> claims_left js"
  shows "fleet_ok H \<lparr>fl_live = lv', fl_todo = js'\<rparr>"
proof -
  have "length (active_files H (lv_queue lv')) \<le> length (active_files H (lv_queue lv))"
    using step_active [OF assms(2)] by (rule list_emb_length)
  then show ?thesis
    using assms step_distinct [OF assms(2)] step_well_formed [OF assms(2)] files_apart_sub [OF step_active [OF assms(2)]]
    by (auto simp: fleet_ok_def)
qed

lemma fleet_claim:
  assumes "fleet_ok H \<lparr>fl_live = lv, fl_todo = ClaimJob d p # js\<rparr>" and "claim_directive H now i lv = (True, lv')"
  shows "fleet_ok H \<lparr>fl_live = lv', fl_todo = LaunchJob d p # js\<rparr>"
proof -
  obtain us c vs where q: "lv_queue lv = us @ c # vs" "dv_status c = Pending"
      "\<And>a. a \<in> set us \<union> set vs \<Longrightarrow> active a \<Longrightarrow> file_set H c \<inter> file_set H a = {}"
      "evicts {} (us @ c\<lparr>dv_status := Launching, dv_claimed := Some now\<rparr> # vs) (lv_queue lv')"
    using claim_won [OF assms(2)] by metis
  let ?c = "c\<lparr>dv_status := Launching, dv_claimed := Some now\<rparr>"
  have sub: "subseq (lv_queue lv') (us @ ?c # vs)" using q(4) by (simp add: evicts_def)
  have "file_set H ?c = file_set H c" by (simp add: file_set_def)
  then have files: "active_files H (us @ ?c # vs) = active_files H us @ file_set H c # active_files H vs"
      "active_files H (lv_queue lv) = active_files H us @ active_files H vs"
    using q(1,2) by (simp_all add: active_files_def active_not_terminal)
  have ok: "files_apart (active_files H us @ active_files H vs)" "length (active_files H us @ active_files H vs) + Suc (claims_left js) \<le> 4"
    using assms(1) files(2) by (auto simp: fleet_ok_def)
  have "files_apart (active_files H us @ file_set H c # active_files H vs)"
    using ok(1) q(3) by (intro files_apart_insert) (auto simp: active_files_def)
  then have "files_apart (active_files H (lv_queue lv'))" using files_apart_sub [OF active_files_sub [OF sub]] files(1) by metis
  moreover have "length (active_files H (lv_queue lv')) \<le> Suc (length (active_files H us @ active_files H vs))"
    using list_emb_length [OF active_files_sub [OF sub, of H]] files(1) by simp
  moreover have "distinct (map dv_id (lv_queue lv'))"
    using assms(1) q(1) by (intro subseq_distinct_map [OF sub]) (auto simp: fleet_ok_def)
  moreover have "well_formed c" using assms(1) q(1) by (simp add: fleet_ok_def)
  then have "well_formed ?c" using q(2) by (simp add: well_formed_def)
  then have "\<forall>d \<in> set (lv_queue lv'). well_formed d"
    using assms(1) q(1) subseq_set [OF sub] by (auto simp: fleet_ok_def)
  ultimately show ?thesis using ok(2) by (simp add: fleet_ok_def)
qed

lemma fleet_step_ok: "fleet_step H fl fl' \<Longrightarrow> fleet_ok H fl \<Longrightarrow> fleet_ok H fl'"
proof (induction rule: fleet_step.induct)
  case (pass lv now c inflight)
  then show ?case using pass_claims [of H now c inflight lv] by (simp add: fleet_ok_def)
next
  case (ended R eio to_path d rio disk oc touched disk' lv g js)
  have "is_terminal (oc_status oc)" by (rule applied_terminal [OF ended(1) finalize_terminal])
  then show ?case using fleet_queue_step [OF ended(2) step_finalize] by simp
next
  case (claim now d lv won lv' p js)
  show ?case
  proof (cases won)
    case True
    then show ?thesis using fleet_claim [OF claim(2)] claim(1) by simp
  next
    case False
    then have "claim_directive H now (dv_id d) lv = (False, lv')" using claim(1) by simp
    from fleet_queue_step [OF claim(2) claim_lost [OF this]] False show ?thesis by simp
  qed
next
  case (spawn r lv draft lv' js)
  have "queue_step True (lv_queue lv) (lv_queue lv')" using spawn by (intro step_spawn) (auto simp: fleet_ok_def)
  then show ?case using fleet_queue_step [OF spawn(3)] by simp
next
  case (append i lv js project task fs task_id now)
  then show ?case using fleet_queue_step [OF _ step_append_main] by simp
qed (erule fleet_queue_step, (rule step_reaps step_fail_launching step_launched step_sweep step_stop step_steer step_await
  step_collected step_tool_steer step_same step_session), simp)+

lemma fleet_run_ok: "(fleet_step H)\<^sup>*\<^sup>* fl fl' \<Longrightarrow> fleet_ok H fl \<Longrightarrow> fleet_ok H fl'"
  by (induction rule: rtranclp_induct) (auto intro: fleet_step_ok)

definition sound_queue :: "mini_host \<Rightarrow> directive list \<Rightarrow> bool" where
  "sound_queue H ds \<longleftrightarrow> distinct (map dv_id ds) \<and> (\<forall>d \<in> set ds. well_formed d) \<and> length (filter active ds) \<le> 4 \<and>
     sorted_wrt (\<lambda>d e. file_set H d \<inter> file_set H e = {}) (filter active ds)"

lemma sound_fleet: "fleet_ok H fl \<Longrightarrow> sound_queue H (lv_queue (fl_live fl))"
  by (simp add: fleet_ok_def sound_queue_def files_apart_def active_files_def sorted_wrt_map)

lemma fleet_sound: "fl_todo fl = [] \<Longrightarrow> sound_queue H (lv_queue (fl_live fl)) \<Longrightarrow> fleet_ok H fl"
  by (simp add: fleet_ok_def sound_queue_def files_apart_def active_files_def sorted_wrt_map)

text \<open>A run of the executor, the commands and the tools, from a sound queue, at the start of a pass.\<close>

definition fleet_run :: "mini_host \<Rightarrow> directive list \<Rightarrow> fleet \<Rightarrow> bool" where
  "fleet_run H ds fl \<longleftrightarrow> (\<exists>ss. (fleet_step H)\<^sup>*\<^sup>* \<lparr>fl_live = \<lparr>lv_queue = ds, lv_sessions = ss\<rparr>, fl_todo = []\<rparr> fl)"

lemma fleet_run_sound: "fleet_run H ds fl \<Longrightarrow> sound_queue H ds \<Longrightarrow> fleet_ok H fl"
  unfolding fleet_run_def using fleet_run_ok fleet_sound by force

text \<open>C16: in every run of the executor, the commands and the tools, at most four directives are active, and no two active ones
  have a file in common.\<close>

theorem fleet_exclusive:
  assumes "fleet_run H ds fl" and "sound_queue H ds"
  shows "length (filter active (lv_queue (fl_live fl))) \<le> 4 \<and>
    sorted_wrt (\<lambda>d e. file_set H d \<inter> file_set H e = {}) (filter active (lv_queue (fl_live fl)))"
  using sound_fleet [OF fleet_run_sound [OF assms]] by (simp add: sound_queue_def)

text \<open>C18: in every run the ids are distinct, and each directive looks as its status says: a launching one was claimed, a running
  one has its worker, start and folder, an ended one has a result of that status, and no other has a result.\<close>

theorem directives_well_formed:
  assumes "fleet_run H ds fl" and "sound_queue H ds"
  shows "distinct (map dv_id (lv_queue (fl_live fl))) \<and> list_all well_formed (lv_queue (fl_live fl))"
  using sound_fleet [OF fleet_run_sound [OF assms]] by (simp add: sound_queue_def list_all_iff)

lemma row_claimed: "dv_status c = Pending \<Longrightarrow> row_kept c (c\<lparr>dv_status := Launching, dv_claimed := Some now\<rparr>)"
  by (simp add: row_kept_def)

lemma row_kept_refl [simp]: "row_kept d d"
  by (simp add: row_kept_def)

lemma claim_keeps_open:
  assumes "claim_directive H now i lv = (won, lv')" and "d \<in> set (lv_queue lv)" and "\<not> terminal d"
  shows "\<exists>d' \<in> set (lv_queue lv'). row_kept d d'"
proof (cases won)
  case False
  then show ?thesis using step_keeps_open [OF claim_lost assms(2,3)] assms(1) by simp
next
  case True
  then obtain us c vs where q: "lv_queue lv = us @ c # vs" "dv_status c = Pending"
      "evicts {} (us @ c\<lparr>dv_status := Launching, dv_claimed := Some now\<rparr> # vs) (lv_queue lv')"
    using claim_won assms(1) by metis
  show ?thesis
  proof (cases "d = c")
    case True
    then show ?thesis using q row_claimed [OF q(2), of now] by (auto simp: evicts_def)
  next
    case False
    with q assms(2,3) have "d \<in> set (lv_queue lv')" by (auto simp: evicts_def)
    then show ?thesis by (intro bexI [of _ d]) simp_all
  qed
qed

text \<open>Every step but a won claim and a restart is lossless.\<close>

lemma fleet_step_cases:
  assumes "fleet_step H fl fl'" and "distinct (map dv_id (lv_queue (fl_live fl)))"
  shows "queue_step True (lv_queue (fl_live fl)) (lv_queue (fl_live fl')) \<or> (\<exists>now i won. claim_directive H now i (fl_live fl) = (won, fl_live fl')) \<or>
    (\<exists>pty lv0. fl' = \<lparr>fl_live = sweep_orphaned_launching pty lv0 (fl_live fl), fl_todo = []\<rparr>)"
  using assms
proof (induction rule: fleet_step.induct)
  case (ended R eio to_path e rio disk oc touched disk' lv g js)
  have "is_terminal (oc_status oc)" by (rule applied_terminal [OF ended(1) finalize_terminal])
  then show ?case by (simp add: step_finalize)
next
  case (spawn r lv draft lv' js)
  then show ?case using step_spawn by simp
next
  case (append i lv js project task fs task_id now)
  then show ?case using step_append_main by simp
qed (auto simp: step_reaps step_fail_launching step_launched step_stop step_steer step_await step_collected step_tool_steer)

text \<open>C17: in every run, a step keeps each open directive in the queue, with its task, its files, a Stop and its messages, at the
  same stage or a later one; only the restart of the app may drop one, which it has found orphaned while launching.\<close>

theorem open_directives_kept:
  assumes "fleet_run H ds fl" and "sound_queue H ds" and "fleet_step H fl fl'"
    and "d \<in> set (lv_queue (fl_live fl))" and "\<not> terminal d"
  shows "(\<exists>d' \<in> set (lv_queue (fl_live fl')). row_kept d d') \<or>
    (\<exists>pty lv0. fl' = \<lparr>fl_live = sweep_orphaned_launching pty lv0 (fl_live fl), fl_todo = []\<rparr>)"
proof -
  have "distinct (map dv_id (lv_queue (fl_live fl)))"
    using sound_fleet [OF fleet_run_sound [OF assms(1,2)]] by (simp add: sound_queue_def)
  from fleet_step_cases [OF assms(3) this] show ?thesis
    using step_keeps_open [OF _ assms(4,5)] claim_keeps_open [OF _ assms(4,5)] by blast
qed

section \<open>How a worker ends\<close>

lemma find_of_distinct:
  "distinct (map dv_id ds) \<Longrightarrow> d \<in> set ds \<Longrightarrow> List.find (has_id (dv_id d)) ds = Some d"
  by (induction ds) auto

lemma update_first_member: "List.find p ds = Some d \<Longrightarrow> f d \<in> set (update_first p f ds)"
  by (induction ds) (auto split: if_splits)

lemma reap_row:
  assumes "List.find (has_id (dv_id d)) (lv_queue lv) = Some live" and "apply live = Inr next" "dv_id next = dv_id live" and "active live"
  shows "(if dv_kill live then live\<lparr>dv_status := AbortedByHuman, dv_result := Some (outcome_aborted (lit ''stopped by human (Stop button)''))\<rparr>
      else next) \<in> set (lv_queue (reap apply d lv))" (is "?row \<in> _")
proof -
  let ?f = "\<lambda>l. if dv_kill l then apply_aborted l (lit ''stopped by human (Stop button)'') else apply l"
  have id: "dv_id live = dv_id d" using assms(1) by (auto simp: find_Some_iff)
  have "(case ?f live of Inr next \<Rightarrow> next | Inl _ \<Rightarrow> live) = ?row"
    using assms by (simp add: apply_aborted_def apply_outcome_def)
  then have "?row \<in> set (lv_queue (transition_directive (dv_id d) ?f lv))"
    using update_first_member [OF assms(1), of "\<lambda>l. case ?f l of Inr next \<Rightarrow> next | Inl _ \<Rightarrow> l"] by (simp add: transition_directive_def)
  moreover have "dv_id ?row = dv_id d" using id assms(3) by simp
  ultimately show ?thesis
    using queue_capped(2) [of "[dv_id d]" "close_known (dv_agent d) (transition_directive (dv_id d) ?f lv)"]
    unfolding reap_def evicts_def by simp
qed

lemma finalize_row:
  assumes "List.find (has_id (dv_id d)) (lv_queue lv) = Some live"
  shows "live\<lparr>dv_status := oc_status oc, dv_result := Some oc\<rparr> \<in> set (lv_queue (finalize_section d oc lv))"
  using update_first_member [OF assms, of "\<lambda>l. l\<lparr>dv_status := oc_status oc, dv_result := Some oc\<rparr>"]
  by (simp add: finalize_section_def Let_def)

text \<open>C19: a Stop wins over the three reaps, whenever it came: the directive ends as aborted; and over the worker's own end if the
  pass had seen it: then nothing of the worker's edits is written either.\<close>

theorem stop_wins:
  assumes "List.find (has_id (dv_id d)) (lv_queue lv) = Some live" and "active live" and "dv_kill live"
  shows "\<exists>oc. oc_status oc = AbortedByHuman \<and>
    (let stopped = live\<lparr>dv_status := AbortedByHuman, dv_result := Some oc\<rparr> in
     stopped \<in> set (lv_queue (reap_timeout d lv)) \<and> stopped \<in> set (lv_queue (reap_stuck d lv)) \<and> stopped \<in> set (lv_queue (reap_parent_gone d lv)) \<and>
     (dv_kill d \<longrightarrow> (\<exists>oc'. oc_status oc' = AbortedByHuman \<and> apply_write_directive_edits R eio base d (finalize_outcome H rio to_path d) disk = (oc', [], disk) \<and>
        live\<lparr>dv_status := AbortedByHuman, dv_result := Some oc'\<rparr> \<in> set (lv_queue (finalize_section d oc' lv)))))"
proof -
  let ?oc = "outcome_aborted (lit ''stopped by human (Stop button)'')"
  have "live\<lparr>dv_status := AbortedByHuman, dv_result := Some ?oc\<rparr> \<in> set (lv_queue (reap_timeout d lv))"
    "live\<lparr>dv_status := AbortedByHuman, dv_result := Some ?oc\<rparr> \<in> set (lv_queue (reap_stuck d lv))"
    "live\<lparr>dv_status := AbortedByHuman, dv_result := Some ?oc\<rparr> \<in> set (lv_queue (reap_parent_gone d lv))"
    unfolding reap_timeout_def reap_stuck_def reap_parent_gone_def
    using reap_row [OF assms(1) _ _ assms(2), of _ _] assms(2,3)
    by (auto simp: apply_timeout_def apply_failed_def apply_outcome_def)
  moreover have "apply_write_directive_edits R eio base d (finalize_outcome H rio to_path d) disk = (?oc, [], disk)" if "dv_kill d"
    using that by (simp add: finalize_outcome_def apply_write_directive_edits_def outcome_aborted_def outcome_default_def)
  ultimately show ?thesis using finalize_row [OF assms(1), of ?oc] by (intro exI [of _ ?oc]) (auto simp: Let_def)
qed

text \<open>A Stop that comes after the pass has looked is lost to the last write.\<close>

lemma late_stop_lost:
  assumes "List.find (has_id (dv_id d)) (lv_queue lv) = Some live" and "dv_kill live" and "oc_status oc = Done"
  shows "\<exists>d' \<in> set (lv_queue (finalize_section d oc lv)). dv_id d' = dv_id d \<and> dv_kill d' \<and> dv_status d' = Done"
  using finalize_row [OF assms(1), of oc] assms by (intro bexI [of _ "live\<lparr>dv_status := oc_status oc, dv_result := Some oc\<rparr>"]) (auto simp: find_Some_iff)

text \<open>A result file that says done.\<close>

definition result_says_done :: "mini_host \<Rightarrow> result_io \<Rightarrow> (rstr \<Rightarrow> path) \<Rightarrow> directive \<Rightarrow> bool" where
  "result_says_done H rio to_path d \<longleftrightarrow> (\<exists>p canon target raw j r. let file = join_rel (to_path p) (replace1 92 [47] (dv_result_path d)) in
     dv_scratch d = Some p \<and> validate_result_rel_path H (dv_result_path d) = Inr () \<and>
     ri_canonical rio (to_path p) = Some canon \<and> ri_canonical rio file = Some target \<and> inside canon target \<and>
     ri_bytes rio file \<le> 2 ^ 20 \<and> ri_text rio file = Some raw \<and> ri_parse rio raw = Some j \<and> de_mini_result j = Some r \<and> rs_status r = lit ''done'')"

lemma outcome_done_iff: "oc_status (outcome_of_result r) = Done \<longleftrightarrow> rs_status r = lit ''done''"
  by (simp add: outcome_of_result_def outcome_done_def outcome_needs_clarification_def failed_from_result_def Let_def)

lemma finalize_done: "oc_status (finalize_outcome H rio to_path d) = Done \<Longrightarrow> \<not> dv_kill d \<and> result_says_done H rio to_path d"
  unfolding result_says_done_def Let_def
  by (auto simp: finalize_outcome_def read_result_outcome_def read_result_file_def outcome_done_iff MAX_RESULT_BYTES_def Let_def bind_eq_Some_conv
    split: if_splits option.splits sum.splits)

text \<open>C20: a worker whose process has ended always gets a terminal outcome. It is done, and its edits are written, only if it was
  not stopped and its result file, of at most 1 MiB inside its own folder, links resolved, says so.\<close>

theorem worker_result_trusted:
  assumes "apply_write_directive_edits R eio base d (finalize_outcome H rio to_path d) disk = (oc, touched, disk')"
  shows "is_terminal (oc_status oc) \<and>
    (oc_status oc = Done \<or> touched \<noteq> [] \<or> disk' \<noteq> disk \<longrightarrow> \<not> dv_kill d \<and> result_says_done H rio to_path d)"
proof -
  have "is_terminal (oc_status oc)" by (rule applied_terminal [OF assms finalize_terminal])
  moreover have "oc_status (finalize_outcome H rio to_path d) = Done" if "oc_status oc = Done \<or> touched \<noteq> [] \<or> disk' \<noteq> disk"
    using assms that by (auto simp: apply_write_directive_edits_def split: if_splits option.splits prod.splits sum.splits)
  ultimately show ?thesis using finalize_done by blast
qed

section \<open>An example\<close>

definition demo_mini_host :: mini_host where
  "demo_mini_host = \<lparr>mh_windows = False, mh_lowercase = id, mh_time = (\<lambda>_. None)\<rparr>"

definition demo_pending :: directive where
  "demo_pending = demo_directive\<lparr>dv_status := Pending\<rparr>"

definition demo_claimed :: directive where
  "demo_claimed = demo_pending\<lparr>dv_status := Launching, dv_claimed := Some []\<rparr>"

definition demo_live :: "directive \<Rightarrow> live" where
  "demo_live d = \<lparr>lv_queue = [d], lv_sessions = []\<rparr>"

lemma demo_sound: "sound_queue H [demo_pending]"
  by (simp add: sound_queue_def demo_pending_def demo_directive_def well_formed_def is_active_status_def)

text \<open>A pass claims the only directive.\<close>

lemma demo_jobs: "run_pass_jobs demo_mini_host now None {} (demo_live demo_pending) = [ClaimJob demo_pending None]"
  by (simp add: run_pass_jobs_def demo_live_def demo_pending_def demo_directive_def pass_jobs_def plan_tick_def demo_mini_host_def
      effective_max_concurrent_def DEFAULT_MAX_CONCURRENT_def active_file_set_def is_active_status_def found_def List.map_filter_simps
      directive_project_def is_app_authored_def APP_USER_PARENT_def lit_def numeral_2_eq_2 Let_def)

lemma demo_claim: "claim_directive demo_mini_host [] (dv_id demo_pending) (demo_live demo_pending) = (True, demo_live demo_claimed)"
  by (simp add: claim_directive_def demo_live_def demo_claimed_def demo_pending_def demo_directive_def files_disjoint_from_active_def
      active_file_set_def is_active_status_def apply_claim_def cap_pass_def cap_directives_def cap_directives_protecting_def MAX_DIRECTIVES_def)

lemma demo_run: "fleet_run demo_mini_host [demo_pending] \<lparr>fl_live = demo_live demo_claimed, fl_todo = [LaunchJob demo_pending None]\<rparr>"
proof -
  have "fleet_step demo_mini_host \<lparr>fl_live = demo_live demo_pending, fl_todo = []\<rparr>
      \<lparr>fl_live = demo_live demo_pending, fl_todo = [ClaimJob demo_pending None]\<rparr>"
    using fleet_step.pass [of demo_mini_host "demo_live demo_pending" "[]" None "{}"] by (simp add: demo_jobs)
  moreover have "fleet_step demo_mini_host \<lparr>fl_live = demo_live demo_pending, fl_todo = [ClaimJob demo_pending None]\<rparr>
      \<lparr>fl_live = demo_live demo_claimed, fl_todo = [LaunchJob demo_pending None]\<rparr>"
    using fleet_step.claim [OF demo_claim] by simp
  ultimately have "(fleet_step demo_mini_host)\<^sup>*\<^sup>* \<lparr>fl_live = demo_live demo_pending, fl_todo = []\<rparr>
      \<lparr>fl_live = demo_live demo_claimed, fl_todo = [LaunchJob demo_pending None]\<rparr>"
    by (meson converse_rtranclp_into_rtranclp rtranclp.rtrancl_refl)
  then show ?thesis unfolding fleet_run_def by (intro exI [of _ "[]"]) (simp add: demo_live_def)
qed

theorem fleet_exclusive_witness:
  "active demo_claimed \<and> length (filter active (lv_queue (demo_live demo_claimed))) \<le> 4"
  using fleet_exclusive [OF demo_run demo_sound] by (simp add: demo_claimed_def is_active_status_def)

theorem directives_well_formed_witness:
  "dv_status demo_claimed = Launching \<and> well_formed demo_claimed"
  using directives_well_formed [OF demo_run demo_sound] by (simp add: demo_live_def demo_claimed_def)

theorem open_directives_kept_witness:
  "\<not> terminal demo_claimed \<and> (\<exists>d' \<in> set (lv_queue (await_stamp [] (demo_live demo_claimed))). row_kept demo_claimed d')"
proof -
  let ?fl = "\<lparr>fl_live = demo_live demo_claimed, fl_todo = [LaunchJob demo_pending None]\<rparr>"
  let ?fl' = "\<lparr>fl_live = await_stamp [] (demo_live demo_claimed), fl_todo = [LaunchJob demo_pending None]\<rparr>"
  have "fleet_step demo_mini_host ?fl ?fl'" by (rule fleet_step.await)
  moreover have "demo_claimed \<in> set (lv_queue (fl_live ?fl))" by (simp add: demo_live_def)
  moreover have open_row: "\<not> terminal demo_claimed" by (simp add: demo_claimed_def)
  ultimately have "(\<exists>d' \<in> set (lv_queue (fl_live ?fl')). row_kept demo_claimed d') \<or>
      (\<exists>pty lv0. ?fl' = \<lparr>fl_live = sweep_orphaned_launching pty lv0 (fl_live ?fl), fl_todo = []\<rparr>)"
    by (rule open_directives_kept [OF demo_run demo_sound])
  with open_row show ?thesis by simp
qed

theorem stop_wins_witness:
  "\<exists>oc. oc_status oc = AbortedByHuman \<and> demo_directive\<lparr>dv_kill := True, dv_status := AbortedByHuman, dv_result := Some oc\<rparr>
     \<in> set (lv_queue (reap_timeout demo_directive (demo_live (demo_directive\<lparr>dv_kill := True\<rparr>))))"
proof -
  let ?live = "demo_directive\<lparr>dv_kill := True\<rparr>"
  have "List.find (has_id (dv_id demo_directive)) (lv_queue (demo_live ?live)) = Some ?live" by (simp add: demo_live_def)
  moreover have "active ?live" "dv_kill ?live" by (simp_all add: demo_directive_def is_active_status_def)
  ultimately show ?thesis using stop_wins unfolding Let_def by blast
qed

text \<open>A result file that says done.\<close>

definition demo_result_io :: result_io where
  "demo_result_io = \<lparr>ri_canonical = Some, ri_opens = (\<lambda>_. True), ri_reads = (\<lambda>_. True), ri_bytes = (\<lambda>_. 0), ri_text = (\<lambda>_. Some []),
     ri_parse = (\<lambda>_. Some (JObj [(lit ''status'', JStr (lit ''done''))]))\<rparr>"

definition demo_ended :: directive where
  "demo_ended = demo_directive\<lparr>dv_scratch := Some (lit ''s'')\<rparr>"

definition demo_result :: mini_result where
  "demo_result = \<lparr>rs_status = lit ''done'', rs_output = None, rs_files_touched = [], rs_edits = [], rs_question = None, rs_partial = None,
     rs_error = None, rs_net_blocked = False, rs_folder_write_blocked = None\<rparr>"

lemma demo_result_read: "de_mini_result (JObj [(lit ''status'', JStr (lit ''done''))]) = Some demo_result"
  by code_simp

lemma demo_result_path: "validate_result_rel_path demo_mini_host (lit ''result.json'') = Inr ()"
  "join_rel [lit ''s''] (replace1 92 [47] (lit ''result.json'')) = [lit ''s'', lit ''result.json'']" "trim (lit ''s'') \<noteq> []"
  by code_simp+

lemma demo_worker_done: "finalize_outcome demo_mini_host demo_result_io (\<lambda>p. [p]) demo_ended = outcome_done demo_result"
  by (simp add: finalize_outcome_def demo_ended_def demo_directive_def read_result_outcome_def read_result_file_def demo_result_path
      demo_result_io_def inside_def demo_result_read outcome_of_result_def Let_def) (simp add: demo_result_def)

theorem worker_result_trusted_witness:
  "result_says_done demo_mini_host demo_result_io (\<lambda>p. [p]) demo_ended"
proof -
  let ?oc = "finalize_outcome demo_mini_host demo_result_io (\<lambda>p. [p]) demo_ended"
  have "oc_status ?oc = Done" "oc_edits ?oc = []" by (simp_all add: demo_worker_done outcome_done_def demo_result_def)
  moreover from this have "apply_write_directive_edits (\<lambda>_ _. 0) demo_edit_io None demo_ended ?oc (demo_edit_disk []) =
      (?oc\<lparr>oc_files_touched := []\<rparr>, [], demo_edit_disk [])"
    by (simp add: apply_write_directive_edits_def) (simp add: demo_ended_def demo_directive_def)
  ultimately show ?thesis using worker_result_trusted by (metis outcome.select_convs(1) outcome.update_convs(3) outcome.surjective)
qed

end
