(* ===== verification/Consent.thy ===== *)
theory Consent
  imports AgentState "HOL-Library.FSet" "HOL-Library.Product_Lexorder"
begin

text \<open>
  Permissions of the desktop app: the sandbox modes, the one-shot grants and the working set of
  \<open>backend/broker/mod.rs\<close>, their use when a worker is launched (\<open>mini_coder_executor.rs\<close>), the queue of consent
  requests of \<open>consent_bridge.rs\<close>, the hook process of \<open>consent_hook.rs\<close> that waits for a verdict, the answers of
  \<open>projects.rs\<close>, and the live approvals of \<open>cloud_duplex.rs\<close>.
\<close>

section \<open>Modes and policies\<close>

datatype sandbox_mode = Ask | AutoAcceptInWorkspace | Unattended

definition prompts_for_net :: "sandbox_mode \<Rightarrow> bool" where
  "prompts_for_net mode \<longleftrightarrow> mode \<noteq> Unattended"

definition prompts_for_folder_write :: "sandbox_mode \<Rightarrow> bool" where
  "prompts_for_folder_write mode \<longleftrightarrow> mode \<noteq> Unattended"

definition is_default_sandbox_mode :: "sandbox_mode \<Rightarrow> bool" where
  "is_default_sandbox_mode mode \<longleftrightarrow> mode = Ask"

definition resolve_net_enabled :: "bool \<Rightarrow> bool \<Rightarrow> sandbox_mode \<Rightarrow> bool" where
  "resolve_net_enabled persistent transient mode =
     (if persistent then True else if transient \<and> mode \<noteq> Unattended then True else False)"

definition effective_sandbox_mode :: "sandbox_mode \<Rightarrow> bool \<Rightarrow> sandbox_mode" where
  "effective_sandbox_mode mode sandbox_enforced =
     (if mode = Unattended \<and> \<not> sandbox_enforced then Ask else mode)"

datatype consent_kind = Net | FolderWrite | Exec | Patch

datatype consent_decision = AllowRemember | AllowOnce | Deny

section \<open>One-shot grants\<close>

record broker =
  br_net :: "rstr fset"
  br_folders :: "rstr \<Rightarrow> rstr fset option"

definition broker_new :: broker where
  "broker_new = \<lparr>br_net = {||}, br_folders = Map.empty\<rparr>"

definition folder_grants :: "rstr \<Rightarrow> broker \<Rightarrow> rstr fset" where
  "folder_grants project b = (case br_folders b project of None \<Rightarrow> {||} | Some fs \<Rightarrow> fs)"

definition grant_net_once :: "rstr \<Rightarrow> broker \<Rightarrow> broker" where
  "grant_net_once project b = b\<lparr>br_net := finsert project (br_net b)\<rparr>"

definition take_net_grant :: "rstr \<Rightarrow> broker \<Rightarrow> bool \<times> broker" where
  "take_net_grant project b = (project |\<in>| br_net b, b\<lparr>br_net := br_net b |-| {|project|}\<rparr>)"

definition grant_folder_once :: "rstr \<Rightarrow> rstr \<Rightarrow> broker \<Rightarrow> broker" where
  "grant_folder_once project folder b =
     b\<lparr>br_folders := (br_folders b)(project \<mapsto> finsert folder (folder_grants project b))\<rparr>"

definition take_folder_grants :: "rstr \<Rightarrow> broker \<Rightarrow> rstr fset \<times> broker" where
  "take_folder_grants project b = (folder_grants project b, b\<lparr>br_folders := (br_folders b)(project := None)\<rparr>)"

definition take_all_grants :: "rstr \<Rightarrow> broker \<Rightarrow> (bool \<times> rstr fset) \<times> broker" where
  "take_all_grants project b =
     (let net_taken = project |\<in>| br_net b; folders_taken = folder_grants project b in
      ((net_taken, folders_taken),
       b\<lparr>br_net := br_net b |-| {|project|}, br_folders := (br_folders b)(project := None)\<rparr>))"

definition reinsert_all_grants :: "rstr \<Rightarrow> bool \<Rightarrow> rstr fset \<Rightarrow> broker \<Rightarrow> broker" where
  "reinsert_all_grants project net folders b =
     (let b = (if net then b\<lparr>br_net := finsert project (br_net b)\<rparr> else b) in
      if folders \<noteq> {||} then b\<lparr>br_folders := (br_folders b)(project \<mapsto> folder_grants project b |\<union>| folders)\<rparr> else b)"

definition resolve_working_set :: "rstr list \<Rightarrow> rstr fset \<Rightarrow> sandbox_mode \<Rightarrow> rstr list" where
  "resolve_working_set persisted transient mode =
     sorted_list_of_fset (fset_of_list persisted |\<union>| (if mode \<noteq> Unattended then transient else {||}))"

section \<open>The policy of Codex\<close>

datatype codex_approval_policy = PolicyNever | UnlessTrusted | OnRequest

definition policy_as_wire :: "codex_approval_policy \<Rightarrow> rstr" where
  "policy_as_wire p = (case p of PolicyNever \<Rightarrow> lit ''never'' | UnlessTrusted \<Rightarrow> lit ''unlessTrusted'' | OnRequest \<Rightarrow> lit ''onRequest'')"

record codex_thread_policy =
  cp_approval_policy :: codex_approval_policy
  cp_writable_roots :: "rstr list"
  cp_network_access :: bool
  cp_effort :: "rstr option"
  cp_developer_instructions :: "rstr option"

definition resolve_codex_thread_policy :: "sandbox_mode \<Rightarrow> rstr \<Rightarrow> rstr list \<Rightarrow> bool \<Rightarrow> codex_thread_policy" where
  "resolve_codex_thread_policy mode project_root working_set net_enabled =
     (let (approval_policy, writable_roots) =
        (case mode of
           Ask \<Rightarrow> (OnRequest, [project_root])
         | AutoAcceptInWorkspace \<Rightarrow> (OnRequest, project_root # working_set)
         | Unattended \<Rightarrow> (PolicyNever, project_root # working_set))
      in \<lparr>cp_approval_policy = approval_policy, cp_writable_roots = writable_roots, cp_network_access = net_enabled,
          cp_effort = None, cp_developer_instructions = None\<rparr>)"

section \<open>Launching a worker\<close>

datatype worker_route = RunAgentic | RunOneShot | RefuseCloud | RefuseMain

definition worker_route :: "bool \<Rightarrow> bool \<Rightarrow> rstr option \<Rightarrow> bool \<Rightarrow> bool \<Rightarrow> worker_route" where
  "worker_route cloud writes base_url should_run_agentic main =
     (let run_agentic = (if cloud
        then writes \<and> (case base_url of None \<Rightarrow> False | Some u \<Rightarrow> trim u \<noteq> []) else should_run_agentic)
      in if cloud \<and> \<not> run_agentic then RefuseCloud
         else if main \<and> \<not> run_agentic then RefuseMain
         else if run_agentic then RunAgentic else RunOneShot)"

text \<open>What the launch reads: the backend, and the project file, which it reads three times.\<close>

record launch_reads =
  lr_cloud :: bool
  lr_net :: "bool option"
  lr_mode :: "sandbox_mode option"
  lr_working_set :: "rstr list option"

record launch_policy =
  lp_net :: bool
  lp_folders :: "rstr list"

record launch =
  la_project :: rstr
  la_mode :: sandbox_mode
  la_taken :: "bool \<times> rstr fset"
  la_policy :: launch_policy

definition unwrap_opt :: "'a \<Rightarrow> 'a option \<Rightarrow> 'a" where
  "unwrap_opt d x = (case x of None \<Rightarrow> d | Some v \<Rightarrow> v)"

definition claim_grants :: "bool \<Rightarrow> rstr \<Rightarrow> launch_reads \<Rightarrow> broker \<Rightarrow> launch \<times> broker" where
  "claim_grants enforced project reads b =
     (let persistent_net = unwrap_opt False (lr_net reads);
          sandbox_mode = effective_sandbox_mode (unwrap_opt Ask (lr_mode reads)) enforced;
          ((net_taken, folders_taken), b') = take_all_grants project b;
          transient_net = (if sandbox_mode \<noteq> Unattended then net_taken else False);
          net_enabled = (lr_cloud reads \<or> resolve_net_enabled persistent_net transient_net sandbox_mode);
          transient_folders = (if sandbox_mode \<noteq> Unattended then folders_taken else {||});
          working_set = resolve_working_set (unwrap_opt [] (lr_working_set reads)) transient_folders sandbox_mode
      in (\<lparr>la_project = project, la_mode = sandbox_mode, la_taken = (net_taken, folders_taken),
           la_policy = \<lparr>lp_net = net_enabled, lp_folders = working_set\<rparr>\<rparr>, b'))"

definition spawn_result :: "launch \<Rightarrow> bool \<Rightarrow> broker \<Rightarrow> broker" where
  "spawn_result l spawned b =
     (if \<not> spawned \<and> la_mode l \<noteq> Unattended
      then reinsert_all_grants (la_project l) (fst (la_taken l)) (snd (la_taken l)) b else b)"

section \<open>The queue of requests\<close>

datatype bridge_status = PendingApproval | Allowed | Denied | Timeout | Superseded

definition is_terminal_status :: "bridge_status \<Rightarrow> bool" where
  "is_terminal_status s \<longleftrightarrow> s \<in> {Allowed, Denied, Timeout, Superseded}"

record consent_row =
  cr_id :: rstr
  cr_agent :: rstr
  cr_project :: rstr
  cr_kind :: consent_kind
  cr_detail :: rstr
  cr_path :: "rstr option"
  cr_status :: bridge_status
  cr_created :: rstr

definition MAX_CONSENT_REQUESTS :: nat where "MAX_CONSENT_REQUESTS = 50"

definition claim_terminal :: "bridge_status \<Rightarrow> consent_row \<Rightarrow> bool \<times> consent_row" where
  "claim_terminal status r =
     (if cr_status r \<noteq> PendingApproval then (False, r)
      else if \<not> is_terminal_status status then (False, r)
      else (True, r\<lparr>cr_status := status\<rparr>))"

definition oldest_terminal :: "consent_row list \<Rightarrow> nat list" where
  "oldest_terminal rows =
     sort_key (\<lambda>i. (cr_created (rows ! i), cr_id (rows ! i))) (filter (\<lambda>i. is_terminal_status (cr_status (rows ! i))) [0..<length rows])"

definition cap_consent_requests :: "nat \<Rightarrow> consent_row list \<Rightarrow> consent_row list" where
  "cap_consent_requests limit rows =
     (if length rows \<le> limit then rows else drop_positions (take (length rows - limit) (oldest_terminal rows)) rows)"

definition supersede_row :: "consent_row \<Rightarrow> consent_row \<Rightarrow> consent_row" where
  "supersede_row req r =
     (if is_terminal_status (cr_status r) then r
      else if cr_project r = cr_project req \<and> cr_kind r = cr_kind req \<and> cr_path r = cr_path req then r\<lparr>cr_status := Superseded\<rparr>
      else r)"

definition append_superseding :: "consent_row \<Rightarrow> consent_row list \<Rightarrow> consent_row list" where
  "append_superseding req rows = cap_consent_requests MAX_CONSENT_REQUESTS (map (supersede_row req) rows @ [req])"

text \<open>Of the agents file: the queue, and of each session its id and why it needs the user.\<close>

record consent_live =
  cl_requests :: "consent_row list"
  cl_sessions :: "(rstr \<times> rstr option) list"

definition set_bell :: "rstr \<Rightarrow> rstr option \<Rightarrow> (rstr \<times> rstr option) list \<Rightarrow> (rstr \<times> rstr option) list" where
  "set_bell agent needs sessions =
     (if agent \<noteq> [] then update_first (\<lambda>s. fst s = agent) (\<lambda>s. (fst s, needs)) sessions else sessions)"

section \<open>The hook process\<close>

definition hook_tool_to_kind :: "rstr \<Rightarrow> consent_kind option" where
  "hook_tool_to_kind tool_name =
     (if tool_name \<in> {lit ''Write'', lit ''Edit'', lit ''MultiEdit'', lit ''NotebookEdit''} then Some Patch
      else if tool_name \<in> {lit ''Bash'', lit ''KillShell''} then Some Exec
      else if tool_name \<in> {lit ''Read'', lit ''Glob'', lit ''Grep'', lit ''LS'', lit ''Task'', lit ''WebFetch'', lit ''WebSearch'', lit ''TodoWrite''} then None
      else if starts_with (lit ''mcp__'') tool_name then None
      else Some Exec)"

definition nonempty_field :: "rstr \<Rightarrow> json \<Rightarrow> rstr option" where
  "nonempty_field key tool_input = (case jstr key tool_input of Some s \<Rightarrow> if s \<noteq> [] then Some s else None | None \<Rightarrow> None)"

definition extract_detail_path :: "consent_kind \<Rightarrow> json \<Rightarrow> rstr \<times> rstr option" where
  "extract_detail_path kind tool_input =
     (case kind of
        Exec \<Rightarrow> (unwrap_opt [] (nonempty_field (lit ''command'') tool_input), None)
      | Patch \<Rightarrow>
          let path = (case nonempty_field (lit ''file_path'') tool_input of
                Some p \<Rightarrow> Some p | None \<Rightarrow> nonempty_field (lit ''notebook_path'') tool_input)
          in (unwrap_opt [] path, path)
      | _ \<Rightarrow> ([], None))"

record hook_env =
  he_bridge :: rstr
  he_agent :: rstr
  he_project :: rstr

text \<open>A hook polls, with the number of read errors in a row; has polled and looks at its clock; or has decided.\<close>

datatype hook_pc = Polling nat | Polled nat | Decided "rstr + bool"

definition MAX_CONSECUTIVE_ERRORS :: nat where "MAX_CONSECUTIVE_ERRORS = 10"

definition find_row :: "rstr \<Rightarrow> consent_live \<Rightarrow> consent_row option" where
  "find_row i live = List.find (\<lambda>r. cr_id r = i) (cl_requests live)"

definition hook_row :: "hook_env \<Rightarrow> consent_kind \<Rightarrow> json \<Rightarrow> rstr \<Rightarrow> rstr \<Rightarrow> consent_row" where
  "hook_row E kind tool_input request_id created_at =
     (case extract_detail_path kind tool_input of (detail, path) \<Rightarrow>
        \<lparr>cr_id = request_id, cr_agent = he_agent E, cr_project = he_project E, cr_kind = kind, cr_detail = detail,
         cr_path = path, cr_status = PendingApproval, cr_created = created_at\<rparr>)"

text \<open>\<open>decide\<close> up to its loop; \<open>stored\<close> says whether the locked write of the agents file succeeds.\<close>

definition hook_start :: "hook_env \<Rightarrow> json \<Rightarrow> rstr \<Rightarrow> rstr \<Rightarrow> bool \<Rightarrow> consent_live \<Rightarrow> hook_pc \<times> consent_live" where
  "hook_start E payload request_id created_at stored live =
     (case hook_tool_to_kind (jstr_or (lit ''tool_name'') [] payload) of
        None \<Rightarrow> (Decided (Inr True), live)
      | Some kind \<Rightarrow>
          if trim (he_bridge E) = [] then (Decided (Inl (lit ''bridge not configured'')), live)
          else let r = hook_row E kind (unwrap_opt JNull (jget (lit ''tool_input'') payload)) request_id created_at in
            if stored then
              (Polling 0, live\<lparr>cl_requests := cap_consent_requests MAX_CONSENT_REQUESTS (cl_requests live @ [r]),
                 cl_sessions := set_bell (he_agent E) (Some (lit ''needs_consent'')) (cl_sessions live)\<rparr>)
            else (Decided (Inl (lit ''could not record'')), live))"

definition poll_status :: "rstr \<Rightarrow> consent_live \<Rightarrow> bridge_status option" where
  "poll_status request_id live = map_option cr_status (find_row request_id live)"

definition hook_poll :: "rstr \<Rightarrow> bool \<Rightarrow> nat \<Rightarrow> consent_live \<Rightarrow> hook_pc" where
  "hook_poll request_id readable errors live =
     (if readable then
        (case poll_status request_id live of
           Some Allowed \<Rightarrow> Decided (Inr True)
         | Some Denied \<Rightarrow> Decided (Inr False)
         | Some Timeout \<Rightarrow> Decided (Inl (lit ''timed out''))
         | Some PendingApproval \<Rightarrow> Polled 0
         | Some Superseded \<Rightarrow> Polled 0
         | None \<Rightarrow> Decided (Inl (lit ''vanished'')))
      else if Suc errors \<ge> MAX_CONSECUTIVE_ERRORS then Decided (Inl (lit ''unreadable''))
      else Polled (Suc errors))"

definition claim_request :: "bridge_status \<Rightarrow> rstr \<Rightarrow> consent_live \<Rightarrow> consent_live" where
  "claim_request status request_id live =
     live\<lparr>cl_requests := update_first (\<lambda>r. cr_id r = request_id) (\<lambda>r. snd (claim_terminal status r)) (cl_requests live)\<rparr>"

definition hook_clock :: "rstr \<Rightarrow> rstr \<Rightarrow> bool \<Rightarrow> bool \<Rightarrow> nat \<Rightarrow> consent_live \<Rightarrow> hook_pc \<times> consent_live" where
  "hook_clock request_id agent past stored errors live =
     (if past then
        (Decided (Inl (lit ''timed out'')),
         if stored then (claim_request Timeout request_id live)\<lparr>cl_sessions := set_bell agent None (cl_sessions live)\<rparr> else live)
      else (Polling errors, live))"

text \<open>What the hook prints: only a decision to allow says allow.\<close>

definition hook_allows :: "rstr + bool \<Rightarrow> bool" where
  "hook_allows d = (case d of Inl _ \<Rightarrow> False | Inr b \<Rightarrow> b)"

section \<open>Live waiters\<close>

text \<open>
  A channel of \<open>std::sync::mpsc\<close> is a number; it holds at most one message, since its sender is dropped with the first
  one. It is open as long as its receiver lives.
\<close>

record channel =
  ch_message :: "consent_decision option"
  ch_open :: bool

record waiters =
  wt_pending :: "rstr \<Rightarrow> nat option"
  wt_channels :: "channel list"

definition waiters_new :: waiters where
  "waiters_new = \<lparr>wt_pending = Map.empty, wt_channels = []\<rparr>"

definition waiter_register :: "rstr \<Rightarrow> waiters \<Rightarrow> nat \<times> waiters" where
  "waiter_register approval_id w =
     (let n = length (wt_channels w) in
      (n, \<lparr>wt_pending = (wt_pending w)(approval_id \<mapsto> n), wt_channels = wt_channels w @ [\<lparr>ch_message = None, ch_open = True\<rparr>]\<rparr>))"

definition waiter_cancel :: "rstr \<Rightarrow> waiters \<Rightarrow> waiters" where
  "waiter_cancel approval_id w = w\<lparr>wt_pending := (wt_pending w)(approval_id := None)\<rparr>"

definition waiter_resolve :: "rstr \<Rightarrow> consent_decision \<Rightarrow> waiters \<Rightarrow> bool \<times> waiters" where
  "waiter_resolve approval_id decision w =
     (case wt_pending w approval_id of
        None \<Rightarrow> (False, w)
      | Some n \<Rightarrow>
          let w' = waiter_cancel approval_id w; c = wt_channels w ! n in
          if ch_open c then (True, w'\<lparr>wt_channels := (wt_channels w)[n := c\<lparr>ch_message := Some decision\<rparr>]\<rparr>)
          else (False, w'))"

definition drop_receiver :: "nat \<Rightarrow> waiters \<Rightarrow> waiters" where
  "drop_receiver n w = w\<lparr>wt_channels := (wt_channels w)[n := (wt_channels w ! n)\<lparr>ch_open := False\<rparr>]\<rparr>"

section \<open>Answers of the user\<close>

text \<open>Of a project file, the fields that the broker reads.\<close>

record project_policy =
  pp_net :: bool
  pp_mode :: sandbox_mode
  pp_working_set :: "rstr list"

definition strip_windows_verbatim_prefix :: "rstr \<Rightarrow> rstr" where
  "strip_windows_verbatim_prefix path =
     (case strip_prefix (92 # 92 # lit ''?'' @ 92 # lit ''UNC'' @ [92]) path of
        Some rest \<Rightarrow> 92 # 92 # rest
      | None \<Rightarrow> (case strip_prefix (92 # 92 # lit ''?'' @ [92]) path of Some rest \<Rightarrow> rest | None \<Rightarrow> path))"

text \<open>The host: whether the sandbox is enforced, and its file system.\<close>

record consent_host =
  ho_enforced :: bool
  ho_absolute :: "rstr \<Rightarrow> bool"
  ho_canonicalize :: "rstr \<Rightarrow> rstr option"

definition normalize_working_set_folder :: "consent_host \<Rightarrow> rstr \<Rightarrow> rstr + rstr" where
  "normalize_working_set_folder H folder =
     (let trimmed = trim folder in
      if trimmed = [] then Inl (lit ''folder path must not be empty'')
      else if \<not> ho_absolute H trimmed then Inl (lit ''folder path must be absolute'')
      else case ho_canonicalize H trimmed of
        None \<Rightarrow> Inl (lit ''cannot canonicalize folder'')
      | Some c \<Rightarrow> Inr (strip_windows_verbatim_prefix c))"

text \<open>The outcomes of one command: the vault is unlocked, the project file is saved, the agents file is saved.\<close>

record command_env =
  ce_unlocked :: bool
  ce_saved :: bool
  ce_stored :: bool

definition verdict_of :: "consent_decision \<Rightarrow> bridge_status" where
  "verdict_of d = (case d of AllowRemember \<Rightarrow> Allowed | AllowOnce \<Rightarrow> Allowed | Deny \<Rightarrow> Denied)"

definition answer_rows :: "rstr \<Rightarrow> consent_kind \<Rightarrow> rstr option \<Rightarrow> bridge_status \<Rightarrow> consent_live \<Rightarrow> consent_live" where
  "answer_rows project kind path status live =
     live\<lparr>cl_requests := map (\<lambda>r. if cr_project r = project \<and> cr_kind r = kind \<and> cr_path r = path
        then snd (claim_terminal status r) else r) (cl_requests live)\<rparr>"

type_synonym policies = "rstr \<Rightarrow> project_policy option"

definition mutate_project :: "rstr \<Rightarrow> (project_policy \<Rightarrow> project_policy) \<Rightarrow> policies \<Rightarrow> policies" where
  "mutate_project project f ps = (case ps project of None \<Rightarrow> ps | Some p \<Rightarrow> ps(project \<mapsto> f p))"

type_synonym grant_state = "policies \<times> broker \<times> consent_live"

definition grant_net_consent :: "command_env \<Rightarrow> rstr \<Rightarrow> consent_decision \<Rightarrow> grant_state \<Rightarrow> (rstr + unit) \<times> grant_state" where
  "grant_net_consent C project decision st = (case st of (ps, b, live) \<Rightarrow>
     if \<not> ce_unlocked C then (Inl (lit ''locked''), st)
     else if decision = AllowRemember \<and> \<not> ce_saved C then (Inl (lit ''not saved''), st)
     else
       let ps' = (if decision = AllowRemember then mutate_project project (\<lambda>p. p\<lparr>pp_net := True\<rparr>) ps else ps);
           b' = (if decision = AllowOnce then grant_net_once project b else b);
           live' = (if ce_stored C then answer_rows project Net None (verdict_of decision) live else live)
       in (Inr (), ps', b', live'))"

definition add_folder :: "rstr \<Rightarrow> project_policy \<Rightarrow> project_policy" where
  "add_folder folder p = (if folder \<in> set (pp_working_set p) then p else p\<lparr>pp_working_set := pp_working_set p @ [folder]\<rparr>)"

definition grant_folder_consent ::
    "consent_host \<Rightarrow> command_env \<Rightarrow> rstr \<Rightarrow> rstr \<Rightarrow> consent_decision \<Rightarrow> grant_state \<Rightarrow> (rstr + unit) \<times> grant_state" where
  "grant_folder_consent H C project folder decision st = (case st of (ps, b, live) \<Rightarrow>
     if \<not> ce_unlocked C then (Inl (lit ''locked''), st)
     else
       let live' = (if ce_stored C then answer_rows project FolderWrite (Some folder) (verdict_of decision) live else live) in
       case decision of
         Deny \<Rightarrow> (Inr (), ps, b, live')
       | AllowRemember \<Rightarrow> (case normalize_working_set_folder H folder of
             Inl e \<Rightarrow> (Inl e, st)
           | Inr c \<Rightarrow> if ce_saved C then (Inr (), mutate_project project (add_folder c) ps, b, live') else (Inl (lit ''not saved''), st))
       | AllowOnce \<Rightarrow> (case normalize_working_set_folder H folder of
             Inl e \<Rightarrow> (Inl e, st)
           | Inr c \<Rightarrow> (Inr (), ps, grant_folder_once project c b, live')))"

definition respond_cloud_consent ::
    "command_env \<Rightarrow> rstr \<Rightarrow> consent_decision \<Rightarrow> waiters \<times> consent_live \<Rightarrow> (rstr + unit) \<times> waiters \<times> consent_live" where
  "respond_cloud_consent C approval_id decision st = (case st of (w, live) \<Rightarrow>
     if \<not> ce_unlocked C then (Inl (lit ''locked''), st)
     else case waiter_resolve approval_id decision w of (delivered, w') \<Rightarrow>
       if delivered then (Inr (), w', live)
       else if \<not> ce_stored C then (Inl (lit ''not stored''), w', live)
       else case find_row approval_id live of
         None \<Rightarrow> (Inl (lit ''no pending cloud consent matched''), w', live)
       | Some r \<Rightarrow>
           if fst (claim_terminal (verdict_of decision) r)
           then (Inr (), w', (claim_request (verdict_of decision) approval_id live)\<lparr>cl_sessions := set_bell (cr_agent r) None (cl_sessions live)\<rparr>)
           else (Inr (), w', live))"

section \<open>Codex approvals\<close>

datatype codex_reply = Accept | AcceptForSession | Decline

definition reply_of :: "consent_decision \<Rightarrow> codex_reply" where
  "reply_of d = (case d of AllowRemember \<Rightarrow> AcceptForSession | AllowOnce \<Rightarrow> Accept | Deny \<Rightarrow> Decline)"

definition MAX_INFLIGHT_APPROVALS :: nat where "MAX_INFLIGHT_APPROVALS = 32"

text \<open>
  The waiter thread of an approval waits on its channel; its wait has ended without a decision; it has a reply to
  write; or it has written it, and its receiver is gone.
\<close>

datatype approval_pc = Waiting | Expired | Replying codex_reply | Answered codex_reply

record approval =
  ap_client :: nat
  ap_id :: rstr
  ap_channel :: "nat option"
  ap_pc :: approval_pc

record codex_client =
  cx_in_flight :: nat
  cx_tracked :: "rstr fset"

record approvals =
  as_waiters :: waiters
  as_clients :: "nat \<Rightarrow> codex_client"
  as_threads :: "approval list"

definition set_client :: "nat \<Rightarrow> (codex_client \<Rightarrow> codex_client) \<Rightarrow> approvals \<Rightarrow> approvals" where
  "set_client c f s = s\<lparr>as_clients := (as_clients s)(c := f (as_clients s c))\<rparr>"

definition handle_codex_approval :: "nat \<Rightarrow> rstr \<Rightarrow> bool \<Rightarrow> approvals \<Rightarrow> approvals" where
  "handle_codex_approval client approval_id spawned s =
     (if cx_in_flight (as_clients s client) \<ge> MAX_INFLIGHT_APPROVALS
      then s\<lparr>as_threads := as_threads s @ [\<lparr>ap_client = client, ap_id = approval_id, ap_channel = None, ap_pc = Answered Decline\<rparr>]\<rparr>
      else
        let (n, w) = waiter_register approval_id (as_waiters s);
            s = set_client client (\<lambda>c. c\<lparr>cx_in_flight := Suc (cx_in_flight c), cx_tracked := finsert approval_id (cx_tracked c)\<rparr>) (s\<lparr>as_waiters := w\<rparr>)
        in if spawned
           then s\<lparr>as_threads := as_threads s @ [\<lparr>ap_client = client, ap_id = approval_id, ap_channel = Some n, ap_pc = Waiting\<rparr>]\<rparr>
           else (set_client client (\<lambda>c. c\<lparr>cx_in_flight := cx_in_flight c - 1, cx_tracked := cx_tracked c |-| {|approval_id|}\<rparr>)
                  (s\<lparr>as_waiters := waiter_cancel approval_id (drop_receiver n w)\<rparr>))
                \<lparr>as_threads := as_threads s @ [\<lparr>ap_client = client, ap_id = approval_id, ap_channel = None, ap_pc = Answered Decline\<rparr>]\<rparr>)"

definition cancel_codex_session_waiters :: "nat \<Rightarrow> approvals \<Rightarrow> approvals" where
  "cancel_codex_session_waiters client s =
     (let ids = cx_tracked (as_clients s client) in
      (set_client client (\<lambda>c. c\<lparr>cx_tracked := {||}\<rparr>) s)\<lparr>as_waiters := fold waiter_cancel (sorted_list_of_fset ids) (as_waiters s)\<rparr>)"

definition set_thread :: "nat \<Rightarrow> approval_pc \<Rightarrow> approvals \<Rightarrow> approvals" where
  "set_thread k pc s = s\<lparr>as_threads := (as_threads s)[k := (as_threads s ! k)\<lparr>ap_pc := pc\<rparr>]\<rparr>"

text \<open>A thread receives its message, gives up, or cleans up after that; then it writes its reply and ends.\<close>

inductive thread_step :: "nat \<Rightarrow> approvals \<Rightarrow> approvals \<Rightarrow> bool" where
  recv: "k < length (as_threads s) \<Longrightarrow> ap_pc (as_threads s ! k) = Waiting \<Longrightarrow> ap_channel (as_threads s ! k) = Some n \<Longrightarrow>
    ch_message (wt_channels (as_waiters s) ! n) = Some d \<Longrightarrow> thread_step k s (set_thread k (Replying (reply_of d)) s)"
| expire: "k < length (as_threads s) \<Longrightarrow> ap_pc (as_threads s ! k) = Waiting \<Longrightarrow> ap_channel (as_threads s ! k) = Some n \<Longrightarrow>
    ch_message (wt_channels (as_waiters s) ! n) = None \<Longrightarrow> thread_step k s (set_thread k Expired s)"
| clean: "k < length (as_threads s) \<Longrightarrow> ap_pc (as_threads s ! k) = Expired \<Longrightarrow>
    thread_step k s (set_thread k (Replying Decline) (s\<lparr>as_waiters := waiter_cancel (ap_id (as_threads s ! k)) (as_waiters s)\<rparr>))"
| reply: "k < length (as_threads s) \<Longrightarrow> ap_pc (as_threads s ! k) = Replying r \<Longrightarrow> ap_channel (as_threads s ! k) = Some n \<Longrightarrow>
    thread_step k s (set_thread k (Answered r) (set_client (ap_client (as_threads s ! k))
      (\<lambda>c. c\<lparr>cx_in_flight := cx_in_flight c - 1, cx_tracked := cx_tracked c |-| {|ap_id (as_threads s ! k)|}\<rparr>)
      (s\<lparr>as_waiters := drop_receiver n (as_waiters s)\<rparr>)))"

section \<open>The system\<close>

text \<open>
  The app, the hook processes and the waiter threads share the agents file and the app's two registries. A worker is
  being spawned, is launched or has failed; the hooks and launches are numbered in the order of their start. Each step
  is one critical section: of the agents file's lock, of a registry's mutex, or a receive on a channel.
\<close>

datatype spawn_state = Spawning | Launched | SpawnFailed

record hook =
  hk_request :: rstr
  hk_agent :: rstr
  hk_gated :: bool
  hk_pc :: hook_pc

record consent_world =
  cw_policies :: policies
  cw_broker :: broker
  cw_live :: consent_live
  cw_launches :: "(launch_reads \<times> launch \<times> spawn_state) list"
  cw_hooks :: "hook list"
  cw_approvals :: approvals

datatype consent_event =
    EvGrantNet command_env rstr consent_decision
  | EvGrantFolder command_env rstr rstr consent_decision
  | EvProject rstr project_policy
  | EvLaunch rstr launch_reads
  | EvSpawned nat bool
  | EvBlocked rstr consent_row
  | EvHook hook_env json rstr rstr bool
  | EvPoll nat bool
  | EvClock nat bool bool
  | EvRespond command_env rstr consent_decision
  | EvApproval nat rstr bool
  | EvThread nat
  | EvKill nat

definition world_new :: "(rstr \<times> rstr option) list \<Rightarrow> consent_world" where
  "world_new sessions = \<lparr>cw_policies = Map.empty, cw_broker = broker_new, cw_live = \<lparr>cl_requests = [], cl_sessions = sessions\<rparr>,
     cw_launches = [], cw_hooks = [],
     cw_approvals = \<lparr>as_waiters = waiters_new, as_clients = (\<lambda>_. \<lparr>cx_in_flight = 0, cx_tracked = {||}\<rparr>), as_threads = []\<rparr>\<rparr>"

definition grants_of :: "consent_world \<Rightarrow> grant_state" where
  "grants_of w = (cw_policies w, cw_broker w, cw_live w)"

definition put_grants :: "grant_state \<Rightarrow> consent_world \<Rightarrow> consent_world" where
  "put_grants g w = (case g of (ps, b, live) \<Rightarrow> w\<lparr>cw_policies := ps, cw_broker := b, cw_live := live\<rparr>)"

definition put_hook :: "nat \<Rightarrow> hook_pc \<Rightarrow> consent_world \<Rightarrow> consent_world" where
  "put_hook k pc w = w\<lparr>cw_hooks := (cw_hooks w)[k := (cw_hooks w ! k)\<lparr>hk_pc := pc\<rparr>]\<rparr>"

text \<open>A blocked run files a request when its project's mode prompts; the row is the one the finalisation builds.\<close>

definition blocked_kind :: "consent_row \<Rightarrow> bool" where
  "blocked_kind r \<longleftrightarrow> cr_status r = PendingApproval \<and> (cr_kind r = Net \<and> cr_path r = None \<or> cr_kind r = FolderWrite \<and> cr_path r \<noteq> None)"

definition file_blocked :: "consent_host \<Rightarrow> sandbox_mode option \<Rightarrow> consent_row \<Rightarrow> consent_live \<Rightarrow> consent_live" where
  "file_blocked H mode r live =
     (let mode = effective_sandbox_mode (unwrap_opt Ask mode) (ho_enforced H) in
      if (if cr_kind r = Net then prompts_for_net mode else prompts_for_folder_write mode)
      then live\<lparr>cl_requests := append_superseding r (cl_requests live)\<rparr> else live)"

inductive consent_step :: "consent_host \<Rightarrow> consent_event \<Rightarrow> consent_world \<Rightarrow> consent_world \<Rightarrow> bool" for H where
  grant_net: "consent_step H (EvGrantNet C p d) w (put_grants (snd (grant_net_consent C p d (grants_of w))) w)"
| grant_folder: "consent_step H (EvGrantFolder C p f d) w (put_grants (snd (grant_folder_consent H C p f d (grants_of w))) w)"
| project: "consent_step H (EvProject p pol) w (w\<lparr>cw_policies := (cw_policies w)(p \<mapsto> pol)\<rparr>)"
| launch: "claim_grants (ho_enforced H) p reads (cw_broker w) = (l, b) \<Longrightarrow>
    consent_step H (EvLaunch p reads) w (w\<lparr>cw_broker := b, cw_launches := cw_launches w @ [(reads, l, Spawning)]\<rparr>)"
| spawned: "k < length (cw_launches w) \<Longrightarrow> cw_launches w ! k = (reads, l, Spawning) \<Longrightarrow>
    consent_step H (EvSpawned k ok) w (w\<lparr>cw_broker := spawn_result l ok (cw_broker w),
      cw_launches := (cw_launches w)[k := (reads, l, if ok then Launched else SpawnFailed)]\<rparr>)"
| blocked: "blocked_kind r \<Longrightarrow> cr_project r = p \<Longrightarrow>
    consent_step H (EvBlocked p r) w (w\<lparr>cw_live := file_blocked H mode r (cw_live w)\<rparr>)"
| blocked_unstored: "consent_step H (EvBlocked p r) w w"
| hook: "hook_start E payload i t stored (cw_live w) = (pc, live) \<Longrightarrow>
    consent_step H (EvHook E payload i t stored) w (w\<lparr>cw_live := live, cw_hooks := cw_hooks w @
      [\<lparr>hk_request = i, hk_agent = he_agent E, hk_gated = (hook_tool_to_kind (jstr_or (lit ''tool_name'') [] payload) \<noteq> None), hk_pc = pc\<rparr>]\<rparr>)"
| poll: "k < length (cw_hooks w) \<Longrightarrow> hk_pc (cw_hooks w ! k) = Polling errors \<Longrightarrow>
    consent_step H (EvPoll k readable) w (put_hook k (hook_poll (hk_request (cw_hooks w ! k)) readable errors (cw_live w)) w)"
| clock: "k < length (cw_hooks w) \<Longrightarrow> hk_pc (cw_hooks w ! k) = Polled errors \<Longrightarrow>
    hook_clock (hk_request (cw_hooks w ! k)) (hk_agent (cw_hooks w ! k)) past stored errors (cw_live w) = (pc, live) \<Longrightarrow>
    consent_step H (EvClock k past stored) w (put_hook k pc (w\<lparr>cw_live := live\<rparr>))"
| respond: "respond_cloud_consent C i d (as_waiters (cw_approvals w), cw_live w) = (res, ws, live) \<Longrightarrow>
    consent_step H (EvRespond C i d) w (w\<lparr>cw_live := live, cw_approvals := (cw_approvals w)\<lparr>as_waiters := ws\<rparr>\<rparr>)"
| approval: "consent_step H (EvApproval c i ok) w (w\<lparr>cw_approvals := handle_codex_approval c i ok (cw_approvals w)\<rparr>)"
| thread: "thread_step k (cw_approvals w) s \<Longrightarrow> consent_step H (EvThread k) w (w\<lparr>cw_approvals := s\<rparr>)"
| kill: "consent_step H (EvKill c) w (w\<lparr>cw_approvals := cancel_codex_session_waiters c (cw_approvals w)\<rparr>)"

text \<open>A run, with its events in order.\<close>

inductive consent_run :: "consent_host \<Rightarrow> consent_event list \<Rightarrow> consent_world \<Rightarrow> bool" for H where
  start: "consent_run H [] (world_new sessions)"
| step: "consent_run H es w \<Longrightarrow> consent_step H e w w' \<Longrightarrow> consent_run H (es @ [e]) w'"

end
