(* ===== verification/ConsentLaws.thy ===== *)
theory ConsentLaws
  imports Consent
begin

text \<open>
  The laws of the permissions: what a launch may do, that a one-shot grant is used once, that a verdict is final and no
  open request is lost, and that a hook or an approval allows only what the user has allowed.
\<close>

section \<open>Grants\<close>

text \<open>A grant of the network, or of a folder.\<close>

definition held :: "rstr option \<Rightarrow> rstr \<Rightarrow> broker \<Rightarrow> bool" where
  "held shot p b = (case shot of None \<Rightarrow> p |\<in>| br_net b | Some f \<Rightarrow> f |\<in>| folder_grants p b)"

definition took :: "rstr option \<Rightarrow> launch \<Rightarrow> bool" where
  "took shot l = (case shot of None \<Rightarrow> fst (la_taken l) | Some f \<Rightarrow> f |\<in>| snd (la_taken l))"

definition granted :: "consent_host \<Rightarrow> rstr option \<Rightarrow> rstr \<Rightarrow> consent_event \<Rightarrow> bool" where
  "granted H shot p e = (case e of
     EvGrantNet C q d \<Rightarrow> ce_unlocked C \<and> q = p \<and> d = AllowOnce \<and> shot = None
   | EvGrantFolder C q f d \<Rightarrow> ce_unlocked C \<and> q = p \<and> d = AllowOnce \<and> (case shot of None \<Rightarrow> False | Some g \<Rightarrow> normalize_working_set_folder H f = Inr g)
   | _ \<Rightarrow> False)"

lemma held_broker_new [simp]: "\<not> held shot p broker_new"
  by (simp add: held_def broker_new_def folder_grants_def split: option.split)

lemma folder_grants_upd [simp]:
  "folder_grants q (b\<lparr>br_folders := (br_folders b)(p := x)\<rparr>) = (if q = p then unwrap_opt {||} x else folder_grants q b)"
  "folder_grants q (b\<lparr>br_net := n\<rparr>) = folder_grants q b"
  "folder_grants q (b\<lparr>br_net := n, br_folders := (br_folders b)(p := x)\<rparr>) = (if q = p then unwrap_opt {||} x else folder_grants q b)"
  by (simp_all add: folder_grants_def unwrap_opt_def)

lemma held_take_all:
  "take_all_grants p b = (taken, b') \<Longrightarrow> held shot q b' \<longleftrightarrow> q \<noteq> p \<and> held shot q b"
  by (auto simp: take_all_grants_def Let_def held_def unwrap_opt_def split: option.split if_splits)

lemma held_reinsert:
  "held shot q (reinsert_all_grants p net folders b) \<longleftrightarrow>
     held shot q b \<or> q = p \<and> (case shot of None \<Rightarrow> net | Some f \<Rightarrow> f |\<in>| folders)"
  by (auto simp: reinsert_all_grants_def Let_def held_def unwrap_opt_def split: option.split)

lemma held_spawn_result:
  "held shot q (spawn_result l ok b) \<longleftrightarrow> held shot q b \<or> \<not> ok \<and> la_mode l \<noteq> Unattended \<and> q = la_project l \<and> took shot l"
  by (cases shot) (auto simp: spawn_result_def held_reinsert took_def)

lemma held_grant_net: "held shot q (grant_net_once p b) \<longleftrightarrow> held shot q b \<or> shot = None \<and> q = p"
  by (auto simp: grant_net_once_def held_def split: option.split)

lemma held_grant_folder: "held shot q (grant_folder_once p f b) \<longleftrightarrow> held shot q b \<or> shot = Some f \<and> q = p"
  by (auto simp: grant_folder_once_def held_def unwrap_opt_def split: option.split)

lemma claim_grants_parts:
  assumes "claim_grants enforced p reads b = (l, b')"
  shows "la_project l = p" and "la_mode l = effective_sandbox_mode (unwrap_opt Ask (lr_mode reads)) enforced"
    and "la_taken l = (p |\<in>| br_net b, folder_grants p b)" and "took shot l \<longleftrightarrow> held shot p b"
    and "lp_net (la_policy l) \<longleftrightarrow> lr_cloud reads \<or> lr_net reads = Some True \<or> la_mode l \<noteq> Unattended \<and> took None l"
    and "lp_folders (la_policy l) = sorted_list_of_fset (fset_of_list (unwrap_opt [] (lr_working_set reads)) |\<union>|
      (if la_mode l \<noteq> Unattended then folder_grants p b else {||}))"
    and "held shot q b' \<longleftrightarrow> q \<noteq> p \<and> held shot q b"
proof -
  let ?mode = "effective_sandbox_mode (unwrap_opt Ask (lr_mode reads)) enforced"
  have l: "la_project l = p" "la_mode l = ?mode" "la_taken l = (p |\<in>| br_net b, folder_grants p b)"
    "la_policy l = \<lparr>lp_net = lr_cloud reads \<or> resolve_net_enabled (unwrap_opt False (lr_net reads)) (if ?mode \<noteq> Unattended then p |\<in>| br_net b else False) ?mode,
      lp_folders = resolve_working_set (unwrap_opt [] (lr_working_set reads)) (if ?mode \<noteq> Unattended then folder_grants p b else {||}) ?mode\<rparr>"
    and b': "take_all_grants p b = ((p |\<in>| br_net b, folder_grants p b), b')"
    using assms by (auto simp: claim_grants_def take_all_grants_def Let_def)
  have net: "unwrap_opt False (lr_net reads) \<longleftrightarrow> lr_net reads = Some True" by (auto simp: unwrap_opt_def split: option.split)
  show "la_project l = p" "la_mode l = ?mode" "la_taken l = (p |\<in>| br_net b, folder_grants p b)" by (fact l)+
  show "took shot l \<longleftrightarrow> held shot p b" by (simp add: took_def held_def l(3) split: option.split)
  show "lp_net (la_policy l) \<longleftrightarrow> lr_cloud reads \<or> lr_net reads = Some True \<or> la_mode l \<noteq> Unattended \<and> took None l"
    unfolding l net took_def resolve_net_enabled_def launch_policy.simps option.case fst_conv by argo
  show "lp_folders (la_policy l) = sorted_list_of_fset (fset_of_list (unwrap_opt [] (lr_working_set reads)) |\<union>|
      (if la_mode l \<noteq> Unattended then folder_grants p b else {||}))"
    unfolding l resolve_working_set_def launch_policy.simps by simp
  show "held shot q b' \<longleftrightarrow> q \<noteq> p \<and> held shot q b" by (rule held_take_all [OF b'])
qed

lemma count_update:
  assumes "k < length xs"
  shows "length (filter P (xs[k := y])) + (if P (xs ! k) then 1 else 0) = length (filter P xs) + (if P y then 1 else 0)"
proof -
  have "length (filter P xs) = length (filter P (take k xs @ xs ! k # drop (Suc k) xs))" using id_take_nth_drop [OF assms] by simp
  then have "length (filter P xs) = length (filter P (take k xs)) + (if P (xs ! k) then 1 else 0) + length (filter P (drop (Suc k) xs))" by simp
  moreover have "length (filter P (xs[k := y])) = length (filter P (take k xs)) + (if P y then 1 else 0) + length (filter P (drop (Suc k) xs))"
    using assms by (simp add: upd_conv_take_nth_drop)
  ultimately show ?thesis by simp
qed

text \<open>A launch that runs, or may yet run, on a one-shot grant.\<close>

definition on_shot :: "rstr option \<Rightarrow> rstr \<Rightarrow> launch_reads \<times> launch \<times> spawn_state \<Rightarrow> bool" where
  "on_shot shot p entry = (case entry of (reads, l, st) \<Rightarrow> la_project l = p \<and> la_mode l \<noteq> Unattended \<and> took shot l \<and> st \<noteq> SpawnFailed)"

definition shots :: "rstr option \<Rightarrow> rstr \<Rightarrow> consent_world \<Rightarrow> nat" where
  "shots shot p w = length (filter (on_shot shot p) (cw_launches w)) + (if held shot p (cw_broker w) then 1 else 0)"

lemma grant_net_broker:
  "held shot p (fst (snd (snd (grant_net_consent C q d (ps, b, live))))) \<Longrightarrow> held shot p b \<or> granted H shot p (EvGrantNet C q d)"
  by (auto simp: grant_net_consent_def Let_def granted_def held_grant_net split: if_splits)

lemma grant_folder_broker:
  "held shot p (fst (snd (snd (grant_folder_consent H C q f d (ps, b, live))))) \<Longrightarrow> held shot p b \<or> granted H shot p (EvGrantFolder C q f d)"
  by (auto simp: grant_folder_consent_def Let_def granted_def held_grant_folder split: if_splits sum.splits consent_decision.splits)

lemma put_grants_simps [simp]:
  "cw_launches (put_grants g w) = cw_launches w" "cw_broker (put_grants g w) = fst (snd g)" "cw_live (put_grants g w) = snd (snd g)"
  "cw_hooks (put_grants g w) = cw_hooks w" "cw_approvals (put_grants g w) = cw_approvals w"
  by (simp_all add: put_grants_def case_prod_unfold)

lemma put_hook_simps [simp]:
  "cw_launches (put_hook k pc w) = cw_launches w" "cw_broker (put_hook k pc w) = cw_broker w" "cw_live (put_hook k pc w) = cw_live w"
  "cw_approvals (put_hook k pc w) = cw_approvals w" "length (cw_hooks (put_hook k pc w)) = length (cw_hooks w)"
  by (simp_all add: put_hook_def)

lemma step_shots:
  assumes "consent_step H e w w'"
  shows "shots shot p w' \<le> shots shot p w + (if granted H shot p e then 1 else 0)"
  using assms
proof cases
  case (grant_net C q d)
  then show ?thesis using grant_net_broker [of shot p C q d "cw_policies w" "cw_broker w" "cw_live w" H]
    by (auto simp: shots_def grants_of_def)
next
  case (grant_folder C q f d)
  then show ?thesis using grant_folder_broker [of shot p H C q f d "cw_policies w" "cw_broker w" "cw_live w"]
    by (auto simp: shots_def grants_of_def)
next
  case (launch q reads l b)
  note parts = claim_grants_parts [OF launch(3)]
  show ?thesis
    using parts(1) parts(4) [of shot] parts(7) [of shot p] launch(2) by (auto simp: shots_def on_shot_def)
next
  case (spawned k reads l ok)
  have "length (filter (on_shot shot p) (cw_launches w')) + (if on_shot shot p (reads, l, Spawning) then 1 else 0) =
      length (filter (on_shot shot p) (cw_launches w)) + (if on_shot shot p (reads, l, if ok then Launched else SpawnFailed) then 1 else 0)"
    using count_update [OF spawned(3), of "on_shot shot p" "(reads, l, if ok then Launched else SpawnFailed)"] spawned(2,4) by simp
  then show ?thesis
    using spawned(2) held_spawn_result [of shot p l ok "cw_broker w"] by (auto simp: shots_def on_shot_def split: if_splits)
qed (auto simp: shots_def)

lemma run_shots: "consent_run H es w \<Longrightarrow> shots shot p w \<le> length (filter (granted H shot p) es)"
proof (induction rule: consent_run.induct)
  case (start sessions)
  show ?case by (simp add: shots_def world_new_def)
next
  case (step es w e w')
  then show ?case using step_shots [OF step.hyps(2), of shot p] by auto
qed

section \<open>The queue\<close>

abbreviation terminal_row :: "consent_row \<Rightarrow> bool" where
  "terminal_row r \<equiv> is_terminal_status (cr_status r)"

abbreviation row_age :: "consent_row \<Rightarrow> rstr \<times> rstr" where
  "row_age r \<equiv> (cr_created r, cr_id r)"

interpretation queue: eviction terminal_row row_age oldest_terminal
  by unfold_locales (simp add: oldest_terminal_def)

lemma not_terminal [simp]: "\<not> is_terminal_status s \<longleftrightarrow> s = PendingApproval"
  by (cases s) (auto simp: is_terminal_status_def)

lemma terminal_statuses [simp]: "is_terminal_status Superseded" "is_terminal_status Timeout" "is_terminal_status (verdict_of d)"
  "\<not> is_terminal_status PendingApproval"
  by (auto simp: is_terminal_status_def verdict_of_def split: consent_decision.split)

text \<open>The cap keeps every open request, in order, and drops no more than it has to: the oldest that are settled.\<close>

lemma cap_pending: "filter (\<lambda>r. \<not> terminal_row r) (cap_consent_requests n rows) = filter (\<lambda>r. \<not> terminal_row r) rows"
  by (simp only: cap_consent_requests_def queue.evict_oldest(1) [OF refl] split: if_split) simp

lemma cap_subset: "set (cap_consent_requests n rows) \<subseteq> set rows"
  by (auto simp: cap_consent_requests_def dest: subsetD [OF set_drop_positions])

lemma queue_length:
  "length (cap_consent_requests n rows) = min (length rows) (max n (length (filter (\<lambda>r. \<not> terminal_row r) rows)))"
proof (cases "length rows \<le> n")
  case False
  have "length (drop_positions (take (length rows - n) (oldest_terminal rows)) rows) +
      min (length rows - n) (length (filter terminal_row rows)) = length rows" by (rule queue.length_evict)
  moreover have "length (filter terminal_row rows) + length (filter (\<lambda>r. \<not> terminal_row r) rows) = length rows"
    by (rule sum_length_filter_compl)
  ultimately show ?thesis using False by (simp add: cap_consent_requests_def del: not_terminal)
qed (simp add: cap_consent_requests_def)

lemma cap_oldest:
  "s \<in># mset rows - mset (cap_consent_requests n rows) \<Longrightarrow> t \<in> set (cap_consent_requests n rows) \<Longrightarrow> terminal_row t \<Longrightarrow>
   terminal_row s \<and> row_age s \<le> row_age t"
  by (auto simp: cap_consent_requests_def simp del: not_terminal split: if_splits dest: queue.evict_oldest(3) [OF refl])

lemma cap_keeps_pending: "r \<in> set rows \<Longrightarrow> cr_status r = PendingApproval \<Longrightarrow> r \<in> set (cap_consent_requests n rows)"
proof -
  assume "r \<in> set rows" "cr_status r = PendingApproval"
  then have "r \<in> set (filter (\<lambda>r. \<not> terminal_row r) rows)" by simp
  then have "r \<in> set (filter (\<lambda>r. \<not> terminal_row r) (cap_consent_requests n rows))" by (simp only: cap_pending)
  then show ?thesis by simp
qed

text \<open>A row later on: the same, or settled.\<close>

definition row_after :: "consent_row \<Rightarrow> consent_row \<Rightarrow> bool" where
  "row_after r r' \<longleftrightarrow> r' = r \<or> cr_status r = PendingApproval \<and> (\<exists>s. is_terminal_status s \<and> r' = r\<lparr>cr_status := s\<rparr>)"

lemma row_after_refl [simp]: "row_after r r" by (simp add: row_after_def)

lemma row_after_claim [simp]: "row_after r (snd (claim_terminal s r))"
  by (auto simp: row_after_def claim_terminal_def)

lemma row_after_supersede [simp]: "row_after r (supersede_row req r)"
  by (auto simp: row_after_def supersede_row_def)

lemma row_after_fields:
  "row_after r r' \<Longrightarrow> cr_id r' = cr_id r \<and> cr_agent r' = cr_agent r \<and> cr_project r' = cr_project r \<and> cr_kind r' = cr_kind r \<and>
     cr_path r' = cr_path r \<and> cr_detail r' = cr_detail r \<and> cr_created r' = cr_created r"
  by (auto simp: row_after_def)

lemma row_after_final: "row_after r r' \<Longrightarrow> cr_status r \<noteq> PendingApproval \<Longrightarrow> r' = r"
  by (auto simp: row_after_def)

text \<open>A queue later on: no row from nowhere, and no open row lost, unless a new one asks the same.\<close>

definition same_ask :: "consent_row \<Rightarrow> consent_row \<Rightarrow> bool" where
  "same_ask r r' \<longleftrightarrow> cr_project r = cr_project r' \<and> cr_kind r = cr_kind r' \<and> cr_path r = cr_path r'"

definition queue_after :: "consent_row list \<Rightarrow> consent_row list \<Rightarrow> consent_row list \<Rightarrow> bool" where
  "queue_after rows new rows' \<longleftrightarrow>
     (\<forall>r' \<in> set rows'. r' \<in> set new \<or> (\<exists>r \<in> set rows. row_after r r')) \<and>
     (\<forall>r \<in> set rows. cr_status r = PendingApproval \<longrightarrow> (\<exists>r' \<in> set rows'. row_after r r') \<or> (\<exists>n \<in> set new. same_ask r n))"

lemma queue_after_refl [simp]: "queue_after rows new rows"
  unfolding queue_after_def using row_after_refl by blast

lemma queue_after_map: "(\<And>r. row_after r (f r)) \<Longrightarrow> queue_after rows new (map f rows)"
  unfolding queue_after_def by (metis image_eqI image_iff list.set_map)

lemma queue_after_update_first:
  assumes f: "\<And>r. row_after r (f r)"
  shows "queue_after rows new (update_first P f rows)"
proof -
  have "r \<in> set rows \<Longrightarrow> r \<in> set (update_first P f rows) \<or> f r \<in> set (update_first P f rows)" for r
    by (induction rows) auto
  moreover have "r' \<in> set (update_first P f rows) \<Longrightarrow> r' \<in> set rows \<or> (\<exists>r \<in> set rows. r' = f r)" for r'
    by (induction rows) (auto split: if_splits)
  ultimately show ?thesis unfolding queue_after_def using f row_after_refl by blast
qed

lemma queue_after_push: "queue_after rows [r] (cap_consent_requests n (rows @ [r]))"
  unfolding queue_after_def
  using cap_subset [of n "rows @ [r]"] cap_keeps_pending [of _ "rows @ [r]" n] row_after_refl by fastforce

lemma queue_after_append: "queue_after rows [req] (append_superseding req rows)"
  unfolding queue_after_def
proof (intro conjI ballI impI)
  fix r' assume "r' \<in> set (append_superseding req rows)"
  then have "r' \<in> set (map (supersede_row req) rows @ [req])" unfolding append_superseding_def using cap_subset by blast
  then show "r' \<in> set [req] \<or> (\<exists>r \<in> set rows. row_after r r')" by auto (metis row_after_supersede)
next
  fix r assume r: "r \<in> set rows" "cr_status r = PendingApproval"
  show "(\<exists>r' \<in> set (append_superseding req rows). row_after r r') \<or> (\<exists>n \<in> set [req]. same_ask r n)"
  proof (cases "same_ask r req")
    case False
    with r have "supersede_row req r = r" by (auto simp: supersede_row_def same_ask_def)
    with r have "r \<in> set (map (supersede_row req) rows @ [req])" by (metis UnCI image_eqI list.set_map set_append)
    then have "r \<in> set (append_superseding req rows)" unfolding append_superseding_def by (rule cap_keeps_pending) (rule r(2))
    then show ?thesis using row_after_refl by blast
  qed simp
qed

text \<open>The rows that a step adds.\<close>

definition new_rows :: "consent_event \<Rightarrow> consent_row list" where
  "new_rows e = (case e of
     EvBlocked p r \<Rightarrow> [r]
   | EvHook E payload i t stored \<Rightarrow> (case hook_tool_to_kind (jstr_or (lit ''tool_name'') [] payload) of
       None \<Rightarrow> [] | Some kind \<Rightarrow> [hook_row E kind (unwrap_opt JNull (jget (lit ''tool_input'') payload)) i t])
   | _ \<Rightarrow> [])"

abbreviation queue_of :: "consent_world \<Rightarrow> consent_row list" where
  "queue_of w \<equiv> cl_requests (cw_live w)"

lemma requests_answer:
  "cl_requests (answer_rows p k path s live) = map (\<lambda>r. if cr_project r = p \<and> cr_kind r = k \<and> cr_path r = path
     then snd (claim_terminal s r) else r) (cl_requests live)"
  by (simp add: answer_rows_def)

lemma requests_claim:
  "cl_requests (claim_request s i live) = update_first (\<lambda>r. cr_id r = i) (\<lambda>r. snd (claim_terminal s r)) (cl_requests live)"
  by (simp add: claim_request_def)

lemma queue_after_answer: "queue_after (cl_requests live) new (cl_requests (answer_rows p k path s live))"
  by (simp add: answer_rows_def queue_after_map)

lemma queue_after_claim: "queue_after (cl_requests live) new (cl_requests (claim_request s i live))"
  by (simp add: claim_request_def queue_after_update_first)

lemma step_queue:
  assumes "consent_step H e w w'"
  shows "queue_after (queue_of w) (new_rows e) (queue_of w')"
  using assms
proof cases
  case (grant_net C p d)
  then show ?thesis
    by (simp add: grants_of_def grant_net_consent_def Let_def queue_after_answer)
next
  case (grant_folder C p f d)
  then show ?thesis
    by (simp add: grants_of_def grant_folder_consent_def Let_def queue_after_answer split: consent_decision.split sum.split)
next
  case (blocked r p mode)
  then show ?thesis by (simp add: file_blocked_def Let_def new_rows_def queue_after_append)
next
  case (hook E payload i t stored pc live)
  then show ?thesis
    by (auto simp: hook_start_def new_rows_def Let_def queue_after_push split: option.splits if_splits)
next
  case (clock k errors past stored pc live)
  then show ?thesis by (auto simp: hook_clock_def queue_after_claim split: if_splits)
next
  case (respond C i d res ws live)
  then show ?thesis
    by (auto simp: respond_cloud_consent_def queue_after_claim split: option.splits if_splits prod.splits)
qed simp_all

section \<open>Who allowed it\<close>

text \<open>An event that answers a row with a permission.\<close>

definition permits :: "consent_row \<Rightarrow> consent_event \<Rightarrow> bool" where
  "permits r e = (case e of
     EvRespond C i d \<Rightarrow> ce_unlocked C \<and> d \<noteq> Deny \<and> i = cr_id r
   | EvGrantNet C p d \<Rightarrow> ce_unlocked C \<and> d \<noteq> Deny \<and> cr_project r = p \<and> cr_kind r = Net \<and> cr_path r = None
   | EvGrantFolder C p f d \<Rightarrow> ce_unlocked C \<and> d \<noteq> Deny \<and> cr_project r = p \<and> cr_kind r = FolderWrite \<and> cr_path r = Some f
   | _ \<Rightarrow> False)"

definition allowed_by :: "consent_event \<Rightarrow> consent_row list \<Rightarrow> consent_row list \<Rightarrow> bool" where
  "allowed_by e rows rows' \<longleftrightarrow> (\<forall>r \<in> set rows'. cr_status r = Allowed \<longrightarrow> r \<in> set rows \<or> permits r e)"

lemma allowed_by_subset: "set rows' \<subseteq> set rows \<Longrightarrow> allowed_by e rows rows'"
  by (auto simp: allowed_by_def)

lemma allowed_by_map:
  assumes "\<And>r. cr_status (f r) = Allowed \<Longrightarrow> f r = r \<or> permits (f r) e"
  shows "allowed_by e rows (map f rows)" and "allowed_by e rows (update_first P f rows)"
proof -
  show "allowed_by e rows (map f rows)" using assms by (fastforce simp: allowed_by_def)
  have "r \<in> set (update_first P f rows) \<Longrightarrow> r \<in> set rows \<or> (\<exists>r0 \<in> set rows. r = f r0)" for r
    by (induction rows) (auto split: if_splits)
  with assms show "allowed_by e rows (update_first P f rows)" by (fastforce simp: allowed_by_def)
qed

lemma claim_Allowed:
  "cr_status (snd (claim_terminal s r)) = Allowed \<Longrightarrow> snd (claim_terminal s r) = r \<or> s = Allowed \<and> snd (claim_terminal s r) = r\<lparr>cr_status := Allowed\<rparr>"
  by (auto simp: claim_terminal_def)

lemma verdict_Allowed [simp]: "verdict_of d = Allowed \<longleftrightarrow> d \<noteq> Deny"
  by (cases d) (auto simp: verdict_of_def)

lemma permits_status [simp]: "permits (r\<lparr>cr_status := s\<rparr>) e = permits r e"
  by (simp add: permits_def split: consent_event.split)

lemma allowed_by_push: "cr_status r = PendingApproval \<Longrightarrow> allowed_by e rows (cap_consent_requests n (rows @ [r]))"
  using cap_subset [of n "rows @ [r]"] by (auto simp: allowed_by_def)

lemma allowed_by_append:
  assumes "cr_status req = PendingApproval"
  shows "allowed_by e rows (append_superseding req rows)"
proof -
  have "cr_status (supersede_row req r) = Allowed \<Longrightarrow> supersede_row req r = r" for r by (auto simp: supersede_row_def)
  then show ?thesis
    using assms cap_subset [of MAX_CONSENT_REQUESTS "map (supersede_row req) rows @ [req]"]
    by (fastforce simp: allowed_by_def append_superseding_def)
qed

lemma hook_row_simps [simp]:
  "cr_status (hook_row E kind tool_input i t) = PendingApproval" "cr_id (hook_row E kind tool_input i t) = i"
  "cr_kind (hook_row E kind tool_input i t) = kind"
  by (simp_all add: hook_row_def case_prod_unfold)

lemma step_allowed:
  assumes "consent_step H e w w'"
  shows "allowed_by e (queue_of w) (queue_of w')"
  using assms
proof cases
  case (grant_net C p d)
  have "allowed_by e (queue_of w) (cl_requests (answer_rows p Net None (verdict_of d) (cw_live w)))" if "ce_unlocked C"
    unfolding requests_answer grant_net(1)
    by (rule allowed_by_map) (use that claim_Allowed [of "verdict_of d"] in \<open>fastforce simp: permits_def split: if_splits\<close>)
  then show ?thesis using grant_net(2)
    by (simp add: grants_of_def grant_net_consent_def Let_def allowed_by_subset)
next
  case (grant_folder C p f d)
  have "allowed_by e (queue_of w) (cl_requests (answer_rows p FolderWrite (Some f) (verdict_of d) (cw_live w)))" if "ce_unlocked C"
    unfolding requests_answer grant_folder(1)
    by (rule allowed_by_map) (use that claim_Allowed [of "verdict_of d"] in \<open>fastforce simp: permits_def split: if_splits\<close>)
  then show ?thesis using grant_folder(2)
    by (cases "ce_unlocked C"; cases d; simp add: grants_of_def grant_folder_consent_def Let_def allowed_by_subset split: sum.split)
next
  case (blocked r p mode)
  then show ?thesis by (simp add: file_blocked_def Let_def allowed_by_append allowed_by_subset blocked_kind_def)
next
  case (hook E payload i t stored pc live)
  then show ?thesis
    by (auto simp: hook_start_def Let_def allowed_by_push allowed_by_subset split: option.splits if_splits)
next
  case (clock k errors past stored pc live)
  have "allowed_by e (queue_of w) (cl_requests (claim_request Timeout i (cw_live w)))" for i
    unfolding requests_claim
    by (rule allowed_by_map) (use claim_Allowed [of Timeout] in auto)
  with clock show ?thesis by (auto simp: hook_clock_def allowed_by_subset split: if_splits)
next
  case (respond C i d res ws live)
  have "allowed_by e (queue_of w) (cl_requests (claim_request (verdict_of d) i (cw_live w)))" if "ce_unlocked C"
  proof -
    have "update_first P f xs = update_first P (\<lambda>r. if P r then f r else r) xs" for P f and xs :: "consent_row list"
      by (induction xs) auto
    then have eq: "cl_requests (claim_request (verdict_of d) i (cw_live w)) = update_first (\<lambda>r. cr_id r = i)
        (\<lambda>r. if cr_id r = i then snd (claim_terminal (verdict_of d) r) else r) (queue_of w)"
      by (simp add: claim_request_def)
    show ?thesis unfolding eq respond(1)
      by (rule allowed_by_map) (use that claim_Allowed [of "verdict_of d"] in \<open>fastforce simp: permits_def split: if_splits\<close>)
  qed
  with respond show ?thesis
    by (auto simp: respond_cloud_consent_def allowed_by_subset split: option.splits if_splits prod.splits)
qed (simp_all add: allowed_by_subset)

lemma run_allowed: "consent_run H es w \<Longrightarrow> r \<in> set (queue_of w) \<Longrightarrow> cr_status r = Allowed \<Longrightarrow> \<exists>e \<in> set es. permits r e"
proof (induction arbitrary: r rule: consent_run.induct)
  case (start sessions)
  then show ?case by (simp add: world_new_def)
next
  case (step es w e w')
  then show ?case using step_allowed [OF step.hyps(2)] by (auto simp: allowed_by_def)
qed

text \<open>Every row was filed by a step.\<close>

lemma run_rows: "consent_run H es w \<Longrightarrow> r \<in> set (queue_of w) \<Longrightarrow> \<exists>e \<in> set es. \<exists>n \<in> set (new_rows e). row_after n r"
proof (induction arbitrary: r rule: consent_run.induct)
  case (start sessions)
  then show ?case by (simp add: world_new_def)
next
  case (step es w e w')
  have "r \<in> set (new_rows e) \<or> (\<exists>r0 \<in> set (queue_of w). row_after r0 r)"
    using step_queue [OF step.hyps(2)] step.prems by (simp add: queue_after_def)
  then show ?case
  proof
    assume "r \<in> set (new_rows e)"
    then show ?thesis by (intro bexI [of _ e] bexI [of _ r]) auto
  next
    assume "\<exists>r0 \<in> set (queue_of w). row_after r0 r"
    then obtain r0 where r0: "r0 \<in> set (queue_of w)" "row_after r0 r" by blast
    with step.IH obtain e0 n where e0: "e0 \<in> set es" "n \<in> set (new_rows e0)" "row_after n r0" by blast
    then have "row_after n r" using r0(2) by (auto simp: row_after_def)
    with e0 show ?thesis by auto
  qed
qed

lemma tool_kind: "hook_tool_to_kind t = Some k \<Longrightarrow> k = Patch \<or> k = Exec"
  by (auto simp: hook_tool_to_kind_def split: if_splits)

text \<open>What a hook has decided.\<close>

definition hook_ok :: "consent_event list \<Rightarrow> hook \<Rightarrow> bool" where
  "hook_ok es h \<longleftrightarrow> (\<forall>d. hk_pc h = Decided d \<and> hook_allows d \<and> hk_gated h \<longrightarrow>
     (\<exists>r. cr_id r = hk_request h \<and> (\<exists>e \<in> set es. permits r e) \<and> (\<exists>e \<in> set es. \<exists>n \<in> set (new_rows e). row_after n r)))"

lemma hook_ok_mono: "hook_ok es h \<Longrightarrow> set es \<subseteq> set es' \<Longrightarrow> hook_ok es' h"
  unfolding hook_ok_def by blast

lemma hook_poll_allows:
  "hook_poll i readable errors live = Decided d \<Longrightarrow> hook_allows d \<Longrightarrow> \<exists>r \<in> set (cl_requests live). cr_id r = i \<and> cr_status r = Allowed"
  by (auto simp: hook_poll_def poll_status_def find_row_def hook_allows_def dest: find_SomeD split: if_splits option.splits bridge_status.splits)

lemma hook_start_allows: "hook_start E payload i t stored live = (Decided d, live') \<Longrightarrow> hook_allows d \<Longrightarrow> hook_tool_to_kind (jstr_or (lit ''tool_name'') [] payload) = None"
  by (auto simp: hook_start_def hook_allows_def Let_def split: option.splits if_splits)

lemma hook_clock_denies: "hook_clock i a past stored errors live = (Decided d, live') \<Longrightarrow> \<not> hook_allows d"
  by (auto simp: hook_clock_def hook_allows_def split: if_splits)

lemma run_hooks: "consent_run H es w \<Longrightarrow> h \<in> set (cw_hooks w) \<Longrightarrow> hook_ok es h"
proof (induction arbitrary: h rule: consent_run.induct)
  case (start sessions)
  then show ?case by (simp add: world_new_def)
next
  case (step es w e w')
  have old: "hook_ok (es @ [e]) h" if "h \<in> set (cw_hooks w)" for h
    using step.IH [OF that] by (rule hook_ok_mono) auto
  from step.hyps(2) show ?case
  proof cases
    case (hook E payload i t stored pc live)
    then have "h \<in> set (cw_hooks w) \<or> h = \<lparr>hk_request = i, hk_agent = he_agent E,
        hk_gated = (hook_tool_to_kind (jstr_or (lit ''tool_name'') [] payload) \<noteq> None), hk_pc = pc\<rparr>"
      using step.prems by auto
    moreover have "hk_pc h = Decided d \<Longrightarrow> hook_allows d \<Longrightarrow> \<not> hk_gated h" if "h = \<lparr>hk_request = i, hk_agent = he_agent E,
        hk_gated = (hook_tool_to_kind (jstr_or (lit ''tool_name'') [] payload) \<noteq> None), hk_pc = pc\<rparr>" for d
      using hook_start_allows [of E payload i t stored "cw_live w" d live] hook(3) that by auto
    ultimately show ?thesis using old by (auto simp: hook_ok_def)
  next
    case (poll k errors readable)
    let ?h = "cw_hooks w ! k"
    let ?h' = "?h\<lparr>hk_pc := hook_poll (hk_request ?h) readable errors (cw_live w)\<rparr>"
    have "h \<in> set (cw_hooks w) \<or> h = ?h'"
      using step.prems set_update_subset_insert [of "cw_hooks w" k ?h'] by (auto simp: poll(2) put_hook_def)
    moreover have "hook_ok (es @ [e]) ?h'"
      unfolding hook_ok_def
    proof (intro allI impI)
      fix d assume "hk_pc ?h' = Decided d \<and> hook_allows d \<and> hk_gated ?h'"
      then obtain r where r: "r \<in> set (queue_of w)" "cr_id r = hk_request ?h" "cr_status r = Allowed"
        using hook_poll_allows [of "hk_request ?h" readable errors "cw_live w" d] by auto
      with run_allowed [OF step.hyps(1) r(1,3)] run_rows [OF step.hyps(1) r(1)]
      show "\<exists>r. cr_id r = hk_request ?h' \<and> (\<exists>e \<in> set (es @ [e]). permits r e) \<and> (\<exists>e \<in> set (es @ [e]). \<exists>n \<in> set (new_rows e). row_after n r)"
        by auto
    qed
    ultimately show ?thesis using old by blast
  next
    case (clock k errors past stored pc live)
    let ?h' = "(cw_hooks w ! k)\<lparr>hk_pc := pc\<rparr>"
    have "h \<in> set (cw_hooks w) \<or> h = ?h'"
      using step.prems set_update_subset_insert [of "cw_hooks w" k ?h'] by (auto simp: clock(2) put_hook_def)
    moreover have "hook_ok (es @ [e]) ?h'"
      using hook_clock_denies clock(5) by (auto simp: hook_ok_def)
    ultimately show ?thesis using old by blast
  qed (use old step.prems in auto)
qed

section \<open>Approvals\<close>

definition answered :: "consent_event list \<Rightarrow> rstr \<Rightarrow> consent_decision \<Rightarrow> bool" where
  "answered es i d \<longleftrightarrow> (\<exists>C. EvRespond C i d \<in> set es \<and> ce_unlocked C)"

lemma answered_mono: "answered es i d \<Longrightarrow> answered (es @ [e]) i d"
  by (auto simp: answered_def)

text \<open>The threads' approvals and channels, which do not change.\<close>

definition sites :: "approvals \<Rightarrow> (rstr \<times> nat option) list" where
  "sites s = map (\<lambda>t. (ap_id t, ap_channel t)) (as_threads s)"

definition channels_of :: "(rstr \<times> nat option) list \<Rightarrow> nat option list" where
  "channels_of ss = filter (\<lambda>c. c \<noteq> None) (map snd ss)"

text \<open>Each channel belongs to one thread, a pending answer goes to the thread of its approval, and a message is an answer.\<close>

definition waiters_ok :: "consent_event list \<Rightarrow> (rstr \<times> nat option) list \<Rightarrow> waiters \<Rightarrow> bool" where
  "waiters_ok es ss W \<longleftrightarrow> distinct (channels_of ss) \<and>
     (\<forall>n. Some n \<in> snd ` set ss \<longrightarrow> n < length (wt_channels W)) \<and>
     (\<forall>i n. wt_pending W i = Some n \<longrightarrow> (i, Some n) \<in> set ss) \<and>
     (\<forall>i n d. (i, Some n) \<in> set ss \<longrightarrow> ch_message (wt_channels W ! n) = Some d \<longrightarrow> answered es i d)"

lemma channel_site:
  assumes "distinct (channels_of ss)" and "(i, Some n) \<in> set ss" and "(j, Some n) \<in> set ss"
  shows "i = j"
  using assms
proof (induction ss)
  case (Cons a ss)
  have no: "(l, Some n) \<notin> set ss" if "Some n \<notin> set (channels_of ss)" for l
    using that by (force simp: channels_of_def)
  have "distinct (channels_of ss)" using Cons.prems(1) by (simp add: channels_of_def split: if_splits)
  moreover have "snd a = Some n \<Longrightarrow> Some n \<notin> set (channels_of ss)"
    using Cons.prems(1) by (simp add: channels_of_def split: if_splits)
  ultimately show ?case using Cons.IH Cons.prems(2,3) no by (metis prod.sel set_ConsD)
qed simp

lemma waiters_ok_mono: "waiters_ok es ss W \<Longrightarrow> waiters_ok (es @ [e]) ss W"
  unfolding waiters_ok_def using answered_mono by blast

lemma waiters_ok_cancel: "waiters_ok es ss W \<Longrightarrow> waiters_ok es ss (waiter_cancel i W)"
  by (auto simp: waiters_ok_def waiter_cancel_def)

lemma waiters_ok_cancels: "waiters_ok es ss W \<Longrightarrow> waiters_ok es ss (fold waiter_cancel is W)"
  by (induction "is" arbitrary: W) (auto simp: waiters_ok_cancel)

lemma waiters_ok_drop:
  assumes "waiters_ok es ss W"
  shows "waiters_ok es ss (drop_receiver n W)"
proof -
  have "ch_message (wt_channels (drop_receiver n W) ! m) = ch_message (wt_channels W ! m)" for m
    by (cases "n < length (wt_channels W)") (auto simp: drop_receiver_def nth_list_update list_update_beyond)
  with assms show ?thesis unfolding waiters_ok_def by (auto simp: drop_receiver_def)
qed

lemma waiters_ok_register:
  assumes ok: "waiters_ok es ss W" and reg: "waiter_register i W = (n, W')"
  shows "waiters_ok es (ss @ [(i, Some n)]) W'" and "waiters_ok es (ss @ [(i, None)]) (waiter_cancel i (drop_receiver n W'))"
proof -
  have n: "n = length (wt_channels W)" and W': "wt_pending W' = (wt_pending W)(i \<mapsto> n)"
    "wt_channels W' = wt_channels W @ [\<lparr>ch_message = None, ch_open = True\<rparr>]"
    using reg by (auto simp: waiter_register_def Let_def)
  have old: "Some m \<in> snd ` set ss \<Longrightarrow> m < n" for m using ok unfolding waiters_ok_def n by blast
  then have fresh: "Some n \<notin> set (channels_of ss)" by (auto simp: channels_of_def)
  have message: "ch_message (wt_channels W' ! m) = (if m = n then None else ch_message (wt_channels W ! m))" if "m \<le> n" for m
    using that by (auto simp: W'(2) n nth_append)
  have site: "(j, Some m) \<in> set ss \<Longrightarrow> m < n" for j m using old by force
  show "waiters_ok es (ss @ [(i, Some n)]) W'"
    using ok fresh old site unfolding waiters_ok_def channels_of_def
    by (auto simp: W' n nth_append less_Suc_eq split: if_splits)
  have "waiters_ok es (ss @ [(i, None)]) (waiter_cancel i W')"
    using ok old site unfolding waiters_ok_def channels_of_def waiter_cancel_def
    by (auto simp: W' n nth_append less_Suc_eq split: if_splits)
  then have "waiters_ok es (ss @ [(i, None)]) (drop_receiver n (waiter_cancel i W'))" by (rule waiters_ok_drop)
  moreover have "drop_receiver n (waiter_cancel i W') = waiter_cancel i (drop_receiver n W')"
    by (simp add: drop_receiver_def waiter_cancel_def)
  ultimately show "waiters_ok es (ss @ [(i, None)]) (waiter_cancel i (drop_receiver n W'))" by simp
qed

lemma waiters_ok_resolve:
  assumes ok: "waiters_ok es ss W" and C: "ce_unlocked C" and res: "waiter_resolve i d W = (delivered, W')"
  shows "waiters_ok (es @ [EvRespond C i d]) ss W'"
proof (cases "wt_pending W i")
  case None
  then show ?thesis using res waiters_ok_mono [OF ok] by (simp add: waiter_resolve_def)
next
  case (Some n)
  have site: "(i, Some n) \<in> set ss" and len: "n < length (wt_channels W)"
    using ok Some unfolding waiters_ok_def by force+
  have own: "(j, Some n) \<in> set ss \<Longrightarrow> j = i" for j
    using channel_site [OF _ _ site] ok unfolding waiters_ok_def by blast
  have base: "waiters_ok (es @ [EvRespond C i d]) ss (waiter_cancel i W)" by (intro waiters_ok_cancel waiters_ok_mono ok)
  let ?c = "wt_channels W ! n"
  show ?thesis
  proof (cases "ch_open ?c")
    case False
    then show ?thesis using base res Some by (simp add: waiter_resolve_def Let_def)
  next
    case True
    then have W': "W' = (waiter_cancel i W)\<lparr>wt_channels := (wt_channels W)[n := ?c\<lparr>ch_message := Some d\<rparr>]\<rparr>"
      using res Some by (simp add: waiter_resolve_def Let_def)
    have chan: "wt_channels (waiter_cancel i W) = wt_channels W" by (simp add: waiter_cancel_def)
    show ?thesis unfolding waiters_ok_def
    proof (intro conjI allI impI)
      show "distinct (channels_of ss)" using base by (simp add: waiters_ok_def)
      show "m < length (wt_channels W')" if "Some m \<in> snd ` set ss" for m
        using base that by (auto simp: W' waiters_ok_def chan)
      show "(j, Some m) \<in> set ss" if "wt_pending W' j = Some m" for j m
        using base that by (auto simp: W' waiters_ok_def)
      fix j m e assume site': "(j, Some m) \<in> set ss" and e: "ch_message (wt_channels W' ! m) = Some e"
      show "answered (es @ [EvRespond C i d]) j e"
      proof (cases "m = n")
        case True
        then have "j = i" "e = d" using own site' e len by (simp_all add: W')
        then show ?thesis using C by (auto simp: answered_def)
      next
        case False
        then have "ch_message (wt_channels (waiter_cancel i W) ! m) = Some e" using e by (simp add: W' chan)
        then show ?thesis using base site' unfolding waiters_ok_def by blast
      qed
    qed
  qed
qed

text \<open>A reply other than a refusal rests on an answer, and the threads at work are counted.\<close>

definition reply_ok :: "consent_event list \<Rightarrow> approval \<Rightarrow> bool" where
  "reply_ok es t \<longleftrightarrow> (\<forall>r. (ap_pc t = Replying r \<or> ap_pc t = Answered r) \<longrightarrow> r \<noteq> Decline \<longrightarrow> (\<exists>d. reply_of d = r \<and> answered es (ap_id t) d))"

definition at_work :: "nat \<Rightarrow> approval \<Rightarrow> bool" where
  "at_work c t \<longleftrightarrow> ap_client t = c \<and> ap_channel t \<noteq> None \<and> (\<forall>r. ap_pc t \<noteq> Answered r)"

definition approvals_ok :: "consent_event list \<Rightarrow> approvals \<Rightarrow> bool" where
  "approvals_ok es s \<longleftrightarrow> waiters_ok es (sites s) (as_waiters s) \<and> (\<forall>t \<in> set (as_threads s). reply_ok es t) \<and>
     (\<forall>c. cx_in_flight (as_clients s c) = length (filter (at_work c) (as_threads s)) \<and>
       length (filter (at_work c) (as_threads s)) \<le> MAX_INFLIGHT_APPROVALS)"

lemma reply_ok_mono: "reply_ok es t \<Longrightarrow> reply_ok (es @ [e]) t"
  unfolding reply_ok_def using answered_mono by blast

lemma approvals_ok_mono: "approvals_ok es s \<Longrightarrow> approvals_ok (es @ [e]) s"
  unfolding approvals_ok_def using waiters_ok_mono reply_ok_mono by blast

lemma set_client_simps [simp]:
  "as_waiters (set_client c f s) = as_waiters s" "as_threads (set_client c f s) = as_threads s"
  "as_clients (set_client c f s) = (as_clients s)(c := f (as_clients s c))"
  by (simp_all add: set_client_def)

lemma set_thread_simps [simp]:
  "as_waiters (set_thread k pc s) = as_waiters s" "as_clients (set_thread k pc s) = as_clients s"
  "as_threads (set_thread k pc s) = (as_threads s)[k := (as_threads s ! k)\<lparr>ap_pc := pc\<rparr>]"
  by (simp_all add: set_thread_def)

lemma sites_set_thread: "as_threads s' = (as_threads s)[k := (as_threads s ! k)\<lparr>ap_pc := pc\<rparr>] \<Longrightarrow> sites s' = sites s"
  by (cases "k < length (as_threads s)") (auto simp: sites_def map_update list_update_same_conv list_update_beyond)

lemma approvals_ok_handle:
  assumes ok: "approvals_ok es s"
  shows "approvals_ok es (handle_codex_approval c i spawned s)"
proof -
  obtain n W where reg: "waiter_register i (as_waiters s) = (n, W)" by (cases "waiter_register i (as_waiters s)")
  note W = waiters_ok_register [OF _ reg]
  have refused: "waiters_ok es (sites s @ [(i, None)]) (as_waiters s)"
    using ok unfolding approvals_ok_def waiters_ok_def channels_of_def by auto
  have count: "cx_in_flight (as_clients s c) = length (filter (at_work c) (as_threads s))" "length (filter (at_work c) (as_threads s)) \<le> MAX_INFLIGHT_APPROVALS" for c
    using ok unfolding approvals_ok_def by blast+
  have ws: "waiters_ok es (sites s) (as_waiters s)" using ok unfolding approvals_ok_def by blast
  have replies: "\<forall>t \<in> set (as_threads s). reply_ok es t" using ok unfolding approvals_ok_def by blast
  let ?refused = "\<lparr>ap_client = c, ap_id = i, ap_channel = None, ap_pc = Answered Decline\<rparr>"
  have r: "reply_ok es ?refused" "\<not> at_work d ?refused" for d by (auto simp: reply_ok_def at_work_def)
  show ?thesis
  proof (cases "cx_in_flight (as_clients s c) \<ge> MAX_INFLIGHT_APPROVALS")
    case True
    then show ?thesis
      using refused r replies count unfolding approvals_ok_def by (simp add: handle_codex_approval_def sites_def)
  next
    case room: False
    show ?thesis
    proof (cases spawned)
      case True
      have "reply_ok es \<lparr>ap_client = c, ap_id = i, ap_channel = Some n, ap_pc = Waiting\<rparr>"
        "at_work d \<lparr>ap_client = c, ap_id = i, ap_channel = Some n, ap_pc = Waiting\<rparr> \<longleftrightarrow> d = c" for d
        by (auto simp: reply_ok_def at_work_def)
      then show ?thesis
        using True room reg W(1) [OF ws] replies count unfolding approvals_ok_def
        by (simp add: handle_codex_approval_def sites_def Let_def not_le Suc_le_eq)
    next
      case False
      then show ?thesis
        using room reg W(2) [OF ws] r replies count unfolding approvals_ok_def
        by (simp add: handle_codex_approval_def sites_def Let_def)
    qed
  qed
qed

lemma approvals_ok_thread:
  assumes ok: "approvals_ok es s" and step: "thread_step k s s'"
  shows "approvals_ok es s'"
proof -
  have k: "k < length (as_threads s)" using step by cases auto
  let ?t = "as_threads s ! k"
  have t: "reply_ok es ?t" using ok k unfolding approvals_ok_def by simp
  have kept: "approvals_ok es s'" if s': "as_threads s' = (as_threads s)[k := ?t\<lparr>ap_pc := pc\<rparr>]"
    and W: "waiters_ok es (sites s) (as_waiters s')" and r: "reply_ok es (?t\<lparr>ap_pc := pc\<rparr>)"
    and n: "\<forall>c. cx_in_flight (as_clients s' c) + (if at_work c ?t then 1 else 0) =
      cx_in_flight (as_clients s c) + (if at_work c (?t\<lparr>ap_pc := pc\<rparr>) then 1 else 0)"
    and le: "\<forall>c. cx_in_flight (as_clients s' c) \<le> cx_in_flight (as_clients s c)" for s' pc
  proof -
    have "length (filter (at_work c) (as_threads s')) + (if at_work c ?t then 1 else 0) =
        length (filter (at_work c) (as_threads s)) + (if at_work c (?t\<lparr>ap_pc := pc\<rparr>) then 1 else 0)" for c
      unfolding s' by (rule count_update [OF k])
    moreover have "\<forall>t \<in> set (as_threads s'). reply_ok es t"
      using ok r s' set_update_subset_insert [of "as_threads s" k "?t\<lparr>ap_pc := pc\<rparr>"] unfolding approvals_ok_def by auto
    ultimately show ?thesis
      using ok W n le sites_set_thread [OF s'] unfolding approvals_ok_def by (metis add_right_cancel order_trans)
  qed
  have W: "waiters_ok es (sites s) (as_waiters s)" using ok by (simp add: approvals_ok_def)
  from step show ?thesis
  proof cases
    case (recv n d)
    have "(ap_id ?t, Some n) \<in> set (sites s)" using k recv(4) by (force simp: sites_def)
    then have "answered es (ap_id ?t) d" using W recv(5) unfolding waiters_ok_def by blast
    then show ?thesis unfolding recv(1)
      by (intro kept [of _ "Replying (reply_of d)"]) (use W recv(3) in \<open>auto simp: reply_ok_def at_work_def\<close>)
  next
    case (expire n)
    then show ?thesis by (intro kept [of _ Expired]) (use W in \<open>auto simp: reply_ok_def at_work_def\<close>)
  next
    case clean
    then show ?thesis
      by (intro kept [of _ "Replying Decline"]) (use waiters_ok_cancel [OF W] in \<open>auto simp: reply_ok_def at_work_def\<close>)
  next
    case (reply r n)
    have "at_work (ap_client ?t) ?t" using reply by (simp add: at_work_def)
    then have "0 < length (filter (at_work (ap_client ?t)) (as_threads s))" using k by (auto simp: length_greater_0_conv filter_empty_conv)
    then have "0 < cx_in_flight (as_clients s (ap_client ?t))" using ok by (simp add: approvals_ok_def)
    then show ?thesis unfolding reply(1)
      by (intro kept [of _ "Answered r"]) (use waiters_ok_drop [OF W] reply t in \<open>auto simp: reply_ok_def at_work_def\<close>)
  qed
qed

lemma approvals_ok_respond:
  assumes ok: "approvals_ok es s" and res: "respond_cloud_consent C i d (as_waiters s, live) = (r, W, live')"
  shows "approvals_ok (es @ [EvRespond C i d]) (s\<lparr>as_waiters := W\<rparr>)"
proof -
  obtain delivered W' where r: "waiter_resolve i d (as_waiters s) = (delivered, W')" by (cases "waiter_resolve i d (as_waiters s)")
  have "W = as_waiters s \<or> ce_unlocked C \<and> W = W'"
    using res r by (auto simp: respond_cloud_consent_def split: if_splits option.splits)
  moreover have "waiters_ok (es @ [EvRespond C i d]) (sites s) W'" if "ce_unlocked C"
    using ok waiters_ok_resolve [OF _ that r] by (simp add: approvals_ok_def)
  ultimately show ?thesis
    using approvals_ok_mono [OF ok, of "EvRespond C i d"] by (auto simp: approvals_ok_def sites_def)
qed

lemma run_approvals: "consent_run H es w \<Longrightarrow> approvals_ok es (cw_approvals w)"
proof (induction rule: consent_run.induct)
  case (start sessions)
  show ?case by (simp add: world_new_def approvals_ok_def sites_def waiters_ok_def waiters_new_def channels_of_def)
next
  case (step es w e w')
  note keep = approvals_ok_mono [OF step.IH]
  from step.hyps(2) show ?case
  proof cases
    case (respond C i d res ws live)
    then show ?thesis using approvals_ok_respond [OF step.IH respond(3)] by simp
  next
    case (kill c)
    then show ?thesis
      using keep waiters_ok_cancels
      by (auto simp: approvals_ok_def cancel_codex_session_waiters_def Let_def sites_def)
  next
    case (thread k s)
    then show ?thesis using approvals_ok_thread [OF keep] by simp
  qed (simp_all add: keep approvals_ok_handle)
qed

section \<open>Properties\<close>

lemma effective_Unattended: "effective_sandbox_mode (unwrap_opt Ask m) enforced = Unattended \<longleftrightarrow> enforced \<and> m = Some Unattended"
  by (auto simp: effective_sandbox_mode_def unwrap_opt_def split: option.split)

text \<open>A launch, as its policy was made.\<close>

definition launch_ok :: "launch_reads \<times> launch \<times> spawn_state \<Rightarrow> bool" where
  "launch_ok entry = (case entry of (reads, l, st) \<Rightarrow>
     (lp_net (la_policy l) \<longrightarrow> lr_cloud reads \<or> lr_net reads = Some True \<or> la_mode l \<noteq> Unattended \<and> took None l) \<and>
     (\<forall>f \<in> set (lp_folders (la_policy l)). f \<in> set (unwrap_opt [] (lr_working_set reads)) \<or> la_mode l \<noteq> Unattended \<and> took (Some f) l))"

lemma run_launches: "consent_run H es w \<Longrightarrow> entry \<in> set (cw_launches w) \<Longrightarrow> launch_ok entry"
proof (induction arbitrary: entry rule: consent_run.induct)
  case (start sessions)
  then show ?case by (simp add: world_new_def)
next
  case (step es w e w')
  from step.hyps(2) show ?case
  proof cases
    case (launch p reads l b)
    note parts = claim_grants_parts [OF launch(3)]
    have "launch_ok (reads, l, Spawning)"
      unfolding launch_ok_def using parts(5,6) parts(3) by (auto simp: took_def fset_of_list.rep_eq split: if_splits)
    moreover have "entry \<in> set (cw_launches w) \<or> entry = (reads, l, Spawning)" using step.prems launch(2) by auto
    ultimately show ?thesis using step.IH by blast
  next
    case (spawned k reads l ok)
    have "launch_ok (reads, l, Spawning)" using step.IH [of "(reads, l, Spawning)"] spawned(3,4) nth_mem by metis
    then have "launch_ok (reads, l, if ok then Launched else SpawnFailed)" by (simp add: launch_ok_def)
    moreover have "entry \<in> set (cw_launches w) \<or> entry = (reads, l, if ok then Launched else SpawnFailed)"
      using step.prems spawned(2) set_update_subset_insert [of "cw_launches w" k "(reads, l, if ok then Launched else SpawnFailed)"] by auto
    ultimately show ?thesis using step.IH by blast
  qed (use step.IH step.prems in simp_all)
qed

lemma length_filter_le_of: "(\<And>x. x \<in> set xs \<Longrightarrow> P x \<Longrightarrow> Q x) \<Longrightarrow> length (filter P xs) \<le> length (filter Q xs)"
  by (induction xs) (auto intro: le_SucI)

text \<open>A host, and runs of a launch, a hook and an approval.\<close>

definition demo_consent_host :: consent_host where
  "demo_consent_host = \<lparr>ho_enforced = True, ho_absolute = (\<lambda>_. True), ho_canonicalize = Some\<rparr>"

definition demo_command :: command_env where
  "demo_command = \<lparr>ce_unlocked = True, ce_saved = True, ce_stored = True\<rparr>"

definition demo_reads :: launch_reads where
  "demo_reads = \<lparr>lr_cloud = False, lr_net = Some False, lr_mode = Some Ask, lr_working_set = Some []\<rparr>"

definition demo_launch :: launch where
  "demo_launch = \<lparr>la_project = lit ''p'', la_mode = Ask, la_taken = (True, {||}), la_policy = \<lparr>lp_net = True, lp_folders = []\<rparr>\<rparr>"

definition demo_launch_events :: "consent_event list" where
  "demo_launch_events = [EvGrantNet demo_command (lit ''p'') AllowOnce, EvLaunch (lit ''p'') demo_reads, EvSpawned 0 True]"

lemma demo_launch_run:
  "\<exists>w. consent_run demo_consent_host demo_launch_events w \<and> cw_launches w = [(demo_reads, demo_launch, Launched)]"
proof -
  let ?H = demo_consent_host and ?w0 = "world_new []"
  let ?w1 = "put_grants (snd (grant_net_consent demo_command (lit ''p'') AllowOnce (grants_of ?w0))) ?w0"
  obtain l b where lb: "claim_grants (ho_enforced ?H) (lit ''p'') demo_reads (cw_broker ?w1) = (l, b)"
    by (cases "claim_grants (ho_enforced ?H) (lit ''p'') demo_reads (cw_broker ?w1)")
  have "l = demo_launch"
    using lb by (auto simp: claim_grants_def take_all_grants_def Let_def demo_launch_def demo_reads_def grants_of_def world_new_def broker_new_def
        grant_net_consent_def demo_command_def grant_net_once_def folder_grants_def unwrap_opt_def effective_sandbox_mode_def
        resolve_net_enabled_def resolve_working_set_def sorted_list_of_fset.rep_eq)
  let ?w2 = "?w1\<lparr>cw_broker := b, cw_launches := cw_launches ?w1 @ [(demo_reads, l, Spawning)]\<rparr>"
  let ?w3 = "?w2\<lparr>cw_broker := spawn_result l True (cw_broker ?w2), cw_launches := (cw_launches ?w2)[0 := (demo_reads, l, Launched)]\<rparr>"
  have r1: "consent_run ?H [EvGrantNet demo_command (lit ''p'') AllowOnce] ?w1"
    using consent_run.step [OF consent_run.start consent_step.grant_net] by simp
  have r2: "consent_run ?H [EvGrantNet demo_command (lit ''p'') AllowOnce, EvLaunch (lit ''p'') demo_reads] ?w2"
    using consent_run.step [OF r1 consent_step.launch [OF lb]] by simp
  have none: "cw_launches ?w1 = []" by (simp add: world_new_def)
  have "consent_step ?H (EvSpawned 0 True) ?w2 ?w3"
    using consent_step.spawned [of 0 ?w2 demo_reads l ?H True] none by simp
  then have "consent_run ?H demo_launch_events ?w3"
    unfolding demo_launch_events_def using consent_run.step [OF r2] by simp
  moreover have "cw_launches ?w3 = [(demo_reads, demo_launch, Launched)]" using none by (simp add: \<open>l = demo_launch\<close>)
  ultimately show ?thesis by blast
qed

definition demo_hook_env :: hook_env where
  "demo_hook_env = \<lparr>he_bridge = lit ''b'', he_agent = [], he_project = lit ''p''\<rparr>"

definition demo_payload :: json where
  "demo_payload = JObj [(lit ''tool_name'', JStr (lit ''Bash''))]"

definition demo_hook_row :: consent_row where
  "demo_hook_row = hook_row demo_hook_env Exec JNull (lit ''i'') []"

definition demo_hook :: "hook_pc \<Rightarrow> hook" where
  "demo_hook pc = \<lparr>hk_request = lit ''i'', hk_agent = [], hk_gated = True, hk_pc = pc\<rparr>"

definition demo_hooked :: "bridge_status \<Rightarrow> hook_pc \<Rightarrow> consent_world" where
  "demo_hooked s pc = (world_new [])\<lparr>cw_live := \<lparr>cl_requests = [demo_hook_row\<lparr>cr_status := s\<rparr>], cl_sessions = []\<rparr>, cw_hooks := [demo_hook pc]\<rparr>"

definition demo_hook_events :: "consent_event list" where
  "demo_hook_events = [EvHook demo_hook_env demo_payload (lit ''i'') [] True, EvRespond demo_command (lit ''i'') AllowOnce, EvPoll 0 True]"

lemma demo_payload_simps [simp]:
  "hook_tool_to_kind (jstr_or (lit ''tool_name'') [] demo_payload) = Some Exec" "jget (lit ''tool_input'') demo_payload = None"
  by (simp_all add: demo_payload_def jstr_or_def jstr_def hook_tool_to_kind_def)

lemma demo_hook_row_simps [simp]:
  "cr_id demo_hook_row = lit ''i''" "cr_status demo_hook_row = PendingApproval" "demo_hook_row\<lparr>cr_status := PendingApproval\<rparr> = demo_hook_row"
  "cr_agent demo_hook_row = []"
  by (simp_all add: demo_hook_row_def hook_row_def demo_hook_env_def case_prod_unfold)

lemma demo_bridge: "trim (lit ''b'') \<noteq> []" by code_simp

lemma demo_hook_filed:
  "consent_step demo_consent_host (EvHook demo_hook_env demo_payload (lit ''i'') [] True) (world_new []) (demo_hooked PendingApproval (Polling 0))"
proof -
  have "hook_start demo_hook_env demo_payload (lit ''i'') [] True (cw_live (world_new [])) =
      (Polling 0, \<lparr>cl_requests = [demo_hook_row], cl_sessions = []\<rparr>)"
    by (simp add: hook_start_def demo_hook_row_def world_new_def cap_consent_requests_def MAX_CONSENT_REQUESTS_def set_bell_def demo_hook_env_def
        unwrap_opt_def demo_bridge)
  from consent_step.hook [OF this] show ?thesis
    by (simp add: demo_hooked_def demo_hook_def demo_hook_env_def world_new_def)
qed

lemma demo_hook_answered:
  "consent_step demo_consent_host (EvRespond demo_command (lit ''i'') AllowOnce) (demo_hooked PendingApproval (Polling 0)) (demo_hooked Allowed (Polling 0))"
proof -
  let ?w = "demo_hooked PendingApproval (Polling 0)"
  have "respond_cloud_consent demo_command (lit ''i'') AllowOnce (as_waiters (cw_approvals ?w), cw_live ?w) =
      (Inr (), as_waiters (cw_approvals ?w), \<lparr>cl_requests = [demo_hook_row\<lparr>cr_status := Allowed\<rparr>], cl_sessions = []\<rparr>)"
    by (simp add: respond_cloud_consent_def demo_command_def demo_hooked_def world_new_def waiter_resolve_def waiters_new_def find_row_def
        claim_terminal_def claim_request_def verdict_of_def set_bell_def is_terminal_status_def)
  from consent_step.respond [OF this] show ?thesis by (simp add: demo_hooked_def world_new_def)
qed

lemma demo_hook_run: "consent_run demo_consent_host demo_hook_events (demo_hooked Allowed (Decided (Inr True)))"
proof -
  let ?w = "demo_hooked Allowed (Polling 0)"
  have r1: "consent_run demo_consent_host [EvHook demo_hook_env demo_payload (lit ''i'') [] True] (demo_hooked PendingApproval (Polling 0))"
    using consent_run.step [OF consent_run.start demo_hook_filed] by simp
  note r2 = consent_run.step [OF r1 demo_hook_answered]
  have "hook_poll (lit ''i'') True 0 (cw_live ?w) = Decided (Inr True)"
    by (simp add: hook_poll_def poll_status_def find_row_def demo_hooked_def)
  then have "consent_step demo_consent_host (EvPoll 0 True) ?w (demo_hooked Allowed (Decided (Inr True)))"
    using consent_step.poll [of 0 ?w 0 demo_consent_host True] by (simp add: demo_hooked_def demo_hook_def put_hook_def)
  from consent_run.step [OF r2 this] show ?thesis by (simp add: demo_hook_events_def)
qed

definition demo_approval :: "approval_pc \<Rightarrow> consent_decision option \<Rightarrow> bool \<Rightarrow> bool \<Rightarrow> approvals" where
  "demo_approval pc message waits working =
     \<lparr>as_waiters = \<lparr>wt_pending = (\<lambda>i. if waits \<and> i = lit ''i'' then Some 0 else None), wt_channels = [\<lparr>ch_message = message, ch_open = working\<rparr>]\<rparr>,
      as_clients = (\<lambda>c. if working \<and> c = 0 then \<lparr>cx_in_flight = 1, cx_tracked = {|lit ''i''|}\<rparr> else \<lparr>cx_in_flight = 0, cx_tracked = {||}\<rparr>),
      as_threads = [\<lparr>ap_client = 0, ap_id = lit ''i'', ap_channel = Some 0, ap_pc = pc\<rparr>]\<rparr>"

definition demo_world :: "approvals \<Rightarrow> consent_world" where
  "demo_world s = (world_new [])\<lparr>cw_approvals := s\<rparr>"

lemma demo_approval_start:
  "consent_run demo_consent_host [EvApproval 0 (lit ''i'') True] (demo_world (demo_approval Waiting None True True))"
proof -
  have "handle_codex_approval 0 (lit ''i'') True (cw_approvals (world_new [])) = demo_approval Waiting None True True"
    by (auto simp: handle_codex_approval_def world_new_def waiter_register_def waiters_new_def demo_approval_def set_client_def MAX_INFLIGHT_APPROVALS_def
        Let_def fun_eq_iff)
  then show ?thesis using consent_run.step [OF consent_run.start consent_step.approval [of demo_consent_host 0 "lit ''i''" True "world_new []"]]
    by (simp add: demo_world_def)
qed

lemma demo_approval_answer:
  "fst (respond_cloud_consent demo_command (lit ''i'') AllowOnce (as_waiters (demo_approval pc None True True), live)) = Inr ()"
  "consent_step demo_consent_host (EvRespond demo_command (lit ''i'') AllowOnce) (demo_world (demo_approval pc None True True))
    (demo_world (demo_approval pc (Some AllowOnce) False True))"
proof -
  have r: "respond_cloud_consent demo_command (lit ''i'') AllowOnce (as_waiters (demo_approval pc None True True), live) =
      (Inr (), as_waiters (demo_approval pc (Some AllowOnce) False True), live)" for live
    by (auto simp: respond_cloud_consent_def demo_command_def waiter_resolve_def waiter_cancel_def demo_approval_def Let_def fun_eq_iff)
  then show "fst (respond_cloud_consent demo_command (lit ''i'') AllowOnce (as_waiters (demo_approval pc None True True), live)) = Inr ()" by simp
  from consent_step.respond [of demo_command "lit ''i''" AllowOnce "demo_world (demo_approval pc None True True)"] r
  show "consent_step demo_consent_host (EvRespond demo_command (lit ''i'') AllowOnce) (demo_world (demo_approval pc None True True))
    (demo_world (demo_approval pc (Some AllowOnce) False True))"
    by (simp add: demo_world_def) (simp add: demo_approval_def)
qed

lemma demo_approval_reply:
  "consent_step demo_consent_host (EvThread 0) (demo_world (demo_approval (Replying r) m False True)) (demo_world (demo_approval (Answered r) m False False))"
proof -
  have "thread_step 0 (demo_approval (Replying r) m False True) (demo_approval (Answered r) m False False)"
    using thread_step.reply [of 0 "demo_approval (Replying r) m False True" r 0]
    by (simp add: demo_approval_def set_client_def set_thread_def drop_receiver_def fun_upd_def if_distrib cong: if_cong)
  then show ?thesis using consent_step.thread [of 0 "demo_world (demo_approval (Replying r) m False True)"] by (simp add: demo_world_def)
qed

definition demo_approval_events :: "consent_event list" where
  "demo_approval_events = [EvApproval 0 (lit ''i'') True, EvRespond demo_command (lit ''i'') AllowOnce, EvThread 0, EvThread 0]"

lemma demo_approval_run:
  "consent_run demo_consent_host demo_approval_events (demo_world (demo_approval (Answered Accept) (Some AllowOnce) False False))"
proof -
  have "thread_step 0 (demo_approval Waiting (Some AllowOnce) False True) (demo_approval (Replying Accept) (Some AllowOnce) False True)"
    using thread_step.recv [of 0 "demo_approval Waiting (Some AllowOnce) False True" 0 AllowOnce]
    by (simp add: demo_approval_def set_thread_def reply_of_def)
  then have "consent_step demo_consent_host (EvThread 0) (demo_world (demo_approval Waiting (Some AllowOnce) False True))
      (demo_world (demo_approval (Replying Accept) (Some AllowOnce) False True))"
    using consent_step.thread [of 0 "demo_world (demo_approval Waiting (Some AllowOnce) False True)"] by (simp add: demo_world_def)
  from consent_run.step [OF consent_run.step [OF consent_run.step [OF demo_approval_start demo_approval_answer(2)] this] demo_approval_reply]
  show ?thesis by (simp add: demo_approval_events_def)
qed

text \<open>
  An answer can be lost although it is reported as delivered: the wait of the thread has ended, but its waiter is still
  registered and its receiver not yet dropped.
\<close>

theorem answer_can_be_lost:
  "\<exists>es w w'. consent_run demo_consent_host es w \<and>
     fst (respond_cloud_consent demo_command (lit ''i'') AllowOnce (as_waiters (cw_approvals w), cw_live w)) = Inr () \<and>
     consent_run demo_consent_host (es @ [EvRespond demo_command (lit ''i'') AllowOnce, EvThread 0, EvThread 0]) w' \<and>
     map ap_pc (as_threads (cw_approvals w')) = [Answered Decline]"
proof -
  have "thread_step 0 (demo_approval Waiting None True True) (demo_approval Expired None True True)"
    using thread_step.expire [of 0 "demo_approval Waiting None True True" 0] by (simp add: demo_approval_def set_thread_def)
  then have "consent_step demo_consent_host (EvThread 0) (demo_world (demo_approval Waiting None True True)) (demo_world (demo_approval Expired None True True))"
    using consent_step.thread [of 0 "demo_world (demo_approval Waiting None True True)"] by (simp add: demo_world_def)
  note r = consent_run.step [OF demo_approval_start this]
  have "thread_step 0 (demo_approval Expired (Some AllowOnce) False True) (demo_approval (Replying Decline) (Some AllowOnce) False True)"
    using thread_step.clean [of 0 "demo_approval Expired (Some AllowOnce) False True"]
    by (simp add: demo_approval_def set_thread_def waiter_cancel_def fun_upd_def cong: if_cong)
  then have "consent_step demo_consent_host (EvThread 0) (demo_world (demo_approval Expired (Some AllowOnce) False True))
      (demo_world (demo_approval (Replying Decline) (Some AllowOnce) False True))"
    using consent_step.thread [of 0 "demo_world (demo_approval Expired (Some AllowOnce) False True)"] by (simp add: demo_world_def)
  note r' = consent_run.step [OF consent_run.step [OF consent_run.step [OF r demo_approval_answer(2)] this] demo_approval_reply]
  have "map ap_pc (as_threads (cw_approvals (demo_world (demo_approval (Answered Decline) (Some AllowOnce) False False)))) = [Answered Decline]"
    by (simp add: demo_world_def demo_approval_def)
  moreover have "fst (respond_cloud_consent demo_command (lit ''i'') AllowOnce
      (as_waiters (cw_approvals (demo_world (demo_approval Expired None True True))), cw_live (demo_world (demo_approval Expired None True True)))) = Inr ()"
    using demo_approval_answer(1) by (simp add: demo_world_def)
  ultimately show ?thesis
    using r r' by (intro exI [of _ "[EvApproval 0 (lit ''i'') True] @ [EvThread 0]"] exI [of _ "demo_world (demo_approval Expired None True True)"]
        exI [of _ "demo_world (demo_approval (Answered Decline) (Some AllowOnce) False False)"]) simp
qed

text \<open>C11: in any run, at most as many workers of a project have run with the network, or with a folder, that neither the
  project's file nor a cloud backend gave them, as the user answered with a one-shot grant of it; launches may be
  concurrent, fail and give their grants back.\<close>

theorem one_shot_grants:
  assumes "consent_run H es w"
  shows "length (filter (\<lambda>(reads, l, st). la_project l = p \<and> st = Launched \<and> lp_net (la_policy l) \<and> \<not> lr_cloud reads \<and> lr_net reads \<noteq> Some True)
      (cw_launches w)) \<le> length (filter (granted H None p) es) \<and>
    length (filter (\<lambda>(reads, l, st). la_project l = p \<and> st = Launched \<and> f \<in> set (lp_folders (la_policy l)) \<and>
      f \<notin> set (unwrap_opt [] (lr_working_set reads))) (cw_launches w)) \<le> length (filter (granted H (Some f) p) es)"
proof -
  have le: "length (filter P (cw_launches w)) \<le> length (filter (granted H shot p) es)"
    if "\<And>entry. entry \<in> set (cw_launches w) \<Longrightarrow> P entry \<Longrightarrow> on_shot shot p entry" for P shot
    using length_filter_le_of [of "cw_launches w" P "on_shot shot p"] that run_shots [OF assms, of shot p] unfolding shots_def by fastforce
  show ?thesis
    using run_launches [OF assms] by (intro conjI le) (auto simp: on_shot_def launch_ok_def)
qed

theorem one_shot_grants_witness:
  "\<exists>w. consent_run demo_consent_host demo_launch_events w \<and>
     length (filter (\<lambda>(reads, l, st). la_project l = lit ''p'' \<and> st = Launched \<and> lp_net (la_policy l) \<and> \<not> lr_cloud reads \<and> lr_net reads \<noteq> Some True)
      (cw_launches w)) = 1 \<and> 1 \<le> length (filter (granted demo_consent_host None (lit ''p'')) demo_launch_events)"
proof -
  obtain w where w: "consent_run demo_consent_host demo_launch_events w" "cw_launches w = [(demo_reads, demo_launch, Launched)]"
    using demo_launch_run by blast
  then show ?thesis using one_shot_grants [OF w(1), of "lit ''p''"] by (intro exI [of _ w]) (simp add: demo_reads_def demo_launch_def)
qed

text \<open>C12: what a launch may do: it has the network with a cloud backend, by the project's file, or on a grant unless the project runs
  unattended in an enforced sandbox; it may write to the working set of the file and to the granted folders under the same
  condition; it leaves no grant of its project, and a failed spawn puts back what an attended one took.\<close>

theorem launch_policy_exact:
  "case claim_grants enforced p reads b of (l, b') \<Rightarrow>
     let unattended = (enforced \<and> lr_mode reads = Some Unattended) in
     (lp_net (la_policy l) \<longleftrightarrow> lr_cloud reads \<or> lr_net reads = Some True \<or> p |\<in>| br_net b \<and> \<not> unattended) \<and>
     sorted (lp_folders (la_policy l)) \<and> distinct (lp_folders (la_policy l)) \<and>
     set (lp_folders (la_policy l)) = set (unwrap_opt [] (lr_working_set reads)) \<union> (if unattended then {} else fset (folder_grants p b)) \<and>
     (held shot q b' \<longleftrightarrow> q \<noteq> p \<and> held shot q b) \<and>
     (held shot q (spawn_result l False b') \<longleftrightarrow> held shot q b \<and> \<not> (q = p \<and> unattended))"
proof -
  obtain l b' where lb: "claim_grants enforced p reads b = (l, b')" by (cases "claim_grants enforced p reads b")
  note parts = claim_grants_parts [OF lb]
  have mode: "la_mode l = Unattended \<longleftrightarrow> enforced \<and> lr_mode reads = Some Unattended" by (simp add: parts(2) effective_Unattended)
  have none: "took None l \<longleftrightarrow> p |\<in>| br_net b" using parts(4) [of None] by (simp add: held_def)
  show ?thesis
    using parts(1) parts(4) [of shot] parts(5-7) none mode held_spawn_result [of shot q l False b']
    by (auto simp: lb Let_def fset_of_list.rep_eq sorted_list_of_fset.rep_eq)
qed



text \<open>C14: in any run, a hook allows a tool that needs consent only if the user, with the vault unlocked, has answered its request with a
  permission, whatever the others did to the queue, given that no other kind of request has its id.\<close>

theorem hook_allows_only_by_answer:
  assumes "consent_run H es w" and "h \<in> set (cw_hooks w)" and "hk_gated h"
    and "hk_pc h = Decided d" and "hook_allows d"
    and "\<forall>p r. EvBlocked p r \<in> set es \<longrightarrow> cr_id r \<noteq> hk_request h"
  shows "\<exists>C v. EvRespond C (hk_request h) v \<in> set es \<and> ce_unlocked C \<and> v \<noteq> Deny"
proof -
  obtain r e e' n where r: "cr_id r = hk_request h" and e: "e \<in> set es" "permits r e"
    and n: "e' \<in> set es" "n \<in> set (new_rows e')" "row_after n r"
    using run_hooks [OF assms(1,2)] assms(3-5) unfolding hook_ok_def by blast
  have id: "cr_id n = hk_request h" and kind: "cr_kind r = cr_kind n" using row_after_fields [OF n(3)] r by simp_all
  have "cr_kind n = Patch \<or> cr_kind n = Exec"
    using n(1,2) id assms(6) by (auto simp: new_rows_def split: consent_event.splits option.splits) (use tool_kind in force)
  with kind e r show ?thesis by (auto simp: permits_def split: consent_event.splits)
qed

theorem hook_allows_only_by_answer_witness:
  "\<exists>C v. EvRespond C (lit ''i'') v \<in> set demo_hook_events \<and> ce_unlocked C \<and> v \<noteq> Deny"
  using hook_allows_only_by_answer [OF demo_hook_run, of "demo_hook (Decided (Inr True))" "Inr True"]
  by (simp add: demo_hooked_def demo_hook_def hook_allows_def demo_hook_events_def)

text \<open>C15: in any run, an approval is answered to Codex with anything but a refusal only if the user, with the vault unlocked, gave that
  answer to it, and no session has more than 32 approvals at work.\<close>

theorem codex_accepts_only_by_answer:
  assumes "consent_run H es w" and "t \<in> set (as_threads (cw_approvals w))" and "ap_pc t = Answered r" and "r \<noteq> Decline"
  shows "(\<exists>C d. EvRespond C (ap_id t) d \<in> set es \<and> ce_unlocked C \<and> reply_of d = r) \<and>
    length (filter (at_work c) (as_threads (cw_approvals w))) \<le> 32"
proof -
  have ok: "reply_ok es t" "length (filter (at_work c) (as_threads (cw_approvals w))) \<le> MAX_INFLIGHT_APPROVALS"
    using run_approvals [OF assms(1)] assms(2) unfolding approvals_ok_def by blast+
  then obtain d where "reply_of d = r" "answered es (ap_id t) d" using assms(3,4) by (auto simp: reply_ok_def)
  then show ?thesis using ok(2) by (auto simp: answered_def MAX_INFLIGHT_APPROVALS_def)
qed

theorem codex_accepts_only_by_answer_witness:
  "\<exists>C d. EvRespond C (lit ''i'') d \<in> set demo_approval_events \<and> ce_unlocked C \<and> reply_of d = Accept"
  using codex_accepts_only_by_answer [OF demo_approval_run, of "\<lparr>ap_client = 0, ap_id = lit ''i'', ap_channel = Some 0, ap_pc = Answered Accept\<rparr>" Accept]
  by (simp add: demo_world_def demo_approval_def)

end
