(* ===== verification/Lifecycle.thy ===== *)
theory Lifecycle
  imports AgentState Environment
begin

text \<open>
  The agent lifecycle tools, \<open>devboule-mcp/src/tools/agent_lifecycle.rs\<close>: the role allowlists
  (\<open>oracle/server/role_rules.json\<close>), registration with an app-issued launch token, the
  heartbeat, the gate in front of every project tool, and the peer-safe view of the agents
  file. Each tool is one critical section under the agents lock: read, check, change, write.
  The lemmas carry a session through the write and the next read; the properties state the
  token handshake.
\<close>

section \<open>Role allowlists\<close>

definition COORDINATION_TOOLS :: "rstr list" where
  "COORDINATION_TOOLS =
     [lit ''agent_register'', lit ''agent_heartbeat'', lit ''agent_state'', lit ''project_list'',
      lit ''project_get'', lit ''project_next_task'', lit ''project_claim_task'',
      lit ''project_update_status'', lit ''project_append_note'']"

definition RETRIEVAL_TOOLS :: "rstr list" where
  "RETRIEVAL_TOOLS =
     [lit ''oracle_context'', lit ''project_structure'', lit ''get_neighborhood'', lit ''find_imports'']"

text \<open>The pairs of a role and its allowed tools, as in \<open>role_rules.json\<close>.\<close>

definition ROLE_RULES :: "(rstr \<times> rstr list) list" where
  "ROLE_RULES =
     [(lit ''coder'', COORDINATION_TOOLS @
        [lit ''project_set_title'', lit ''project_create_followup'', lit ''project_create_plan_tasks'',
         lit ''oracle_ask''] @ RETRIEVAL_TOOLS @
        [lit ''censor_findings'', lit ''censor_dispose'', lit ''visual_check'', lit ''design_request'',
         lit ''design_result'', lit ''spawn_mini_coder'', lit ''steer_mini_coder'',
         lit ''mini_coder_result'', lit ''request_git_push'', lit ''plan_submit'', lit ''plan_status'',
         lit ''ask_user'']),
      (lit ''orchestrator'', COORDINATION_TOOLS @
        [lit ''project_set_title'', lit ''project_create_followup'', lit ''project_create_plan_tasks'',
         lit ''oracle_ask''] @ RETRIEVAL_TOOLS @
        [lit ''spawn_main_coder'', lit ''request_git_push'', lit ''plan_submit'', lit ''plan_status'',
         lit ''ask_user'', lit ''design_request'', lit ''design_result'']),
      (lit ''verifier'', COORDINATION_TOOLS @ [lit ''oracle_ask''] @ RETRIEVAL_TOOLS @
        [lit ''censor_findings'', lit ''censor_dispose'', lit ''visual_check'', lit ''ask_user'',
         lit ''plan_status'']),
      (lit ''mini'', [lit ''agent_register''] @ RETRIEVAL_TOOLS)]"

definition role_allowed_tools :: "rstr \<Rightarrow> rstr list option" where
  "role_allowed_tools = map_of ROLE_RULES"

definition role_allows :: "rstr \<Rightarrow> rstr \<Rightarrow> bool" where
  "role_allows role tool = (case role_allowed_tools role of None \<Rightarrow> False | Some tools \<Rightarrow> tool \<in> set tools)"

section \<open>Registration\<close>

text \<open>Consumption of the launch credential in the stored session.\<close>

definition consume_launch :: "ambient \<Rightarrow> bool \<Rightarrow> fields \<Rightarrow> fields" where
  "consume_launch A had_hash s =
     (let s = (if had_hash then obj_insert (lit ''launchConsumedAt'') (JStr (now_rfc3339 A)) s else s)
      in obj_remove (lit ''launchTokenIssuedAt'') (obj_remove (lit ''launchTokenHash'') s))"

definition on_session :: "rstr \<Rightarrow> (fields \<Rightarrow> fields) \<Rightarrow> json \<Rightarrow> json" where
  "on_session agent_id f state =
     (case find_session_mut state agent_id of
        None \<Rightarrow> state | Some s \<Rightarrow> put_session agent_id (f s) state)"

definition store_session_token :: "ambient \<Rightarrow> bool \<Rightarrow> rstr \<Rightarrow> fields \<Rightarrow> fields" where
  "store_session_token A managed token s =
     (if managed then
        obj_insert (lit ''sessionTokenIssuedAt'') (JStr (now_rfc3339 A))
          (obj_insert (lit ''sessionTokenHash'') (JStr (hash_session_token A token)) s)
      else obj_remove (lit ''sessionTokenIssuedAt'') (obj_remove (lit ''sessionTokenHash'') s))"

definition opt_or :: "'a option \<Rightarrow> 'a \<Rightarrow> 'a" where
  "opt_or x d = (case x of None \<Rightarrow> d | Some v \<Rightarrow> v)"

text \<open>The body of the critical section of \<open>agent_register\<close>, between its read and its write: the
  new state and the session token.\<close>

definition register_state :: "ambient \<Rightarrow> rstr \<Rightarrow> rstr \<Rightarrow> rstr option \<Rightarrow> rstr option \<Rightarrow> rstr option
    \<Rightarrow> rstr option \<Rightarrow> json \<Rightarrow> tool_error + json \<times> rstr" where
  "register_state A agent_id role model client message launch_token state =
     bindE (validate_launch_token_for_registration A state agent_id role launch_token)
     (\<lambda>existing.
        let state = (case existing of
              Some existing_session \<Rightarrow>
                on_session agent_id (consume_launch A
                  (trim (jstr_or (lit ''launchTokenHash'') [] existing_session) \<noteq> [])) state
            | None \<Rightarrow> state);
            managed_registration = (existing \<noteq> None \<or> \<not> unmanaged_privileged_agents_allowed A);
            session_token = (if managed_registration then generate_session_token A else [])
        in bindE (upsert_session A agent_id role model (lit ''active'')
              (Some (opt_or message (lit ''registered''))) client None None None None state)
     (\<lambda>state. bindE (ok_or (find_session_mut state agent_id) SessionMissingAfterRegister)
     (\<lambda>session.
        let state = put_session agent_id (store_session_token A managed_registration session_token session) state
        in bindE (add_event A 2 agent_id role (lit ''register'') (opt_or message (lit ''Agent registered.''))
              None None None None state)
     (\<lambda>state. bindE (if normalize_model model = []
          then add_event A 3 agent_id role (lit ''register_incomplete'')
                 (lit ''Agent registered without reporting a model; declare `model` at agent_register.'')
                 None None None None state
          else Inr state)
     (\<lambda>state. Inr (state, session_token))))))"

definition agent_register :: "ambient \<Rightarrow> path \<Rightarrow> rstr \<Rightarrow> rstr \<Rightarrow> rstr option \<Rightarrow> rstr option
    \<Rightarrow> rstr option \<Rightarrow> rstr option \<Rightarrow> json io" where
  "agent_register A dir agent_id role model client message launch_token =
     bindS (liftE (normalize_role role)) (\<lambda>role.
     bindS (liftE (normalize_agent_id agent_id)) (\<lambda>agent_id.
     with_agents_lock A dir
       (bindS (read_agents_state A dir) (\<lambda>state.
        bindS (liftE (register_state A agent_id role model client message launch_token state))
        (\<lambda>(state, session_token).
        bindS (write_agents_state A dir state) (\<lambda>written.
        returnS (compact_session_ack written agent_id
          (if session_token = [] then None else Some session_token))))))))"

section \<open>Heartbeat, the tool gate and the view\<close>

definition agent_heartbeat :: "ambient \<Rightarrow> path \<Rightarrow> rstr \<Rightarrow> rstr option \<Rightarrow> rstr option \<Rightarrow> rstr option
    \<Rightarrow> rstr option \<Rightarrow> json option \<Rightarrow> json io" where
  "agent_heartbeat A dir agent_id status message session_token file_path subagents =
     bindS (liftE (normalize_agent_id agent_id)) (\<lambda>agent_id.
     with_agents_lock A dir
       (bindS (read_agents_state A dir) (\<lambda>state.
        bindS (liftE (ok_or (find_session state agent_id) RegisterFirst)) (\<lambda>session.
        bindS (liftE (assertE (status_lc session \<noteq> lit ''launch_pending'') LaunchPending)) (\<lambda>_.
        bindS (liftE (normalize_role (jstr_or (lit ''role'') [] session))) (\<lambda>role.
        bindS (liftE (assertE (role_allows role (lit ''agent_heartbeat''))
          (ToolNotAllowed role (lit ''agent_heartbeat'')))) (\<lambda>_.
        bindS (liftE (require_session_token A session session_token)) (\<lambda>_.
        bindS (liftE (upsert_session A agent_id role None (opt_or status (lit ''active'')) message
          None file_path subagents None None state)) (\<lambda>state.
        bindS (write_agents_state A dir state) (\<lambda>written.
        returnS (compact_session_ack written agent_id None)))))))))))"

text \<open>The checks that \<open>require_agent_tool\<close> makes of the session, for a tool name; \<open>agent_state\<close>
  makes the same ones after its own allowlist check.\<close>

definition session_gate :: "ambient \<Rightarrow> rstr \<Rightarrow> rstr \<Rightarrow> rstr option \<Rightarrow> rstr option \<Rightarrow> json \<Rightarrow> tool_error + unit" where
  "session_gate A agent_id role tool session_token state =
     bindE (ok_or (find_session state agent_id) RegisterFirst) (\<lambda>session.
     bindE (assertE (status_lc session \<noteq> lit ''launch_pending'') LaunchPending) (\<lambda>_.
     bindE (normalize_role (jstr_or (lit ''role'') [] session)) (\<lambda>registered_role.
     bindE (assertE (registered_role = role) (RoleMismatch registered_role role)) (\<lambda>_.
     bindE (case tool of Some t \<Rightarrow> assertE (role_allows role t) (ToolNotAllowed role t) | None \<Rightarrow> Inr ())
     (\<lambda>_. require_session_token A session session_token)))))"

definition require_agent_tool :: "ambient \<Rightarrow> path \<Rightarrow> rstr \<Rightarrow> rstr \<Rightarrow> rstr \<Rightarrow> rstr option \<Rightarrow> (rstr \<times> rstr) io" where
  "require_agent_tool A dir agent_id role tool_name session_token =
     bindS (liftE (normalize_agent_id agent_id)) (\<lambda>agent_id.
     bindS (liftE (normalize_role role)) (\<lambda>role.
     with_agents_lock A dir
       (bindS (read_agents_state A dir) (\<lambda>state.
        bindS (liftE (session_gate A agent_id role (Some tool_name) session_token state)) (\<lambda>_.
        returnS (agent_id, role))))))"

definition agent_state :: "ambient \<Rightarrow> path \<Rightarrow> rstr \<Rightarrow> rstr \<Rightarrow> rstr option \<Rightarrow> json io" where
  "agent_state A dir agent_id role session_token =
     bindS (liftE (normalize_agent_id agent_id)) (\<lambda>agent_id.
     bindS (liftE (normalize_role role)) (\<lambda>role.
     bindS (liftE (assertE (role_allows role (lit ''agent_state''))
       (ToolNotAllowed role (lit ''agent_state'')))) (\<lambda>_.
     with_agents_lock A dir
       (bindS (read_agents_state A dir) (\<lambda>state.
        bindS (liftE (session_gate A agent_id role None session_token state)) (\<lambda>_.
        returnS (public_agents_state state agent_id)))))))"

section \<open>Reading back what was written\<close>

text \<open>The document as \<open>write_agents_state\<close> writes it.\<close>

definition written_form :: "ambient \<Rightarrow> json \<Rightarrow> json" where
  "written_form A state =
     on_array (lit ''events'') cap_events
       (on_object (obj_insert (lit ''updatedAt'') (JStr (now_rfc3339 A))) (normalize_agents_state A state))"

lemma write_agents_state_alt:
  "write_agents_state A dir state =
     bindS (liftE (ok_or (json_pretty A (written_form A state)) CouldNotSerializeAgents))
       (\<lambda>content. bindS (write_text_crash_safe A (agents_state_path dir) content (lit ''agent state file''))
       (\<lambda>_. returnS (written_form A state)))"
  by (simp add: write_agents_state_def written_form_def Let_def)

lemma file_name_agents [simp]: "file_name (agents_state_path dir) = Some (lit ''.aspis-agents.json'')"
  by (simp add: agents_state_path_def)

lemma write_agents_state_InrD:
  assumes "write_agents_state A dir state d = (Inr w, d')"
  obtains content where "w = written_form A state" and "json_pretty A w = Some content"
    and "files d' (agents_state_path dir) = Some content"
  using assms by (auto simp: write_agents_state_alt elim_bind dest: write_text_Inr)

lemma read_agents_state_pure: "read_agents_state A dir d = (r, d') \<Longrightarrow> d' = d"
  by (auto simp: read_agents_state_def Let_def split: option.splits if_splits)

text \<open>The shape of a normalised document, and that the two edits of a write keep it normal.\<close>

lemma normal_form_cases:
  obtains obj where "normalize_agents_state A j = JObj obj" "state_shape obj"
proof (cases "as_object j")
  case None
  then show ?thesis
    using that [of "the (as_object (default_agents_state A))"]
    by (simp add: normalize_not_object default_agents_state_def state_shape_def obj_has_def)
next
  case (Some kvs)
  obtain obj where sh: "state_shape obj"
    and n: "normalize_agents_state A (JObj kvs) = on_array (lit ''sessions'') normalize_sessions (JObj obj)"
    by (rule normalize_agents_state_obj)
  obtain obj' where o: "on_array (lit ''sessions'') normalize_sessions (JObj obj) = JObj obj'"
    using on_array_JObj by metis
  with Some n state_shape_on_array [OF sh o] show ?thesis using that [of obj'] by simp
qed

lemma state_shape_insert_updatedAt:
  "state_shape obj \<Longrightarrow> state_shape (obj_insert (lit ''updatedAt'') v obj)"
  by (simp add: state_shape_def)

lemma state_shape_events:
  assumes "state_shape obj" and "on_array (lit ''events'') f (JObj obj) = JObj obj'"
  shows "state_shape obj'"
proof -
  obtain kvs' where "on_array (lit ''events'') f (JObj obj) = JObj kvs'"
    and "\<And>k'. obj_has k' kvs' \<longleftrightarrow> obj_has k' obj"
    and "\<And>k'. k' \<noteq> lit ''events'' \<Longrightarrow> map_of kvs' k' = map_of obj k'"
    using on_array_JObj by metis
  with assms show ?thesis by (simp add: state_shape_def)
qed

lemma jarr_sessions_written:
  "jarr (lit ''sessions'') (written_form A state) = jarr (lit ''sessions'') (normalize_agents_state A state)"
  by (rule normal_form_cases [of A state])
    (simp add: written_form_def jarr_on_array_other, simp add: jarr_def)

lemma normalize_fixed_sessions:
  "jarr (lit ''sessions'') (normalize_agents_state A state) = Some xs \<Longrightarrow> normalize_sessions xs = xs"
proof (cases "as_object state")
  case None
  assume "jarr (lit ''sessions'') (normalize_agents_state A state) = Some xs"
  with None show ?thesis
    by (simp add: normalize_not_object default_agents_state_def jarr_def)
next
  case (Some kvs)
  obtain obj where "normalize_agents_state A (JObj kvs) = on_array (lit ''sessions'') normalize_sessions (JObj obj)"
    by (rule normalize_agents_state_obj)
  moreover assume "jarr (lit ''sessions'') (normalize_agents_state A state) = Some xs"
  ultimately show ?thesis
    using Some by (auto simp: jarr_on_array_same normalize_sessions_idem)
qed

lemma written_form_normal: "normalize_agents_state B (written_form A state) = written_form A state"
proof -
  obtain obj where n: "normalize_agents_state A state = JObj obj" and sh: "state_shape obj"
    by (rule normal_form_cases)
  obtain obj' where w: "written_form A state = JObj obj'"
    unfolding written_form_def n by (metis on_array_JObj on_object.simps(1))
  have "state_shape obj'"
    using state_shape_events [OF state_shape_insert_updatedAt [OF sh]] w
    by (simp add: written_form_def n)
  then have "normalize_agents_state B (JObj obj') = on_array (lit ''sessions'') normalize_sessions (JObj obj')"
    by (rule normalize_shaped)
  also have "\<dots> = JObj obj'"
    using jarr_sessions_written [of A state] normalize_fixed_sessions [of A state] w
    by (intro on_array_id) simp
  finally show ?thesis by (simp add: w)
qed

lemma read_back:
  assumes "write_agents_state A dir state d = (Inr w, d')"
    and "\<And>c. json_pretty A w = Some c \<Longrightarrow> json_parse B c = Some w"
    and "read_ok B (agents_state_path dir)"
  shows "read_agents_state B dir d' = (Inr w, d')"
  using assms(1)
proof (rule write_agents_state_InrD)
  fix content assume "w = written_form A state" "json_pretty A w = Some content"
    "files d' (agents_state_path dir) = Some content"
  with assms(2,3) show ?thesis
    by (simp add: read_agents_state_def Let_def written_form_normal)
qed

section \<open>A live session survives normalisation\<close>

lemma find_nths:
  "List.find p xs = Some x \<Longrightarrow> \<not> q x \<Longrightarrow> (\<And>i. i < length xs \<Longrightarrow> \<not> q (xs ! i) \<Longrightarrow> i \<in> I)
     \<Longrightarrow> List.find p (nths xs I) = Some x"
proof (induction xs arbitrary: I)
  case (Cons y xs)
  show ?case
  proof (cases "p y")
    case True
    with Cons.prems have "y = x" "0 \<in> I" using Cons.prems(3) [of 0] by auto
    with True show ?thesis by (simp add: nths_Cons)
  next
    case False
    with Cons.prems have "List.find p xs = Some x" by simp
    then have "List.find p (nths xs {j. Suc j \<in> I}) = Some x"
    proof (rule Cons.IH)
      fix i assume "i < length xs" "\<not> q (xs ! i)"
      then show "i \<in> {j. Suc j \<in> I}" using Cons.prems(3) [of "Suc i"] by simp
    qed (rule Cons.prems)
    with False show ?thesis by (simp add: nths_Cons)
  qed
qed simp

lemma find_drop_oldest:
  assumes "List.find p xs = Some x" and "\<not> is_closed x"
  shows "List.find p (drop_positions (take k (closed_by_age xs)) xs) = Some x"
  unfolding drop_positions_nths
proof (rule find_nths [where q = is_closed, OF assms])
  fix i assume "\<not> is_closed (xs ! i)"
  then have "i \<notin> set (closed_by_age xs)" by (simp add: closed_by_age_props)
  then show "i \<in> - set (take k (closed_by_age xs))" using set_take_subset by fastforce
qed

lemma find_prunes:
  assumes "List.find p xs = Some x" and "\<not> is_closed x"
  shows "List.find p (prune_closed_sessions m (prune_over_max xs)) = Some x"
proof -
  have "List.find p (prune_over_max xs) = Some x"
    using assms by (simp add: prune_over_max_def find_drop_oldest)
  with assms(2) show ?thesis
    by (simp add: prune_closed_sessions_def Let_def find_drop_oldest)
qed

lemma jget_normalize_session:
  "k \<notin> {lit ''subagents'', lit ''needsUser'', lit ''role''} \<Longrightarrow>
     map_of (normalize_session s) k = map_of s k"
  by (simp add: normalize_session_def Let_def)

lemma jstr_normalize_session:
  "k \<notin> {lit ''subagents'', lit ''needsUser'', lit ''role''} \<Longrightarrow>
     jstr k (on_object normalize_session j) = jstr k j"
  by (cases j) (simp_all add: jstr_def jget_normalize_session)

lemma find_map_on_object:
  "List.find (has_agent_id a) (map (on_object normalize_session) xs) =
     map_option (on_object normalize_session) (List.find (has_agent_id a) xs)"
  by (induction xs) (auto simp: has_agent_id_def jstr_normalize_session)

lemma find_session_normalize:
  assumes "find_session state a = Some (JObj s)" and "\<not> is_closed (JObj s)"
  shows "find_session (normalize_agents_state A state) a = Some (JObj (normalize_session s))"
proof -
  from assms(1) obtain kvs xs where st: "state = JObj kvs" and xs: "map_of kvs (lit ''sessions'') = Some (JArr xs)"
    and f: "List.find (has_agent_id a) xs = Some (JObj s)"
    by (cases state) (auto simp: find_session_def jarr_def bind_eq_Some_conv split: option.splits)
  obtain obj where n: "normalize_agents_state A state = on_array (lit ''sessions'') normalize_sessions (JObj obj)"
    and m: "map_of obj (lit ''sessions'') = Some (JArr xs)"
    unfolding st by (rule normalize_agents_state_obj [of A kvs]) (simp add: xs)
  have "List.find (has_agent_id a) (map (on_object normalize_session) xs) = Some (JObj (normalize_session s))"
    by (simp add: find_map_on_object f)
  moreover have "\<not> is_closed (JObj (normalize_session s))"
    using assms(2) jstr_normalize_session [of "lit ''status''" "JObj s"] by (simp add: is_closed_def)
  ultimately have "List.find (has_agent_id a) (normalize_sessions xs) = Some (JObj (normalize_session s))"
    unfolding normalize_sessions_def by (rule find_prunes)
  moreover have "jarr (lit ''sessions'') (JObj obj) = Some xs" by (simp add: jarr_def m)
  ultimately show ?thesis by (simp add: n find_session_def jarr_on_array_same)
qed

lemma find_session_written:
  assumes "find_session state a = Some (JObj s)" and "\<not> is_closed (JObj s)"
  shows "find_session (written_form A state) a = Some (JObj (normalize_session s))"
  using find_session_normalize [OF assms, of A] jarr_sessions_written [of A state]
  by (simp add: find_session_def)

section \<open>What registration does to the document\<close>

lemma normalize_agent_id_Inr:
  "normalize_agent_id x = Inr a \<Longrightarrow> a = trim x \<and> normalize_agent_id a = Inr a"
  by (auto simp: normalize_agent_id_def Let_def split: if_splits)

lemma normalize_role_Inr:
  "normalize_role x = Inr r \<Longrightarrow> r \<in> set VALID_ROLES \<and> normalize_role r = Inr r \<and> coerce_role r = r"
  by (auto simp: normalize_role_def coerce_role_def Let_def role_lower_trim_fixed split: if_splits)
    (auto simp: role_alias_def VALID_ROLES_def)

lemma add_event_find:
  "add_event A n a r t m p k st ev state = Inr state' \<Longrightarrow> find_session state' b = find_session state b"
  by (auto simp: add_event_def elim_bind find_session_on_array_other)

lemma find_on_session_other:
  "(\<And>s. has_agent_id a (JObj s) \<Longrightarrow> has_agent_id a (JObj (f s))) \<Longrightarrow> b \<noteq> a \<Longrightarrow>
     find_session (on_session a f state) b = find_session state b"
  by (auto simp: on_session_def find_session_mut_eq find_session_put_other find_session_has_id
      split: option.splits)

lemma find_on_session_same:
  "(\<And>s. has_agent_id a (JObj s) \<Longrightarrow> has_agent_id a (JObj (f s))) \<Longrightarrow>
     find_session (on_session a f state) a = map_option (on_object f) (find_session state a)"
proof (cases "find_session state a")
  case (Some j)
  then obtain s where "j = JObj s" using has_agent_id_object [OF find_session_has_id] by blast
  moreover assume "\<And>s. has_agent_id a (JObj s) \<Longrightarrow> has_agent_id a (JObj (f s))"
  ultimately show ?thesis
    using find_session_has_id [OF Some] Some
    by (simp add: on_session_def find_session_mut_def find_session_put_same)
qed (simp add: on_session_def find_session_mut_def)

lemma consume_launch_get:
  "map_of (consume_launch A b s) k =
     (if k = lit ''launchTokenHash'' \<or> k = lit ''launchTokenIssuedAt'' then None
      else if b \<and> k = lit ''launchConsumedAt'' then Some (JStr (now_rfc3339 A)) else map_of s k)"
  by (auto simp: consume_launch_def Let_def)

lemma consume_launch_id: "has_agent_id a (JObj (consume_launch A b s)) \<longleftrightarrow> has_agent_id a (JObj s)"
  by (simp add: has_agent_id_def jstr_def consume_launch_get)

lemma store_session_token_get:
  "map_of (store_session_token A managed tok s) k =
     (if k = lit ''sessionTokenIssuedAt'' then (if managed then Some (JStr (now_rfc3339 A)) else None)
      else if k = lit ''sessionTokenHash'' then (if managed then Some (JStr (hash_session_token A tok)) else None)
      else map_of s k)"
  by (auto simp: store_session_token_def)

lemma store_session_token_id:
  "has_agent_id a (JObj (store_session_token A m tok s)) \<longleftrightarrow> has_agent_id a (JObj s)"
  by (simp add: has_agent_id_def jstr_def store_session_token_get)

lemma jget_on_session_other:
  "k \<noteq> lit ''sessions'' \<Longrightarrow> jget k (on_session a f state) = jget k state"
  by (simp add: on_session_def jget_put_session_other split: option.splits)

text \<open>The session that an upsert in \<open>register_state\<close> starts from.\<close>

lemma base_session_on_session:
  assumes "find_session state a = Some (JObj s)"
  shows "base_session A (on_session a (consume_launch A b) state) a = consume_launch A b s"
  using assms
  by (simp add: base_session_def find_session_mut_def find_on_session_same consume_launch_id)

lemma base_session_None: "find_session state a = None \<Longrightarrow>
    base_session A state a = [(lit ''agentId'', JStr a), (lit ''firstSeenAt'', JStr (now_rfc3339 A))]"
  by (simp add: base_session_def find_session_mut_def)

lemma status_active: "(let raw = trim (collapse_ws (lit ''active'')) in
    if normalize_agent_status (take 80 raw) = [] then take 80 raw else normalize_agent_status (take 80 raw))
    = lit ''active''"
  by code_simp

lemma register_state_spec:
  assumes "register_state A a role model client message ltok state = Inr (state', tok)"
    and "normalize_agent_id a = Inr a"
  obtains managed s0 s' where
    "validate_launch_token_for_registration A state a role ltok = Inr (map_option JObj s0)"
    and "managed \<longleftrightarrow> s0 \<noteq> None \<or> \<not> unmanaged_privileged_agents_allowed A"
    and "tok = (if managed then generate_session_token A else [])"
    and "find_session state a = map_option JObj s0"
    and "find_session state' a = Some (JObj s')"
    and "map_of s' (lit ''status'') = Some (JStr (lit ''active''))"
    and "\<exists>r. map_of s' (lit ''role'') = Some (JStr r) \<and> (r = role \<or> coerce_role r = coerce_role role)"
    and "map_of s' (lit ''sessionTokenHash'') =
           (if managed then Some (JStr (hash_session_token A tok)) else None)"
    and "map_of s' (lit ''sessionTokenIssuedAt'') = (if managed then Some (JStr (now_rfc3339 A)) else None)"
    and "map_of s' (lit ''launchTokenHash'') = None"
    and "map_of s' (lit ''launchConsumedAt'') = (case s0 of None \<Rightarrow> None | Some s \<Rightarrow>
           if trim (jstr_or (lit ''launchTokenHash'') [] (JObj s)) \<noteq> [] then Some (JStr (now_rfc3339 A))
           else map_of s (lit ''launchConsumedAt''))"
    and "\<And>b. b \<noteq> a \<Longrightarrow> find_session state' b = find_session state b"
proof -
  from assms(1) obtain existing st1 st2 s where
    v: "validate_launch_token_for_registration A state a role ltok = Inr existing"
    and st1: "st1 = (case existing of Some e \<Rightarrow>
          on_session a (consume_launch A (trim (jstr_or (lit ''launchTokenHash'') [] e) \<noteq> [])) state
        | None \<Rightarrow> state)"
    and up: "upsert_session A a role model (lit ''active'')
          (Some (opt_or message (lit ''registered''))) client None None None None st1 = Inr st2"
    and s: "find_session_mut st2 a = Some s"
    and fin: "\<And>b. find_session state' b = find_session (put_session a (store_session_token A
          (existing \<noteq> None \<or> \<not> unmanaged_privileged_agents_allowed A)
          (if existing \<noteq> None \<or> \<not> unmanaged_privileged_agents_allowed A then generate_session_token A else []) s) st2) b"
    and tok: "tok = (if existing \<noteq> None \<or> \<not> unmanaged_privileged_agents_allowed A then generate_session_token A else [])"
    unfolding register_state_def Let_def
    by (fastforce simp: elim_bind add_event_find split: if_splits)
  let ?m = "existing \<noteq> None \<or> \<not> unmanaged_privileged_agents_allowed A"
  have ex: "existing = find_session state a"
    using validate_launch_token_Inr [OF v] by (auto split: option.splits)
  obtain s0 where s0: "existing = map_option JObj s0"
  proof (cases existing)
    case (Some j)
    then show thesis using that ex has_agent_id_object [OF find_session_has_id] by (metis option.map(2))
  qed (use that in simp)
  define b where "b = (case s0 of None \<Rightarrow> [(lit ''agentId'', JStr a), (lit ''firstSeenAt'', JStr (now_rfc3339 A))]
     | Some s \<Rightarrow> consume_launch A (trim (jstr_or (lit ''launchTokenHash'') [] (JObj s)) \<noteq> []) s)"
  have b: "base_session A st1 a = b"
    using s0 ex by (cases s0) (simp_all add: st1 b_def base_session_None base_session_on_session)
  have others: "find_session st1 c = find_session state c" if "c \<noteq> a" for c
    using that s0 by (cases s0) (simp_all add: st1 find_on_session_other consume_launch_id)
  obtain s1 where f: "find_session st2 a = Some (JObj s1)"
    and fr: "\<And>k. k \<notin> set UPSERT_KEYS \<Longrightarrow> map_of s1 k = map_of b k"
    and sta: "map_of s1 (lit ''status'') = Some (JStr (lit ''active''))"
    and ro: "\<exists>r. map_of s1 (lit ''role'') = Some (JStr r) \<and> (r = role \<or> coerce_role r = coerce_role role)"
    and oth: "\<And>c. c \<noteq> a \<Longrightarrow> find_session st2 c = find_session st1 c"
  proof (rule upsert_session_spec [OF up])
    fix a' cs s'
    assume *: "normalize_agent_id a = Inr a'" "find_session st2 a' = Some (JObj s')"
      "\<And>k. k \<notin> set UPSERT_KEYS \<Longrightarrow> map_of s' k = map_of (base_session A st1 a') k"
      "map_of s' (lit ''status'') = Some (JStr cs)"
      "cs = (let raw = trim (collapse_ws (lit ''active'')) in
         if normalize_agent_status (take 80 raw) = [] then take 80 raw else normalize_agent_status (take 80 raw))"
      "\<exists>r. map_of s' (lit ''role'') = Some (JStr r) \<and> (r = role \<or>
         (jstr (lit ''role'') (JObj (base_session A st1 a')) = Some r \<and> roles_same_canonical r role))"
      "\<And>c. c \<noteq> a' \<Longrightarrow> find_session st2 c = find_session st1 c"
    have a': "a' = a" using *(1) assms(2) by simp
    show thesis
    proof (rule that [of s'])
      show "map_of s' (lit ''status'') = Some (JStr (lit ''active''))"
        using *(4) unfolding *(5) status_active .
      show "\<exists>r. map_of s' (lit ''role'') = Some (JStr r) \<and> (r = role \<or> coerce_role r = coerce_role role)"
        using *(6) by (auto simp: roles_same_canonical_def)
    qed (use * a' b in auto)
  qed
  have s1: "s = s1" using s f by (simp add: find_session_mut_eq)
  let ?s' = "store_session_token A ?m tok s1"
  have id: "has_agent_id a (JObj ?s')"
    using find_session_has_id [OF f] by (simp add: store_session_token_id)
  have fin': "find_session state' c = find_session (put_session a ?s' st2) c" for c
    using fin [of c] unfolding s1 tok [symmetric] .
  have f': "find_session state' a = Some (JObj ?s')"
    unfolding fin' find_session_put_same [OF id] f by simp
  have o': "\<And>c. c \<noteq> a \<Longrightarrow> find_session state' c = find_session st2 c"
    unfolding fin' by (rule find_session_put_other [OF id])
  have keys: "lit ''launchTokenHash'' \<notin> set UPSERT_KEYS" "lit ''launchConsumedAt'' \<notin> set UPSERT_KEYS"
    by (simp_all add: UPSERT_KEYS_def)
  show thesis
  proof (rule that [OF _ _ tok _ f'])
    show "validate_launch_token_for_registration A state a role ltok = Inr (map_option JObj s0)"
      using v s0 by simp
    show "?m \<longleftrightarrow> s0 \<noteq> None \<or> \<not> unmanaged_privileged_agents_allowed A" using s0 by simp
    show "find_session state a = map_option JObj s0" using ex s0 by simp
  qed (auto simp: store_session_token_get sta ro o' oth others fr keys b_def consume_launch_get
      split: option.splits)
qed

section \<open>The token handshake\<close>

text \<open>Documented behaviour of the libraries, between the critical section \<open>A\<close> that writes and the
  critical section \<open>B\<close> that reads: \<open>serde_json\<close> parses what it printed, \<open>chrono\<close> reads an RFC 3339
  time it formatted, a SHA-256 hex digest is a function of the text and is not blank, and a
  simple uuid is a run of hex digits.\<close>

definition rfc3339_roundtrip :: "ambient \<Rightarrow> ambient \<Rightarrow> bool" where
  "rfc3339_roundtrip A B \<longleftrightarrow>
     (\<forall>t. parse_iso_timestamp B (Some (fmt_ts A t)) = Some t \<and> trim (fmt_ts A t) \<noteq> [])"

definition sha256_hex_ok :: "ambient \<Rightarrow> ambient \<Rightarrow> bool" where
  "sha256_hex_ok A B \<longleftrightarrow> sha256_hex B = sha256_hex A \<and>
     (\<forall>x. trim (sha256_hex A x) = sha256_hex A x \<and> sha256_hex A x \<noteq> [])"

definition uuid_hex_ok :: "ambient \<Rightarrow> bool" where
  "uuid_hex_ok A \<longleftrightarrow> (\<forall>n. uuid_hex A n \<noteq> [] \<and> (\<forall>c \<in> set (uuid_hex A n). \<not> is_ws c))"

text \<open>The agents lock can be had and the agents file can be read.\<close>

definition agents_available :: "ambient \<Rightarrow> path \<Rightarrow> bool" where
  "agents_available B dir \<longleftrightarrow> mkdir_ok B dir \<and> is_ok (acquire_lock_at B (agents_lock_path dir)) \<and>
     read_ok B (agents_state_path dir)"

lemma with_agents_lock_available: "agents_available B dir \<Longrightarrow> with_agents_lock B dir f = f"
  by (rule ext, cases "acquire_lock_at B (agents_lock_path dir)")
    (simp_all add: agents_available_def with_agents_lock_def with_file_lock_def bindS_def liftE_def)

lemma generated_token_not_blank: "uuid_hex_ok A \<Longrightarrow> trim (generate_session_token A) \<noteq> []"
  by (subst trim_nonws) (auto simp: uuid_hex_ok_def generate_session_token_def)

lemma coerce_role_normalized:
  "normalize_role (case map_of (normalize_session s) (lit ''role'') of Some (JStr r) \<Rightarrow> r | _ \<Rightarrow> []) =
     Inr (coerce_role (jstr_or (lit ''role'') [] (JObj s)))"
proof -
  define r where "r = to_lower (trim (jstr_or (lit ''role'') [] (JObj s)))"
  have "map_of (normalize_session s) (lit ''role'') = Some (JStr (if stored_role r then r else lit ''coder''))"
    by (simp add: normalize_session_def Let_def stored_role_def [symmetric] r_def jstr_or_def jstr_def)
  moreover have "normalize_role (if stored_role r then r else lit ''coder'') =
      Inr (if role_alias r \<in> set VALID_ROLES then role_alias r else lit ''coder'')"
  proof (cases "stored_role r")
    case True
    then have "role_alias r \<in> set VALID_ROLES"
      by (auto simp: stored_role_def role_alias_def VALID_ROLES_def)
    with True show ?thesis by (simp add: normalize_role_def stored_role_fixed)
  next
    case False
    then have "role_alias r \<notin> set VALID_ROLES" by (auto simp: stored_role_def role_alias_def)
    with False show ?thesis by (simp add: normalize_role_def role_alias_def VALID_ROLES_def)
  qed
  ultimately show ?thesis by (simp add: coerce_role_def r_def Let_def)
qed

lemma agent_register_InrD:
  assumes "agent_register A dir agent_id role model client message ltok d = (Inr ack, d')"
  obtains r a st st' tok w where "normalize_role role = Inr r" and "normalize_agent_id agent_id = Inr a"
    and "read_agents_state A dir d = (Inr st, d)"
    and "register_state A a r model client message ltok st = Inr (st', tok)"
    and "write_agents_state A dir st' d = (Inr w, d')"
    and "ack = compact_session_ack w a (if tok = [] then None else Some tok)"
proof -
  from assms obtain r a st d1 st' tok w where "normalize_role role = Inr r"
    "normalize_agent_id agent_id = Inr a" and rd: "read_agents_state A dir d = (Inr st, d1)"
    and "register_state A a r model client message ltok st = Inr (st', tok)"
    "write_agents_state A dir st' d1 = (Inr w, d')"
    "ack = compact_session_ack w a (if tok = [] then None else Some tok)"
    unfolding agent_register_def
    by (auto simp: elim_bind split: prod.splits dest!: with_agents_lock_InrD)
  with read_agents_state_pure [OF rd] show thesis using that by simp
qed

lemma ack_token: "jstr (lit ''sessionToken'') (compact_session_ack w a t) =
    (case t of Some tok \<Rightarrow> if tok \<noteq> [] then Some tok else None | None \<Rightarrow> None)"
  by (simp add: compact_session_ack_def Let_def jstr_def split: option.splits)

lemma active_not_closed:
  "map_of s (lit ''status'') = Some (JStr (lit ''active'')) \<Longrightarrow> \<not> is_closed (JObj s)"
proof -
  have "\<not> eq_ignore_case (lit ''active'') (lit ''closed'')" by code_simp
  then show "map_of s (lit ''status'') = Some (JStr (lit ''active'')) \<Longrightarrow> ?thesis"
    by (simp add: is_closed_def jstr_def)
qed

lemma active_not_pending:
  "map_of s (lit ''status'') = Some (JStr (lit ''active'')) \<Longrightarrow> status_lc (JObj s) \<noteq> lit ''launch_pending''"
proof -
  have "to_lower (trim (lit ''active'')) \<noteq> lit ''launch_pending''" by code_simp
  then show "map_of s (lit ''status'') = Some (JStr (lit ''active'')) \<Longrightarrow> ?thesis"
    by (simp add: status_lc_def jstr_or_def jstr_def)
qed

text \<open>The session that a later critical section finds after a registration.\<close>

lemma registered_session:
  assumes reg: "agent_register A dir agent_id role model client message ltok d = (Inr ack, d')"
    and libs: "serde_roundtrip A B" and avail: "agents_available B dir"
  obtains r st st' tok s' where "normalize_role role = Inr r" and "normalize_agent_id agent_id = Inr (trim agent_id)"
    and "read_agents_state A dir d = (Inr st, d)"
    and "register_state A (trim agent_id) r model client message ltok st = Inr (st', tok)"
    and "jstr (lit ''sessionToken'') ack = (if tok = [] then None else Some tok)"
    and "find_session st' (trim agent_id) = Some (JObj s')" and "\<not> is_closed (JObj s')"
    and "read_agents_state B dir d' = (Inr (written_form A st'), d')"
    and "find_session (written_form A st') (trim agent_id) = Some (JObj (normalize_session s'))"
proof (rule agent_register_InrD [OF reg])
  fix r a st st' tok w
  assume r: "normalize_role role = Inr r" and a: "normalize_agent_id agent_id = Inr a"
    and st: "read_agents_state A dir d = (Inr st, d)"
    and rs: "register_state A a r model client message ltok st = Inr (st', tok)"
    and w: "write_agents_state A dir st' d = (Inr w, d')"
    and ack: "ack = compact_session_ack w a (if tok = [] then None else Some tok)"
  have a': "a = trim agent_id" "normalize_agent_id a = Inr a" using normalize_agent_id_Inr [OF a] by blast+
  obtain s' where s': "find_session st' a = Some (JObj s')"
    "map_of s' (lit ''status'') = Some (JStr (lit ''active''))"
    by (rule register_state_spec [OF rs a'(2)]) blast
  have wf: "w = written_form A st'" by (rule write_agents_state_InrD [OF w])
  have tk: "jstr (lit ''sessionToken'') ack = (if tok = [] then None else Some tok)"
    by (simp add: ack ack_token)
  have rd: "read_agents_state B dir d' = (Inr (written_form A st'), d')"
    using libs avail by (intro read_back [OF w, unfolded wf]) (auto simp: serde_roundtrip_def agents_available_def)
  note nc = active_not_closed [OF s'(2)]
  have fs: "find_session (written_form A st') a = Some (JObj (normalize_session s'))"
    by (rule find_session_written [OF s'(1) nc])
  show thesis
    by (rule that [OF r _ st _ tk _ nc rd]) (use a a'(1) rs s'(1) fs in \<open>simp_all only:\<close>)
qed

lemma registered_token:
  assumes rs: "register_state A a r model client message ltok st = Inr (st', tok)" and "tok \<noteq> []"
    and a: "normalize_agent_id a = Inr a" and f: "find_session st' a = Some (JObj s')"
  shows "tok = generate_session_token A"
    and "map_of s' (lit ''sessionTokenHash'') = Some (JStr (hash_session_token A tok))"
    and "map_of s' (lit ''sessionTokenIssuedAt'') = Some (JStr (now_rfc3339 A))"
    and "map_of s' (lit ''status'') = Some (JStr (lit ''active''))"
    and "coerce_role (jstr_or (lit ''role'') [] (JObj s')) = coerce_role r"
proof -
  obtain s'' m where s'': "find_session st' a = Some (JObj s'')"
    and tk: "tok = (if m then generate_session_token A else [])"
    and h: "map_of s'' (lit ''sessionTokenHash'') = (if m then Some (JStr (hash_session_token A tok)) else None)"
    and i: "map_of s'' (lit ''sessionTokenIssuedAt'') = (if m then Some (JStr (now_rfc3339 A)) else None)"
    and sta: "map_of s'' (lit ''status'') = Some (JStr (lit ''active''))"
    and ro: "\<exists>q. map_of s'' (lit ''role'') = Some (JStr q) \<and> (q = r \<or> coerce_role q = coerce_role r)"
    by (rule register_state_spec [OF rs a]) blast
  have m: "m" using tk assms(2) by (auto split: if_splits)
  have s: "s' = s''" using f s'' by simp
  show "tok = generate_session_token A" using tk m by simp
  show "map_of s' (lit ''sessionTokenHash'') = Some (JStr (hash_session_token A tok))" using h m s by simp
  show "map_of s' (lit ''sessionTokenIssuedAt'') = Some (JStr (now_rfc3339 A))" using i m s by simp
  show "map_of s' (lit ''status'') = Some (JStr (lit ''active''))" using sta s by simp
  show "coerce_role (jstr_or (lit ''role'') [] (JObj s')) = coerce_role r"
    using ro s by (auto simp: jstr_or_def jstr_def)
qed

lemma jstr_or_role_normalized:
  "jstr_or (lit ''role'') [] (JObj (normalize_session s)) =
     (case map_of (normalize_session s) (lit ''role'') of Some (JStr r) \<Rightarrow> r | _ \<Rightarrow> [])"
  by (simp add: jstr_or_def jstr_def normalize_session_def Let_def)

text \<open>C7: the token that a registration hands out opens every tool of the agent's role for twelve
  hours: whatever other text the reply carries, a call with that agent id, role and token
  passes the gate on the disk the registration left, provided the lock can be had.\<close>

theorem register_then_tool:
  assumes reg: "agent_register A dir agent_id role model client message ltok d = (Inr ack, d')"
    and tok: "jstr (lit ''sessionToken'') ack = Some tok"
    and libs: "serde_roundtrip A B" "rfc3339_roundtrip A B" "sha256_hex_ok A B" "uuid_hex_ok A"
    and avail: "agents_available B dir"
    and time: "now_ns B - now_ns A \<le> SESSION_TOKEN_WINDOW"
    and role: "normalize_role role = Inr r" "role_allows r tool"
  shows "require_agent_tool B dir agent_id role tool (Some tok) d' = (Inr (trim agent_id, r), d')"
proof -
  let ?a = "trim agent_id"
  obtain st st' tok' s' where a: "normalize_agent_id agent_id = Inr ?a"
    and rs: "register_state A ?a r model client message ltok st = Inr (st', tok')"
    and tk: "jstr (lit ''sessionToken'') ack = (if tok' = [] then None else Some tok')"
    and f: "find_session st' ?a = Some (JObj s')"
    and rd: "read_agents_state B dir d' = (Inr (written_form A st'), d')"
    and fw: "find_session (written_form A st') ?a = Some (JObj (normalize_session s'))"
    by (rule registered_session [OF reg libs(1) avail]) (simp add: role(1))
  have tok': "tok' = tok" "tok' \<noteq> []" using tk tok by (auto split: if_splits)
  have a2: "normalize_agent_id ?a = Inr ?a" using normalize_agent_id_Inr [OF a] by simp
  note R = registered_token [OF rs tok'(2) a2 f]
  have blank: "trim tok \<noteq> []"
    using generated_token_not_blank [OF libs(4)] R(1) tok'(1) by simp
  have st: "status_lc (JObj (normalize_session s')) \<noteq> lit ''launch_pending''"
    by (rule active_not_pending) (simp add: jget_normalize_session R(4))
  have ro: "normalize_role (jstr_or (lit ''role'') [] (JObj (normalize_session s'))) = Inr r"
    unfolding jstr_or_role_normalized coerce_role_normalized R(5)
    using normalize_role_Inr [OF role(1)] by simp
  have tg: "require_session_token B (JObj (normalize_session s')) (Some tok) = Inr ()"
    using libs(2,3) blank time tok'(1)
    by (simp add: require_session_token_def Let_def jstr_or_def jstr_def jget_normalize_session R(2,3)
        hash_session_token_def sha256_hex_ok_def rfc3339_roundtrip_def now_rfc3339_def expired_def)
  have "session_gate B ?a r (Some tool) (Some tok) (written_form A st') = Inr ()"
    using st ro tg role(2) by (simp add: session_gate_def fw)
  then show ?thesis
    by (simp add: require_agent_tool_def a role(1) with_agents_lock_available [OF avail] bindS_def
        liftE_def returnS_def rd)
qed


section \<open>Heartbeats\<close>

lemma set_normalize_sessions: "set (normalize_sessions xs) \<subseteq> set (map (on_object normalize_session) xs)"
  unfolding normalize_sessions_def using set_prune_closed set_prune_over_max by (meson subset_trans)

lemma find_session_normal:
  assumes "find_session (normalize_agents_state A j) b = Some (JObj s)"
  shows "normalize_session s = s"
proof -
  obtain xs where xs: "jarr (lit ''sessions'') (normalize_agents_state A j) = Some xs" "JObj s \<in> set xs"
    using assms by (auto simp: find_session_def split: option.splits dest: find_SomeD)
  then have "JObj s \<in> set (normalize_sessions xs)"
    using normalize_fixed_sessions by simp
  then obtain t where "JObj s = on_object normalize_session t"
    using set_normalize_sessions by fastforce
  then show ?thesis
    by (cases t) (simp_all add: session_normal_fixed normalize_session_normal)
qed

lemma default_state_normal: "default_agents_state A = normalize_agents_state A (default_agents_state A)"
  by (simp add: normalize_default)

lemma read_agents_state_normal:
  "read_agents_state A dir d = (Inr st, d') \<Longrightarrow> \<exists>j. st = normalize_agents_state A j"
  using default_state_normal [of A]
  by (auto simp: read_agents_state_def Let_def split: option.splits if_splits)

lemma find_session_read:
  assumes "read_agents_state A dir d = (Inr st, d')" and "find_session st b = Some t"
  obtains s where "t = JObj s" and "normalize_session s = s"
  using read_agents_state_normal [OF assms(1)] find_session_normal assms(2)
    has_agent_id_object [OF find_session_has_id [OF assms(2)]] by blast

lemma closed_reserved:
  assumes "map_of s (lit ''status'') = Some (JStr cs)" and "to_lower (trim cs) \<notin> set RESERVED_AGENT_STATUSES"
  shows "\<not> is_closed (JObj s)"
proof
  assume "is_closed (JObj s)"
  with assms(1) have cs: "to_lower cs = lit ''closed''"
    by (simp add: is_closed_def jstr_def eq_ignore_case_def) (code_simp)
  have "trim (lit ''closed'') = lit ''closed''" by code_simp
  with cs have "to_lower (trim cs) = lit ''closed''" by (simp flip: trim_to_lower)
  with assms(2) show False by (simp add: RESERVED_AGENT_STATUSES_def)
qed

text \<open>an accepted heartbeat comes from a registered session that passed the token gate in a
  role allowed to beat; afterwards the agent's own entry has a status the app does not reserve
  and the same token hash, issue time and launch fields as before, and every other agent's live
  session is what it was.\<close>

theorem agent_heartbeat_effect:
  assumes hb: "agent_heartbeat A dir agent_id status message tok fp subs d = (Inr ack, d')"
  shows "\<exists>st session r w s. read_agents_state A dir d = (Inr st, d) \<and>
      find_session st (trim agent_id) = Some session \<and>
      normalize_role (jstr_or (lit ''role'') [] session) = Inr r \<and>
      role_allows r (lit ''agent_heartbeat'') \<and>
      is_ok (require_session_token A session tok) \<and>
      files d' (agents_state_path dir) = json_pretty A w \<and>
      find_session w (trim agent_id) = Some (JObj s) \<and>
      status_lc (JObj s) \<notin> set RESERVED_AGENT_STATUSES \<and>
      (\<forall>k \<in> set SECRET_SESSION_KEYS. map_of s k = jget k session) \<and>
      (\<forall>b t. b \<noteq> trim agent_id \<and> find_session st b = Some t \<and> \<not> is_closed t \<longrightarrow> find_session w b = Some t)"
proof -
  let ?a = "trim agent_id"
  from hb obtain a st d1 session r st' w where a: "normalize_agent_id agent_id = Inr a"
    and rd: "read_agents_state A dir d = (Inr st, d1)" and f: "find_session st a = Some session"
    and r: "normalize_role (jstr_or (lit ''role'') [] session) = Inr r"
    and al: "role_allows r (lit ''agent_heartbeat'')"
    and tg: "is_ok (require_session_token A session tok)"
    and up: "upsert_session A a r None (opt_or status (lit ''active'')) message None fp subs None None st = Inr st'"
    and wr: "write_agents_state A dir st' d1 = (Inr w, d')"
    unfolding agent_heartbeat_def is_ok_iff
    by (auto simp: elim_bind split: prod.splits dest!: with_agents_lock_InrD)
  have d1: "d1 = d" using read_agents_state_pure [OF rd] by simp
  have a': "a = ?a" "normalize_agent_id a = Inr a" using normalize_agent_id_Inr [OF a] by blast+
  obtain s0 where s0: "session = JObj s0"
    using find_session_read [OF rd f] by blast
  have base: "base_session A st a = s0"
    using f s0 by (simp add: base_session_def find_session_mut_def)
  obtain s' cs where f': "find_session st' a = Some (JObj s')"
    and fr: "\<And>k. k \<notin> set UPSERT_KEYS \<Longrightarrow> map_of s' k = map_of s0 k"
    and sta: "map_of s' (lit ''status'') = Some (JStr cs)" "to_lower (trim cs) \<notin> set RESERVED_AGENT_STATUSES"
    and oth: "\<And>b. b \<noteq> a \<Longrightarrow> find_session st' b = find_session st b"
  proof (rule upsert_session_spec [OF up])
    fix a' cs s'
    assume *: "normalize_agent_id a = Inr a'" "find_session st' a' = Some (JObj s')"
      "\<And>k. k \<notin> set UPSERT_KEYS \<Longrightarrow> map_of s' k = map_of (base_session A st a') k"
      "map_of s' (lit ''status'') = Some (JStr cs)" "to_lower (trim cs) \<notin> set RESERVED_AGENT_STATUSES"
      "\<And>b. b \<noteq> a' \<Longrightarrow> find_session st' b = find_session st b"
    have "a' = a" using *(1) a'(2) by simp
    with * base show thesis using that [of s' cs] by simp
  qed
  have wf: "w = written_form A st'" and
    fl: "files d' (agents_state_path dir) = json_pretty A w"
    by (rule write_agents_state_InrD [OF wr], simp)+
  have fw: "find_session w a = Some (JObj (normalize_session s'))"
    unfolding wf by (rule find_session_written [OF f' closed_reserved [OF sta]])
  have "status_lc (JObj (normalize_session s')) \<notin> set RESERVED_AGENT_STATUSES"
    using sta by (simp add: status_lc_def jstr_or_def jstr_def jget_normalize_session)
  moreover have "\<forall>k \<in> set SECRET_SESSION_KEYS. map_of (normalize_session s') k = jget k session"
  proof
    fix k assume "k \<in> set SECRET_SESSION_KEYS"
    then have "k \<notin> set UPSERT_KEYS" "k \<notin> {lit ''subagents'', lit ''needsUser'', lit ''role''}"
      by (auto simp: SECRET_SESSION_KEYS_def UPSERT_KEYS_def)
    then show "map_of (normalize_session s') k = jget k session"
      by (simp add: jget_normalize_session fr s0)
  qed
  moreover have "find_session w b = Some t" if "b \<noteq> a" "find_session st b = Some t" "\<not> is_closed t" for b t
  proof -
    note bt = that
    obtain u where u: "t = JObj u" "normalize_session u = u" by (rule find_session_read [OF rd bt(2)])
    have "find_session st' b = Some (JObj u)" using oth bt u by simp
    from find_session_written [OF this, of A] bt(3) u wf show ?thesis by simp
  qed
  ultimately show ?thesis
    using rd f r al tg fl fw a'(1) unfolding d1 by blast
qed

section \<open>The properties at a concrete run\<close>

lemma demo_rfc3339 [simp]: "rfc3339_roundtrip (demo s) (demo t)"
proof -
  have "\<not> ends_with (show_int i) (lit ''Z'')" for i
  proof
    assume "ends_with (show_int i) (lit ''Z'')"
    then have "drop (length (show_int i) - 1) (show_int i) = [90]"
      by (simp add: ends_with_def lit_def)
    then have "last (show_int i) = 90" by (metis last.simps last_drop length_0_conv show_int_nonempty
          diff_less zero_less_one length_greater_0_conv)
    with last_show_int [of i] show False by (simp add: is_digit_def)
  qed
  then show ?thesis
    by (simp add: rfc3339_roundtrip_def demo_def parse_iso_timestamp_def Let_def trim_nonws show_int_not_ws)
qed

lemma demo_sha256 [simp]: "sha256_hex_ok (demo s) (demo t)"
  by (simp add: sha256_hex_ok_def demo_def trim_nonws demo_digest_not_ws) (simp add: demo_digest_def)

lemma demo_uuid_ok [simp]: "uuid_hex_ok (demo s)"
  using demo_uuid_not_ws by (auto simp: uuid_hex_ok_def demo_def) (simp add: demo_uuid_def)

lemma demo_available [simp]: "agents_available (demo s) dir"
proof -
  have "acquire_lock_at (demo s) p = Inr ()" for p
    by (subst acquire_lock_at_Inr_iff) (auto simp: demo_def intro: exI [of _ 0])
  then show ?thesis by (simp add: agents_available_def demo_def)
qed

text \<open>An agents file with one session the app has seeded for a coder.\<close>

definition seeded_state :: json where
  "seeded_state = JObj
     [(lit ''version'', JInt 2), (lit ''updatedAt'', JStr (lit ''0'')),
      (lit ''sessions'', JArr [JObj
         [(lit ''agentId'', JStr (lit ''a1'')), (lit ''role'', JStr (lit ''coder'')),
          (lit ''status'', JStr (lit ''launch_pending'')),
          (lit ''launchTokenHash'', JStr (demo_digest (lit ''tk''))),
          (lit ''launchTokenIssuedAt'', JStr (lit ''5''))]]),
      (lit ''claims'', JArr []), (lit ''events'', JArr [])]"

definition seeded_disk :: disk where
  "seeded_disk = demo_disk [(agents_state_path demo_dir, show_json seeded_state)]"

definition demo_register :: "(tool_error + json) \<times> disk" where
  "demo_register = agent_register (demo 9) demo_dir (lit ''a1'') (lit ''coder'') (Some (lit ''Opus 4''))
     None None (Some (lit ''tk'')) seeded_disk"

lemma demo_register_reply:
  "case fst demo_register of Inl _ \<Rightarrow> False | Inr ack \<Rightarrow> jstr (lit ''sessionToken'') ack = Some (lit ''u0u1'')"
  by code_simp

lemma demo_register_Inr:
  obtains ack where "agent_register (demo 9) demo_dir (lit ''a1'') (lit ''coder'') (Some (lit ''Opus 4''))
      None None (Some (lit ''tk'')) seeded_disk = (Inr ack, snd demo_register)"
    and "jstr (lit ''sessionToken'') ack = Some (lit ''u0u1'')"
  using demo_register_reply unfolding demo_register_def
  by (cases "agent_register (demo 9) demo_dir (lit ''a1'') (lit ''coder'') (Some (lit ''Opus 4''))
      None None (Some (lit ''tk'')) seeded_disk") (auto split: sum.splits)

theorem register_then_tool_witness:
  "require_agent_tool (demo 100) demo_dir (lit ''a1'') (lit ''coder'') (lit ''project_claim_task'')
     (Some (lit ''u0u1'')) (snd demo_register) = (Inr (lit ''a1'', lit ''coder''), snd demo_register)"
proof -
  obtain ack where reg: "agent_register (demo 9) demo_dir (lit ''a1'') (lit ''coder'') (Some (lit ''Opus 4''))
      None None (Some (lit ''tk'')) seeded_disk = (Inr ack, snd demo_register)"
    and tok: "jstr (lit ''sessionToken'') ack = Some (lit ''u0u1'')"
    by (rule demo_register_Inr)
  have t: "now_ns (demo 100) - now_ns (demo 9) \<le> SESSION_TOKEN_WINDOW"
    by (simp add: demo_def SESSION_TOKEN_WINDOW_def)
  have r: "normalize_role (lit ''coder'') = Inr (lit ''coder'')" by code_simp
  have al: "role_allows (lit ''coder'') (lit ''project_claim_task'')" by code_simp
  have a: "trim (lit ''a1'') = lit ''a1''" by code_simp
  show ?thesis
    using register_then_tool [OF reg tok demo_serde demo_rfc3339 demo_sha256 demo_uuid_ok demo_available t r al]
    unfolding a .
qed

lemma seeded_read:
  "read_agents_state (demo 9) demo_dir seeded_disk = (Inr (normalize_agents_state (demo 9) seeded_state), seeded_disk)"
  by (simp add: read_agents_state_def seeded_disk_def demo_disk_def demo_def)


text \<open>A heartbeat on the disk the registration left.\<close>

definition demo_heartbeat :: "(tool_error + json) \<times> disk" where
  "demo_heartbeat = agent_heartbeat (demo 50) demo_dir (lit ''a1'') (Some (lit ''Blocked_on_user''))
     (Some (lit ''which port?'')) (Some (lit ''u0u1'')) None None (snd demo_register)"

theorem agent_heartbeat_effect_witness:
  "\<exists>w s. files (snd demo_heartbeat) (agents_state_path demo_dir) = json_pretty (demo 50) w \<and>
     find_session w (trim (lit ''a1'')) = Some (JObj s) \<and> status_lc (JObj s) \<notin> set RESERVED_AGENT_STATUSES"
proof -
  have "is_ok (fst demo_heartbeat)" by code_simp
  then obtain ack where "agent_heartbeat (demo 50) demo_dir (lit ''a1'') (Some (lit ''Blocked_on_user''))
     (Some (lit ''which port?'')) (Some (lit ''u0u1'')) None None (snd demo_register) = (Inr ack, snd demo_heartbeat)"
    unfolding demo_heartbeat_def is_ok_iff by (metis prod.collapse)
  from agent_heartbeat_effect [OF this] show ?thesis by blast
qed

end
