(* ===== verification/TaskGraph.thy ===== *)
theory TaskGraph
  imports FileStore
begin

text \<open>
  The dependency check of a project's tasks, \<open>validate_task_dependency_dag\<close> of
  \<open>devboule-mcp/src/project_file.rs\<close>: every dependency names another task of the project, no
  task lists one twice, and Kahn's algorithm resolves every task. The initial queue is filled
  from a \<open>HashMap\<close>, whose iteration order is the argument \<open>order\<close>. The in-degrees are \<open>usize\<close>
  and the loop has no bound of its own: a decrement below zero and a loop past its fuel are
  both the value \<open>None\<close>, and the theorems show that neither happens.
\<close>

type_synonym task_deps = "(rstr \<times> rstr list) list"

definition known_ids :: "task_deps \<Rightarrow> rstr set" where
  "known_ids deps_by_id = fst ` set deps_by_id"

fun check_deps :: "rstr set \<Rightarrow> rstr \<Rightarrow> rstr list \<Rightarrow> rstr list \<Rightarrow> tool_error + unit" where
  "check_deps known task_id seen [] = Inr ()"
| "check_deps known task_id seen (dep # deps) =
     (if dep = task_id then Inl (SelfDependency task_id)
      else if dep \<notin> known then Inl (UnknownDependency task_id dep)
      else if dep \<in> set seen then Inl (DuplicateDependency task_id dep)
      else check_deps known task_id (dep # seen) deps)"

fun check_all_deps :: "rstr set \<Rightarrow> task_deps \<Rightarrow> tool_error + unit" where
  "check_all_deps known [] = Inr ()"
| "check_all_deps known ((task_id, deps) # rest) =
     bindE (check_deps known task_id [] deps) (\<lambda>_. check_all_deps known rest)"

definition in_degrees :: "task_deps \<Rightarrow> rstr \<rightharpoonup> nat" where
  "in_degrees deps_by_id = fold (\<lambda>(id, deps) m. m(id \<mapsto> length deps)) deps_by_id Map.empty"

definition dependents :: "task_deps \<Rightarrow> rstr \<Rightarrow> rstr list" where
  "dependents deps_by_id node =
     concat (map (\<lambda>(task_id, deps). map (\<lambda>_. task_id) (filter (\<lambda>d. d = node) deps)) deps_by_id)"

fun release_children :: "rstr list \<Rightarrow> (rstr \<rightharpoonup> nat) \<Rightarrow> rstr list \<Rightarrow> ((rstr \<rightharpoonup> nat) \<times> rstr list) option" where
  "release_children [] deg queue = Some (deg, queue)"
| "release_children (child # children) deg queue =
     (case deg child of
        None \<Rightarrow> release_children children deg queue
      | Some 0 \<Rightarrow> None
      | Some (Suc d) \<Rightarrow> release_children children (deg(child \<mapsto> d)) (if d = 0 then queue @ [child] else queue))"

fun resolve_loop :: "nat \<Rightarrow> task_deps \<Rightarrow> (rstr \<rightharpoonup> nat) \<Rightarrow> rstr list \<Rightarrow> nat \<Rightarrow> nat option" where
  "resolve_loop 0 deps_by_id deg queue resolved = None"
| "resolve_loop (Suc fuel) deps_by_id deg queue resolved =
     (if queue = [] then Some resolved
      else (case release_children (dependents deps_by_id (last queue)) deg (butlast queue) of
              None \<Rightarrow> None
            | Some (deg, queue) \<Rightarrow> resolve_loop fuel deps_by_id deg queue (Suc resolved)))"

definition validate_task_dependency_dag :: "rstr list \<Rightarrow> task_deps \<Rightarrow> tool_error + unit" where
  "validate_task_dependency_dag order deps_by_id =
     bindE (check_all_deps (known_ids deps_by_id) deps_by_id)
     (\<lambda>_. let deg = in_degrees deps_by_id; queue = filter (\<lambda>id. deg id = Some 0) order in
        (case resolve_loop (Suc (length deps_by_id)) deps_by_id deg queue 0 of
           None \<Rightarrow> Inl Panicked
         | Some resolved \<Rightarrow>
             if resolved \<noteq> card (known_ids deps_by_id) then Inl DependencyCycle else Inr ()))"

section \<open>The local checks\<close>

lemma check_deps_Inr_iff:
  "check_deps known t seen ds = Inr u \<longleftrightarrow>
     t \<notin> set ds \<and> set ds \<subseteq> known \<and> distinct ds \<and> set ds \<inter> set seen = {}"
  by (induction ds arbitrary: seen) auto

lemma check_all_deps_Inr_iff:
  "check_all_deps known ts = Inr u \<longleftrightarrow>
     (\<forall>(t, ds) \<in> set ts. t \<notin> set ds \<and> set ds \<subseteq> known \<and> distinct ds)"
  by (induction ts) (auto simp: elim_bind check_deps_Inr_iff)

text \<open>A task list that passes the local checks.\<close>

definition well_linked :: "task_deps \<Rightarrow> bool" where
  "well_linked ts \<longleftrightarrow> distinct (map fst ts) \<and>
     (\<forall>(t, ds) \<in> set ts. t \<notin> set ds \<and> set ds \<subseteq> known_ids ts \<and> distinct ds)"

definition dep_rel :: "task_deps \<Rightarrow> (rstr \<times> rstr) set" where
  "dep_rel ts = {(d, t). \<exists>ds. (t, ds) \<in> set ts \<and> d \<in> set ds}"

definition deps_of :: "task_deps \<Rightarrow> rstr \<Rightarrow> rstr set" where
  "deps_of ts t = {d. (d, t) \<in> dep_rel ts}"

section \<open>Kahn's loop\<close>

lemma in_degrees_eq:
  assumes "distinct (map fst ts)"
  shows "in_degrees ts t = map_option length (map_of ts t)"
proof -
  have "fold (\<lambda>(id, deps) m. m(id \<mapsto> length deps)) ts m t =
      (case map_of ts t of None \<Rightarrow> m t | Some ds \<Rightarrow> Some (length ds))" for m
    using assms
  proof (induction ts arbitrary: m)
    case (Cons p ts)
    obtain i ds where p: "p = (i, ds)" by (cases p)
    from Cons.prems p have "map_of ts i = None" by (simp add: map_of_eq_None_iff)
    with Cons p show ?case by (auto split: option.splits)
  qed simp
  then show ?thesis by (simp add: in_degrees_def split: option.splits)
qed

lemma deps_of_map_of: "distinct (map fst ts) \<Longrightarrow> map_of ts t = Some ds \<Longrightarrow> deps_of ts t = set ds"
  by (auto simp: deps_of_def dep_rel_def map_of_eq_Some_iff dest: map_of_SomeD)
    (metis map_of_is_SomeI option.inject)+

lemma filter_eq_single: "distinct ds \<Longrightarrow> filter (\<lambda>d. d = n) ds = (if n \<in> set ds then [n] else [])"
  by (induction ds) auto

lemma dependents_props:
  assumes "well_linked ts"
  shows "set (dependents ts n) = {t. (n, t) \<in> dep_rel ts}" "distinct (dependents ts n)"
proof -
  show "set (dependents ts n) = {t. (n, t) \<in> dep_rel ts}"
    by (auto simp: dependents_def dep_rel_def)
  have "distinct (dependents us n)" if "distinct (map fst us)" "\<forall>(t, ds) \<in> set us. distinct ds" for us
    using that
  proof (induction us)
    case (Cons p us)
    obtain t ds where p: "p = (t, ds)" by (cases p)
    have "filter (\<lambda>d. d = n) ds = (if n \<in> set ds then [n] else [])"
      using Cons.prems(2) p by (simp add: filter_eq_single)
    moreover have "t \<notin> set (dependents us n)"
      using Cons.prems(1) p by (force simp: dependents_def)
    ultimately show ?case using Cons p by (auto simp: dependents_def)
  qed (simp add: dependents_def)
  with assms show "distinct (dependents ts n)" by (auto simp: well_linked_def)
qed

lemma release_children_eq:
  "distinct cs \<Longrightarrow> (\<And>c. c \<in> set cs \<Longrightarrow> \<exists>k. deg c = Some (Suc k)) \<Longrightarrow>
     release_children cs deg q =
       Some (\<lambda>t. if t \<in> set cs then map_option (\<lambda>x. x - 1) (deg t) else deg t,
             q @ filter (\<lambda>c. deg c = Some 1) cs)"
proof (induction cs arbitrary: deg q)
  case (Cons c cs)
  obtain k where k: "deg c = Some (Suc k)" using Cons.prems(2) [of c] by auto
  let ?deg = "deg(c \<mapsto> k)"
  have r: "release_children cs ?deg q' =
      Some (\<lambda>t. if t \<in> set cs then map_option (\<lambda>x. x - 1) (?deg t) else ?deg t,
            q' @ filter (\<lambda>c. ?deg c = Some 1) cs)" for q'
    using Cons.prems by (intro Cons.IH) (auto simp: fun_upd_def)
  have f: "filter (\<lambda>c. ?deg c = Some 1) cs = filter (\<lambda>c. deg c = Some 1) cs"
    using Cons.prems(1) by (intro filter_cong) auto
  have "release_children (c # cs) deg q = release_children cs ?deg (if k = 0 then q @ [c] else q)"
    by (simp add: k)
  also have "\<dots> = Some (\<lambda>t. if t \<in> set (c # cs) then map_option (\<lambda>x. x - 1) (deg t) else deg t,
      q @ filter (\<lambda>c. deg c = Some 1) (c # cs))"
    unfolding r f using Cons.prems(1) by (auto simp: k intro!: ext)
  finally show ?case .
qed simp

text \<open>The state of the loop after the nodes \<open>P\<close> have been popped, in this order.\<close>

definition loop_inv :: "task_deps \<Rightarrow> (rstr \<rightharpoonup> nat) \<Rightarrow> rstr list \<Rightarrow> rstr list \<Rightarrow> bool" where
  "loop_inv ts deg queue P \<longleftrightarrow>
     distinct P \<and> set P \<subseteq> known_ids ts \<and>
     (\<forall>i < length P. deps_of ts (P ! i) \<subseteq> set (take i P)) \<and>
     (\<forall>t. deg t = (if t \<in> known_ids ts then Some (card (deps_of ts t - set P)) else None)) \<and>
     distinct queue \<and> set queue = {t \<in> known_ids ts. deps_of ts t \<subseteq> set P} - set P"

lemma finite_deps_of: "finite (deps_of ts t)"
proof -
  have "deps_of ts t \<subseteq> (\<Union>(i, ds) \<in> set ts. set ds)" by (auto simp: deps_of_def dep_rel_def)
  then show ?thesis by (rule finite_subset) auto
qed

lemma known_finite [simp]: "finite (known_ids ts)"
  by (simp add: known_ids_def)

lemma dep_rel_known: "well_linked ts \<Longrightarrow> (d, t) \<in> dep_rel ts \<Longrightarrow> d \<in> known_ids ts \<and> t \<in> known_ids ts \<and> d \<noteq> t"
  by (force simp: well_linked_def dep_rel_def known_ids_def)

lemma insert_Diff_step: "x \<in> A \<Longrightarrow> x \<notin> B \<Longrightarrow> A - B = insert x (A - insert x B)"
  by blast

lemma loop_inv_closed:
  assumes "loop_inv ts deg queue P" and "t \<in> set P"
  shows "deps_of ts t \<subseteq> set P"
proof -
  obtain i where "i < length P" "t = P ! i" using assms(2) by (metis in_set_conv_nth)
  then show ?thesis using assms(1) set_take_subset [of i P] by (auto simp: loop_inv_def)
qed

lemma loop_inv_step:
  assumes wl: "well_linked ts" and inv: "loop_inv ts deg queue P" and ne: "queue \<noteq> []"
  obtains deg' queue' where
    "release_children (dependents ts (last queue)) deg (butlast queue) = Some (deg', queue')"
    and "loop_inv ts deg' queue' (P @ [last queue])"
proof -
  let ?n = "last queue" and ?cs = "dependents ts (last queue)"
  note cs = dependents_props [OF wl, of ?n]
  from ne inv have n: "?n \<in> known_ids ts" "deps_of ts ?n \<subseteq> set P" "?n \<notin> set P"
    by (auto simp: loop_inv_def dest: last_in_set)
  have deg: "deg t = (if t \<in> known_ids ts then Some (card (deps_of ts t - set P)) else None)" for t
    using inv by (simp add: loop_inv_def)
  have q: "distinct queue" "set queue = {t \<in> known_ids ts. deps_of ts t \<subseteq> set P} - set P"
    using inv by (simp_all add: loop_inv_def)
  have child: "c \<in> set ?cs \<longleftrightarrow> ?n \<in> deps_of ts c" for c
    by (simp add: cs deps_of_def)
  have childk: "c \<in> known_ids ts" "c \<noteq> ?n" if "c \<in> set ?cs" for c
    using that cs dep_rel_known [OF wl] by auto
  have pos: "card (deps_of ts c - set P) = Suc (card (deps_of ts c - set (P @ [?n])))" if "c \<in> set ?cs" for c
  proof -
    have "?n \<in> deps_of ts c" using that by (simp only: child)
    then have "deps_of ts c - set P = insert ?n (deps_of ts c - insert ?n (set P))"
      using n(3) by (rule insert_Diff_step)
    then have "card (deps_of ts c - set P) = Suc (card (deps_of ts c - insert ?n (set P)))"
      using finite_deps_of [of ts c] by (simp only: card_insert_disjoint finite_Diff Diff_iff insertI1 simp_thms)
    then show ?thesis by simp
  qed
  have rel: "release_children ?cs deg (butlast queue) =
      Some (\<lambda>t. if t \<in> set ?cs then map_option (\<lambda>x. x - 1) (deg t) else deg t,
            butlast queue @ filter (\<lambda>c. deg c = Some 1) ?cs)"
  proof (rule release_children_eq [OF cs(2)])
    fix c assume c: "c \<in> set ?cs"
    have "deg c = Some (card (deps_of ts c - set P))"
      unfolding deg [of c] using childk(1) [OF c] by (rule if_P)
    then show "\<exists>k. deg c = Some (Suc k)" unfolding pos [OF c] by blast
  qed
  let ?q = "butlast queue @ filter (\<lambda>c. deg c = Some 1) ?cs"
  have "loop_inv ts (\<lambda>t. if t \<in> set ?cs then map_option (\<lambda>x. x - 1) (deg t) else deg t) ?q (P @ [?n])"
    unfolding loop_inv_def
  proof (intro conjI)
    show "distinct (P @ [?n])" "set (P @ [?n]) \<subseteq> known_ids ts"
      using inv n by (auto simp: loop_inv_def)
    show "\<forall>i < length (P @ [?n]). deps_of ts ((P @ [?n]) ! i) \<subseteq> set (take i (P @ [?n]))"
      using inv n(2) by (auto simp: loop_inv_def nth_append less_Suc_eq)
    show "\<forall>t. (if t \<in> set ?cs then map_option (\<lambda>x. x - 1) (deg t) else deg t) =
        (if t \<in> known_ids ts then Some (card (deps_of ts t - set (P @ [?n]))) else None)"
    proof
      fix t show "(if t \<in> set ?cs then map_option (\<lambda>x. x - 1) (deg t) else deg t) =
        (if t \<in> known_ids ts then Some (card (deps_of ts t - set (P @ [?n]))) else None)"
      proof (cases "t \<in> set ?cs")
        case False
        then have "?n \<notin> deps_of ts t" by (simp only: child simp_thms)
        then have e: "deps_of ts t - set (P @ [?n]) = deps_of ts t - set P" by auto
        from False show ?thesis unfolding e by (simp add: deg)
      next
        case True
        have "deg t = Some (card (deps_of ts t - set P))"
          using deg [of t] childk(1) [OF True] by (simp only: if_True)
        then have "deg t = Some (Suc (card (deps_of ts t - set (P @ [?n]))))"
          by (simp only: pos [OF True])
        then show ?thesis using True childk(1) [OF True] by (simp del: set_append)
      qed
    qed
    have one: "c \<in> set ?cs \<and> deg c = Some 1 \<longleftrightarrow> c \<in> set ?cs \<and> deps_of ts c \<subseteq> set (P @ [?n])" for c
    proof (cases "c \<in> set ?cs")
      case True
      have "deg c = Some 1 \<longleftrightarrow> card (deps_of ts c - set (P @ [?n])) = 0"
        unfolding deg [of c] if_P [OF childk(1) [OF True]] pos [OF True] by (simp del: set_append)
      also have "\<dots> \<longleftrightarrow> deps_of ts c \<subseteq> set (P @ [?n])"
        using finite_deps_of [of ts c] by (simp only: card_eq_0_iff finite_Diff simp_thms Diff_eq_empty_iff)
      finally show ?thesis by simp
    qed simp
    have dis: "set (butlast queue) \<inter> set ?cs = {}"
    proof -
      have "x \<notin> set ?cs" if "x \<in> set (butlast queue)" for x
        using in_set_butlastD [OF that] q(2) n(3) child [of x] by auto
      then show ?thesis by blast
    qed
    show "distinct ?q" using q(1) cs(2) dis by (auto simp: distinct_butlast)
    have bl: "set (butlast queue) = set queue - {?n}"
      using ne q(1) by (cases queue rule: rev_cases) auto
    have closed: "c \<notin> set P" if "c \<in> set ?cs" for c
      using that child [of c] n(3) loop_inv_closed [OF inv, of c] by auto
    show "set ?q = {t \<in> known_ids ts. deps_of ts t \<subseteq> set (P @ [?n])} - set (P @ [?n])"
    proof (rule set_eqI)
      fix t
      show "t \<in> set ?q \<longleftrightarrow> t \<in> {t \<in> known_ids ts. deps_of ts t \<subseteq> set (P @ [?n])} - set (P @ [?n])"
        using one [of t] bl q(2) childk [of t] closed [of t] child [of t] by (auto simp: subset_insert)
    qed
  qed
  with rel that show thesis by blast
qed

lemma loop_inv_length: "loop_inv ts deg queue P \<Longrightarrow> distinct (map fst ts) \<Longrightarrow> length P \<le> length ts"
  by (metis card_mono distinct_card known_finite known_ids_def length_map loop_inv_def set_map)

lemma resolve_loop_ends:
  assumes wl: "well_linked ts"
  shows "loop_inv ts deg queue P \<Longrightarrow> length ts < fuel + length P \<Longrightarrow>
     \<exists>deg' P'. resolve_loop fuel ts deg queue (length P) = Some (length P') \<and> loop_inv ts deg' [] P'"
proof (induction fuel arbitrary: deg queue P)
  case 0
  then show ?case using loop_inv_length [OF 0(1)] wl by (auto simp: well_linked_def)
next
  case (Suc fuel)
  show ?case
  proof (cases "queue = []")
    case False
    obtain deg' queue' where r: "release_children (dependents ts (last queue)) deg (butlast queue) = Some (deg', queue')"
      and i: "loop_inv ts deg' queue' (P @ [last queue])"
      by (rule loop_inv_step [OF wl Suc.prems(1) False])
    from Suc.IH [OF i] Suc.prems(2) r False show ?thesis by simp
  qed (use Suc.prems in auto)
qed

section \<open>The check is exact\<close>

lemma loop_inv_start:
  assumes "well_linked ts" and "distinct order" and "set order = known_ids ts"
  shows "loop_inv ts (in_degrees ts) (filter (\<lambda>id. in_degrees ts id = Some 0) order) []"
proof -
  have d: "distinct (map fst ts)" using assms(1) by (simp add: well_linked_def)
  have deg: "in_degrees ts t = (if t \<in> known_ids ts then Some (card (deps_of ts t)) else None)" for t
  proof (cases "map_of ts t")
    case None
    then show ?thesis by (simp add: in_degrees_eq [OF d] known_ids_def map_of_eq_None_iff)
  next
    case (Some ds)
    then have "(t, ds) \<in> set ts" by (rule map_of_SomeD)
    then have "distinct ds" "t \<in> known_ids ts" using assms(1) by (auto simp: well_linked_def known_ids_def rev_image_eqI)
    with Some show ?thesis by (simp add: in_degrees_eq [OF d] deps_of_map_of [OF d] distinct_card)
  qed
  have "in_degrees ts t = Some 0 \<longleftrightarrow> t \<in> known_ids ts \<and> deps_of ts t = {}" for t
    using finite_deps_of [of ts t] by (simp add: deg card_eq_0_iff)
  then show ?thesis using assms(2,3) by (auto simp: loop_inv_def deg)
qed

lemma all_resolved_acyclic:
  assumes wl: "well_linked ts" and inv: "loop_inv ts deg [] P"
  shows "set P = known_ids ts \<longleftrightarrow> acyclic (dep_rel ts)"
proof
  assume all: "set P = known_ids ts"
  have "wf (dep_rel ts)"
  proof (rule wfI_min)
    fix x :: rstr and Q assume x: "x \<in> Q"
    show "\<exists>z \<in> Q. \<forall>y. (y, z) \<in> dep_rel ts \<longrightarrow> y \<notin> Q"
    proof (cases "\<exists>i. i < length P \<and> P ! i \<in> Q")
      case True
      define i where "i = (LEAST i. i < length P \<and> P ! i \<in> Q)"
      have i: "i < length P" "P ! i \<in> Q" using LeastI_ex [OF True] by (simp_all add: i_def)
      have "y \<notin> Q" if "(y, P ! i) \<in> dep_rel ts" for y
      proof -
        have "y \<in> set (take i P)" using that inv i(1) by (auto simp: loop_inv_def deps_of_def)
        then obtain j where "j < i" "y = P ! j" by (auto simp: in_set_conv_nth)
        with i(1) show ?thesis using not_less_Least [of j "\<lambda>i. i < length P \<and> P ! i \<in> Q"] by (simp add: i_def)
      qed
      with i(2) show ?thesis by blast
    next
      case False
      have "y \<notin> Q" if "(y, x) \<in> dep_rel ts" for y
        using False dep_rel_known [OF wl that] all by (metis in_set_conv_nth)
      with x show ?thesis by blast
    qed
  qed
  then show "acyclic (dep_rel ts)" by (rule wf_acyclic)
next
  assume ac: "acyclic (dep_rel ts)"
  have "dep_rel ts \<subseteq> known_ids ts \<times> known_ids ts" using dep_rel_known [OF wl] by auto
  then have "finite (dep_rel ts)" by (rule finite_subset) simp
  then have wf: "wf (dep_rel ts)" using ac by (simp add: finite_acyclic_wf)
  show "set P = known_ids ts"
  proof (rule ccontr)
    assume "set P \<noteq> known_ids ts"
    then obtain x where "x \<in> known_ids ts - set P" using inv by (auto simp: loop_inv_def)
    with wf obtain z where z: "z \<in> known_ids ts - set P"
      and min: "\<And>y. (y, z) \<in> dep_rel ts \<Longrightarrow> y \<notin> known_ids ts - set P"
      by (metis wfE_min)
    have "deps_of ts z \<subseteq> set P"
      using min dep_rel_known [OF wl] by (auto simp: deps_of_def)
    with z inv show False by (auto simp: loop_inv_def)
  qed
qed

lemma validate_well_linked:
  assumes wl: "well_linked ts" and order: "distinct order" "set order = known_ids ts"
  shows "validate_task_dependency_dag order ts =
    (if acyclic (dep_rel ts) then Inr () else Inl DependencyCycle)"
proof -
  note start = loop_inv_start [OF wl order]
  obtain deg P where r: "resolve_loop (Suc (length ts)) ts (in_degrees ts)
      (filter (\<lambda>id. in_degrees ts id = Some 0) order) 0 = Some (length P)" and inv: "loop_inv ts deg [] P"
    using resolve_loop_ends [OF wl start, of "Suc (length ts)"] by auto
  have "length P = card (set P)" using inv by (simp add: loop_inv_def distinct_card)
  then have "length P = card (known_ids ts) \<longleftrightarrow> set P = known_ids ts"
    using inv card_subset_eq [OF known_finite, of "set P" ts] by (auto simp: loop_inv_def)
  moreover have "check_all_deps (known_ids ts) ts = Inr ()"
    using wl by (simp add: check_all_deps_Inr_iff well_linked_def)
  ultimately show ?thesis
    using all_resolved_acyclic [OF wl inv] r by (simp add: validate_task_dependency_dag_def Let_def)
qed

lemma validate_locally_bad:
  "check_all_deps (known_ids ts) ts = Inl e \<Longrightarrow> validate_task_dependency_dag order ts = Inl e"
  by (simp add: validate_task_dependency_dag_def)

lemma check_deps_not_panicked: "check_deps known t seen ds \<noteq> Inl Panicked"
  by (induction ds arbitrary: seen) auto

lemma check_all_deps_not_panicked: "check_all_deps known ts \<noteq> Inl Panicked"
proof (induction ts)
  case (Cons p ts)
  obtain t ds where p: "p = (t, ds)" by (cases p)
  show ?case using Cons check_deps_not_panicked [of known t "[]" ds]
    by (cases "check_deps known t [] ds") (simp_all add: p)
qed simp

text \<open>C10: for tasks with distinct ids, the dependency check accepts exactly the acyclic graphs in
  which every dependency names another task of the project and no task lists one twice;
  whatever order the hash map is walked in, it ends and no in-degree drops below zero.\<close>

theorem dependency_check_exact:
  assumes "distinct (map fst ts)" and "distinct order" and "set order = known_ids ts"
  shows "(validate_task_dependency_dag order ts = Inr () \<longleftrightarrow>
      (\<forall>(t, ds) \<in> set ts. t \<notin> set ds \<and> set ds \<subseteq> known_ids ts \<and> distinct ds) \<and> acyclic (dep_rel ts)) \<and>
    validate_task_dependency_dag order ts \<noteq> Inl Panicked"
proof (cases "check_all_deps (known_ids ts) ts")
  case (Inl e)
  then have "\<not> (\<forall>(t, ds) \<in> set ts. t \<notin> set ds \<and> set ds \<subseteq> known_ids ts \<and> distinct ds)"
    using check_all_deps_Inr_iff [of "known_ids ts" ts "()"] by auto
  with validate_locally_bad [OF Inl] Inl check_all_deps_not_panicked show ?thesis by auto
next
  case (Inr u)
  then have local: "\<forall>(t, ds) \<in> set ts. t \<notin> set ds \<and> set ds \<subseteq> known_ids ts \<and> distinct ds"
    by (simp only: check_all_deps_Inr_iff)
  with assms(1) have "well_linked ts" unfolding well_linked_def by blast
  from validate_well_linked [OF this assms(2,3)] local show ?thesis by auto
qed

theorem dependency_check_exact_witness:
  "validate_task_dependency_dag [lit ''T2'', lit ''T1''] [(lit ''T1'', []), (lit ''T2'', [lit ''T1''])] = Inr () \<and>
   validate_task_dependency_dag [lit ''T2'', lit ''T1''] [(lit ''T1'', []), (lit ''T2'', [lit ''T1''])] \<noteq> Inl Panicked"
proof
  let ?ts = "[(lit ''T1'', []), (lit ''T2'', [lit ''T1''])]"
  have hyps: "distinct (map fst ?ts)" "distinct [lit ''T2'', lit ''T1'']" "set [lit ''T2'', lit ''T1''] = known_ids ?ts"
    by (auto simp: known_ids_def)
  note t = dependency_check_exact [OF hyps]
  show "validate_task_dependency_dag [lit ''T2'', lit ''T1''] ?ts \<noteq> Inl Panicked"
    using t by blast
  show "validate_task_dependency_dag [lit ''T2'', lit ''T1''] ?ts = Inr ()"
    by code_simp
qed

end
