(* ===== verification/ProjectFile.thy ===== *)
theory ProjectFile
  imports AgentState TaskGraph Environment
begin

text \<open>
  The project file, \<open>devboule-mcp/src/project_file.rs\<close>: a markdown file with a YAML-like
  frontmatter and one fenced block of JSON that holds the tasks and notes of the board. This
  theory has the normalisers of ids and statuses, the frontmatter as an ordered list of fields,
  its parser and its renderer, the search for the state block and its validation, and the
  read--modify--write of the whole file. Positions in a file are counted in characters, where
  the code counts bytes; they are only used to cut the text at line ends.
\<close>

section \<open>Ids and normalisers\<close>

definition BLOCK_MARKER :: rstr where "BLOCK_MARKER = lit ''```aspis-project''"
definition BLOCK_CLOSE :: rstr where "BLOCK_CLOSE = lit ''```''"

definition VALID_TASK_STATUSES :: "rstr list" where
  "VALID_TASK_STATUSES = [lit ''todo'', lit ''wip'', lit ''review'', lit ''blocked'', lit ''done'']"

definition READABLE_PROJECT_STATUSES :: "rstr list" where
  "READABLE_PROJECT_STATUSES =
     [lit ''active'', lit ''paused'', lit ''done'', lit ''archived'', lit ''draft'']"

definition VALID_TASK_CATEGORIES :: "rstr list" where
  "VALID_TASK_CATEGORIES = [lit ''feature'', lit ''hardening'', lit ''bug'', lit ''other'']"

definition normalize_project_id :: "rstr \<Rightarrow> tool_error + rstr" where
  "normalize_project_id v =
     (let project_id = to_lower (trim v) in
      if 2 \<le> utf8_len project_id \<and> utf8_len project_id \<le> 80 \<and>
         (case project_id of [] \<Rightarrow> False | c # _ \<Rightarrow> is_lower c \<or> is_digit c) \<and>
         list_all (\<lambda>c. is_lower c \<or> is_digit c \<or> c = 45) project_id
      then Inr project_id
      else Inl (ProjectError (lit ''Project id must use lowercase letters, numbers and hyphens.'')))"

definition normalize_task_id :: "rstr \<Rightarrow> tool_error + rstr" where
  "normalize_task_id v =
     (let task_id = trim v in
      if task_id \<noteq> [] \<and> utf8_len task_id \<le> 40 \<and>
         (case task_id of [] \<Rightarrow> False | c # _ \<Rightarrow> is_alpha c) \<and>
         list_all (\<lambda>c. is_alnum c \<or> c = 95 \<or> c = 45) task_id
      then Inr task_id
      else Inl (ProjectError (lit ''Task id is invalid.'')))"

definition normalize_task_status :: "rstr \<Rightarrow> tool_error + rstr" where
  "normalize_task_status v =
     (let status = to_lower (trim v) in
      if status \<notin> set VALID_TASK_STATUSES
      then Inl (ProjectError (lit ''Task status must be todo, wip, review, blocked or done.''))
      else Inr status)"

definition normalize_project_status :: "rstr \<Rightarrow> tool_error + rstr" where
  "normalize_project_status v =
     (let status = to_lower (trim v) in
      if status \<notin> set READABLE_PROJECT_STATUSES
      then Inl (ProjectError (lit ''Project status must be active, paused, done, archived or draft.''))
      else Inr status)"

definition normalize_task_category :: "rstr option \<Rightarrow> tool_error + rstr" where
  "normalize_task_category v =
     (let category = to_lower (trim (case v of None \<Rightarrow> [] | Some s \<Rightarrow> s)) in
      if category = [] then Inr (lit ''other'')
      else if category \<notin> set VALID_TASK_CATEGORIES
      then Inl (ProjectError (lit ''Task category must be one of feature, hardening, bug, other.''))
      else Inr category)"

definition clean_description :: "rstr option \<Rightarrow> rstr option" where
  "clean_description v =
     (let text = trim (case v of None \<Rightarrow> [] | Some s \<Rightarrow> s) in
      if text = [] then None else Some (take 4000 text))"

definition note_id :: "ambient \<Rightarrow> nat \<Rightarrow> rstr" where
  "note_id A n = lit ''N'' @ show_nat (nat (now_ns A)) @ lit ''-'' @ take 8 (uuid_hex A n)"

text \<open>The number of a task id \<open>T<digits>\<close>, when it fits an \<open>i64\<close>.\<close>

definition task_number :: "json \<Rightarrow> int option" where
  "task_number task =
     (case jstr (lit ''id'') task of None \<Rightarrow> None
      | Some tid \<Rightarrow> (case strip_prefix (lit ''T'') tid of None \<Rightarrow> None
        | Some rest \<Rightarrow>
            if rest \<noteq> [] \<and> list_all is_digit rest \<and> int (digits_val rest) \<le> i64_max
            then Some (int (digits_val rest)) else None))"

fun max_task_number :: "int \<Rightarrow> json list \<Rightarrow> int" where
  "max_task_number m [] = m"
| "max_task_number m (task # tasks) =
     max_task_number (case task_number task of None \<Rightarrow> m | Some n \<Rightarrow> max m n) tasks"

text \<open>\<open>max_id + 1\<close> wraps at the top of \<open>i64\<close> (a debug build panics there instead).\<close>

definition next_task_id :: "json list \<Rightarrow> rstr" where
  "next_task_id tasks = lit ''T'' @ show_int (wrap_i64 (max_task_number 0 tasks + 1))"

section \<open>Paths\<close>

definition project_path :: "ambient \<Rightarrow> path \<Rightarrow> rstr \<Rightarrow> disk \<Rightarrow> tool_error + path" where
  "project_path A dir project_id d =
     bindE (normalize_project_id project_id)
     (\<lambda>normalized. ensure_inside_projects A dir (dir @ [normalized @ lit ''.md'']) d)"

definition project_lock_path :: "ambient \<Rightarrow> path \<Rightarrow> rstr \<Rightarrow> disk \<Rightarrow> tool_error + path" where
  "project_lock_path A dir project_id d =
     bindE (project_path A dir project_id d) (\<lambda>p. Inr (with_extension p (lit ''md.lock'')))"

section \<open>Frontmatter\<close>

definition unquote_simple_yaml_value :: "rstr \<Rightarrow> rstr" where
  "unquote_simple_yaml_value v =
     (if 2 \<le> utf8_len v \<and> starts_with v [34] \<and> ends_with v [34]
      then replace2 92 92 [92] (replace2 92 34 [34] (butlast (tl v)))
      else if 2 \<le> utf8_len v \<and> starts_with v [39] \<and> ends_with v [39]
      then replace2 39 39 [39] (butlast (tl v))
      else v)"

definition yaml_quote :: "rstr \<Rightarrow> rstr" where
  "yaml_quote v = [34] @ replace1 34 [92, 34] (replace1 92 [92, 92] v) @ [34]"

text \<open>Ordered fields; keys are looked up, replaced and removed by the first/all matches as in the
  code.\<close>

type_synonym frontmatter = "(rstr \<times> rstr) list"

definition fm_get :: "frontmatter \<Rightarrow> rstr \<Rightarrow> rstr option" where
  "fm_get fm k = map_option snd (List.find (\<lambda>(k', _). k' = k) fm)"

definition fm_set :: "rstr \<Rightarrow> rstr \<Rightarrow> frontmatter \<Rightarrow> frontmatter" where
  "fm_set k v fm =
     (if list_ex (\<lambda>(k', _). k' = k) fm
      then update_first (\<lambda>(k', _). k' = k) (\<lambda>(k', _). (k', v)) fm
      else fm @ [(k, v)])"

definition fm_remove :: "rstr \<Rightarrow> frontmatter \<Rightarrow> frontmatter" where
  "fm_remove k fm = filter (\<lambda>(k', _). k' \<noteq> k) fm"

definition or_else :: "'a option \<Rightarrow> 'a option \<Rightarrow> 'a option" where
  "or_else x y = (case x of None \<Rightarrow> y | Some v \<Rightarrow> Some v)"

definition unwrap_or :: "'a option \<Rightarrow> 'a \<Rightarrow> 'a" where
  "unwrap_or x y = (case x of None \<Rightarrow> y | Some v \<Rightarrow> v)"

definition fm_id :: "frontmatter \<Rightarrow> rstr" where
  "fm_id fm = unwrap_or (fm_get fm (lit ''id'')) []"

definition fm_title :: "frontmatter \<Rightarrow> rstr" where
  "fm_title fm = unwrap_or (fm_get fm (lit ''title'')) (fm_id fm)"

definition fm_status :: "frontmatter \<Rightarrow> rstr" where
  "fm_status fm = unwrap_or (fm_get fm (lit ''status'')) (lit ''active'')"

definition fm_updated_at :: "frontmatter \<Rightarrow> rstr" where
  "fm_updated_at fm =
     unwrap_or (or_else (fm_get fm (lit ''updated_at'')) (fm_get fm (lit ''updatedAt''))) []"

definition fm_root_path :: "frontmatter \<Rightarrow> rstr option" where
  "fm_root_path fm =
     (case or_else (or_else (fm_get fm (lit ''root_path'')) (fm_get fm (lit ''rootPath'')))
        (fm_get fm (lit ''root'')) of
        None \<Rightarrow> None | Some s \<Rightarrow> if s = [] then None else Some s)"

definition fm_censor_trusted :: "frontmatter \<Rightarrow> bool" where
  "fm_censor_trusted fm =
     (case or_else (fm_get fm (lit ''censor_trusted'')) (fm_get fm (lit ''censorTrusted'')) of
        None \<Rightarrow> False | Some v \<Rightarrow> eq_ignore_case (trim v) (lit ''true''))"

section \<open>Parsing and rendering the frontmatter\<close>

text \<open>\<open>split_inclusive\<close> at newlines, and \<open>lines\<close>, which drops the line ends.\<close>

fun split_inclusive :: "rstr \<Rightarrow> rstr \<Rightarrow> rstr list" where
  "split_inclusive cur [] = (if cur = [] then [] else [cur])"
| "split_inclusive cur (c # cs) =
     (if c = 10 then (cur @ [c]) # split_inclusive [] cs else split_inclusive (cur @ [c]) cs)"

definition strip_line_end :: "rstr \<Rightarrow> rstr" where
  "strip_line_end l =
     (if ends_with l [10]
      then (let l = butlast l in if ends_with l [13] then butlast l else l)
      else l)"

definition text_lines :: "rstr \<Rightarrow> rstr list" where
  "text_lines s = map strip_line_end (split_inclusive [] s)"

definition split_once :: "rchar \<Rightarrow> rstr \<Rightarrow> (rstr \<times> rstr) option" where
  "split_once c s =
     (if c \<in> set s then Some (takeWhile (\<lambda>x. x \<noteq> c) s, tl (dropWhile (\<lambda>x. x \<noteq> c) s)) else None)"

fun parse_simple_lines :: "rstr list \<Rightarrow> frontmatter" where
  "parse_simple_lines [] = []"
| "parse_simple_lines (line # ls) =
     (case split_once 58 line of
        None \<Rightarrow> parse_simple_lines ls
      | Some (key, v) \<Rightarrow>
          if trim key = [] then parse_simple_lines ls
          else (trim key, unquote_simple_yaml_value (trim v)) # parse_simple_lines ls)"

definition parse_simple_yaml :: "rstr \<Rightarrow> frontmatter" where
  "parse_simple_yaml raw = parse_simple_lines (text_lines raw)"

definition normalize_updated_at :: "ambient \<Rightarrow> frontmatter \<Rightarrow> frontmatter" where
  "normalize_updated_at A fm =
     (if fm_get fm (lit ''updated_at'') = None \<and> fm_get fm (lit ''updatedAt'') = None
      then fm_set (lit ''updated_at'') (now_rfc3339 A) fm
      else (case fm_get fm (lit ''updatedAt'') of
              None \<Rightarrow> fm
            | Some ua \<Rightarrow> if fm_get fm (lit ''updated_at'') = None
                then fm_remove (lit ''updatedAt'') (fm_set (lit ''updated_at'') ua fm) else fm))"

definition normalize_frontmatter :: "ambient \<Rightarrow> path \<Rightarrow> disk \<Rightarrow> frontmatter \<Rightarrow> tool_error + frontmatter" where
  "normalize_frontmatter A p d fm =
     (let fallback_id = (case file_name p of None \<Rightarrow> lit ''project'' | Some n \<Rightarrow> file_stem n) in
      bindE (normalize_project_id fallback_id) (\<lambda>canonical_id.
      bindE (normalize_project_id (unwrap_or (fm_get fm (lit ''id'')) fallback_id)) (\<lambda>project_id.
      bindE (assertE (\<not> (is_absolute A p \<and> exists_file d p \<and> project_id \<noteq> canonical_id))
        (ProjectError (lit ''Project file has another id than its filename expects.''))) (\<lambda>_.
      let fm = fm_set (lit ''id'') project_id fm in
      bindE (clean_text (unwrap_or (fm_get fm (lit ''title'')) project_id) (lit ''Project title'') 500) (\<lambda>title.
      let fm = fm_set (lit ''title'') title fm in
      bindE (normalize_project_status (unwrap_or (fm_get fm (lit ''status'')) (lit ''active''))) (\<lambda>status.
      Inr (normalize_updated_at A (fm_set (lit ''status'') status fm))))))))"

text \<open>The raw text between the fences of the frontmatter, and where the text after it starts.\<close>

definition frontmatter_span :: "rstr \<Rightarrow> tool_error + rstr \<times> nat" where
  "frontmatter_span content =
     bindE (assertE (starts_with content (lit ''---'')) (ProjectError (lit ''Project file is missing frontmatter.'')))
     (\<lambda>_. bindE (ok_or (find_sub [10] content) (ProjectError (lit ''Project file has malformed frontmatter.'')))
     (\<lambda>first_newline. bindE (ok_or (find_sub ([10] @ lit ''---'') (drop (first_newline + 1) content))
          (ProjectError (lit ''Project file has unterminated frontmatter.'')))
     (\<lambda>close_rel.
        let close = first_newline + 1 + close_rel;
            close_end = (case find_sub [10] (drop (close + 1) content) of
              Some n \<Rightarrow> close + 1 + n + 1 | None \<Rightarrow> length content)
        in Inr (take close_rel (drop (first_newline + 1) content), close_end))))"

definition parse_frontmatter :: "ambient \<Rightarrow> rstr \<Rightarrow> path \<Rightarrow> disk \<Rightarrow> tool_error + frontmatter \<times> nat" where
  "parse_frontmatter A content p d =
     bindE (frontmatter_span content) (\<lambda>(raw, close_end).
     bindE (normalize_frontmatter A p d (parse_simple_yaml raw)) (\<lambda>fm. Inr (fm, close_end)))"

definition yaml_line :: "rstr \<Rightarrow> rstr \<Rightarrow> rstr" where
  "yaml_line k v = k @ lit '': '' @ v @ [10]"

definition KNOWN_EMITTED :: "rstr list" where
  "KNOWN_EMITTED = [lit ''updated_at'', lit ''updatedAt'', lit ''root_path'', lit ''rootPath'', lit ''root'',
     lit ''censor_trusted'', lit ''censorTrusted'']"

text \<open>The second loop of \<open>render_frontmatter\<close>: the fields not emitted yet, each key once.\<close>

fun render_rest :: "rstr set \<Rightarrow> frontmatter \<Rightarrow> rstr" where
  "render_rest emitted [] = []"
| "render_rest emitted ((k, v) # fm) =
     (if k \<in> emitted then render_rest emitted fm
      else yaml_line k (if list_ex is_ws v \<or> 58 \<in> set v \<or> 34 \<in> set v then yaml_quote v else v)
        @ render_rest (insert k emitted) fm)"

definition emit_known :: "rstr \<Rightarrow> frontmatter \<Rightarrow> rstr" where
  "emit_known k fm = (case fm_get fm k of None \<Rightarrow> [] | Some v \<Rightarrow> yaml_line k v)"

definition render_frontmatter :: "frontmatter \<Rightarrow> rstr" where
  "render_frontmatter fm =
     lit ''---'' @ [10] @ emit_known (lit ''id'') fm @ emit_known (lit ''title'') fm
     @ emit_known (lit ''status'') fm
     @ yaml_line (lit ''updated_at'') (fm_updated_at fm)
     @ (case fm_root_path fm of None \<Rightarrow> [] | Some rp \<Rightarrow> yaml_line (lit ''root_path'') (yaml_quote rp))
     @ (if fm_censor_trusted fm then yaml_line (lit ''censor_trusted'') (lit ''true'') else [])
     @ render_rest (set KNOWN_EMITTED \<union>
         {k. k \<in> set [lit ''id'', lit ''title'', lit ''status''] \<and> fm_get fm k \<noteq> None}) fm
     @ lit ''---'' @ [10]"

section \<open>The state block\<close>

fun validate_notes :: "json list \<Rightarrow> tool_error + unit" where
  "validate_notes [] = Inr ()"
| "validate_notes (note # notes) =
     bindE (assertE (as_object note \<noteq> None) (ProjectError (lit ''Project state note is invalid.'')))
     (\<lambda>_. bindE (clean_text (jstr_or (lit ''id'') [] note) (lit ''Note id'') 120)
     (\<lambda>_. bindE (clean_text (jstr_or (lit ''text'') [] note) (lit ''Note text'') 4000)
     (\<lambda>_. bindE (clean_text (jstr_or (lit ''source'') [] note) (lit ''Note source'') 120)
     (\<lambda>_. bindE (clean_text (jstr_or (lit ''createdAt'') [] note) (lit ''Note createdAt'') 80)
     (\<lambda>_. validate_notes notes)))))"

definition is_array_or_absent :: "json option \<Rightarrow> bool" where
  "is_array_or_absent v = (case v of None \<Rightarrow> True | Some j \<Rightarrow> is_jarr j)"

text \<open>One turn of the task loop, given the ids seen so far: the task's id and dependencies.\<close>

definition validate_task :: "rstr set \<Rightarrow> json \<Rightarrow> tool_error + rstr \<times> rstr list" where
  "validate_task task_ids task =
     bindE (ok_or (as_object task) (ProjectError (lit ''Project state task is invalid.''))) (\<lambda>t.
     bindE (normalize_task_id (jstr_or (lit ''id'') [] task)) (\<lambda>task_id.
     bindE (assertE (task_id \<notin> task_ids) (ProjectError (lit ''Duplicate project task id: '' @ task_id))) (\<lambda>_.
     bindE (normalize_task_status (jstr_or (lit ''status'') [] task)) (\<lambda>_.
     bindE (clean_text (jstr_or (lit ''title'') [] task) (lit ''Task title'') 500) (\<lambda>_.
     bindE (clean_text (jstr_or (lit ''updatedAt'') [] task) (lit ''Task updatedAt'') 80) (\<lambda>_.
     bindE (assertE (is_array_or_absent (map_of t (lit ''linkedResources'')))
       (ProjectError (lit ''Project task linkedResources must be a list.''))) (\<lambda>_.
     bindE (ok_or (as_array (unwrap_or (map_of t (lit ''dependsOn'')) (JArr [])))
       (ProjectError (lit ''Project task dependsOn must be a list of task ids.''))) (\<lambda>deps_arr.
     bindE (assertE (list_all is_jstr deps_arr)
       (ProjectError (lit ''Project task dependsOn must be a list of task ids.''))) (\<lambda>_.
     bindE (assertE (case map_of t (lit ''scope'') of None \<Rightarrow> True
         | Some sc \<Rightarrow> (case as_array sc of None \<Rightarrow> False | Some arr \<Rightarrow> list_all is_jstr arr))
       (ProjectError (lit ''Project task scope must be a list of file paths.''))) (\<lambda>_.
     bindE (assertE (case map_of t (lit ''acceptance'') of None \<Rightarrow> True | Some a \<Rightarrow> is_jstr a)
       (ProjectError (lit ''Project task acceptance must be a string.''))) (\<lambda>_.
     bindE (assertE (case map_of t (lit ''planId'') of None \<Rightarrow> True | Some pid \<Rightarrow> is_jnull pid \<or> is_jstr pid)
       (ProjectError (lit ''Project task planId must be a string or null.''))) (\<lambda>_.
     bindE (mapE normalize_task_id (List.map_filter as_str deps_arr)) (\<lambda>deps.
     Inr (task_id, deps))))))))))))))"

fun validate_tasks :: "rstr set \<Rightarrow> json list \<Rightarrow> tool_error + task_deps" where
  "validate_tasks task_ids [] = Inr []"
| "validate_tasks task_ids (task # tasks) =
     bindE (validate_task task_ids task) (\<lambda>(task_id, deps).
     bindE (validate_tasks (insert task_id task_ids) tasks) (\<lambda>rest.
     Inr ((task_id, deps) # rest)))"

definition validate_project_state :: "ambient \<Rightarrow> json \<Rightarrow> tool_error + unit" where
  "validate_project_state A state =
     bindE (assertE (as_object state \<noteq> None) (ProjectError (lit ''Project state must be a JSON object.''))) (\<lambda>_.
     bindE (ok_or (Option.bind (jget (lit ''version'') state) as_i64)
       (ProjectError (lit ''Project state version is required.''))) (\<lambda>version.
     bindE (assertE (\<not> version < 1) (ProjectError (lit ''Project state version is required.''))) (\<lambda>_.
     bindE (ok_or (jarr (lit ''tasks'') state) (ProjectError (lit ''Project state tasks must be a list.''))) (\<lambda>tasks.
     bindE (validate_tasks {} tasks) (\<lambda>deps_by_id.
     bindE (if list_ex (\<lambda>(_, ds). ds \<noteq> []) deps_by_id
            then validate_task_dependency_dag (hash_order A (map fst deps_by_id)) deps_by_id
            else Inr ()) (\<lambda>_.
     bindE (ok_or (jarr (lit ''notes'') state) (ProjectError (lit ''Project state notes must be a list.''))) (\<lambda>notes.
     validate_notes notes)))))))"

fun find_close :: "rstr \<Rightarrow> rstr list \<Rightarrow> (rstr \<times> nat) option" where
  "find_close body [] = None"
| "find_close body (line # ls) =
     (if trim line = BLOCK_CLOSE then Some (body, length body + length line)
      else find_close (body @ line) ls)"

definition empty_project_state :: json where
  "empty_project_state = JObj
     [(lit ''version'', JInt 1), (lit ''tasks'', JArr []), (lit ''notes'', JArr [])]"

definition find_state_block :: "ambient \<Rightarrow> rstr \<Rightarrow> tool_error + json \<times> nat \<times> nat" where
  "find_state_block A content =
     bindE (ok_or (find_sub BLOCK_MARKER content)
       (ProjectError (lit ''Project file is missing ```aspis-project block.''))) (\<lambda>start.
     bindE (ok_or (find_sub [10] (drop start content))
       (ProjectError (lit ''Project state block is malformed.''))) (\<lambda>n.
     let body_start = start + n + 1 in
     bindE (ok_or (find_close [] (split_inclusive [] (drop body_start content)))
       (ProjectError (lit ''Project state block is not closed.''))) (\<lambda>(body, consumed).
     bindE (if trim body = [] then Inr empty_project_state
            else ok_or (json_parse A (trim body)) (ProjectError (lit ''Project state JSON is invalid''))) (\<lambda>state.
     let state = on_object (obj_or_insert (lit ''notes'') (JArr []) \<circ> obj_or_insert (lit ''tasks'') (JArr [])) state in
     bindE (validate_project_state A state) (\<lambda>_.
     Inr (state, start, body_start + consumed))))))"

section \<open>The project document\<close>

record project_doc =
  doc_metadata :: frontmatter
  doc_state :: json
  doc_markdown :: rstr
  doc_revision :: rstr
  doc_path :: path
  doc_modified_at :: rstr
  doc_block_range :: "nat \<times> nat"

definition read_project_file :: "ambient \<Rightarrow> path \<Rightarrow> project_doc io" where
  "read_project_file A p d =
     (case (if read_ok A p then files d p else None) of
        None \<Rightarrow> (Inl (ProjectError (lit ''Could not read project file'')), d)
      | Some content \<Rightarrow>
          (bindE (parse_frontmatter A content p d) (\<lambda>(metadata, _).
           bindE (find_state_block A content) (\<lambda>(state, block_range).
           Inr \<lparr>doc_metadata = metadata, doc_state = state, doc_markdown = content,
             doc_revision = sha256_hex A content, doc_path = p,
             doc_modified_at = (case modified_time A p of Some t \<Rightarrow> fmt_ts A t | None \<Rightarrow> now_rfc3339 A),
             doc_block_range = block_range\<rparr>)), d))"

definition state_block :: "rstr \<Rightarrow> rstr" where
  "state_block state_json = BLOCK_MARKER @ [10] @ state_json @ [10] @ BLOCK_CLOSE @ [10]"

text \<open>The text \<open>write_project_file\<close> writes.\<close>

definition project_content :: "ambient \<Rightarrow> project_doc \<Rightarrow> path \<Rightarrow> disk \<Rightarrow> tool_error + rstr" where
  "project_content A project p d =
     bindE (ok_or (json_pretty A (doc_state project)) (ProjectError (lit ''Could not serialize project state''))) (\<lambda>state_json.
     let (start, end) = doc_block_range project;
         content = take start (doc_markdown project) @ state_block state_json @ drop end (doc_markdown project)
     in bindE (parse_frontmatter A content p d) (\<lambda>(_, fm_end).
        Inr (render_frontmatter (doc_metadata project) @ drop fm_end content)))"

definition write_project_file :: "ambient \<Rightarrow> path \<Rightarrow> project_doc \<Rightarrow> project_doc io" where
  "write_project_file A dir project d =
     bindS (liftE (ensure_inside_projects A dir (doc_path project) d)) (\<lambda>p.
     bindS (liftE (project_content A project p d)) (\<lambda>content.
     bindS (write_text_crash_safe A p content (lit ''project file'')) (\<lambda>_.
     read_project_file A p))) d"

definition load_project_locked :: "ambient \<Rightarrow> path \<Rightarrow> rstr \<Rightarrow> project_doc io" where
  "load_project_locked A dir project_id d =
     bindS (liftE (project_path A dir project_id d)) (\<lambda>p.
     bindS (liftE (assertE (exists_file d p) (ProjectError (lit ''Project not found.'')))) (\<lambda>_.
     bindS (liftE (project_lock_path A dir project_id d)) (\<lambda>lock.
     with_file_lock A lock (\<lambda>d.
       bindS (liftE (assertE (exists_file d p) (ProjectError (lit ''Project not found.'')))) (\<lambda>_.
       read_project_file A p) d)))) d"

section \<open>Summaries\<close>

definition count_task :: "json \<Rightarrow> fields \<Rightarrow> fields" where
  "count_task task counts =
     (case jstr (lit ''status'') task of None \<Rightarrow> counts
      | Some status \<Rightarrow> (case Option.bind (map_of counts status) as_u64 of None \<Rightarrow> counts
        | Some n \<Rightarrow> obj_insert status (JInt (n + 1)) counts))"

definition task_counts :: "json list \<Rightarrow> fields" where
  "task_counts tasks = fold count_task tasks
     [(lit ''todo'', JInt 0), (lit ''wip'', JInt 0), (lit ''review'', JInt 0), (lit ''blocked'', JInt 0),
      (lit ''done'', JInt 0), (lit ''total'', jnat (length tasks))]"

definition tasks_of :: "json \<Rightarrow> json list" where
  "tasks_of state = unwrap_or (jarr (lit ''tasks'') state) []"

definition path_text :: "path \<Rightarrow> rstr" where
  "path_text p = concat (map (\<lambda>c. lit ''/'' @ c) p)"

definition summarize_project :: "project_doc \<Rightarrow> json" where
  "summarize_project project = JObj
     [(lit ''id'', JStr (fm_id (doc_metadata project))),
      (lit ''title'', JStr (fm_title (doc_metadata project))),
      (lit ''status'', JStr (fm_status (doc_metadata project))),
      (lit ''updatedAt'', JStr (fm_updated_at (doc_metadata project))),
      (lit ''rootPath'', jopt_str (fm_root_path (doc_metadata project))),
      (lit ''revision'', JStr (doc_revision project)),
      (lit ''path'', JStr (path_text (doc_path project))),
      (lit ''taskCounts'', JObj (task_counts (tasks_of (doc_state project))))]"

definition PUBLIC_META_SKIP :: "rstr list" where
  "PUBLIC_META_SKIP = [lit ''id'', lit ''title'', lit ''status''] @ KNOWN_EMITTED"

definition public_project :: "project_doc \<Rightarrow> json" where
  "public_project project =
     (let fm = doc_metadata project;
          meta = [(lit ''id'', JStr (fm_id fm)), (lit ''title'', JStr (fm_title fm)),
            (lit ''status'', JStr (fm_status fm)), (lit ''updatedAt'', JStr (fm_updated_at fm)),
            (lit ''rootPath'', jopt_str (fm_root_path fm)), (lit ''censorTrusted'', JBool (fm_censor_trusted fm))];
          meta = fold (\<lambda>(k, v) m. if k \<in> set PUBLIC_META_SKIP then m else obj_or_insert k (JStr v) m) fm meta
      in JObj
        [(lit ''metadata'', JObj meta),
         (lit ''state'', JObj
            [(lit ''version'', unwrap_or (jget (lit ''version'') (doc_state project)) (JInt 1)),
             (lit ''tasks'', unwrap_or (jget (lit ''tasks'') (doc_state project)) (JArr [])),
             (lit ''notes'', unwrap_or (jget (lit ''notes'') (doc_state project)) (JArr []))]),
         (lit ''markdown'', JStr (doc_markdown project)),
         (lit ''revision'', JStr (doc_revision project)),
         (lit ''path'', JStr (path_text (doc_path project))),
         (lit ''modifiedAt'', JStr (doc_modified_at project))])"

section \<open>Quoting round trip\<close>

definition esc :: "rchar \<Rightarrow> rstr" where
  "esc c = (if c = 34 then [92, 34] else if c = 92 then [92, 92] else [c])"

definition esc_backslash :: "rchar \<Rightarrow> rstr" where
  "esc_backslash c = (if c = 92 then [92, 92] else [c])"

lemma esc_simps [simp]:
  "esc 34 = [92, 34]" "esc 92 = [92, 92]" "c \<noteq> 34 \<Longrightarrow> c \<noteq> 92 \<Longrightarrow> esc c = [c]"
  "esc_backslash 92 = [92, 92]" "c \<noteq> 92 \<Longrightarrow> esc_backslash c = [c]"
  by (simp_all add: esc_def esc_backslash_def)

lemma yaml_quote_esc: "yaml_quote v = [34] @ concat (map esc v) @ [34]"
proof -
  have "replace1 34 [92, 34] (replace1 92 [92, 92] v) = concat (map esc v)"
    by (induction v) (auto simp: replace1_def esc_def)
  then show ?thesis by (simp add: yaml_quote_def)
qed

lemma hd_esc: "concat (map esc v) = d # ds \<Longrightarrow> d \<noteq> 34"
  by (cases v) (auto simp: esc_def split: if_splits)

lemma replace2_Cons_nomatch:
  "c \<noteq> a \<or> (\<forall>d ds. cs = d # ds \<longrightarrow> d \<noteq> b) \<Longrightarrow> replace2 a b r (c # cs) = c # replace2 a b r cs"
  by (cases cs) auto

lemma unescape_quotes: "replace2 92 34 [34] (concat (map esc v)) = concat (map esc_backslash v)"
proof (induction v)
  case (Cons c v)
  show ?case
  proof (cases "c = 92")
    case True
    have "replace2 92 34 [34] (92 # concat (map esc v)) = 92 # concat (map esc_backslash v)"
      using hd_esc [of v] Cons by (subst replace2_Cons_nomatch) auto
    with True show ?thesis by simp
  next
    case False
    then show ?thesis using Cons replace2_Cons_nomatch [of c 92 "concat (map esc v)" 34 "[34]"]
      by (cases "c = 34") auto
  qed
qed simp

lemma unescape_backslashes: "replace2 92 92 [92] (concat (map esc_backslash v)) = v"
proof (induction v)
  case (Cons c v)
  then show ?case
    using replace2_Cons_nomatch [of c 92 "concat (map esc_backslash v)" 92 "[92]"]
    by (cases "c = 92") auto
qed simp

lemma unquote_yaml_quote: "unquote_simple_yaml_value (yaml_quote v) = v"
proof -
  have "2 \<le> utf8_len (yaml_quote v)"
    using length_le_utf8_len [of "yaml_quote v"] by (simp add: yaml_quote_esc)
  then show ?thesis
    by (simp add: unquote_simple_yaml_value_def yaml_quote_esc starts_with_def ends_with_def
        butlast_append unescape_quotes unescape_backslashes)
qed

interpretation yaml: text_codec yaml_quote unquote_simple_yaml_value
  by unfold_locales (rule unquote_yaml_quote)

text \<open>whatever the value of a frontmatter field, reading back the quoted form gives the value,
  and two values with the same quoted form are equal.\<close>

theorem yaml_quote_roundtrip:
  "unquote_simple_yaml_value (yaml_quote v) = v \<and> (yaml_quote v = yaml_quote w \<longleftrightarrow> v = w)"
  using yaml.dec_enc yaml.enc_inj by blast

section \<open>The frontmatter is a keyed store\<close>

lemma fm_get_set: "fm_get (fm_set k v fm) k' = (if k' = k then Some v else fm_get fm k')"
proof -
  have u: "map_option snd (List.find (\<lambda>(k', _). k' = q) (update_first (\<lambda>(k', _). k' = k) (\<lambda>(k', _). (k', v)) fm))
      = (if q = k then map_option (\<lambda>_. v) (List.find (\<lambda>(k', _). k' = k) fm)
         else map_option snd (List.find (\<lambda>(k', _). k' = q) fm))" for q
    by (induction fm) auto
  have a: "\<not> list_ex (\<lambda>(k', _). k' = k) fm \<Longrightarrow> List.find (\<lambda>(k', _). k' = k) fm = None"
    by (auto simp: list_ex_iff find_None_iff_ball)
  have b: "list_ex (\<lambda>(k', _). k' = k) fm \<Longrightarrow> \<exists>y. List.find (\<lambda>(k', _). k' = k) fm = Some y"
    by (metis (mono_tags, lifting) find_None_iff_ball list_ex_iff not_Some_eq)
  show ?thesis
  proof (cases "list_ex (\<lambda>(k', _). k' = k) fm")
    case True
    with b obtain y where "List.find (\<lambda>(k', _). k' = k) fm = Some y" by blast
    with True show ?thesis by (simp add: fm_get_def fm_set_def u)
  next
    case False
    with a show ?thesis by (auto simp: fm_get_def fm_set_def find_append split: option.splits)
  qed
qed

lemma fm_get_remove: "fm_get (fm_remove k fm) k' = (if k' = k then None else fm_get fm k')"
  by (induction fm) (auto simp: fm_get_def fm_remove_def)

interpretation fm: key_store fm_get fm_set fm_remove
  by unfold_locales (simp_all add: fm_get_set fm_get_remove)

section \<open>Fresh task ids\<close>

lemma max_task_number_ge:
  "m \<le> max_task_number m ts \<and> (\<forall>t \<in> set ts. \<forall>n. task_number t = Some n \<longrightarrow> n \<le> max_task_number m ts)"
proof (induction ts arbitrary: m)
  case (Cons t ts)
  show ?case
  proof (cases "task_number t")
    case None
    with Cons [of m] show ?thesis by auto
  next
    case (Some n)
    with Cons [of "max m n"] show ?thesis by auto
  qed
qed simp

lemma task_number_shown:
  assumes "jstr (lit ''id'') t = Some (lit ''T'' @ show_nat n)" and "int n \<le> i64_max"
  shows "task_number t = Some (int n)"
proof -
  have "list_all is_digit (show_nat n)" using show_nat_digits [of n] by (simp add: list_all_iff)
  with assms show ?thesis
    by (simp add: task_number_def strip_prefix_def starts_with_def)
qed

lemma wrap_i64_id: "i64_min \<le> i \<Longrightarrow> i \<le> i64_max \<Longrightarrow> wrap_i64 i = i"
  by (simp add: wrap_i64_def i64_min_def i64_max_def)

text \<open>the id given to a new task belongs to no task of the project, as long as the largest
  number in use is below the maximum of a 64-bit integer; at that maximum the counter wraps to
  a negative number.\<close>

theorem next_task_id_fresh:
  "(max_task_number 0 tasks < i64_max \<longrightarrow>
     next_task_id tasks \<notin> {i. \<exists>t \<in> set tasks. jstr (lit ''id'') t = Some i}) \<and>
   (max_task_number 0 tasks = i64_max \<longrightarrow> next_task_id tasks = lit ''T-9223372036854775808'')"
proof (intro conjI impI)
  let ?m = "max_task_number 0 tasks"
  assume lt: "?m < i64_max"
  have m: "0 \<le> ?m" using max_task_number_ge [of 0 tasks] by simp
  have nid: "next_task_id tasks = lit ''T'' @ show_nat (nat (?m + 1))"
    using m lt by (simp add: next_task_id_def wrap_i64_id i64_min_def show_int_def)
  show "next_task_id tasks \<notin> {i. \<exists>t \<in> set tasks. jstr (lit ''id'') t = Some i}"
  proof
    assume "next_task_id tasks \<in> {i. \<exists>t \<in> set tasks. jstr (lit ''id'') t = Some i}"
    then obtain t where t: "t \<in> set tasks" "jstr (lit ''id'') t = Some (lit ''T'' @ show_nat (nat (?m + 1)))"
      by (auto simp: nid)
    then have "task_number t = Some (?m + 1)"
      using task_number_shown [OF t(2)] m lt by simp
    with t(1) show False using max_task_number_ge [of 0 tasks] by fastforce
  qed
next
  assume "max_task_number 0 tasks = i64_max"
  then have "next_task_id tasks = lit ''T'' @ show_int (- 9223372036854775808)"
    by (simp add: next_task_id_def wrap_i64_def i64_max_def)
  also have "\<dots> = lit ''T-9223372036854775808''"
    by (simp add: show_int_def lit_def show_nat.simps)
  finally show "next_task_id tasks = lit ''T-9223372036854775808''" .
qed

theorem next_task_id_fresh_witness:
  "next_task_id [JObj [(lit ''id'', JStr (lit ''T7''))], JObj [(lit ''id'', JStr (lit ''Tx''))]] \<notin> {lit ''T7'', lit ''Tx''}"
proof -
  let ?ts = "[JObj [(lit ''id'', JStr (lit ''T7''))], JObj [(lit ''id'', JStr (lit ''Tx''))]]"
  have "max_task_number 0 ?ts < i64_max" by code_simp
  with next_task_id_fresh [of ?ts]
  have "next_task_id ?ts \<notin> {i. \<exists>t \<in> set ?ts. jstr (lit ''id'') t = Some i}" by blast
  then show ?thesis by (auto simp: jstr_def)
qed

section \<open>What an accepted state is\<close>

definition task_key :: "json \<Rightarrow> rstr" where
  "task_key t = trim (jstr_or (lit ''id'') [] t)"

definition task_dep_ids :: "json \<Rightarrow> rstr list" where
  "task_dep_ids t =
     map trim (List.map_filter as_str (case jarr (lit ''dependsOn'') t of None \<Rightarrow> [] | Some ds \<Rightarrow> ds))"

definition valid_task_id :: "rstr \<Rightarrow> bool" where
  "valid_task_id i \<longleftrightarrow> normalize_task_id i = Inr i"

definition task_graph :: "json list \<Rightarrow> task_deps" where
  "task_graph ts = map (\<lambda>t. (task_key t, task_dep_ids t)) ts"

lemma normalize_task_id_Inr: "normalize_task_id v = Inr i \<Longrightarrow> i = trim v \<and> valid_task_id i"
  by (auto simp: normalize_task_id_def valid_task_id_def Let_def split: if_splits)

lemma mapE_normalize_task_id: "mapE normalize_task_id xs = Inr ys \<Longrightarrow> ys = map trim xs"
  by (induction xs arbitrary: ys) (auto simp: elim_bind dest: normalize_task_id_Inr)

lemma validate_task_Inr:
  assumes "validate_task ids t = Inr (i, ds)"
  shows "i = task_key t \<and> i \<notin> ids \<and> ds = task_dep_ids t \<and> valid_task_id i \<and>
    is_ok (normalize_task_status (jstr_or (lit ''status'') [] t))"
proof -
  from assms obtain kvs arr u where t: "t = JObj kvs" and i: "normalize_task_id (jstr_or (lit ''id'') [] t) = Inr i"
    and n: "i \<notin> ids" and st: "normalize_task_status (jstr_or (lit ''status'') [] t) = Inr u"
    and arr: "unwrap_or (map_of kvs (lit ''dependsOn'')) (JArr []) = JArr arr"
    and ds: "mapE normalize_task_id (List.map_filter as_str arr) = Inr ds"
    unfolding validate_task_def by (auto simp: elim_bind)
  have "task_dep_ids t = map trim (List.map_filter as_str arr)"
    using arr t by (auto simp: task_dep_ids_def jarr_def unwrap_or_def split: option.splits)
  with mapE_normalize_task_id [OF ds] normalize_task_id_Inr [OF i] n st show ?thesis
    by (auto simp: task_key_def is_ok_iff)
qed

lemma validate_tasks_Inr:
  "validate_tasks ids ts = Inr deps \<Longrightarrow> deps = task_graph ts \<and> distinct (map task_key ts) \<and>
     task_key ` set ts \<inter> ids = {} \<and>
     (\<forall>t \<in> set ts. valid_task_id (task_key t) \<and> is_ok (normalize_task_status (jstr_or (lit ''status'') [] t)))"
proof (induction ts arbitrary: ids deps)
  case (Cons t ts)
  from Cons.prems obtain i ds rest where t: "validate_task ids t = Inr (i, ds)"
    and r: "validate_tasks (insert i ids) ts = Inr rest" and d: "deps = (i, ds) # rest"
    by (auto simp: elim_bind)
  from validate_task_Inr [OF t] Cons.IH [OF r] d show ?case
    by (auto simp: task_graph_def)
qed (simp add: task_graph_def)

lemma task_graph_keys: "map fst (task_graph ts) = map task_key ts"
  by (simp add: task_graph_def o_def)

lemma dag_Inr_acyclic:
  assumes "validate_task_dependency_dag order ts = Inr ()" and "distinct (map fst ts)"
    and "distinct order" and "set order = known_ids ts"
  shows "well_linked ts \<and> acyclic (dep_rel ts)"
proof -
  have "\<exists>u. check_all_deps (known_ids ts) ts = Inr u"
    using assms(1) by (auto simp: validate_task_dependency_dag_def elim_bind)
  then have wl: "well_linked ts"
    unfolding check_all_deps_Inr_iff using assms(2) unfolding well_linked_def by blast
  with validate_well_linked [OF wl assms(3,4)] assms(1) show ?thesis
    by (auto split: if_splits)
qed

lemma no_deps_acyclic: "\<not> list_ex (\<lambda>(_, ds). ds \<noteq> []) ts \<Longrightarrow> acyclic (dep_rel ts)"
proof -
  assume "\<not> list_ex (\<lambda>(_, ds). ds \<noteq> []) ts"
  then have "dep_rel ts = {}" by (force simp: dep_rel_def list_ex_iff)
  then show ?thesis by (simp add: wf_acyclic)
qed

text \<open>C9: a project state that is accepted has a task list in which every task has a valid id, no
  two tasks share one, every status is one of the five of the board, every dependency names
  another task of the list, and the dependency graph is acyclic.\<close>

theorem accepted_state_sound:
  assumes "validate_project_state A state = Inr ()" and "walks_keys A"
  shows "\<exists>ts. jarr (lit ''tasks'') state = Some ts \<and> distinct (map task_key ts) \<and>
    (\<forall>t \<in> set ts. valid_task_id (task_key t) \<and>
       to_lower (trim (jstr_or (lit ''status'') [] t)) \<in> set VALID_TASK_STATUSES \<and>
       set (task_dep_ids t) \<subseteq> task_key ` set ts - {task_key t}) \<and>
    acyclic (dep_rel (task_graph ts))"
proof -
  from assms(1) obtain ts deps where ts: "jarr (lit ''tasks'') state = Some ts"
    and v: "validate_tasks {} ts = Inr deps"
    and g: "(if list_ex (\<lambda>(_, ds). ds \<noteq> []) deps
        then validate_task_dependency_dag (hash_order A (map fst deps)) deps else Inr ()) = Inr ()"
    unfolding validate_project_state_def by (auto simp: elim_bind)
  note V = validate_tasks_Inr [OF v]
  have deps: "deps = task_graph ts" and d: "distinct (map fst deps)"
    using V by (simp_all add: task_graph_keys)
  have order: "distinct (hash_order A (map fst deps))" "set (hash_order A (map fst deps)) = known_ids deps"
    using assms(2) by (simp_all add: walks_keys_def known_ids_def)
  have wl: "well_linked deps \<and> acyclic (dep_rel deps)"
  proof (cases "list_ex (\<lambda>(_, ds). ds \<noteq> []) deps")
    case True
    with g show ?thesis by (intro dag_Inr_acyclic [OF _ d order]) simp
  next
    case False
    then have "\<forall>(t, ds) \<in> set deps. ds = []" by (auto simp: list_ex_iff)
    with d no_deps_acyclic [OF False] show ?thesis by (auto simp: well_linked_def)
  qed
  have "set (task_dep_ids t) \<subseteq> task_key ` set ts - {task_key t}" if "t \<in> set ts" for t
  proof -
    have "(task_key t, task_dep_ids t) \<in> set deps" using that by (simp add: deps task_graph_def)
    with wl have "task_key t \<notin> set (task_dep_ids t)" "set (task_dep_ids t) \<subseteq> known_ids deps"
      by (auto simp: well_linked_def)
    moreover have "known_ids deps = task_key ` set ts"
      by (simp add: deps task_graph_def known_ids_def image_image)
    ultimately show ?thesis by blast
  qed
  moreover have "to_lower (trim (jstr_or (lit ''status'') [] t)) \<in> set VALID_TASK_STATUSES" if "t \<in> set ts" for t
    using V that by (auto simp: normalize_task_status_def Let_def is_ok_iff split: if_splits)
  ultimately have "\<forall>t \<in> set ts. valid_task_id (task_key t) \<and>
      to_lower (trim (jstr_or (lit ''status'') [] t)) \<in> set VALID_TASK_STATUSES \<and>
      set (task_dep_ids t) \<subseteq> task_key ` set ts - {task_key t}"
    using V by blast
  with ts V wl show ?thesis by (simp add: deps)
qed

definition demo_task :: "rstr \<Rightarrow> rstr \<Rightarrow> rstr list \<Rightarrow> json" where
  "demo_task i st ds = JObj
     [(lit ''id'', JStr i), (lit ''title'', JStr (lit ''Wire the lock'')), (lit ''status'', JStr st),
      (lit ''updatedAt'', JStr (lit ''3'')), (lit ''dependsOn'', JArr (map JStr ds))]"

definition demo_project_state :: json where
  "demo_project_state = JObj
     [(lit ''version'', JInt 1),
      (lit ''tasks'', JArr [demo_task (lit ''T1'') (lit ''done'') [],
         demo_task (lit ''T2'') (lit ''review'') [lit ''T1''],
         demo_task (lit ''T3'') (lit ''todo'') [lit ''T2'', lit ''T1'']]),
      (lit ''notes'', JArr [])]"

lemma demo_project_state_ok: "validate_project_state (demo t) demo_project_state = Inr ()"
proof -
  have "hash_order (demo t) = remdups" by (simp add: demo_def)
  moreover have "validate_tasks {} (tasks_of demo_project_state) =
      Inr [(lit ''T1'', []), (lit ''T2'', [lit ''T1'']), (lit ''T3'', [lit ''T2'', lit ''T1''])]"
    by code_simp
  moreover have "validate_task_dependency_dag (remdups [lit ''T1'', lit ''T2'', lit ''T3''])
      [(lit ''T1'', []), (lit ''T2'', [lit ''T1'']), (lit ''T3'', [lit ''T2'', lit ''T1''])] = Inr ()"
    by code_simp
  ultimately show ?thesis
    by (simp add: validate_project_state_def demo_project_state_def tasks_of_def jarr_def unwrap_or_def
        i64_max_def)
qed

theorem accepted_state_sound_witness:
  "\<exists>ts. jarr (lit ''tasks'') demo_project_state = Some ts \<and> distinct (map task_key ts) \<and>
     acyclic (dep_rel (task_graph ts))"
  using accepted_state_sound [OF demo_project_state_ok [of 0] demo_walks_keys] by blast

section \<open>Confinement of writes\<close>

lemma ensure_inside_starts:
  "ensure_inside_projects A dir p d = Inr q \<Longrightarrow> \<exists>base. canonical A dir = Some base \<and> path_starts_with q base"
  by (auto simp: ensure_inside_projects_def elim_bind split: if_splits)

lemma sibling_starts_with:
  assumes "path_starts_with q base" and "q \<noteq> base"
  shows "path_starts_with (with_file_name q n) base"
proof -
  have "length base < length q"
    using assms by (metis path_starts_with_def linorder_not_less take_all take_all_iff)
  with assms show ?thesis
    by (auto simp: path_starts_with_def with_file_name_def butlast_conv_take min_def)
qed

lemma sibling_neq: "with_file_name q n = base \<Longrightarrow> path_starts_with q base \<Longrightarrow> q = base"
proof -
  assume e: "with_file_name q n = base" and p: "path_starts_with q base"
  then have "length base = (if q = [] then 1 else length q)" by (auto simp: with_file_name_def)
  with p show ?thesis
    by (metis path_starts_with_def e last_with_file_name(2) take_Nil take_all_iff order_refl)
qed

lemma read_project_file_pure: "read_project_file A p d = (r, d') \<Longrightarrow> d' = d"
  by (auto simp: read_project_file_def split: option.splits)

lemma write_project_file_cases:
  assumes "write_project_file A dir project d = (r, d')"
  obtains (unchanged) "d' = d"
  | (written) p content r1 where "ensure_inside_projects A dir (doc_path project) d = Inr p"
    and "project_content A project p d = Inr content"
    and "write_text_crash_safe A p content (lit ''project file'') d = (r1, d')"
proof (cases "ensure_inside_projects A dir (doc_path project) d")
  case (Inr p)
  show ?thesis
  proof (cases "project_content A project p d")
    case (Inr content)
    obtain r1 d1 where w: "write_text_crash_safe A p content (lit ''project file'') d = (r1, d1)"
      by (cases "write_text_crash_safe A p content (lit ''project file'') d")
    have "d' = d1"
      using assms \<open>ensure_inside_projects A dir (doc_path project) d = Inr p\<close> Inr w
      by (auto simp: write_project_file_def bindS_def liftE_def split: sum.splits dest: read_project_file_pure)
    with w \<open>ensure_inside_projects A dir (doc_path project) d = Inr p\<close> Inr show ?thesis
      using written by blast
  qed (use assms Inr unchanged in \<open>auto simp: write_project_file_def bindS_def liftE_def\<close>)
qed (use assms unchanged in \<open>auto simp: write_project_file_def bindS_def liftE_def\<close>)

text \<open>saving a project, whether it succeeds or fails, changes no file outside the resolved
  projects directory, however the path of the document was built or linked, as long as the path
  does not resolve to that directory itself.\<close>

theorem write_project_file_confined:
  assumes "write_project_file A dir project d = (r, d')" and "canonical A dir = Some base"
    and "ensure_inside_projects A dir (doc_path project) d \<noteq> Inr base"
    and "files d' q \<noteq> files d q"
  shows "path_starts_with q base \<and> q \<noteq> base"
  using assms(1)
proof (cases rule: write_project_file_cases)
  case unchanged
  with assms(4) show ?thesis by simp
next
  case (written p content r1)
  have p: "path_starts_with p base" "p \<noteq> base"
    using ensure_inside_starts [OF written(1)] assms(2,3) written(1) by auto
  have "q \<in> {p, temp_path A p, backup_path A p}"
    using write_text_frame [OF written(3)] assms(4) by blast
  then show ?thesis
    using p sibling_starts_with [OF p] sibling_neq [OF _ p(1)]
    by (auto simp: temp_path_def backup_path_def)
qed

section \<open>A small project in the concrete environment\<close>

definition demo_frontmatter :: frontmatter where
  "demo_frontmatter =
     [(lit ''id'', lit ''proj''), (lit ''title'', lit ''Lock work''), (lit ''status'', lit ''active''),
      (lit ''updated_at'', lit ''3'')]"

text \<open>The file refers to its JSON by the name \<open>P\<close>, which the environment parses to the state.\<close>

definition demo_project_text :: rstr where
  "demo_project_text = render_frontmatter demo_frontmatter @ lit ''# Lock work'' @ [10] @
     state_block (lit ''P'') @ lit ''tail'' @ [10]"

definition demo_project_path :: path where
  "demo_project_path = demo_dir @ [lit ''proj.md'']"

definition demo_project_disk :: disk where
  "demo_project_disk = demo_disk [(demo_project_path, demo_project_text)]"

definition demo_project_env :: ambient where
  "demo_project_env = table_env 5 [(lit ''P'', demo_project_state)]"

definition demo_doc :: project_doc where
  "demo_doc = \<lparr>doc_metadata = fm_set (lit ''title'') (lit ''New'') demo_frontmatter,
     doc_state = demo_project_state, doc_markdown = demo_project_text, doc_revision = [],
     doc_path = demo_project_path, doc_modified_at = [],
     doc_block_range = (75, 98)\<rparr>"

definition demo_save :: "(tool_error + project_doc) \<times> disk" where
  "demo_save = write_project_file demo_project_env demo_dir demo_doc demo_project_disk"

lemma demo_block_range:
  "find_sub BLOCK_MARKER demo_project_text = Some 75 \<and>
   drop 98 demo_project_text = lit ''tail'' @ [10]"
  by code_simp

lemma demo_save_changes:
  "is_ok (fst demo_save) \<and> files (snd demo_save) demo_project_path \<noteq> files demo_project_disk demo_project_path"
  by code_simp

theorem write_project_file_confined_witness:
  "path_starts_with demo_project_path demo_dir \<and> demo_project_path \<noteq> demo_dir"
proof (rule write_project_file_confined)
  show "write_project_file demo_project_env demo_dir demo_doc demo_project_disk = (fst demo_save, snd demo_save)"
    by (simp add: demo_save_def)
  show "canonical demo_project_env demo_dir = Some demo_dir"
    by (simp add: demo_project_env_def table_env_def demo_def)
  show "ensure_inside_projects demo_project_env demo_dir (doc_path demo_doc) demo_project_disk \<noteq> Inr demo_dir"
    by (simp add: ensure_inside_projects_def demo_project_env_def table_env_def demo_def demo_doc_def
        demo_project_disk_def demo_disk_def demo_project_path_def exists_file_def path_starts_with_def)
  show "files (snd demo_save) demo_project_path \<noteq> files demo_project_disk demo_project_path"
    using demo_save_changes by blast
qed

end
