(* ===== verification/Kanban.thy ===== *)
theory Kanban
  imports Lifecycle ProjectFile
begin

text \<open>
  The Kanban tools, \<open>devboule-mcp/src/tools/project.rs\<close>: which claims on a task are alive, who
  may move a task to which status, and the handlers that list, read, claim, update, annotate and
  extend a project. Every handler has the shape of the code: the token gate in a first critical
  section (environment \<open>A\<close>), whatever other processes do to the disk in between (\<open>others\<close>),
  then one critical section under the agents lock (environment \<open>B\<close>) which takes the project's
  file lock inside it.
\<close>

section \<open>Claims\<close>

definition CODER_LIKE_ROLES :: "rstr list" where "CODER_LIKE_ROLES = [lit ''coder'']"

text \<open>Minutes, in nanoseconds.\<close>

definition minutes :: "int \<Rightarrow> int" where "minutes n = n * 60 * 1000000000"
definition CLAIM_LEASE_MINUTES :: int where "CLAIM_LEASE_MINUTES = 45"
definition LEASELESS_CLAIM_WINDOW_MINUTES :: int where "LEASELESS_CLAIM_WINDOW_MINUTES = 15"

definition is_coder_like :: "rstr \<Rightarrow> bool" where
  "is_coder_like role \<longleftrightarrow> role \<in> set CODER_LIKE_ROLES"

definition claim_is_active :: "ambient \<Rightarrow> json \<Rightarrow> bool" where
  "claim_is_active A claim =
     (if jstr_or (lit ''status'') [] claim \<in> set [lit ''done'', lit ''review'', lit ''blocked''] then False
      else (case parse_iso_timestamp A (jstr (lit ''leaseUntil'') claim) of
        Some lease \<Rightarrow> lease > now_ns A
      | None \<Rightarrow>
          (case parse_iso_timestamp A
              (Option.bind (or_else (jget (lit ''updatedAt'') claim) (jget (lit ''claimedAt'') claim)) as_str) of
             Some ts \<Rightarrow> now_ns A - ts \<le> minutes LEASELESS_CLAIM_WINDOW_MINUTES
           | None \<Rightarrow> False)))"

definition claim_for :: "rstr \<Rightarrow> rstr \<Rightarrow> json \<Rightarrow> bool" where
  "claim_for project_id task_id claim \<longleftrightarrow>
     jstr (lit ''projectId'') claim = Some project_id \<and> jstr (lit ''taskId'') claim = Some task_id"

definition active_claim_for_task :: "ambient \<Rightarrow> json \<Rightarrow> rstr \<Rightarrow> rstr \<Rightarrow> json option" where
  "active_claim_for_task A state project_id task_id =
     Option.bind (jarr (lit ''claims'') state)
       (List.find (\<lambda>claim. claim_for project_id task_id claim \<and> claim_is_active A claim))"

definition claimed_message :: "rstr \<Rightarrow> json \<Rightarrow> rstr" where
  "claimed_message lead claim =
     lead @ jstr_or (lit ''agentId'') (lit ''?'') claim @ lit '' until ''
     @ jstr_or (lit ''leaseUntil'') (lit ''?'') claim @ lit ''.''"

definition renew_claim :: "ambient \<Rightarrow> fields \<Rightarrow> fields" where
  "renew_claim A obj =
     (let obj = obj_insert (lit ''status'') (JStr (lit ''wip'')) obj;
          obj = obj_insert (lit ''updatedAt'') (JStr (now_rfc3339 A)) obj;
          obj = obj_insert (lit ''leaseUntil'')
                  (JStr (fmt_ts A (now_ns A + minutes CLAIM_LEASE_MINUTES))) obj
      in if obj_has (lit ''claimedAt'') obj
         then obj_insert (lit ''claimedAt'') (JStr (now_rfc3339 A)) obj else obj)"

text \<open>The loop that lets the owner of an inactive claim reopen a task: the claims after it, when
  a claim was renewed.\<close>

fun reopen_loop :: "ambient \<Rightarrow> rstr \<Rightarrow> rstr \<Rightarrow> rstr \<Rightarrow> rstr \<Rightarrow> json list \<Rightarrow> tool_error + json list option" where
  "reopen_loop A agent_id role project_id task_id [] = Inr None"
| "reopen_loop A agent_id role project_id task_id (claim # claims) =
     (let skip = bindE (reopen_loop A agent_id role project_id task_id claims)
                   (\<lambda>r. Inr (map_option (Cons claim) r)) in
      if \<not> (claim_for project_id task_id claim \<and> jstr (lit ''agentId'') claim = Some agent_id \<and>
             jstr (lit ''status'') claim \<noteq> Some (lit ''done''))
      then skip
      else bindE (normalize_role (jstr_or (lit ''role'') [] claim))
        (\<lambda>claim_role. if claim_role \<noteq> role then skip
           else Inr (Some (on_object (renew_claim A) claim # claims))))"

definition require_claim_for_status_update
    :: "ambient \<Rightarrow> json \<Rightarrow> rstr \<Rightarrow> rstr \<Rightarrow> rstr \<Rightarrow> rstr \<Rightarrow> rstr \<Rightarrow> tool_error + json" where
  "require_claim_for_status_update A state agent_id role project_id task_id target_status =
     (case active_claim_for_task A state project_id task_id of
        Some claim \<Rightarrow>
          if jstr (lit ''agentId'') claim \<noteq> Some agent_id
          then Inl (ProjectError (claimed_message (lit ''Task is claimed by '') claim))
          else bindE (normalize_role (jstr_or (lit ''role'') [] claim))
            (\<lambda>claim_role. if claim_role \<noteq> role
               then Inl (ProjectError (lit ''Claim role does not match the registered agent role.''))
               else Inr state)
      | None \<Rightarrow>
          bindE (if target_status = lit ''todo''
                 then (case jarr (lit ''claims'') state of
                         None \<Rightarrow> Inr None
                       | Some claims \<Rightarrow> reopen_loop A agent_id role project_id task_id claims)
                 else Inr None)
          (\<lambda>r. case r of
             Some claims \<Rightarrow> Inr (on_array (lit ''claims'') (\<lambda>_. claims) state)
           | None \<Rightarrow> Inl (ProjectError (lit ''Agent must claim the task before updating status.''))))"

section \<open>Transitions\<close>

text \<open>The double nearest to 0.70.\<close>

definition f64_0_70 :: f64 where "f64_0_70 = Fin (3152519739159347 / 4503599627370496)"

definition validate_transition :: "rstr \<Rightarrow> rstr \<Rightarrow> rstr \<Rightarrow> f64 \<Rightarrow> rstr option \<Rightarrow> tool_error + unit" where
  "validate_transition role status evidence confidence current_status =
     (if current_status = Some (lit ''done'')
      then Inl (ProjectError (lit ''Done tasks cannot be changed through project_update_status.''))
      else if is_coder_like role \<and> status \<notin> set [lit ''todo'', lit ''wip'', lit ''review'', lit ''blocked'']
      then Inl (ProjectError (lit ''Coder can only set todo, wip, review or blocked.''))
      else if role = lit ''verifier'' \<and> status \<notin> set [lit ''done'', lit ''blocked'']
      then Inl (ProjectError (lit ''Verifier can only set done or blocked.''))
      else if status \<in> set [lit ''review'', lit ''blocked''] \<and> length (trim evidence) < 12
      then Inl (ProjectError ((case status of [] \<Rightarrow> lit ''?'' | c # _ \<Rightarrow> [upper_char c]) @ tl status
                  @ lit '' requires concrete evidence.''))
      else if status = lit ''done'' then
        (if role \<noteq> lit ''verifier'' then Inl (ProjectError (lit ''Only verifier agents can set done.''))
         else if length (trim evidence) < 12 then Inl (ProjectError (lit ''Done requires concrete evidence.''))
         else if f64_lt confidence f64_0_70 then Inl (ProjectError (lit ''Done requires confidence >= 0.70.''))
         else if current_status \<noteq> Some (lit ''review'')
         then Inl (ProjectError (lit ''Done requires the task to be in review first.''))
         else Inr ())
      else Inr ())"

section \<open>Edits of the project document\<close>

definition is_task :: "rstr \<Rightarrow> json \<Rightarrow> bool" where
  "is_task task_id t \<longleftrightarrow> jstr (lit ''id'') t = Some task_id"

definition find_task :: "rstr \<Rightarrow> json \<Rightarrow> tool_error + json" where
  "find_task task_id state =
     bindE (ok_or (jarr (lit ''tasks'') state) (ProjectError (lit ''Project state tasks must be a list.'')))
     (\<lambda>tasks. ok_or (List.find (is_task task_id) tasks) (ProjectError (lit ''Task not found.'')))"

definition set_task_status :: "ambient \<Rightarrow> rstr \<Rightarrow> rstr \<Rightarrow> json \<Rightarrow> json" where
  "set_task_status A task_id status =
     on_array (lit ''tasks'') (update_first (is_task task_id) (on_object (\<lambda>obj.
       obj_insert (lit ''updatedAt'') (JStr (now_rfc3339 A)) (obj_insert (lit ''status'') (JStr status) obj))))"

definition push_note :: "ambient \<Rightarrow> rstr \<Rightarrow> rstr \<Rightarrow> json \<Rightarrow> json" where
  "push_note A agent_id note_text =
     on_array (lit ''notes'') (\<lambda>notes. notes @ [JObj
       [(lit ''id'', JStr (note_id A 4)),
        (lit ''text'', JStr note_text),
        (lit ''source'', JStr (lit ''agent:'' @ agent_id)),
        (lit ''createdAt'', JStr (now_rfc3339 A))]])"

text \<open>\<open>project_lock_path\<close>, \<open>project_path\<close>, the file lock, and the read of an existing file.\<close>

definition with_project :: "ambient \<Rightarrow> path \<Rightarrow> rstr \<Rightarrow> (project_doc \<Rightarrow> 'a io) \<Rightarrow> 'a io" where
  "with_project A dir project_id f d =
     bindS (liftE (project_lock_path A dir project_id d)) (\<lambda>lock.
     bindS (liftE (project_path A dir project_id d)) (\<lambda>p.
     with_file_lock A lock (\<lambda>d.
       bindS (liftE (assertE (exists_file d p) (ProjectError (lit ''Project not found.'')))) (\<lambda>_.
       bindS (read_project_file A p) f) d))) d"

definition other_processes :: "(disk \<Rightarrow> disk) \<Rightarrow> unit io" where
  "other_processes others d = (Inr (), others d)"

definition audit_agent_read :: "ambient \<Rightarrow> path \<Rightarrow> rstr \<Rightarrow> rstr \<Rightarrow> rstr \<Rightarrow> rstr \<Rightarrow> rstr option \<Rightarrow> rstr option \<Rightarrow> unit io" where
  "audit_agent_read A dir agent_id role event_type message project_id task_id =
     with_agents_lock A dir
       (bindS (read_agents_state A dir) (\<lambda>state.
        bindS (liftE (upsert_session A agent_id role None event_type (Some message) None None None
          project_id task_id state)) (\<lambda>state.
        bindS (liftE (add_event A 2 agent_id role event_type message project_id task_id None None state)) (\<lambda>state.
        bindS (write_agents_state A dir state) (\<lambda>_. returnS ())))))"

section \<open>Reading tools\<close>

definition file_extension :: "rstr \<Rightarrow> rstr option" where
  "file_extension n =
     (let r = rev n; ext = takeWhile (\<lambda>c. c \<noteq> 46) r; rest = dropWhile (\<lambda>c. c \<noteq> 46) r in
      if rest = [] \<or> tl rest = [] then None else Some (rev ext))"

definition error_entry :: "(tool_error \<Rightarrow> rstr) \<Rightarrow> path \<Rightarrow> tool_error \<Rightarrow> json" where
  "error_entry message_of p e = JObj
     [(lit ''id'', JStr (case file_name p of None \<Rightarrow> [] | Some n \<Rightarrow> file_stem n)),
      (lit ''path'', JStr (path_text p)),
      (lit ''error'', JStr (message_of e))]"

text \<open>One directory entry: nothing for a file that is no \<open>.md\<close>, a summary, or an error entry; an
  unreadable project never fails the listing.\<close>

definition list_entry :: "ambient \<Rightarrow> (tool_error \<Rightarrow> rstr) \<Rightarrow> path \<Rightarrow> path \<Rightarrow> disk \<Rightarrow> json option" where
  "list_entry A message_of dir p d =
     (if Option.bind (file_name p) file_extension \<noteq> Some (lit ''md'') then None
      else (case ensure_inside_projects A dir p d of
        Inl e \<Rightarrow> Some (error_entry message_of p e)
      | Inr p \<Rightarrow>
          (case fst (with_file_lock A (with_extension p (lit ''md.lock'')) (read_project_file A p) d) of
             Inr doc \<Rightarrow> Some (summarize_project doc)
           | Inl e \<Rightarrow> Some (error_entry message_of p e))))"

definition list_key :: "json \<Rightarrow> rstr list" where
  "list_key j = [jstr_or (lit ''updatedAt'') [] j, jstr_or (lit ''title'') [] j]"

text \<open>A stable sort, latest first.\<close>

definition sort_projects :: "json list \<Rightarrow> json list" where
  "sort_projects ps = rev (sort_key list_key (rev ps))"

definition project_list :: "ambient \<Rightarrow> ambient \<Rightarrow> (disk \<Rightarrow> disk) \<Rightarrow> (tool_error \<Rightarrow> rstr) \<Rightarrow> path \<Rightarrow> rstr \<Rightarrow> rstr
    \<Rightarrow> rstr option \<Rightarrow> json io" where
  "project_list A B others message_of dir agent_id role session_token =
     bindS (require_agent_tool A dir agent_id role (lit ''project_list'') session_token) (\<lambda>(agent_id, role).
     bindS (other_processes others) (\<lambda>_.
     bindS (\<lambda>d. (if is_dir B dir
         then (case read_dir B dir of
                 None \<Rightarrow> Inl (ProjectError (lit ''Could not list projects''))
               | Some entries \<Rightarrow> Inr (List.map_filter (\<lambda>p. list_entry B message_of dir p d) entries))
         else Inr [], d)) (\<lambda>projects.
     bindS (audit_agent_read B dir agent_id role (lit ''project_read'')
       (lit ''Listed '' @ show_nat (length projects) @ lit '' projects.'') None None) (\<lambda>_.
     returnS (JObj [(lit ''projectsDir'', JStr (path_text dir)),
                    (lit ''projects'', JArr (sort_projects projects))])))))"

definition project_get :: "ambient \<Rightarrow> ambient \<Rightarrow> (disk \<Rightarrow> disk) \<Rightarrow> path \<Rightarrow> rstr \<Rightarrow> rstr \<Rightarrow> rstr
    \<Rightarrow> rstr option \<Rightarrow> json io" where
  "project_get A B others dir project_id agent_id role session_token =
     bindS (require_agent_tool A dir agent_id role (lit ''project_get'') session_token) (\<lambda>(agent_id, role).
     bindS (other_processes others) (\<lambda>_.
     bindS (load_project_locked B dir project_id) (\<lambda>project.
     let pid = fm_id (doc_metadata project) in
     bindS (audit_agent_read B dir agent_id role (lit ''project_read'')
       (lit ''Read project '' @ pid @ lit ''.'') (Some pid) None) (\<lambda>_.
     returnS (public_project project)))))"

definition claimed_by_others :: "ambient \<Rightarrow> json \<Rightarrow> rstr \<Rightarrow> rstr \<Rightarrow> rstr list" where
  "claimed_by_others A state pid agent_id =
     (case jarr (lit ''claims'') state of None \<Rightarrow> []
      | Some claims \<Rightarrow> List.map_filter (jstr (lit ''taskId''))
          (filter (\<lambda>claim. jstr (lit ''projectId'') claim = Some pid \<and>
             jstr (lit ''agentId'') claim \<noteq> Some agent_id \<and> claim_is_active A claim) claims))"

definition preferred_statuses :: "rstr \<Rightarrow> rstr list" where
  "preferred_statuses role =
     (if role = lit ''verifier'' then [lit ''review'', lit ''blocked'']
      else [lit ''todo'', lit ''wip'', lit ''blocked''])"

text \<open>The two nested loops of \<open>project_next_task\<close>: the first task of the most preferred status
  that nobody else holds.\<close>

fun pick_task :: "rstr list \<Rightarrow> rstr list \<Rightarrow> json list \<Rightarrow> json option" where
  "pick_task claimed [] tasks = None"
| "pick_task claimed (status # statuses) tasks =
     (case List.find (\<lambda>task. jstr_or (lit ''id'') [] task \<notin> set claimed \<and>
        jstr (lit ''status'') task = Some status) tasks of
        Some task \<Rightarrow> Some task
      | None \<Rightarrow> pick_task claimed statuses tasks)"

definition project_next_task :: "ambient \<Rightarrow> ambient \<Rightarrow> (disk \<Rightarrow> disk) \<Rightarrow> path \<Rightarrow> rstr \<Rightarrow> rstr \<Rightarrow> rstr
    \<Rightarrow> rstr option \<Rightarrow> json io" where
  "project_next_task A B others dir project_id agent_id role session_token =
     bindS (require_agent_tool A dir agent_id role (lit ''project_next_task'') session_token) (\<lambda>(agent_id, role).
     bindS (other_processes others) (\<lambda>_.
     bindS (load_project_locked B dir project_id) (\<lambda>project.
     let pid = fm_id (doc_metadata project) in
     bindS (with_agents_lock B dir (bindS (read_agents_state B dir)
       (\<lambda>state. returnS (claimed_by_others B state pid agent_id)))) (\<lambda>claimed.
     (case pick_task claimed (preferred_statuses role) (tasks_of (doc_state project)) of
        Some task \<Rightarrow>
          let tid = jstr_or (lit ''id'') [] task in
          bindS (audit_agent_read B dir agent_id role (lit ''project_next'')
            (lit ''Selected next task '' @ tid @ lit ''.'') (Some pid) (Some tid)) (\<lambda>_.
          returnS (JObj [(lit ''project'', summarize_project project), (lit ''task'', task)]))
      | None \<Rightarrow>
          bindS (audit_agent_read B dir agent_id role (lit ''project_next'')
            (lit ''No next task available.'') (Some pid) None) (\<lambda>_.
          returnS (JObj [(lit ''project'', summarize_project project), (lit ''task'', JNull)])))))))"

section \<open>Claiming a task\<close>

definition claim_note :: "rstr \<Rightarrow> rstr \<Rightarrow> rstr \<Rightarrow> rstr" where
  "claim_note agent_id role task_id =
     agent_id @ lit '' ('' @ role @ lit '') claimed '' @ task_id @ lit '' and moved it to wip.''"

text \<open>The checks under the project lock, and whether the task is moved to wip.\<close>

definition claim_check :: "rstr \<Rightarrow> rstr \<Rightarrow> project_doc \<Rightarrow> tool_error + bool" where
  "claim_check role task_id project =
     bindE (assertE (fm_status (doc_metadata project) \<notin> set [lit ''draft'', lit ''paused'', lit ''archived'', lit ''done''])
       (ProjectError (lit ''Cannot claim tasks on draft, paused, done or archived projects.''))) (\<lambda>_.
     bindE (find_task task_id (doc_state project)) (\<lambda>task.
     let task_status = jstr_or (lit ''status'') [] task in
     bindE (assertE (task_status \<noteq> lit ''done'') (ProjectError (lit ''Done tasks cannot be claimed.''))) (\<lambda>_.
     bindE (assertE (\<not> (role = lit ''verifier'' \<and> task_status \<notin> set [lit ''review'', lit ''blocked'']))
       (ProjectError (lit ''Verifier agents can only claim review or blocked tasks.''))) (\<lambda>_.
     bindE (assertE (\<not> (is_coder_like role \<and> task_status \<notin> set [lit ''todo'', lit ''wip'', lit ''blocked'']))
       (ProjectError (lit ''Coder agents can only claim todo, wip or blocked tasks.''))) (\<lambda>_.
     Inr (is_coder_like role \<and> task_status = lit ''todo''))))))"

definition claim_edit :: "ambient \<Rightarrow> rstr \<Rightarrow> rstr \<Rightarrow> rstr \<Rightarrow> project_doc \<Rightarrow> project_doc" where
  "claim_edit A agent_id role task_id project =
     project\<lparr>doc_state := push_note A agent_id (claim_note agent_id role task_id)
               (set_task_status A task_id (lit ''wip'') (doc_state project)),
       doc_metadata := fm_set (lit ''updated_at'') (now_rfc3339 A)
         (fm_set (lit ''updatedAt'') (now_rfc3339 A)
         (fm_set (lit ''status'') (lit ''active'') (doc_metadata project)))\<rparr>"

text \<open>What the project section returns: the task's status and title, the project's title, the
  status and the lease of the claim.\<close>

record claim_result =
  claim_task_status :: rstr
  claim_task_title :: rstr
  claim_project_title :: rstr
  claim_status :: rstr
  claim_lease :: rstr

definition claim_result_of :: "ambient \<Rightarrow> rstr \<Rightarrow> rstr \<Rightarrow> project_doc \<Rightarrow> tool_error + claim_result" where
  "claim_result_of A role task_id project =
     bindE (ok_or (Option.bind (jarr (lit ''tasks'') (doc_state project)) (List.find (is_task task_id)))
       (ProjectError (lit ''Task not found.''))) (\<lambda>task_after.
     let task_status_after = jstr_or (lit ''status'') [] task_after in
     Inr \<lparr>claim_task_status = task_status_after,
       claim_task_title = jstr_or (lit ''title'') [] task_after,
       claim_project_title = fm_title (doc_metadata project),
       claim_status = (if is_coder_like role \<and> task_status_after = lit ''wip'' then lit ''wip'' else lit ''claimed''),
       claim_lease = fmt_ts A (now_ns A + minutes CLAIM_LEASE_MINUTES)\<rparr>)"

definition claim_section :: "ambient \<Rightarrow> path \<Rightarrow> rstr \<Rightarrow> rstr \<Rightarrow> rstr \<Rightarrow> project_doc \<Rightarrow> claim_result io" where
  "claim_section A dir agent_id role task_id project =
     bindS (liftE (claim_check role task_id project)) (\<lambda>moves.
     bindS (if moves then write_project_file A dir (claim_edit A agent_id role task_id project)
            else returnS project) (\<lambda>project.
     liftE (claim_result_of A role task_id project)))"

definition claim_row :: "ambient \<Rightarrow> rstr \<Rightarrow> rstr \<Rightarrow> rstr \<Rightarrow> rstr \<Rightarrow> claim_result \<Rightarrow> json" where
  "claim_row A project_id task_id agent_id role r = JObj
     [(lit ''projectId'', JStr project_id),
      (lit ''projectTitle'', JStr (claim_project_title r)),
      (lit ''taskId'', JStr task_id),
      (lit ''taskTitle'', JStr (claim_task_title r)),
      (lit ''agentId'', JStr agent_id),
      (lit ''role'', JStr role),
      (lit ''status'', JStr (claim_status r)),
      (lit ''claimedAt'', JStr (now_rfc3339 A)),
      (lit ''updatedAt'', JStr (now_rfc3339 A)),
      (lit ''leaseUntil'', JStr (claim_lease r))]"

definition replace_claim :: "rstr \<Rightarrow> rstr \<Rightarrow> json \<Rightarrow> json \<Rightarrow> json" where
  "replace_claim project_id task_id row =
     on_array (lit ''claims'') (\<lambda>claims. filter (\<lambda>item. \<not> claim_for project_id task_id item) claims @ [row])"

text \<open>The changes to the agents document after the project section.\<close>

definition claim_state :: "ambient \<Rightarrow> rstr \<Rightarrow> rstr \<Rightarrow> rstr \<Rightarrow> rstr \<Rightarrow> claim_result \<Rightarrow> json \<Rightarrow> tool_error + json" where
  "claim_state A project_id task_id agent_id role r state =
     (let state = replace_claim project_id task_id (claim_row A project_id task_id agent_id role r) state in
      bindE (upsert_session A agent_id role None (claim_status r) None None None None
        (Some project_id) (Some task_id) state) (\<lambda>state.
      add_event A 2 agent_id role (lit ''claim'')
        (if claim_status r = lit ''claimed'' then lit ''Claimed '' @ task_id @ lit ''.''
         else lit ''Claimed '' @ task_id @ lit '' and moved it to wip.'')
        (Some project_id) (Some task_id) (Some (claim_task_status r)) None state))"

definition claim_body :: "ambient \<Rightarrow> path \<Rightarrow> rstr \<Rightarrow> rstr \<Rightarrow> rstr \<Rightarrow> rstr \<Rightarrow> json io" where
  "claim_body B dir project_id task_id agent_id role =
     bindS (read_agents_state B dir) (\<lambda>state.
     bindS (liftE (case active_claim_for_task B state project_id task_id of
         Some existing \<Rightarrow> assertE (jstr (lit ''agentId'') existing = Some agent_id)
           (ProjectError (claimed_message (lit ''Task is already claimed by '') existing))
       | None \<Rightarrow> Inr ())) (\<lambda>_.
     bindS (with_project B dir project_id (claim_section B dir agent_id role task_id)) (\<lambda>r.
     bindS (liftE (claim_state B project_id task_id agent_id role r state)) (\<lambda>state.
     bindS (write_agents_state B dir state) (\<lambda>saved.
     returnS (on_object (obj_insert (lit ''claim'') (JObj
         [(lit ''projectId'', JStr project_id), (lit ''taskId'', JStr task_id),
          (lit ''status'', JStr (claim_status r)), (lit ''leaseUntil'', JStr (claim_lease r))]))
       (compact_session_ack saved agent_id None)))))))"

definition project_claim_task :: "ambient \<Rightarrow> ambient \<Rightarrow> (disk \<Rightarrow> disk) \<Rightarrow> path \<Rightarrow> rstr \<Rightarrow> rstr \<Rightarrow> rstr \<Rightarrow> rstr
    \<Rightarrow> rstr option \<Rightarrow> json io" where
  "project_claim_task A B others dir project_id task_id agent_id role session_token =
     bindS (require_agent_tool A dir agent_id role (lit ''project_claim_task'') session_token) (\<lambda>(agent_id, role).
     bindS (liftE (assertE (role \<noteq> lit ''orchestrator'')
       (ProjectError (lit ''Orchestrators cannot claim implementation tasks. Create plan tasks and spawn_main_coder (or let Main spawn mini) instead of claiming WIP yourself.'')))) (\<lambda>_.
     bindS (liftE (normalize_project_id project_id)) (\<lambda>project_id.
     bindS (liftE (normalize_task_id task_id)) (\<lambda>task_id.
     bindS (other_processes others) (\<lambda>_.
     with_agents_lock B dir (claim_body B dir project_id task_id agent_id role))))))"

section \<open>Moving a task\<close>

definition status_note :: "rstr \<Rightarrow> rstr \<Rightarrow> rstr \<Rightarrow> rstr \<Rightarrow> rstr \<Rightarrow> rstr" where
  "status_note agent_id role task_id status evidence =
     (let note_text = agent_id @ lit '' ('' @ role @ lit '') set '' @ task_id @ lit '' to '' @ status @ lit ''.'' in
      if evidence \<noteq> [] then note_text @ lit '' Evidence: '' @ take 1200 evidence else note_text)"

definition all_done :: "json \<Rightarrow> bool" where
  "all_done state =
     (case jarr (lit ''tasks'') state of None \<Rightarrow> False
      | Some ts \<Rightarrow> list_all (\<lambda>t. jstr (lit ''status'') t = Some (lit ''done'')) ts)"

text \<open>The closure under the project lock, up to its write.\<close>

definition apply_status :: "ambient \<Rightarrow> rstr \<Rightarrow> rstr \<Rightarrow> rstr \<Rightarrow> rstr \<Rightarrow> rstr \<Rightarrow> f64 \<Rightarrow> project_doc
    \<Rightarrow> tool_error + project_doc" where
  "apply_status A agent_id role task_id status evidence confidence project =
     bindE (assertE (fm_status (doc_metadata project) \<notin> set [lit ''draft'', lit ''paused'', lit ''archived''])
       (ProjectError (lit ''Cannot update tasks on draft, paused or archived projects.''))) (\<lambda>_.
     bindE (find_task task_id (doc_state project)) (\<lambda>task.
     bindE (validate_transition role status evidence confidence (jstr (lit ''status'') task)) (\<lambda>_.
     let state = push_note A agent_id (status_note agent_id role task_id status evidence)
           (set_task_status A task_id status (doc_state project));
         fm = (if all_done state then fm_set (lit ''status'') (lit ''done'') (doc_metadata project)
               else if fm_status (doc_metadata project) = lit ''done'' \<and> status \<noteq> lit ''done''
               then fm_set (lit ''status'') (lit ''active'') (doc_metadata project)
               else doc_metadata project)
     in Inr (project\<lparr>doc_state := state,
          doc_metadata := fm_set (lit ''updated_at'') (now_rfc3339 A) fm\<rparr>))))"

text \<open>The loop over the claims of this agent, role and task.\<close>

definition mark_claims :: "ambient \<Rightarrow> rstr \<Rightarrow> rstr \<Rightarrow> rstr \<Rightarrow> rstr \<Rightarrow> rstr \<Rightarrow> rstr \<Rightarrow> json \<Rightarrow> json" where
  "mark_claims A agent_id role project_id task_id status evidence =
     on_array (lit ''claims'') (map (\<lambda>claim.
       if claim_for project_id task_id claim \<and> jstr (lit ''agentId'') claim = Some agent_id \<and>
          normalize_role (jstr_or (lit ''role'') [] claim) = Inr role
       then on_object (\<lambda>obj.
              let obj = obj_insert (lit ''updatedAt'') (JStr (now_rfc3339 A))
                    (obj_insert (lit ''status'') (JStr status) obj)
              in if evidence \<noteq> [] then obj_insert (lit ''evidence'') (JStr evidence) obj else obj) claim
       else claim))"

definition update_state :: "ambient \<Rightarrow> rstr \<Rightarrow> rstr \<Rightarrow> rstr \<Rightarrow> rstr \<Rightarrow> rstr \<Rightarrow> rstr \<Rightarrow> json \<Rightarrow> tool_error + json" where
  "update_state A project_id task_id agent_id role status evidence state =
     (let arrow = task_id @ lit '' -> '' @ status in
      bindE (upsert_session A agent_id role None status
        (Some (if evidence = [] then arrow else evidence)) None None None
        (Some project_id) (Some task_id) state) (\<lambda>state.
      add_event A 2 agent_id role (lit ''status'') arrow (Some project_id) (Some task_id) (Some status)
        (if evidence = [] then None else Some evidence)
        (mark_claims A agent_id role project_id task_id status evidence state)))"

definition update_body :: "ambient \<Rightarrow> path \<Rightarrow> rstr \<Rightarrow> rstr \<Rightarrow> rstr \<Rightarrow> rstr \<Rightarrow> rstr \<Rightarrow> rstr \<Rightarrow> f64 \<Rightarrow> json io" where
  "update_body B dir project_id task_id agent_id role status evidence confidence =
     bindS (read_agents_state B dir) (\<lambda>state.
     bindS (liftE (require_claim_for_status_update B state agent_id role project_id task_id status)) (\<lambda>state.
     bindS (with_project B dir project_id (\<lambda>project.
         bindS (liftE (apply_status B agent_id role task_id status evidence confidence project))
           (write_project_file B dir))) (\<lambda>saved.
     bindS (liftE (update_state B project_id task_id agent_id role status evidence state)) (\<lambda>state.
     bindS (write_agents_state B dir state) (\<lambda>_.
     returnS (public_project saved))))))"

definition project_update_status :: "ambient \<Rightarrow> ambient \<Rightarrow> (disk \<Rightarrow> disk) \<Rightarrow> path \<Rightarrow> rstr \<Rightarrow> rstr \<Rightarrow> rstr \<Rightarrow> rstr
    \<Rightarrow> rstr \<Rightarrow> rstr option \<Rightarrow> f64 option \<Rightarrow> rstr option \<Rightarrow> json io" where
  "project_update_status A B others dir project_id task_id status agent_id role evidence confidence session_token =
     bindS (require_agent_tool A dir agent_id role (lit ''project_update_status'') session_token) (\<lambda>(agent_id, role).
     bindS (liftE (normalize_project_id project_id)) (\<lambda>project_id.
     bindS (liftE (normalize_task_id task_id)) (\<lambda>task_id.
     bindS (liftE (normalize_task_status status)) (\<lambda>status.
     let evidence = trim (unwrap_or evidence []); confidence = unwrap_or confidence (Fin 0) in
     bindS (other_processes others) (\<lambda>_.
     with_agents_lock B dir
       (update_body B dir project_id task_id agent_id role status evidence confidence))))))"

section \<open>Notes, titles and follow-ups\<close>

text \<open>The tail of the three handlers: the session and event of the call, and the write.\<close>

definition record_call :: "ambient \<Rightarrow> path \<Rightarrow> rstr \<Rightarrow> rstr \<Rightarrow> rstr \<Rightarrow> rstr \<Rightarrow> rstr \<Rightarrow> rstr \<Rightarrow> rstr
    \<Rightarrow> rstr option \<Rightarrow> rstr option \<Rightarrow> json \<Rightarrow> json io" where
  "record_call A dir agent_id role session_status message event_type event_message project_id task_id status state =
     bindS (liftE (bindE (upsert_session A agent_id role None session_status (Some message) None None None
         (Some project_id) task_id state)
       (add_event A 2 agent_id role event_type event_message (Some project_id) task_id status None)))
     (write_agents_state A dir)"

definition append_note_edit :: "ambient \<Rightarrow> rstr \<Rightarrow> rstr \<Rightarrow> project_doc \<Rightarrow> tool_error + project_doc" where
  "append_note_edit A agent_id note_text project =
     bindE (assertE (fm_status (doc_metadata project) \<noteq> lit ''draft'')
       (ProjectError (lit ''project_append_note: draft projects are read-only: activate the project first.''))) (\<lambda>_.
     Inr (project\<lparr>doc_state := push_note A agent_id note_text (doc_state project),
       doc_metadata := fm_set (lit ''updated_at'') (now_rfc3339 A) (doc_metadata project)\<rparr>))"

definition project_append_note :: "ambient \<Rightarrow> ambient \<Rightarrow> (disk \<Rightarrow> disk) \<Rightarrow> path \<Rightarrow> rstr \<Rightarrow> rstr \<Rightarrow> rstr \<Rightarrow> rstr
    \<Rightarrow> rstr option \<Rightarrow> json io" where
  "project_append_note A B others dir project_id note_text agent_id role session_token =
     bindS (require_agent_tool A dir agent_id role (lit ''project_append_note'') session_token) (\<lambda>(agent_id, role).
     bindS (liftE (normalize_project_id project_id)) (\<lambda>project_id.
     bindS (liftE (clean_text note_text (lit ''Note'') 4000)) (\<lambda>note_text.
     bindS (other_processes others) (\<lambda>_.
     with_agents_lock B dir
       (bindS (read_agents_state B dir) (\<lambda>state.
        bindS (with_project B dir project_id (\<lambda>project.
            bindS (liftE (append_note_edit B agent_id note_text project)) (write_project_file B dir))) (\<lambda>saved.
        bindS (record_call B dir agent_id role (lit ''noted'') note_text (lit ''note'') note_text
          project_id None None state) (\<lambda>_.
        returnS (public_project saved)))))))))"

definition set_title_edit :: "ambient \<Rightarrow> rstr \<Rightarrow> project_doc \<Rightarrow> tool_error + project_doc" where
  "set_title_edit A title project =
     bindE (assertE (fm_status (doc_metadata project) \<noteq> lit ''draft'')
       (ProjectError (lit ''project_set_title: draft projects are read-only: activate the project first.''))) (\<lambda>_.
     Inr (project\<lparr>doc_metadata := fm_set (lit ''updated_at'') (now_rfc3339 A)
       (fm_set (lit ''title'') title (doc_metadata project))\<rparr>))"

definition project_set_title :: "ambient \<Rightarrow> ambient \<Rightarrow> (disk \<Rightarrow> disk) \<Rightarrow> path \<Rightarrow> rstr \<Rightarrow> rstr \<Rightarrow> rstr \<Rightarrow> rstr
    \<Rightarrow> rstr option \<Rightarrow> json io" where
  "project_set_title A B others dir project_id title agent_id role session_token =
     bindS (require_agent_tool A dir agent_id role (lit ''project_set_title'') session_token) (\<lambda>(agent_id, role).
     bindS (liftE (normalize_project_id project_id)) (\<lambda>project_id.
     bindS (liftE (clean_text title (lit ''Project title'') 200)) (\<lambda>title.
     bindS (other_processes others) (\<lambda>_.
     with_agents_lock B dir
       (bindS (read_agents_state B dir) (\<lambda>state.
        bindS (with_project B dir project_id (\<lambda>project.
            bindS (liftE (set_title_edit B title project)) (write_project_file B dir))) (\<lambda>saved.
        bindS (record_call B dir agent_id role (lit ''renamed'') title (lit ''rename'') title
          project_id None None state) (\<lambda>_.
        returnS (public_project saved)))))))))"

definition followup_task :: "ambient \<Rightarrow> rstr \<Rightarrow> rstr \<Rightarrow> rstr \<Rightarrow> rstr option \<Rightarrow> json" where
  "followup_task A new_id title category description =
     (let task = [(lit ''id'', JStr new_id), (lit ''title'', JStr title), (lit ''status'', JStr (lit ''todo'')),
        (lit ''priority'', JStr (lit ''medium'')), (lit ''assignee'', JNull), (lit ''due'', JNull),
        (lit ''linkedResources'', JArr []), (lit ''updatedAt'', JStr (now_rfc3339 A)),
        (lit ''category'', JStr category), (lit ''suspectFileIds'', JArr [])]
      in JObj (case description of None \<Rightarrow> task | Some desc \<Rightarrow> obj_insert (lit ''description'') (JStr desc) task))"

definition followup_edit :: "ambient \<Rightarrow> rstr \<Rightarrow> rstr \<Rightarrow> rstr \<Rightarrow> rstr \<Rightarrow> rstr \<Rightarrow> rstr option \<Rightarrow> project_doc
    \<Rightarrow> tool_error + project_doc \<times> json" where
  "followup_edit A agent_id role title reason category description project =
     bindE (assertE (fm_status (doc_metadata project) \<notin> set [lit ''draft'', lit ''paused'', lit ''archived'', lit ''done''])
       (ProjectError (lit ''Cannot create follow-up tasks on draft, paused, done or archived projects.''))) (\<lambda>_.
     bindE (ok_or (jarr (lit ''tasks'') (doc_state project))
       (ProjectError (lit ''Project state tasks must be a list.''))) (\<lambda>tasks.
     let task = followup_task A (next_task_id tasks) title category description;
         state = on_array (lit ''tasks'') (\<lambda>ts. ts @ [task]) (doc_state project);
         state = push_note A agent_id
           (lit ''Follow-up created by '' @ agent_id @ lit '' ('' @ role @ lit ''): '' @ reason) state
     in Inr (project\<lparr>doc_state := state,
          doc_metadata := fm_set (lit ''updated_at'') (now_rfc3339 A)
            (fm_set (lit ''status'') (lit ''active'') (doc_metadata project))\<rparr>, task)))"

definition project_create_followup :: "ambient \<Rightarrow> ambient \<Rightarrow> (disk \<Rightarrow> disk) \<Rightarrow> path \<Rightarrow> rstr \<Rightarrow> rstr \<Rightarrow> rstr \<Rightarrow> rstr
    \<Rightarrow> rstr \<Rightarrow> rstr option \<Rightarrow> rstr option \<Rightarrow> rstr option \<Rightarrow> json io" where
  "project_create_followup A B others dir project_id title reason agent_id role category description session_token =
     bindS (require_agent_tool A dir agent_id role (lit ''project_create_followup'') session_token) (\<lambda>(agent_id, role).
     bindS (liftE (normalize_project_id project_id)) (\<lambda>project_id.
     bindS (liftE (clean_text title (lit ''Task title'') 500)) (\<lambda>title.
     bindS (liftE (clean_text reason (lit ''Reason'') 2000)) (\<lambda>reason.
     bindS (liftE (normalize_task_category category)) (\<lambda>category.
     bindS (other_processes others) (\<lambda>_.
     with_agents_lock B dir
       (bindS (read_agents_state B dir) (\<lambda>state.
        bindS (with_project B dir project_id (\<lambda>project.
            bindS (liftE (followup_edit B agent_id role title reason category (clean_description description) project))
            (\<lambda>(project, task). bindS (write_project_file B dir project) (\<lambda>saved. returnS (saved, task)))))
        (\<lambda>(saved, task).
        bindS (record_call B dir agent_id role (lit ''followup'') title (lit ''followup'') reason
          project_id (Some (jstr_or (lit ''id'') [] task)) (Some (lit ''todo'')) state) (\<lambda>_.
        returnS (JObj [(lit ''project'', public_project saved), (lit ''task'', task)])))))))))))"

end
