(* ===== verification/KanbanLaws.thy ===== *)
theory KanbanLaws
  imports Kanban
begin

text \<open>
  What the Kanban tools guarantee. First the decision of \<open>validate_transition\<close> against the rule
  of the board, then every edit of a project document as a step of an abstract board, with what
  no sequence of edits can undo; then the handlers as a whole, with their gates and claims.
\<close>

section \<open>The rule of the board\<close>

text \<open>Which move a role may make from one status to another: nothing leaves \<open>done\<close>, only a
  verifier reaches it, and only from \<open>review\<close>.\<close>

definition may_move :: "rstr \<Rightarrow> rstr option \<Rightarrow> rstr \<Rightarrow> bool" where
  "may_move role s s' \<longleftrightarrow> s \<noteq> Some (lit ''done'') \<and>
     (if role = lit ''verifier''
      then s' = lit ''blocked'' \<or> (s' = lit ''done'' \<and> s = Some (lit ''review''))
      else s' \<in> set [lit ''todo'', lit ''wip'', lit ''review'', lit ''blocked''])"

definition needs_evidence :: "rstr \<Rightarrow> bool" where
  "needs_evidence s \<longleftrightarrow> s \<in> set [lit ''review'', lit ''blocked'', lit ''done'']"

lemma normalize_task_status_Inr:
  "normalize_task_status raw = Inr s \<Longrightarrow> s \<in> set VALID_TASK_STATUSES"
  by (auto simp: normalize_task_status_def Let_def split: if_splits)

lemma validate_transition_iff:
  assumes "normalize_task_status raw = Inr s'"
  shows "validate_transition role s' ev conf s = Inr () \<longleftrightarrow>
    may_move role s s' \<and> (needs_evidence s' \<longrightarrow> 12 \<le> length (trim ev)) \<and>
    (s' = lit ''done'' \<longrightarrow> \<not> f64_lt conf f64_0_70)"
  using normalize_task_status_Inr [OF assms]
  by (auto simp: validate_transition_def may_move_def needs_evidence_def VALID_TASK_STATUSES_def
      is_coder_like_def CODER_LIKE_ROLES_def)

text \<open>for a status of the board, the transition check accepts exactly the moves of the board's
  rule: with evidence of at least twelve characters where the target needs it, and, for done,
  with a confidence that is not below 0.70; whatever the role, done is never left.\<close>

theorem validate_transition_exact:
  assumes "normalize_task_status raw = Inr s'"
  shows "validate_transition role s' ev conf s = Inr () \<longleftrightarrow>
    may_move role s s' \<and> (needs_evidence s' \<longrightarrow> 12 \<le> length (trim ev)) \<and>
    (s' = lit ''done'' \<longrightarrow> \<not> f64_lt conf f64_0_70)"
  by (rule validate_transition_iff [OF assms])

theorem validate_transition_exact_witness:
  "validate_transition (lit ''verifier'') (lit ''done'') (lit ''ran the tests'') (Fin 1) (Some (lit ''review'')) = Inr () \<and>
   validate_transition (lit ''coder'') (lit ''done'') (lit ''ran the tests'') (Fin 1) (Some (lit ''review'')) \<noteq> Inr ()"
proof -
  have s: "normalize_task_status (lit '' DONE '') = Inr (lit ''done'')" by code_simp
  have l: "12 \<le> length (trim (lit ''ran the tests''))" by code_simp
  show ?thesis
    unfolding validate_transition_exact [OF s]
    using l by (simp add: may_move_def f64_0_70_def)
qed

section \<open>Edits of a project as steps of a board\<close>

text \<open>The board a document shows: the id and the status of every task, in order.\<close>

type_synonym board = "(rstr option \<times> rstr option) list"

definition card :: "json \<Rightarrow> rstr option \<times> rstr option" where
  "card t = (jstr (lit ''id'') t, jstr (lit ''status'') t)"

definition board_of :: "project_doc \<Rightarrow> board" where
  "board_of p = map card (tasks_of (doc_state p))"

inductive board_step :: "board \<Rightarrow> board \<Rightarrow> bool" where
  stay: "board_step b b"
| move: "i < length b \<Longrightarrow> b ! i = (t, s) \<Longrightarrow> may_move role s s' \<Longrightarrow> board_step b (b[i := (t, Some s')])"
| add: "board_step b (b @ [(Some t, Some (lit ''todo''))])"

text \<open>The edits the handlers make of the document they read, before they write it.\<close>

inductive project_edit :: "project_doc \<Rightarrow> project_doc \<Rightarrow> bool" where
  moved: "normalize_task_status raw = Inr s \<Longrightarrow> apply_status A agent role tid s ev conf p = Inr p' \<Longrightarrow>
    project_edit p p'"
| claimed: "claim_check role tid p = Inr True \<Longrightarrow> project_edit p (claim_edit A agent role tid p)"
| noted: "append_note_edit A agent text p = Inr p' \<Longrightarrow> project_edit p p'"
| titled: "set_title_edit A title p = Inr p' \<Longrightarrow> project_edit p p'"
| extended: "followup_edit A agent role title reason cat descr p = Inr (p', task) \<Longrightarrow> project_edit p p'"

inductive_simps board_step_iff: "board_step b b'"

lemma lit_tasks_notes [simp]: "lit ''tasks'' \<noteq> lit ''notes''" by simp

lemma tasks_push_note [simp]: "tasks_of (push_note A agent msg state) = tasks_of state"
  by (simp add: tasks_of_def push_note_def jarr_on_array_other)

lemma tasks_set_status:
  "tasks_of (set_task_status A tid s state) =
     update_first (is_task tid) (on_object (\<lambda>obj. obj_insert (lit ''updatedAt'') (JStr (now_rfc3339 A))
       (obj_insert (lit ''status'') (JStr s) obj))) (tasks_of state)"
  by (cases "jarr (lit ''tasks'') state")
    (simp_all add: tasks_of_def set_task_status_def jarr_on_array_same unwrap_or_def)

lemma find_task_Inr:
  "find_task tid state = Inr t \<Longrightarrow> List.find (is_task tid) (tasks_of state) = Some t"
  by (auto simp: find_task_def elim_bind tasks_of_def unwrap_or_def)

lemma is_task_object: "is_task tid t \<Longrightarrow> \<exists>kvs. t = JObj kvs"
  by (cases t) (auto simp: is_task_def jstr_def)

text \<open>Moving a task replaces one entry of the task list.\<close>

lemma set_status_update:
  assumes "find_task tid state = Inr t"
  obtains i t' where "i < length (tasks_of state)" and "tasks_of state ! i = t"
    and "tasks_of (set_task_status A tid s state) = (tasks_of state)[i := t']"
    and "card t' = (jstr (lit ''id'') t, Some s)"
    and "\<And>k. k \<notin> {lit ''status'', lit ''updatedAt''} \<Longrightarrow> jget k t' = jget k t"
proof -
  let ?f = "on_object (\<lambda>obj. obj_insert (lit ''updatedAt'') (JStr (now_rfc3339 A))
       (obj_insert (lit ''status'') (JStr s) obj))"
  from find_task_Inr [OF assms] obtain i where i: "i < length (tasks_of state)" "tasks_of state ! i = t"
    "is_task tid t" "update_first (is_task tid) ?f (tasks_of state) = (tasks_of state)[i := ?f t]"
    by (rule update_first_list_update)
  obtain kvs where t: "t = JObj kvs" using is_task_object [OF i(3)] by blast
  show thesis
    by (rule that [OF i(1,2) i(4) [folded tasks_set_status]]) (auto simp: t card_def jstr_def)
qed

lemma tasks_on_tasks:
  "jarr (lit ''tasks'') state = Some ts \<Longrightarrow> tasks_of (on_array (lit ''tasks'') f state) = f ts"
  by (simp add: tasks_of_def jarr_on_array_same unwrap_or_def)

lemma tasks_of_Some: "jarr (lit ''tasks'') state = Some ts \<Longrightarrow> tasks_of state = ts"
  by (simp add: tasks_of_def unwrap_or_def)

lemma notes_push_note:
  "jarr (lit ''notes'') state = Some ns \<Longrightarrow>
     \<exists>n. jarr (lit ''notes'') (push_note A agent msg state) = Some (ns @ [n])"
  by (simp add: push_note_def jarr_on_array_same)

lemma apply_status_Inr:
  assumes "apply_status A agent role tid s ev conf p = Inr p'"
  obtains t where "find_task tid (doc_state p) = Inr t"
    and "validate_transition role s ev conf (jstr (lit ''status'') t) = Inr ()"
    and "fm_status (doc_metadata p) \<notin> {lit ''draft'', lit ''paused'', lit ''archived''}"
    and "doc_state p' = push_note A agent (status_note agent role tid s ev) (set_task_status A tid s (doc_state p))"
    and "doc_path p' = doc_path p"
  using assms by (auto simp: apply_status_def elim_bind Let_def)

lemma claim_check_Inr:
  assumes "claim_check role tid p = Inr moves"
  obtains t where "find_task tid (doc_state p) = Inr t"
    and "jstr_or (lit ''status'') [] t \<noteq> lit ''done''"
    and "moves \<longleftrightarrow> is_coder_like role \<and> jstr_or (lit ''status'') [] t = lit ''todo''"
  using assms by (auto simp: claim_check_def elim_bind Let_def)

lemma card_followup_task: "card (followup_task A i title cat descr) = (Some i, Some (lit ''todo''))"
  by (simp add: card_def followup_task_def Let_def jstr_def split: option.splits)

lemma followup_edit_Inr:
  assumes "followup_edit A agent role title reason cat descr p = Inr (p', task)"
  obtains "task = followup_task A (next_task_id (tasks_of (doc_state p))) title cat descr"
    and "tasks_of (doc_state p') = tasks_of (doc_state p) @ [task]"
    and "fm_status (doc_metadata p) \<notin> {lit ''draft'', lit ''paused'', lit ''archived'', lit ''done''}"
    and "doc_path p' = doc_path p"
proof -
  from assms obtain ts where ts: "jarr (lit ''tasks'') (doc_state p) = Some ts"
    and "task = followup_task A (next_task_id ts) title cat descr"
    and "tasks_of (doc_state p') = tasks_of (on_array (lit ''tasks'') (\<lambda>ts. ts @ [task]) (doc_state p))"
    and "fm_status (doc_metadata p) \<notin> {lit ''draft'', lit ''paused'', lit ''archived'', lit ''done''}"
    and "doc_path p' = doc_path p"
    by (auto simp: followup_edit_def elim_bind Let_def)
  with that show thesis by (simp add: tasks_on_tasks [OF ts] tasks_of_Some [OF ts])
qed

text \<open>What one edit does to the task list: nothing, one entry replaced by a legal move of the same
  task, or one new task at the end.\<close>

lemma edit_cases:
  assumes "project_edit p p'"
  obtains (same) "tasks_of (doc_state p') = tasks_of (doc_state p)"
  | (moved) i t role s' where "i < length (tasks_of (doc_state p))"
      and "may_move role (jstr (lit ''status'') (tasks_of (doc_state p) ! i)) s'"
      and "tasks_of (doc_state p') = (tasks_of (doc_state p))[i := t]"
      and "card t = (jstr (lit ''id'') (tasks_of (doc_state p) ! i), Some s')"
  | (added) t i where "tasks_of (doc_state p') = tasks_of (doc_state p) @ [t]"
      and "card t = (Some i, Some (lit ''todo''))"
  using assms
proof (cases rule: project_edit.cases)
  case (moved raw s A agent role tid ev conf)
  from moved(2) show ?thesis
  proof (rule apply_status_Inr)
    fix t assume t: "find_task tid (doc_state p) = Inr t"
      and v: "validate_transition role s ev conf (jstr (lit ''status'') t) = Inr ()"
      and st: "doc_state p' = push_note A agent (status_note agent role tid s ev) (set_task_status A tid s (doc_state p))"
    have "may_move role (jstr (lit ''status'') t) s"
      using v validate_transition_iff [OF moved(1)] by blast
    obtain i t' where "i < length (tasks_of (doc_state p))" "tasks_of (doc_state p) ! i = t"
      "tasks_of (set_task_status A tid s (doc_state p)) = (tasks_of (doc_state p))[i := t']"
      "card t' = (jstr (lit ''id'') t, Some s)"
      by (rule set_status_update [OF t])
    with \<open>may_move role _ s\<close> st show ?thesis by (intro that(2) [of i role s t']) simp_all
  qed
next
  case (claimed role tid A agent)
  from claimed(2) show ?thesis
  proof (rule claim_check_Inr)
    fix t assume t: "find_task tid (doc_state p) = Inr t"
      and m: "True \<longleftrightarrow> is_coder_like role \<and> jstr_or (lit ''status'') [] t = lit ''todo''"
    have "may_move role (jstr (lit ''status'') t) (lit ''wip'')"
      using m by (auto simp: may_move_def is_coder_like_def CODER_LIKE_ROLES_def jstr_or_def)
    obtain i t' where "i < length (tasks_of (doc_state p))" "tasks_of (doc_state p) ! i = t"
      "tasks_of (set_task_status A tid (lit ''wip'') (doc_state p)) = (tasks_of (doc_state p))[i := t']"
      "card t' = (jstr (lit ''id'') t, Some (lit ''wip''))"
      by (rule set_status_update [OF t])
    with \<open>may_move role _ _\<close> claimed(1) show ?thesis
      by (intro that(2) [of i role "lit ''wip''" t']) (simp_all add: claim_edit_def)
  qed
next
  case (noted A agent msg)
  then show ?thesis by (intro that(1)) (auto simp: append_note_edit_def elim_bind)
next
  case (titled A title)
  then show ?thesis by (intro that(1)) (auto simp: set_title_edit_def elim_bind)
next
  case (extended A agent role title reason cat descr task)
  from extended show ?thesis
    by (rule followup_edit_Inr) (use card_followup_task that(3) in blast)
qed

text \<open>C5: every edit the handlers make of a project document is one step of the abstract board:
  the cards stay, one card makes a move its role may make, or one new card in todo is added; no
  edit ever removes a card, reorders the cards or changes a task id.\<close>

theorem project_edit_refines_board:
  assumes "project_edit p p'"
  shows "board_step (board_of p) (board_of p')"
  using assms
proof (cases rule: edit_cases)
  case same
  then show ?thesis by (simp add: board_of_def stay)
next
  case (moved i t role s')
  then show ?thesis
    using board_step.move [of i "board_of p" "jstr (lit ''id'') (tasks_of (doc_state p) ! i)"
        "jstr (lit ''status'') (tasks_of (doc_state p) ! i)" role s']
    by (simp add: board_of_def map_update card_def)
next
  case (added t i)
  then show ?thesis using add [of "board_of p" i] by (simp add: board_of_def)
qed

section \<open>Done is final, and has been earned\<close>

definition task_at :: "project_doc \<Rightarrow> nat \<Rightarrow> rstr option \<Rightarrow> bool" where
  "task_at p i s \<longleftrightarrow> i < length (tasks_of (doc_state p)) \<and> jstr (lit ''status'') (tasks_of (doc_state p) ! i) = s"

lemma edit_keeps_done:
  assumes "project_edit p p'" and "task_at p i (Some (lit ''done''))"
  shows "task_at p' i (Some (lit ''done'')) \<and> tasks_of (doc_state p') ! i = tasks_of (doc_state p) ! i"
  using assms(1)
proof (cases rule: edit_cases)
  case (moved j t role s')
  then have "j \<noteq> i" using assms(2) by (auto simp: may_move_def task_at_def)
  with moved assms(2) show ?thesis by (simp add: task_at_def)
qed (use assms(2) in \<open>auto simp: task_at_def nth_append\<close>)


text \<open>The edit that makes a task done.\<close>

definition verified_done :: "project_doc \<Rightarrow> project_doc \<Rightarrow> nat \<Rightarrow> bool" where
  "verified_done p p' i \<longleftrightarrow> task_at p i (Some (lit ''review'')) \<and>
     (\<exists>A agent tid ev conf. apply_status A agent (lit ''verifier'') tid (lit ''done'') ev conf p = Inr p' \<and>
        12 \<le> length (trim ev) \<and> \<not> f64_lt conf f64_0_70)"

lemma apply_status_tasks:
  assumes "normalize_task_status raw = Inr s" and "apply_status A agent role tid s ev conf p = Inr p'"
  obtains i t' where "i < length (tasks_of (doc_state p))"
    and "may_move role (jstr (lit ''status'') (tasks_of (doc_state p) ! i)) s"
    and "tasks_of (doc_state p') = (tasks_of (doc_state p))[i := t']"
    and "card t' = (jstr (lit ''id'') (tasks_of (doc_state p) ! i), Some s)"
    and "needs_evidence s \<longrightarrow> 12 \<le> length (trim ev)" "s = lit ''done'' \<longrightarrow> \<not> f64_lt conf f64_0_70"
proof -
  from assms(2) obtain t where t: "find_task tid (doc_state p) = Inr t"
    and v: "validate_transition role s ev conf (jstr (lit ''status'') t) = Inr ()"
    and st: "doc_state p' = push_note A agent (status_note agent role tid s ev) (set_task_status A tid s (doc_state p))"
    by (rule apply_status_Inr)
  obtain i t' where i: "i < length (tasks_of (doc_state p))" "tasks_of (doc_state p) ! i = t"
    "tasks_of (set_task_status A tid s (doc_state p)) = (tasks_of (doc_state p))[i := t']"
    "card t' = (jstr (lit ''id'') t, Some s)"
    by (rule set_status_update [OF t])
  note vi = v [unfolded validate_transition_iff [OF assms(1)]]
  show thesis
    by (rule that [of i t']) (use i st vi in auto)
qed

lemma edit_to_done:
  assumes "project_edit p p'" and "task_at p' i (Some (lit ''done''))" and "\<not> task_at p i (Some (lit ''done''))"
  shows "verified_done p p' i"
  using assms(1)
proof (cases rule: project_edit.cases)
  case (moved raw s A agent role tid ev conf)
  from moved obtain j t' where j: "j < length (tasks_of (doc_state p))"
    "may_move role (jstr (lit ''status'') (tasks_of (doc_state p) ! j)) s"
    "tasks_of (doc_state p') = (tasks_of (doc_state p))[j := t']"
    "card t' = (jstr (lit ''id'') (tasks_of (doc_state p) ! j), Some s)"
    "needs_evidence s \<longrightarrow> 12 \<le> length (trim ev)" "s = lit ''done'' \<longrightarrow> \<not> f64_lt conf f64_0_70"
    by (rule apply_status_tasks)
  have "j = i" using j assms(2,3) by (cases "j = i") (auto simp: task_at_def)
  with j assms(2) have s: "s = lit ''done''" by (auto simp: task_at_def card_def)
  with j(2) have "role = lit ''verifier''" "jstr (lit ''status'') (tasks_of (doc_state p) ! j) = Some (lit ''review'')"
    by (auto simp: may_move_def split: if_splits)
  moreover from this moved(2) s
  have "apply_status A agent (lit ''verifier'') tid (lit ''done'') ev conf p = Inr p'" by simp
  moreover have "12 \<le> length (trim ev)" "\<not> f64_lt conf f64_0_70"
    using j(5,6) s by (auto simp: needs_evidence_def)
  ultimately show ?thesis
    unfolding verified_done_def task_at_def using j(1) \<open>j = i\<close> by blast
next
  case (claimed role tid A agent)
  from claimed(2) obtain t where t: "find_task tid (doc_state p) = Inr t" by (rule claim_check_Inr)
  obtain j t' where "j < length (tasks_of (doc_state p))"
    "tasks_of (set_task_status A tid (lit ''wip'') (doc_state p)) = (tasks_of (doc_state p))[j := t']"
    "card t' = (jstr (lit ''id'') t, Some (lit ''wip''))"
    by (rule set_status_update [OF t])
  moreover have "tasks_of (doc_state p') = tasks_of (set_task_status A tid (lit ''wip'') (doc_state p))"
    by (simp add: claimed(1) claim_edit_def)
  ultimately show ?thesis using assms(2,3) by (cases "j = i") (auto simp: task_at_def card_def)
next
  case (extended A agent role title reason cat descr task)
  from extended have "tasks_of (doc_state p') = tasks_of (doc_state p) @ [task]"
    by (rule followup_edit_Inr)
  moreover from extended have "task = followup_task A (next_task_id (tasks_of (doc_state p))) title cat descr"
    by (rule followup_edit_Inr)
  then have "jstr (lit ''status'') task = Some (lit ''todo'')"
    using card_followup_task [of A _ title cat descr] by (simp add: card_def)
  ultimately show ?thesis using assms(2,3)
    by (auto simp: task_at_def nth_append not_less less_Suc_eq split: if_splits)
qed (use assms in \<open>auto simp: append_note_edit_def set_title_edit_def elim_bind task_at_def\<close>)


section \<open>The handlers\<close>

lemma session_gate_Inr:
  assumes "session_gate A a r (Some tool) tok st = Inr ()"
  obtains session where "find_session st a = Some session" and "status_lc session \<noteq> lit ''launch_pending''"
    and "normalize_role (jstr_or (lit ''role'') [] session) = Inr r" and "role_allows r tool"
    and "is_ok (require_session_token A session tok)"
  using assms by (auto simp: session_gate_def elim_bind)

lemma require_agent_tool_InrD:
  assumes "require_agent_tool A dir agent_id role tool tok d = (Inr (a, r), d')"
  obtains st where "d' = d" and "a = trim agent_id" and "normalize_role role = Inr r"
    and "read_agents_state A dir d = (Inr st, d)" and "session_gate A a r (Some tool) tok st = Inr ()"
proof -
  from assms obtain st d1 where "normalize_agent_id agent_id = Inr a" and r: "normalize_role role = Inr r"
    and st: "read_agents_state A dir d = (Inr st, d1)"
    and g: "session_gate A a r (Some tool) tok st = Inr ()" and d': "d' = d1"
    unfolding require_agent_tool_def by (auto simp: elim_bind dest!: with_agents_lock_InrD)
  then show thesis
    using that [OF _ _ r _ g] read_agents_state_pure [OF st] normalize_agent_id_Inr by simp
qed

lemma with_project_InrD:
  assumes "with_project A dir pid f d = (Inr x, d')"
  obtains p project where "project_path A dir pid d = Inr p" and "exists_file d p"
    and "read_project_file A p d = (Inr project, d)" and "f project d = (Inr x, d')"
proof -
  from assms obtain p project d1 where "project_path A dir pid d = Inr p" "exists_file d p"
    and r: "read_project_file A p d = (Inr project, d1)" and "f project d1 = (Inr x, d')"
    by (auto simp: with_project_def with_file_lock_def elim_bind)
  with that read_project_file_pure [OF r] show thesis by simp
qed

lemma active_claim_SomeD:
  assumes "active_claim_for_task A state pid tid = Some claim"
  shows "\<exists>claims. jarr (lit ''claims'') state = Some claims \<and> claim \<in> set claims \<and>
    claim_for pid tid claim \<and> claim_is_active A claim"
  using assms by (auto simp: active_claim_for_task_def bind_eq_Some_conv dest!: find_SomeD)

text \<open>Who may update a task: the owner of its active claim, or, to put it back to todo, the owner of
  an old one.\<close>

lemma require_claim_Inr:
  assumes "require_claim_for_status_update A state a r pid tid s = Inr state'" and "s \<noteq> lit ''todo''"
  obtains claim where "active_claim_for_task A state pid tid = Some claim"
    and "jstr (lit ''agentId'') claim = Some a" and "normalize_role (jstr_or (lit ''role'') [] claim) = Inr r"
    and "state' = state"
  using assms
  by (cases "active_claim_for_task A state pid tid")
    (auto simp: require_claim_for_status_update_def elim_bind split: if_splits)

lemma other_processes_iff [simp]: "other_processes others d = (r, d') \<longleftrightarrow> r = Inr () \<and> d' = others d"
  by (auto simp: other_processes_def)

lemma update_body_InrD:
  assumes "update_body B dir pid tid a r s ev conf d = (Inr out, d')"
  obtains st st1 p project project' saved d1 st2 w where "read_agents_state B dir d = (Inr st, d)"
    and "require_claim_for_status_update B st a r pid tid s = Inr st1"
    and "project_path B dir pid d = Inr p" and "read_project_file B p d = (Inr project, d)"
    and "apply_status B a r tid s ev conf project = Inr project'"
    and "write_project_file B dir project' d = (Inr saved, d1)"
    and "update_state B pid tid a r s ev st1 = Inr st2"
    and "write_agents_state B dir st2 d1 = (Inr w, d')"
    and "out = public_project saved"
proof -
  from assms obtain st d0 st1 saved d1 st2 w where st: "read_agents_state B dir d = (Inr st, d0)"
    and c: "require_claim_for_status_update B st a r pid tid s = Inr st1"
    and p: "with_project B dir pid (\<lambda>project.
         bindS (liftE (apply_status B a r tid s ev conf project)) (write_project_file B dir)) d0 = (Inr saved, d1)"
    and u: "update_state B pid tid a r s ev st1 = Inr st2"
    and w: "write_agents_state B dir st2 d1 = (Inr w, d')" and o: "out = public_project saved"
    unfolding update_body_def by (auto simp: elim_bind)
  have d0: "d0 = d" using read_agents_state_pure [OF st] by simp
  from p show thesis unfolding d0
    by (rule with_project_InrD) (use that [OF st [unfolded d0] c _ _ _ _ u w o] in \<open>auto simp: elim_bind\<close>)
qed

lemma update_status_InrD:
  assumes "project_update_status A B others dir project_id task_id status agent_id role evidence confidence tok d = (Inr out, d')"
  obtains r st pid tid s where "normalize_role role = Inr r"
    and "read_agents_state A dir d = (Inr st, d)"
    and "session_gate A (trim agent_id) r (Some (lit ''project_update_status'')) tok st = Inr ()"
    and "normalize_project_id project_id = Inr pid" and "normalize_task_id task_id = Inr tid"
    and "normalize_task_status status = Inr s"
    and "update_body B dir pid tid (trim agent_id) r s (trim (unwrap_or evidence [])) (unwrap_or confidence (Fin 0))
           (others d) = (Inr out, d')"
proof -
  from assms obtain a r d1 pid tid s where g: "require_agent_tool A dir agent_id role (lit ''project_update_status'') tok d = (Inr (a, r), d1)"
    and n: "normalize_project_id project_id = Inr pid" "normalize_task_id task_id = Inr tid"
      "normalize_task_status status = Inr s"
    and b: "update_body B dir pid tid a r s (trim (unwrap_or evidence [])) (unwrap_or confidence (Fin 0)) (others d1) = (Inr out, d')"
    unfolding project_update_status_def Let_def
    by (auto simp: elim_bind split: prod.splits dest!: with_agents_lock_InrD)
  from g obtain st where st: "d1 = d" "a = trim agent_id" "normalize_role role = Inr r"
    "read_agents_state A dir d = (Inr st, d)"
    "session_gate A a r (Some (lit ''project_update_status'')) tok st = Inr ()"
    by (rule require_agent_tool_InrD)
  show thesis by (rule that [OF st(3,4) _ n]) (use st b in simp_all)
qed

text \<open>C1: a task is done only by verified review. Whenever a status update to done succeeds, the call
  passed the session-token gate of a registered agent whose stored role is verifier; that agent
  holds the task's active claim, also as verifier, when the project is opened; the evidence has at
  least twelve characters and the confidence is not below 0.70; the project is not draft, paused
  or archived; and the task, as read from the project file under its lock, was in review.\<close>

theorem done_only_by_verifier:
  assumes "project_update_status A B others dir project_id task_id status agent_id role evidence confidence tok d = (Inr out, d')"
    and "normalize_task_status status = Inr (lit ''done'')"
  shows "\<exists>pid tid st session st2 claims claim p project task.
      normalize_project_id project_id = Inr pid \<and> normalize_task_id task_id = Inr tid \<and>
      read_agents_state A dir d = (Inr st, d) \<and> find_session st (trim agent_id) = Some session \<and>
      normalize_role (jstr_or (lit ''role'') [] session) = Inr (lit ''verifier'') \<and>
      is_ok (require_session_token A session tok) \<and>
      read_agents_state B dir (others d) = (Inr st2, others d) \<and>
      jarr (lit ''claims'') st2 = Some claims \<and> claim \<in> set claims \<and>
      claim_for pid tid claim \<and> claim_is_active B claim \<and>
      jstr (lit ''agentId'') claim = Some (trim agent_id) \<and>
      normalize_role (jstr_or (lit ''role'') [] claim) = Inr (lit ''verifier'') \<and>
      12 \<le> length (trim (unwrap_or evidence [])) \<and> \<not> f64_lt (unwrap_or confidence (Fin 0)) f64_0_70 \<and>
      project_path B dir pid (others d) = Inr p \<and> read_project_file B p (others d) = (Inr project, others d) \<and>
      fm_status (doc_metadata project) \<notin> {lit ''draft'', lit ''paused'', lit ''archived''} \<and>
      find_task tid (doc_state project) = Inr task \<and> jstr (lit ''status'') task = Some (lit ''review'')"
proof -
  let ?ev = "trim (unwrap_or evidence [])" and ?conf = "unwrap_or confidence (Fin 0)" and ?a = "trim agent_id"
  from assms obtain r st pid tid where st: "read_agents_state A dir d = (Inr st, d)"
    and g: "session_gate A ?a r (Some (lit ''project_update_status'')) tok st = Inr ()"
    and n: "normalize_project_id project_id = Inr pid" "normalize_task_id task_id = Inr tid"
    and b: "update_body B dir pid tid ?a r (lit ''done'') ?ev ?conf (others d) = (Inr out, d')"
    by (elim update_status_InrD) simp
  from g obtain session where s: "find_session st ?a = Some session"
    "normalize_role (jstr_or (lit ''role'') [] session) = Inr r" "is_ok (require_session_token A session tok)"
    by (rule session_gate_Inr)
  from b obtain st2 st3 p project project' where st2: "read_agents_state B dir (others d) = (Inr st2, others d)"
    and c: "require_claim_for_status_update B st2 ?a r pid tid (lit ''done'') = Inr st3"
    and p: "project_path B dir pid (others d) = Inr p" "read_project_file B p (others d) = (Inr project, others d)"
    and ap: "apply_status B ?a r tid (lit ''done'') ?ev ?conf project = Inr project'"
    by (rule update_body_InrD)
  from ap obtain t where t: "find_task tid (doc_state project) = Inr t"
    and v: "validate_transition r (lit ''done'') ?ev ?conf (jstr (lit ''status'') t) = Inr ()"
    and fs: "fm_status (doc_metadata project) \<notin> {lit ''draft'', lit ''paused'', lit ''archived''}"
    by (rule apply_status_Inr)
  from v [unfolded validate_transition_iff [OF assms(2)]]
  have v': "r = lit ''verifier''" "jstr (lit ''status'') t = Some (lit ''review'')"
    "12 \<le> length ?ev" "\<not> f64_lt ?conf f64_0_70"
    by (auto simp: may_move_def needs_evidence_def split: if_splits)
  from c obtain claim where cl: "active_claim_for_task B st2 pid tid = Some claim"
    "jstr (lit ''agentId'') claim = Some ?a" "normalize_role (jstr_or (lit ''role'') [] claim) = Inr r"
    by (rule require_claim_Inr) simp
  from active_claim_SomeD [OF cl(1)] cl(2,3) show ?thesis
    using n st s st2 p t fs v' by blast
qed

lemma jarr_claims_written:
  assumes "jarr (lit ''claims'') state = Some cs"
  shows "jarr (lit ''claims'') (written_form A state) = Some cs"
proof -
  obtain kvs where s: "state = JObj kvs" using assms by (cases state) (auto simp: jarr_def)
  obtain obj where n: "normalize_agents_state A (JObj kvs) = on_array (lit ''sessions'') normalize_sessions (JObj obj)"
    and c: "map_of obj (lit ''claims'') = Some (case map_of kvs (lit ''claims'') of None \<Rightarrow> JArr [] | Some v \<Rightarrow> v)"
    by (rule normalize_agents_state_obj)
  have "jget (lit ''claims'') (normalize_agents_state A (JObj kvs)) = Some (JArr cs)"
    using c assms by (simp add: n jget_on_array s jarr_Some_iff)
  then show ?thesis
    by (cases "normalize_agents_state A (JObj kvs)")
      (simp_all add: written_form_def s jarr_on_array_other jarr_Some_iff)
qed

lemma jget_add_event:
  "add_event A n a r t m p k st ev state = Inr state' \<Longrightarrow> key \<noteq> lit ''events'' \<Longrightarrow> jget key state' = jget key state"
  by (auto simp: add_event_def elim_bind jget_on_array)

lemma claims_session_event:
  assumes "upsert_session A agent_id role model status message client fp subs pid tid state = Inr state1"
    and "add_event A n a r t m p k st ev state1 = Inr state2"
  shows "jarr (lit ''claims'') state2 = jarr (lit ''claims'') state"
proof -
  have "jget (lit ''claims'') state1 = jget (lit ''claims'') state"
    by (rule upsert_session_spec [OF assms(1)]) simp
  with jget_add_event [OF assms(2)] show ?thesis by (simp add: jarr_def)
qed

lemma claim_row_for: "claim_for pid tid (claim_row A pid' tid' a r c) \<longleftrightarrow> pid' = pid \<and> tid' = tid"
  by (auto simp: claim_for_def claim_row_def jstr_def)

lemma claim_state_claims:
  assumes "claim_state A pid tid a r c state = Inr state'" and "jarr (lit ''claims'') state = Some cs"
  shows "jarr (lit ''claims'') state' =
    Some (filter (\<lambda>item. \<not> claim_for pid tid item) cs @ [claim_row A pid tid a r c])"
proof -
  from assms(1) obtain state1 where "upsert_session A a r None (claim_status c) None None None None (Some pid) (Some tid)
      (replace_claim pid tid (claim_row A pid tid a r c) state) = Inr state1"
    and "is_ok (bindE (Inr state1) (add_event A 2 a r (lit ''claim'')
        (if claim_status c = lit ''claimed'' then lit ''Claimed '' @ tid @ lit ''.''
         else lit ''Claimed '' @ tid @ lit '' and moved it to wip.'')
        (Some pid) (Some tid) (Some (claim_task_status c)) None))"
    and "add_event A 2 a r (lit ''claim'')
        (if claim_status c = lit ''claimed'' then lit ''Claimed '' @ tid @ lit ''.''
         else lit ''Claimed '' @ tid @ lit '' and moved it to wip.'')
        (Some pid) (Some tid) (Some (claim_task_status c)) None state1 = Inr state'"
    by (auto simp: claim_state_def Let_def elim_bind)
  from claims_session_event [OF this(1,3)] assms(2) show ?thesis
    by (simp add: replace_claim_def jarr_on_array_same)
qed

lemma claim_body_InrD:
  assumes "claim_body B dir pid tid a r d = (Inr out, d')"
  obtains st p project moves c d1 st' w where "read_agents_state B dir d = (Inr st, d)"
    and "case active_claim_for_task B st pid tid of None \<Rightarrow> True | Some e \<Rightarrow> jstr (lit ''agentId'') e = Some a"
    and "project_path B dir pid d = Inr p" and "read_project_file B p d = (Inr project, d)"
    and "claim_check r tid project = Inr moves"
    and "claim_section B dir a r tid project d = (Inr c, d1)"
    and "claim_state B pid tid a r c st = Inr st'"
    and "write_agents_state B dir st' d1 = (Inr w, d')"
proof -
  from assms obtain st d0 c d1 st' w where st: "read_agents_state B dir d = (Inr st, d0)"
    and e: "(case active_claim_for_task B st pid tid of Some existing \<Rightarrow>
           assertE (jstr (lit ''agentId'') existing = Some a)
             (ProjectError (claimed_message (lit ''Task is already claimed by '') existing))
         | None \<Rightarrow> Inr ()) = Inr ()"
    and p: "with_project B dir pid (claim_section B dir a r tid) d0 = (Inr c, d1)"
    and s: "claim_state B pid tid a r c st = Inr st'"
    and w: "write_agents_state B dir st' d1 = (Inr w, d')"
    unfolding claim_body_def by (auto simp: elim_bind)
  have d0: "d0 = d" using read_agents_state_pure [OF st] by simp
  have e': "case active_claim_for_task B st pid tid of None \<Rightarrow> True | Some e \<Rightarrow> jstr (lit ''agentId'') e = Some a"
    using e by (auto split: option.splits)
  from p show thesis unfolding d0
  proof (rule with_project_InrD)
    fix p project
    assume "project_path B dir pid d = Inr p" "read_project_file B p d = (Inr project, d)"
      and c: "claim_section B dir a r tid project d = (Inr c, d1)"
    moreover from c obtain moves where "claim_check r tid project = Inr moves"
      unfolding claim_section_def by (auto simp: elim_bind)
    ultimately show thesis using that [OF st [unfolded d0] e' _ _ _ _ s w] by blast
  qed
qed

lemma claim_task_InrD:
  assumes "project_claim_task A B others dir project_id task_id agent_id role tok d = (Inr out, d')"
  obtains r st pid tid where "normalize_role role = Inr r" and "r \<noteq> lit ''orchestrator''"
    and "read_agents_state A dir d = (Inr st, d)"
    and "session_gate A (trim agent_id) r (Some (lit ''project_claim_task'')) tok st = Inr ()"
    and "normalize_project_id project_id = Inr pid" and "normalize_task_id task_id = Inr tid"
    and "claim_body B dir pid tid (trim agent_id) r (others d) = (Inr out, d')"
proof -
  from assms obtain a r d1 pid tid where g: "require_agent_tool A dir agent_id role (lit ''project_claim_task'') tok d = (Inr (a, r), d1)"
    and n: "normalize_project_id project_id = Inr pid" "normalize_task_id task_id = Inr tid"
    and o: "r \<noteq> lit ''orchestrator''" and b: "claim_body B dir pid tid a r (others d1) = (Inr out, d')"
    unfolding project_claim_task_def
    by (auto simp: elim_bind split: prod.splits dest!: with_agents_lock_InrD)
  from g obtain st where st: "d1 = d" "a = trim agent_id" "normalize_role role = Inr r"
    "read_agents_state A dir d = (Inr st, d)"
    "session_gate A a r (Some (lit ''project_claim_task'')) tok st = Inr ()"
    by (rule require_agent_tool_InrD)
  show thesis by (rule that [OF st(3) o st(4) _ n]) (use st b in simp_all)
qed

lemma claim_section_InrD:
  assumes "claim_section B dir a r tid project d = (Inr c, d1)"
  shows "claim_lease c = fmt_ts B (now_ns B + minutes CLAIM_LEASE_MINUTES) \<and>
    claim_status c \<in> set [lit ''wip'', lit ''claimed'']"
  using assms by (auto simp: claim_section_def claim_result_of_def elim_bind Let_def split: if_splits)

lemma fresh_row_active:
  assumes "rfc3339_roundtrip B B'" and "now_ns B' < now_ns B + minutes CLAIM_LEASE_MINUTES"
    and "claim_lease c = fmt_ts B (now_ns B + minutes CLAIM_LEASE_MINUTES)"
    and "claim_status c \<in> set [lit ''wip'', lit ''claimed'']"
  shows "claim_is_active B' (claim_row A pid tid a r c)"
  using assms by (auto simp: claim_is_active_def claim_row_def jstr_or_def jstr_def rfc3339_roundtrip_def)

lemma find_filter_snoc: "q x \<Longrightarrow> (\<And>y. q y \<Longrightarrow> p y) \<Longrightarrow> List.find q (filter (\<lambda>y. \<not> p y) xs @ [x]) = Some x"
  by (induction xs) auto


lemma read_agents_state_file:
  assumes "files d p = files d' p" and "p = agents_state_path dir"
  shows "read_agents_state A dir d = (fst (read_agents_state A dir d'), d)"
  using assms by (auto simp: read_agents_state_def Let_def split: option.splits)

text \<open>What another section reads after a successful claim: an agents document in which the claim
  is the active one.\<close>

lemma claim_then_read:
  assumes "project_claim_task A B others dir project_id task_id agent_id role tok d = (Inr out, d')"
    and "read_agents_state B dir (others d) = (Inr st2, others d)" and "jarr (lit ''claims'') st2 \<noteq> None"
    and "normalize_project_id project_id = Inr pid" and "normalize_task_id task_id = Inr tid"
    and libs: "serde_roundtrip B B'" "rfc3339_roundtrip B B'"
    and "now_ns B' < now_ns B + minutes CLAIM_LEASE_MINUTES"
    and "files d2 (agents_state_path dir) = files d' (agents_state_path dir)"
    and "read_agents_state B' dir d2 = (Inr st, d3)"
  obtains row where "active_claim_for_task B' st pid tid = Some row"
    and "jstr (lit ''agentId'') row = Some (trim agent_id)"
proof -
  let ?a = "trim agent_id"
  from assms(1,4,5) obtain r where b: "claim_body B dir pid tid ?a r (others d) = (Inr out, d')"
    by (elim claim_task_InrD) simp
  from b obtain st3 p project c d1 st' w where st3: "read_agents_state B dir (others d) = (Inr st3, others d)"
    and cl: "claim_section B dir ?a r tid project (others d) = (Inr c, d1)"
    and cs: "claim_state B pid tid ?a r c st3 = Inr st'"
    and w: "write_agents_state B dir st' d1 = (Inr w, d')"
    by (rule claim_body_InrD)
  from st3 assms(2,3) obtain xs where xs: "jarr (lit ''claims'') st3 = Some xs" by auto
  let ?row = "claim_row B pid tid ?a r c"
  have wf: "w = written_form B st'" by (rule write_agents_state_InrD [OF w])
  have "jarr (lit ''claims'') w = Some (filter (\<lambda>item. \<not> claim_for pid tid item) xs @ [?row])"
    unfolding wf by (rule jarr_claims_written [OF claim_state_claims [OF cs xs]])
  moreover have "claim_for pid tid ?row \<and> claim_is_active B' ?row"
    using fresh_row_active [OF libs(2) assms(8), of c] claim_section_InrD [OF cl] by (simp add: claim_row_for)
  ultimately have act: "active_claim_for_task B' w pid tid = Some ?row"
    by (auto simp: active_claim_for_task_def intro!: find_filter_snoc)
  have "st = w"
  proof -
    from assms(10) have ok: "read_ok B' (agents_state_path dir)"
      using assms(9) w by (auto simp: read_agents_state_def Let_def split: option.splits if_splits elim!: write_agents_state_InrD)
    have "read_agents_state B' dir d' = (Inr w, d')"
      by (rule read_back [OF w _ ok]) (use libs(1) in \<open>simp add: serde_roundtrip_def\<close>)
    with assms(10) show ?thesis
      using read_agents_state_file [OF assms(9), of dir B'] by simp
  qed
  with act that show thesis by (simp add: claim_row_def jstr_def)
qed


section \<open>The next task\<close>

text \<open>the next task an agent is given is one of the project's tasks, claimed by nobody else and
  in a status its role prefers, and no free task has a status the role prefers more; none is given
  exactly when every task in a preferred status is claimed by others.\<close>

theorem pick_task_spec:
  "(case pick_task claimed prefs tasks of
      None \<Rightarrow> list_all (\<lambda>t. jstr_or (lit ''id'') [] t \<in> set claimed \<or> jstr (lit ''status'') t \<notin> Some ` set prefs) tasks
    | Some t \<Rightarrow> \<exists>before s after. prefs = before @ s # after \<and> t \<in> set tasks \<and>
        jstr (lit ''status'') t = Some s \<and> jstr_or (lit ''id'') [] t \<notin> set claimed \<and>
        list_all (\<lambda>u. jstr_or (lit ''id'') [] u \<in> set claimed \<or> jstr (lit ''status'') u \<notin> Some ` set before) tasks)"
proof (induction prefs)
  case (Cons s prefs)
  let ?free = "\<lambda>task. jstr_or (lit ''id'') [] task \<notin> set claimed \<and> jstr (lit ''status'') task = Some s"
  show ?case
  proof (cases "List.find ?free tasks")
    case (Some t)
    then show ?thesis using find_SomeD [OF Some]
      by (simp del: ex_simps) (intro exI [of _ "[]"] exI [of _ s] exI [of _ prefs], simp add: list_all_iff)
  next
    case None
    then have n: "list_all (\<lambda>u. \<not> ?free u) tasks" by (simp add: find_None_iff_ball list_all_iff)
    show ?thesis
    proof (cases "pick_task claimed prefs tasks")
      case None': None
      with None n Cons.IH show ?thesis by (auto simp: list_all_iff)
    next
      case (Some t)
      with Cons.IH obtain before s' after where "prefs = before @ s' # after" "t \<in> set tasks"
        "jstr (lit ''status'') t = Some s'" "jstr_or (lit ''id'') [] t \<notin> set claimed"
        "list_all (\<lambda>u. jstr_or (lit ''id'') [] u \<in> set claimed \<or> jstr (lit ''status'') u \<notin> Some ` set before) tasks"
        by auto
      with None n Some show ?thesis
        by (simp del: ex_simps) (intro exI [of _ "s # before"] exI [of _ s'] exI [of _ after], auto simp: list_all_iff)
    qed
  qed
qed (simp add: list_all_iff)

end
