(* ===== verification/KanbanRuns.thy ===== *)
theory KanbanRuns
  imports KanbanLaws
begin

text \<open>
  The laws of the Kanban tools at a concrete board: a project with a done task, a task in review
  and one to do, two verifiers with session tokens, and a surrounding in which everything works.
\<close>

section \<open>A sequence of edits\<close>

definition demo_verified :: "tool_error + project_doc" where
  "demo_verified = apply_status (demo 7) (lit ''v1'') (lit ''verifier'') (lit ''T2'') (lit ''done'')
     (lit ''ran the tests'') (Fin 1) demo_doc"

lemma demo_verified_ok: "is_ok demo_verified" by code_simp

lemma demo_verified_edit:
  obtains p' where "demo_verified = Inr p'" and "project_edit demo_doc p'"
proof -
  obtain p' where p': "demo_verified = Inr p'" using demo_verified_ok by (auto simp: is_ok_iff)
  have s: "normalize_task_status (lit ''done'') = Inr (lit ''done'')" by code_simp
  show thesis
    by (rule that [OF p' project_edit.moved [OF s p' [unfolded demo_verified_def]]])
qed

theorem project_edit_refines_board_witness:
  "case demo_verified of Inl _ \<Rightarrow> False | Inr p' \<Rightarrow> board_step (board_of demo_doc) (board_of p')"
proof (rule demo_verified_edit)
  fix p' assume p': "demo_verified = Inr p'" "project_edit demo_doc p'"
  from project_edit_refines_board [OF p'(2)] show ?thesis unfolding p'(1) by simp
qed

lemma demo_done: "task_at demo_doc 0 (Some (lit ''done''))" and demo_not_done: "\<not> task_at demo_doc 1 (Some (lit ''done''))"
  by (code_simp, code_simp)

lemma demo_verified_done:
  "case demo_verified of Inl _ \<Rightarrow> False | Inr p' \<Rightarrow> task_at p' 1 (Some (lit ''done''))"
  by code_simp



section \<open>Whole calls\<close>

definition verifier_session :: "rstr \<Rightarrow> json" where
  "verifier_session a = JObj
     [(lit ''agentId'', JStr a), (lit ''role'', JStr (lit ''verifier'')), (lit ''status'', JStr (lit ''active'')),
      (lit ''sessionTokenHash'', JStr (demo_digest (lit ''tk''))), (lit ''sessionTokenIssuedAt'', JStr (lit ''5''))]"

definition v1_claim :: json where
  "v1_claim = JObj
     [(lit ''projectId'', JStr (lit ''proj'')), (lit ''taskId'', JStr (lit ''T2'')), (lit ''agentId'', JStr (lit ''v1'')),
      (lit ''role'', JStr (lit ''verifier'')), (lit ''status'', JStr (lit ''claimed'')), (lit ''leaseUntil'', JStr (lit ''99''))]"

definition board_agents :: "json list \<Rightarrow> json" where
  "board_agents claims = JObj
     [(lit ''version'', JInt 2), (lit ''updatedAt'', JStr (lit ''0'')),
      (lit ''sessions'', JArr [verifier_session (lit ''v1''), verifier_session (lit ''v2'')]),
      (lit ''claims'', JArr claims), (lit ''events'', JArr [])]"

text \<open>The disk refers to its documents by name: \<open>S\<close> has a claim of \<open>v1\<close>, \<open>E\<close> has none.\<close>

definition board_disk :: "rstr \<Rightarrow> disk" where
  "board_disk agents = demo_disk [(agents_state_path demo_dir, agents), (demo_project_path, demo_project_text)]"

definition board_table :: "(rstr \<times> json) list" where
  "board_table = [(lit ''S'', board_agents [v1_claim]), (lit ''E'', board_agents []), (lit ''P'', demo_project_state)]"

definition quick_env :: "int \<Rightarrow> ambient" where
  "quick_env t = (demo t)\<lparr>json_parse := map_of board_table, json_pretty := (\<lambda>_. Some (lit ''P''))\<rparr>"

definition demo_finish :: "(tool_error + json) \<times> disk" where
  "demo_finish = project_update_status (quick_env 50) (quick_env 51) (\<lambda>d. d) demo_dir (lit ''proj'') (lit ''T2'')
     (lit ''Done'') (lit ''v1'') (lit ''verifier'') (Some (lit ''ran the tests'')) (Some (Fin 1)) (Some (lit ''tk''))
     (board_disk (lit ''S''))"

lemma demo_finish_ok: "is_ok (fst demo_finish)"
  by code_simp

theorem done_only_by_verifier_witness:
  "\<exists>st session. read_agents_state (quick_env 50) demo_dir (board_disk (lit ''S'')) = (Inr st, board_disk (lit ''S'')) \<and>
     find_session st (trim (lit ''v1'')) = Some session \<and>
     normalize_role (jstr_or (lit ''role'') [] session) = Inr (lit ''verifier'') \<and>
     is_ok (require_session_token (quick_env 50) session (Some (lit ''tk'')))"
proof -
  obtain out where u: "project_update_status (quick_env 50) (quick_env 51) (\<lambda>d. d) demo_dir (lit ''proj'') (lit ''T2'')
     (lit ''Done'') (lit ''v1'') (lit ''verifier'') (Some (lit ''ran the tests'')) (Some (Fin 1)) (Some (lit ''tk''))
     (board_disk (lit ''S'')) = (Inr out, snd demo_finish)"
    using demo_finish_ok unfolding demo_finish_def is_ok_iff by (metis prod.collapse)
  have s: "normalize_task_status (lit ''Done'') = Inr (lit ''done'')" by code_simp
  from done_only_by_verifier [OF u s] show ?thesis by blast
qed

text \<open>An environment that keeps documents under names and writes them out in full, so that every
  document reads back as it was written; a time stamp is one character.\<close>

definition full_env :: "int \<Rightarrow> ambient" where
  "full_env t = (demo t)\<lparr>fmt_ts := (\<lambda>i. [up_char i]),
     parse_rfc3339 := (\<lambda>s. case s of [c] \<Rightarrow> Some (down_char c) | _ \<Rightarrow> None), json_parse := (\<lambda>s. case map_of board_table s of Some j \<Rightarrow> Some j | None \<Rightarrow> demo_parse s)\<rparr>"

lemma show_json_not_named: "map_of board_table (show_json j) = None"
proof -
  have "c \<noteq> 69 \<and> c \<noteq> 80 \<and> c \<noteq> 83" if "c \<in> set (show_json j)" for c
    using that by (auto simp: show_json_def up_char_def split: if_splits)
  then have "show_json j \<noteq> [69]" "show_json j \<noteq> [80]" "show_json j \<noteq> [83]"
    by (metis list.set_intros(1))+
  then show ?thesis by (simp add: board_table_def lit_def)
qed

lemma full_serde: "serde_roundtrip (full_env s) (full_env t)"
  by (auto simp: serde_roundtrip_def full_env_def demo_def show_json_not_named)

lemma full_rfc3339: "rfc3339_roundtrip (full_env s) (full_env t)"
proof -
  have "trim [up_char i] = [up_char i]" for i
    by (rule trim_nonws) (auto simp: up_char_def is_ws_def)
  moreover have "\<not> ends_with [up_char i] (lit ''Z'')" for i
    by (auto simp: ends_with_def lit_def up_char_def)
  ultimately show ?thesis
    by (simp add: rfc3339_roundtrip_def full_env_def demo_def parse_iso_timestamp_def Let_def)
qed

definition demo_claim :: "(tool_error + json) \<times> disk" where
  "demo_claim = project_claim_task (full_env 50) (full_env 51) (\<lambda>d. d) demo_dir (lit ''proj'') (lit ''T2'')
     (lit ''v1'') (lit ''verifier'') (Some (lit ''tk'')) (board_disk (lit ''E''))"

lemma demo_claim_ok: "is_ok (fst demo_claim)"
  by code_simp

lemma demo_claim_Inr:
  obtains out where "project_claim_task (full_env 50) (full_env 51) (\<lambda>d. d) demo_dir (lit ''proj'') (lit ''T2'')
     (lit ''v1'') (lit ''verifier'') (Some (lit ''tk'')) (board_disk (lit ''E'')) = (Inr out, snd demo_claim)"
  using demo_claim_ok unfolding demo_claim_def is_ok_iff by (metis prod.collapse)

lemma demo_board_read:
  obtains st2 where "read_agents_state (full_env 51) demo_dir (board_disk (lit ''E'')) = (Inr st2, board_disk (lit ''E''))"
    and "jarr (lit ''claims'') st2 = Some []"
proof -
  let ?st = "normalize_agents_state (full_env 51) (board_agents [])"
  have "jarr (lit ''claims'') ?st = Some []" by code_simp
  moreover have "read_agents_state (full_env 51) demo_dir (board_disk (lit ''E'')) = (Inr ?st, board_disk (lit ''E''))"
    by (simp add: read_agents_state_def board_disk_def demo_disk_def full_env_def demo_def board_table_def)
  ultimately show thesis using that by blast
qed



theorem pick_task_spec_witness:
  "case pick_task [lit ''T3''] [lit ''todo'', lit ''review''] (tasks_of demo_project_state) of
     None \<Rightarrow> False | Some t \<Rightarrow> jstr_or (lit ''id'') [] t \<noteq> lit ''T3'' \<and> t \<in> set (tasks_of demo_project_state)"
proof -
  have "pick_task [lit ''T3''] [lit ''todo'', lit ''review''] (tasks_of demo_project_state) =
      Some (demo_task (lit ''T2'') (lit ''review'') [lit ''T1''])"
    by code_simp
  with pick_task_spec [of "[lit ''T3'']" "[lit ''todo'', lit ''review'']" "tasks_of demo_project_state"]
  show ?thesis by auto
qed

end
