(* ===== verification/CensorSeverity.thy ===== *)
theory CensorSeverity
  imports CensorSchema
begin

text \<open>
  The mapping of each tool's own severity vocabulary onto the Censor's,
  \<open>backend/censor/severity.rs\<close>: one total function per tool, in the order of the code.
\<close>

section \<open>The normalizers\<close>

definition severity_from_clippy :: "rstr \<Rightarrow> severity \<times> category" where
  "severity_from_clippy level =
     (let l = to_lower (trim level) in
      (if l \<in> set [lit ''deny'', lit ''error'', lit ''ice''] then High
       else if l \<in> set [lit ''warn'', lit ''warning''] then Medium
       else if l \<in> set [lit ''note'', lit ''help'', lit ''info''] then Low
       else Medium, Correctness))"

definition severity_from_cargo_check :: "rstr \<Rightarrow> severity \<times> category" where
  "severity_from_cargo_check level =
     (let l = to_lower (trim level) in
      (if l \<in> set [lit ''error'', lit ''error: internal compiler error'', lit ''ice''] then High
       else if l \<in> set [lit ''warn'', lit ''warning''] then Medium
       else if l \<in> set [lit ''note'', lit ''help'', lit ''info''] then Low
       else High, Correctness))"

definition severity_from_ruff :: "rstr \<Rightarrow> severity \<times> category" where
  "severity_from_ruff rule_code =
     (let upper = to_upper (trim rule_code) in
      if starts_with upper (lit ''S'') then (High, Security)
      else if starts_with upper (lit ''B'') \<or> starts_with upper (lit ''E9'') \<or> starts_with upper (lit ''F'')
      then (Medium, Correctness)
      else (Low, Style))"

definition severity_from_bandit :: "rstr \<Rightarrow> severity \<times> category" where
  "severity_from_bandit sev =
     (let l = to_upper (trim sev) in
      (if l \<in> set [lit ''HIGH''] then High
       else if l \<in> set [lit ''MEDIUM''] then Medium
       else if l \<in> set [lit ''LOW''] then Low
       else Medium, Security))"

definition severity_from_vulture :: "severity \<times> category" where
  "severity_from_vulture = (Low, DeadCode)"

definition severity_from_cargo_fmt :: "severity \<times> category" where
  "severity_from_cargo_fmt = (Low, Style)"

definition severity_from_gofmt :: "severity \<times> category" where
  "severity_from_gofmt = (Low, Style)"

definition severity_from_go_vet :: "severity \<times> category" where
  "severity_from_go_vet = (Medium, Correctness)"

definition severity_from_cppcheck :: "rstr \<Rightarrow> severity \<times> category" where
  "severity_from_cppcheck sev =
     (let l = to_lower (trim sev) in
      (if l \<in> set [lit ''error'', lit ''warning''] then Medium
       else if l \<in> set [lit ''portability'', lit ''performance''] then Low
       else Low, Correctness))"

definition severity_from_tidy :: "rstr \<Rightarrow> severity \<times> category" where
  "severity_from_tidy sev =
     (let l = to_lower (trim sev) in
      (if l \<in> set [lit ''error''] then Medium
       else if l \<in> set [lit ''warning''] then Low
       else Low, Correctness))"

definition severity_from_ktlint :: "severity \<times> category" where
  "severity_from_ktlint = (Low, Style)"

definition severity_from_shellcheck :: "rstr \<Rightarrow> severity \<times> category" where
  "severity_from_shellcheck level =
     (let l = to_lower (trim level) in
      if l \<in> set [lit ''error''] then (Medium, Correctness)
      else if l \<in> set [lit ''warning''] then (Low, Correctness)
      else if l \<in> set [lit ''info'', lit ''style''] then (Low, Style)
      else (Low, Style))"

definition severity_from_yamllint :: "rstr \<Rightarrow> severity \<times> category" where
  "severity_from_yamllint level =
     (let l = to_lower (trim level) in
      if l \<in> set [lit ''error''] then (Medium, Correctness)
      else if l \<in> set [lit ''warning''] then (Low, Style)
      else (Low, Style))"

definition severity_from_sqlfluff :: "severity \<times> category" where
  "severity_from_sqlfluff = (Low, Style)"

definition severity_from_hadolint :: "rstr \<Rightarrow> severity \<times> category" where
  "severity_from_hadolint level =
     (let l = to_lower (trim level) in
      if l \<in> set [lit ''error''] then (Medium, Correctness)
      else if l \<in> set [lit ''warning''] then (Low, Correctness)
      else if l \<in> set [lit ''info'', lit ''style''] then (Low, Style)
      else (Low, Style))"

definition severity_from_actionlint :: "severity \<times> category" where
  "severity_from_actionlint = (Medium, Correctness)"

definition severity_from_stylelint :: "rstr \<Rightarrow> severity \<times> category" where
  "severity_from_stylelint severity =
     (let l = to_lower (trim severity) in
      if l \<in> set [lit ''error''] then (Medium, Correctness)
      else if l \<in> set [lit ''warning''] then (Low, Style)
      else (Low, Style))"

definition severity_from_npm_audit :: "rstr \<Rightarrow> severity \<times> category" where
  "severity_from_npm_audit sev =
     (let l = to_lower (trim sev) in
      (if l \<in> set [lit ''critical'', lit ''high''] then High
       else if l \<in> set [lit ''moderate''] then Medium
       else if l \<in> set [lit ''low''] then Low
       else Medium, Security))"

text \<open>No trim here, unlike the others.\<close>

definition severity_from_cargo_deny :: "rstr \<Rightarrow> severity \<times> category" where
  "severity_from_cargo_deny sev = (if to_lower sev = lit ''error'' then (Medium, Security) else (Low, Security))"

definition severity_from_zizmor :: "rstr \<Rightarrow> severity \<times> category" where
  "severity_from_zizmor sev =
     (let l = to_lower (trim sev) in
      (if l \<in> set [lit ''high''] then High
       else if l \<in> set [lit ''medium''] then Medium
       else if l \<in> set [lit ''low'', lit ''informational''] then Low
       else Medium, Security))"

definition severity_from_format_checker :: "severity \<times> category" where
  "severity_from_format_checker = (Low, Style)"

definition gitleaks_category :: "severity \<times> category" where
  "gitleaks_category = (High, Security)"

definition jscpd_category :: "severity \<times> category" where
  "jscpd_category = (Medium, Duplication)"

definition lizard_complexity :: "32 word \<Rightarrow> 32 word \<Rightarrow> (severity \<times> category) option" where
  "lizard_complexity ccn threshold = (if ccn > threshold then Some (Medium, Complexity) else None)"

definition severity_from_eslint :: "rstr \<Rightarrow> severity \<times> category" where
  "severity_from_eslint level =
     (let l = to_lower (trim level) in
      (if l \<in> set [lit ''2'', lit ''error''] then High
       else if l \<in> set [lit ''1'', lit ''warn'', lit ''warning''] then Medium
       else if l \<in> set [lit ''0'', lit ''off''] then Low
       else Medium, Correctness))"

definition severity_from_tsc :: "rstr \<Rightarrow> severity \<times> category" where
  "severity_from_tsc cat =
     (let l = to_lower (trim cat) in
      (if l \<in> set [lit ''error''] then High
       else if l \<in> set [lit ''warning''] then Medium
       else if l \<in> set [lit ''suggestion'', lit ''message'', lit ''info''] then Low
       else High, Correctness))"

definition severity_from_pyright :: "rstr \<Rightarrow> severity \<times> category" where
  "severity_from_pyright severity =
     (let l = to_lower (trim severity) in
      (if l \<in> set [lit ''error''] then High
       else if l \<in> set [lit ''warning''] then Medium
       else if l \<in> set [lit ''information'', lit ''info''] then Low
       else High, Correctness))"

definition severity_from_oxlint :: "rstr \<Rightarrow> severity \<times> category" where
  "severity_from_oxlint message = (if contains_sub message (lit ''[Error'') then High else Medium, Correctness)"

definition severity_from_semgrep :: "rstr \<Rightarrow> severity \<times> category" where
  "severity_from_semgrep sev =
     (let l = to_upper (trim sev) in
      (if l \<in> set [lit ''ERROR''] then High
       else if l \<in> set [lit ''WARNING''] then Medium
       else if l \<in> set [lit ''INFO''] then Low
       else Medium, Security))"

definition knip_category :: "severity \<times> category" where
  "knip_category = (Low, DeadCode)"

section \<open>What the mapping promises\<close>

text \<open>The tools rolled out as advisory, at any level they report.\<close>

definition advisory_results :: "rstr \<Rightarrow> (severity \<times> category) list" where
  "advisory_results level =
     [severity_from_go_vet, severity_from_cppcheck level, severity_from_tidy level,
      severity_from_shellcheck level, severity_from_yamllint level, severity_from_hadolint level,
      severity_from_actionlint, severity_from_stylelint level, severity_from_cargo_deny level]"

lemmas advisory_defs = severity_from_go_vet_def severity_from_cppcheck_def severity_from_tidy_def
  severity_from_shellcheck_def severity_from_yamllint_def severity_from_hadolint_def
  severity_from_actionlint_def severity_from_stylelint_def severity_from_cargo_deny_def

lemmas levelled_defs = severity_from_clippy_def severity_from_cargo_check_def severity_from_bandit_def
  severity_from_npm_audit_def severity_from_zizmor_def severity_from_eslint_def severity_from_tsc_def
  severity_from_pyright_def severity_from_semgrep_def

text \<open>a tool that is still advisory never raises a finding to high, whatever level it reports; the
  order on severities is that of their ranks, so its findings sort below every high one.\<close>

theorem advisory_never_high:
  "list_all (\<lambda>(s, _). s \<noteq> High \<and> s < High) (advisory_results level)"
  by (simp add: advisory_results_def advisory_defs Let_def less_severity_def)

text \<open>The results of every tool that reports a level, at one level.\<close>

definition levelled_results :: "rstr \<Rightarrow> (severity \<times> category) list" where
  "levelled_results level =
     [severity_from_clippy level, severity_from_cargo_check level, severity_from_bandit level,
      severity_from_cppcheck level, severity_from_tidy level, severity_from_shellcheck level,
      severity_from_yamllint level, severity_from_hadolint level, severity_from_stylelint level,
      severity_from_npm_audit level, severity_from_zizmor level, severity_from_eslint level,
      severity_from_tsc level, severity_from_pyright level, severity_from_semgrep level]"

lemma upper_lower_char: "upper_char (lower_char c) = upper_char c"
  by (auto simp: upper_char_def lower_char_def is_lower_def is_upper_def)

lemma to_upper_lower: "to_upper (to_lower s) = to_upper s"
  by (simp add: to_upper_def to_lower_def upper_lower_char)

text \<open>the level of a tool is read without regard to case and to surrounding blanks: two
  spellings of one level give the same severity and category for every tool that reports levels.\<close>

theorem levels_case_insensitive:
  assumes "eq_ignore_case (trim s) (trim t)"
  shows "levelled_results s = levelled_results t"
proof -
  have l: "to_lower (trim s) = to_lower (trim t)" using assms by (simp add: eq_ignore_case_def)
  then have "to_upper (trim s) = to_upper (trim t)" by (metis to_upper_lower)
  with l show ?thesis by (simp add: levelled_results_def advisory_defs levelled_defs)
qed

theorem levels_case_insensitive_witness: "levelled_results (lit '' Error'') = levelled_results (lit ''ERROR'')"
proof -
  have "eq_ignore_case (trim (lit '' Error'')) (trim (lit ''ERROR''))" by code_simp
  then show ?thesis by (rule levels_case_insensitive)
qed

text \<open>Two facts about single tools: ruff's flake8-simplify rules share their first letter with the
  security rules, and a diagnostic of an unknown level counts as high for three of the tools.\<close>

lemma ruff_simplify_is_security: "severity_from_ruff (lit ''SIM102'') = (High, Security)"
  by code_simp

lemma unknown_level_high:
  "severity_from_cargo_check [] = (High, Correctness)" "severity_from_tsc [] = (High, Correctness)"
  "severity_from_pyright [] = (High, Correctness)" "severity_from_hadolint [] = (Low, Style)"
  by (simp_all add: levelled_defs advisory_defs Let_def trim_def trim_end_def trim_start_def to_lower_def)

end
