(* ===== verification/CensorShards.thy ===== *)
theory CensorShards
  imports CensorLedger Environment
begin

text \<open>
  What the operations of \<open>backend/censor/ledger.rs\<close> leave on disk: a review pass and a disposition
  either store the whole new shard or leave the old one readable, a corrupt shard is never
  overwritten, and nothing but the shard and its temporary and backup files is touched.
\<close>

section \<open>Reading and writing a shard\<close>

lemma read_shard_at_disk: "snd (read_shard_at A p d) = d"
  by (simp add: read_shard_at_def split: option.split)

lemma read_shard_at_same: "read_shard_at A p d = (r, d') \<Longrightarrow> d' = d"
  using read_shard_at_disk [of A p d] by simp

lemma shard_read_back:
  assumes "serde_roundtrip A B" and "read_ok B p" and "json_pretty A (ser_shard s) = Some c" and "files d p = Some c"
  shows "read_shard_at B p d = (Inr (Some s), d)"
  using assms unfolding serde_roundtrip_def
  by (auto simp: read_shard_at_def de_shard_ser)

text \<open>What became of the file \<open>p\<close>, by the result of a write of \<open>s\<close> to it.\<close>

definition shard_kept :: "ambient \<Rightarrow> path \<Rightarrow> disk \<Rightarrow> ledger_error \<Rightarrow> disk \<Rightarrow> bool" where
  "shard_kept A p d e d' \<longleftrightarrow>
     (case e of ShardNotReplaced (RestoreAlsoFailed _ b) \<Rightarrow> b = shard_backup A p \<and> files d' b = files d p
      | _ \<Rightarrow> files d' p = files d p)"

lemma shard_kept_same: "(\<forall>r. e \<noteq> ShardNotReplaced r) \<Longrightarrow> shard_kept A p d e d"
  by (cases e) (simp_all add: shard_kept_def)

lemma write_shard_locked_frame:
  assumes "write_shard_locked A p s d = (r, d')" and "q \<notin> {p, shard_temp A p, shard_backup A p}"
  shows "files d' q = files d q"
  using assms replace_impl_frame [of "plan_for A p" "shard_temp A p" p "shard_backup A p" _ False]
  by (fastforce simp: write_shard_locked_def Let_def files_try_remove replace_file_with_backup_def
      split: option.splits if_splits prod.splits sum.splits)

lemma write_shard_locked_outcome:
  assumes w: "write_shard_locked A p s d = (r, d')" and p: "shard_path A dir rel = Inr p"
  shows "case r of Inr _ \<Rightarrow> (\<exists>c. json_pretty A (ser_shard s) = Some c \<and> files d' p = Some c)
    | Inl e \<Rightarrow> shard_kept A p d e d'"
proof (cases "json_pretty A (ser_shard s)")
  case None
  with w show ?thesis by (auto simp: write_shard_locked_def shard_kept_same)
next
  case (Some c)
  have dist: "distinct [shard_temp A p, p, shard_backup A p]" by (rule shard_files_distinct [OF p])
  show ?thesis
  proof (cases "temp_ok (plan_for A p)")
    case False
    with w Some dist show ?thesis
      by (auto simp: write_shard_locked_def Let_def shard_kept_def files_try_remove)
  next
    case True
    obtain r1 d1 where run: "replace_file_with_backup (plan_for A p) (shard_temp A p) p (shard_backup A p)
        (lit ''censor shard'') (write_file (shard_temp A p) (Some c) d) = (r1, d1)" by fastforce
    from replace_impl_outcome [OF run [unfolded replace_file_with_backup_def] dist] dist w Some True run
    show ?thesis
      by (cases r1) (auto simp: write_shard_locked_def Let_def shard_kept_def split: replace_error.splits)
  qed
qed

lemma shard_path_error: "shard_path A dir rel = Inl e \<Longrightarrow> \<forall>r. e \<noteq> ShardNotReplaced r"
  by (auto simp: shard_path_def bindE_def validate_rel_path_def Let_def split: sum.splits if_splits
      dest: check_components_error)

lemma lock_shard_error: "lock_shard A p = Inl e \<Longrightarrow> \<forall>r. e \<noteq> ShardNotReplaced r"
  by (auto simp: lock_shard_def Let_def bindE_def assertE_def split: if_splits)

lemma read_shard_at_error: "read_shard_at A p d = (Inl e, d') \<Longrightarrow> e = ShardCorrupt p \<or> e = ShardUnreadable p"
  by (auto simp: read_shard_at_def split: option.splits if_splits)

lemma write_shard_locked_error:
  "write_shard_locked A p s d = (Inl e, d') \<Longrightarrow> e = ShardNotSerialized \<or> e = TempNotWritten (shard_temp A p) \<or> (\<exists>r. e = ShardNotReplaced r)"
  by (auto simp: write_shard_locked_def Let_def split: option.splits if_splits prod.splits sum.splits)

section \<open>One critical section\<close>

text \<open>Both operations lock the shard, read it, compute a new shard or an error from what they read, and
  write it.\<close>

definition shard_section :: "ambient \<Rightarrow> path \<Rightarrow> (shard option \<Rightarrow> ledger_error + shard) \<Rightarrow> unit lio" where
  "shard_section A p f =
     bindS (liftE (lock_shard A p)) (\<lambda>_.
     bindS (read_shard_at A p) (\<lambda>existing.
     bindS (liftE (f existing)) (write_shard_locked A p)))"

lemma shard_section_cases:
  assumes "shard_section A p f d = (r, d')"
  obtains (early) e where "r = Inl e" and "d' = d" and "lock_shard A p = Inl e \<or> read_shard_at A p d = (Inl e, d) \<or>
        (\<exists>old. read_shard_at A p d = (Inr old, d) \<and> f old = Inl e)"
  | (stored) old s where "lock_shard A p = Inr ()" and "read_shard_at A p d = (Inr old, d)" and "f old = Inr s" and
        "write_shard_locked A p s d = (r, d')"
proof (cases "lock_shard A p")
  case (Inl e)
  with assms show thesis by (intro early [of e]) (auto simp: shard_section_def bindS_def liftE_def)
next
  case (Inr u)
  obtain a where a: "read_shard_at A p d = (a, d)" using read_shard_at_disk [of A p d] by (metis prod.collapse)
  show thesis
  proof (cases a)
    case (Inl e)
    with assms a Inr show thesis by (intro early [of e]) (auto simp: shard_section_def bindS_def liftE_def)
  next
    case old: (Inr old)
    with assms a Inr early stored show thesis
      by (cases "f old") (auto simp: shard_section_def bindS_def liftE_def)
  qed
qed

lemma shard_section_safe:
  assumes run: "shard_section A p f d = (r, d')" and p: "shard_path A dir rel = Inr p"
    and err: "\<And>old e. f old = Inl e \<Longrightarrow> \<forall>r. e \<noteq> ShardNotReplaced r"
  shows "case r of
      Inr _ \<Rightarrow> (\<exists>old s c. read_shard_at A p d = (Inr old, d) \<and> f old = Inr s \<and>
        json_pretty A (ser_shard s) = Some c \<and> files d' p = Some c)
    | Inl e \<Rightarrow> shard_kept A p d e d'"
  using run
proof (cases rule: shard_section_cases)
  case (early e)
  then have "\<forall>r. e \<noteq> ShardNotReplaced r"
    using lock_shard_error read_shard_at_error err by blast
  with early show ?thesis by (simp add: shard_kept_same)
next
  case (stored old s)
  from write_shard_locked_outcome [OF stored(4) p] stored(2,3) show ?thesis
    by (auto split: sum.splits)
qed

lemma shard_section_frame:
  assumes "shard_section A p f d = (r, d')" and "q \<notin> {p, shard_temp A p, shard_backup A p}"
  shows "files d' q = files d q"
  using assms(1) by (cases rule: shard_section_cases) (use write_shard_locked_frame assms(2) in auto)

lemma shard_section_unread:
  "shard_section A p f d = (r, d') \<Longrightarrow> fst (read_shard_at A p d) = Inl e \<Longrightarrow> d' = d"
  by (auto elim!: shard_section_cases)

section \<open>A review pass\<close>

lemma review_section:
  assumes run: "read_supersede_write_shard A dir new h refreshed rel now d = (r, d')"
    and p: "shard_path A dir rel = Inr p"
  shows "\<exists>r0. shard_section A p (\<lambda>old. Inr (supersede_sources A old new h refreshed rel now)) d = (r0, d') \<and>
    (case r of Inl e \<Rightarrow> r0 = Inl e
     | Inr m \<Rightarrow> r0 = Inr () \<and> (\<exists>old. read_shard_at A p d = (Inr old, d) \<and> m = supersede_sources A old new h refreshed rel now))"
  using run p read_shard_at_disk [of A p d]
  by (auto simp: read_supersede_write_shard_def shard_section_def bindS_def liftE_def returnS_def Let_def
      split: sum.splits prod.splits)

text \<open>C36: a review pass is all or nothing. When it returns a shard, that shard is the merge of what it
  read under the lock, and any later reader finds exactly that shard. When it fails, the old shard is
  still in its file, or in the backup that the error names. A corrupt or unreadable shard is never
  overwritten, and no file but the shard's own is touched.\<close>

theorem review_pass_all_or_nothing:
  assumes run: "read_supersede_write_shard A dir new h refreshed rel now d = (r, d')"
    and p: "shard_path A dir rel = Inr p"
    and codec: "serde_roundtrip A B" "read_ok B p"
  shows "(case r of
      Inr m \<Rightarrow> (\<exists>old. read_shard_at A p d = (Inr old, d) \<and> m = supersede_sources A old new h refreshed rel now) \<and>
        read_shard_at B p d' = (Inr (Some m), d')
    | Inl e \<Rightarrow> shard_kept A p d e d') \<and>
    (\<forall>q. q \<notin> {p, shard_temp A p, shard_backup A p} \<longrightarrow> files d' q = files d q) \<and>
    (\<forall>c. files d p = Some c \<and> (\<not> read_ok A p \<or> Option.bind (json_parse A c) de_shard = None) \<longrightarrow> d' = d)"
proof -
  obtain r0 where s: "shard_section A p (\<lambda>old. Inr (supersede_sources A old new h refreshed rel now)) d = (r0, d')"
    and r: "case r of Inl e \<Rightarrow> r0 = Inl e
     | Inr m \<Rightarrow> r0 = Inr () \<and> (\<exists>old. read_shard_at A p d = (Inr old, d) \<and> m = supersede_sources A old new h refreshed rel now)"
    using review_section [OF run p] by blast
  have "case r of
      Inr m \<Rightarrow> (\<exists>old. read_shard_at A p d = (Inr old, d) \<and> m = supersede_sources A old new h refreshed rel now) \<and>
        read_shard_at B p d' = (Inr (Some m), d')
    | Inl e \<Rightarrow> shard_kept A p d e d'"
    using shard_section_safe [OF s p] r shard_read_back [OF codec] by (auto split: sum.splits)
  moreover have "d' = d" if "files d p = Some c" "\<not> read_ok A p \<or> Option.bind (json_parse A c) de_shard = None" for c
  proof -
    have "\<exists>e. fst (read_shard_at A p d) = Inl e" using that by (auto simp: read_shard_at_def)
    with shard_section_unread [OF s] show ?thesis by blast
  qed
  ultimately show ?thesis using shard_section_frame [OF s] by blast
qed

section \<open>Disposing of a finding\<close>

definition disposed :: "rstr \<Rightarrow> rstr \<Rightarrow> disposition \<Rightarrow> rstr \<Rightarrow> rstr \<Rightarrow> shard option \<Rightarrow> ledger_error + shard" where
  "disposed rel i x actor now existing =
     bindE (ok_or existing (NoShard rel)) (\<lambda>s.
     bindE (assertE (list_ex (\<lambda>f. fi_id f = i) (sh_findings s)) (NoFinding i rel)) (\<lambda>_.
     Inr (s\<lparr>sh_findings := update_first (\<lambda>f. fi_id f = i) (dispose x actor now) (sh_findings s), sh_updated_at := now\<rparr>)))"

lemma dispose_section:
  assumes "shard_path A dir rel = Inr p"
  shows "dispose_finding A dir rel i x actor now = shard_section A p (disposed rel i x actor now)"
  by (rule ext) (auto simp: assms dispose_finding_def shard_section_def disposed_def bindS_def liftE_def bindE_def
      split: sum.splits prod.splits)

lemma disposed_error: "disposed rel i x actor now old = Inl e \<Longrightarrow> \<forall>r. e \<noteq> ShardNotReplaced r"
  by (auto simp: disposed_def bindE_def ok_or_def assertE_def split: sum.splits option.splits if_splits)

lemma dispose_fields [simp]:
  "fi_id (dispose x actor now f) = fi_id f" "fi_disposition (dispose x actor now f) = x"
  "fi_content_hash (dispose x actor now f) = fi_content_hash f"
  by (simp_all add: dispose_def)

text \<open>Repeating a disposition does not grow the audit trail.\<close>

lemma dispose_again: "dispose x actor t' (dispose x actor t f) = dispose x actor t f"
proof -
  let ?e = "\<lambda>t. \<lparr>pv_actor = actor, pv_action = disposition_action x, pv_role = [], pv_at = t\<rparr>"
  have "push_provenance (?e t') (push_provenance (?e t) ps) = push_provenance (?e t) ps" for ps
    using push_provenance_last [of "?e t" ps] by (simp add: push_provenance_def [of "?e t'"])
  then show ?thesis by (simp add: dispose_def)
qed

lemma update_first_split:
  "list_ex P xs \<Longrightarrow> \<exists>pre x post. xs = pre @ x # post \<and> P x \<and> (\<forall>y \<in> set pre. \<not> P y) \<and>
     update_first P f xs = pre @ f x # post"
proof (induction xs)
  case (Cons y ys)
  show ?case
  proof (cases "P y")
    case True
    then show ?thesis by (intro exI [of _ "[]"]) auto
  next
    case False
    with Cons obtain pre x post where "ys = pre @ x # post" "P x" "\<forall>y \<in> set pre. \<not> P y"
      "update_first P f ys = pre @ f x # post" by auto
    with False show ?thesis by (intro exI [of _ "y # pre"] exI [of _ x] exI [of _ post]) simp
  qed
qed simp

text \<open>C37: disposing of a finding changes that finding and nothing else. On success the shard had a
  finding of that id, and any later reader finds the same shard, in the same order, with the first such
  finding carrying the new disposition and an audit trail that ends with the actor and the action and is
  never longer than fifty entries if it was not before. On failure the shard is kept; without a shard or
  without the finding the disk is unchanged.\<close>

theorem dispose_finding_effect:
  assumes run: "dispose_finding A dir rel i x actor now d = (r, d')"
    and p: "shard_path A dir rel = Inr p"
    and codec: "serde_roundtrip A B" "read_ok B p"
  shows "case r of
      Inr _ \<Rightarrow> (\<exists>s pre f post f'. read_shard_at A p d = (Inr (Some s), d) \<and>
        sh_findings s = pre @ f # post \<and> fi_id f = i \<and> (\<forall>g \<in> set pre. fi_id g \<noteq> i) \<and>
        read_shard_at B p d' = (Inr (Some (s\<lparr>sh_findings := pre @ f' # post, sh_updated_at := now\<rparr>)), d') \<and>
        f' = f\<lparr>fi_disposition := x, fi_provenance := fi_provenance f'\<rparr> \<and>
        pv_actor (last (fi_provenance f')) = actor \<and> pv_action (last (fi_provenance f')) = disposition_action x \<and>
        (length (fi_provenance f) \<le> 50 \<longrightarrow> length (fi_provenance f') \<le> 50))
    | Inl e \<Rightarrow> shard_kept A p d e d' \<and> (e = NoShard rel \<or> e = NoFinding i rel \<longrightarrow> d' = d)"
proof -
  note s = run [unfolded dispose_section [OF p]]
  have safe: "case r of
      Inr _ \<Rightarrow> (\<exists>old s c. read_shard_at A p d = (Inr old, d) \<and> disposed rel i x actor now old = Inr s \<and>
        json_pretty A (ser_shard s) = Some c \<and> files d' p = Some c)
    | Inl e \<Rightarrow> shard_kept A p d e d'"
    by (rule shard_section_safe [OF s p]) (rule disposed_error)
  show ?thesis
  proof (cases r)
    case (Inr u)
    with safe obtain old t c where
      rd: "read_shard_at A p d = (Inr old, d)" and t: "disposed rel i x actor now old = Inr t"
      and c: "json_pretty A (ser_shard t) = Some c" "files d' p = Some c" by auto
    from t obtain s where s: "old = Some s" "list_ex (\<lambda>f. fi_id f = i) (sh_findings s)"
      "t = s\<lparr>sh_findings := update_first (\<lambda>f. fi_id f = i) (dispose x actor now) (sh_findings s), sh_updated_at := now\<rparr>"
      by (auto simp: disposed_def elim_bind)
    from update_first_split [OF s(2), of "dispose x actor now"] obtain pre f post where
      f: "sh_findings s = pre @ f # post" "fi_id f = i" "\<forall>g \<in> set pre. fi_id g \<noteq> i"
      "update_first (\<lambda>f. fi_id f = i) (dispose x actor now) (sh_findings s) = pre @ dispose x actor now f # post" by blast
    let ?f = "dispose x actor now f"
    have "?f = f\<lparr>fi_disposition := x, fi_provenance := fi_provenance ?f\<rparr>" by (simp add: dispose_def)
    moreover have "pv_actor (last (fi_provenance ?f)) = actor \<and> pv_action (last (fi_provenance ?f)) = disposition_action x"
      using push_provenance_last by (simp add: dispose_def)
    moreover have "length (fi_provenance f) \<le> 50 \<longrightarrow> length (fi_provenance ?f) \<le> 50"
      using audit_trail.push_bound by (simp add: dispose_def CENSOR_PROVENANCE_MAX_def)
    moreover have "read_shard_at B p d' = (Inr (Some (s\<lparr>sh_findings := pre @ ?f # post, sh_updated_at := now\<rparr>)), d')"
      using shard_read_back [OF codec c] s(3) f(4) by simp
    ultimately show ?thesis using Inr rd s(1) f(1-3) by auto
  next
    case (Inl e)
    have "d' = d" if "e = NoShard rel \<or> e = NoFinding i rel"
      using s
    proof (cases rule: shard_section_cases)
      case (stored old t)
      from write_shard_locked_error [OF stored(4) [unfolded Inl]] that show ?thesis by auto
    qed
    with Inl safe show ?thesis by auto
  qed
qed

section \<open>A shard on a working disk\<close>

definition demo_finding :: finding where
  "demo_finding = \<lparr>fi_id = lit ''f1'', fi_file = lit ''a'', fi_content_hash = lit ''h'', fi_line = Some 7,
     fi_severity = High, fi_category = Security, fi_source = lit ''semgrep'', fi_title = lit ''t'',
     fi_body = lit ''b'', fi_verdict = Suspected, fi_disposition = Wontfix, fi_provenance = [],
     fi_created_at = lit ''0'', fi_commit = None\<rparr>"

definition demo_shard :: shard where
  "demo_shard = \<lparr>sh_file_rel_path = lit ''a'', sh_content_hash = lit ''h'', sh_updated_at = lit ''0'',
     sh_findings = [demo_finding]\<rparr>"

definition demo_shard_path :: path where
  "demo_shard_path = censor_dir demo_dir @ [demo_digest (lit ''a'') @ lit ''.json'']"

definition demo_shard_disk :: disk where
  "demo_shard_disk = write_file demo_shard_path (Some (show_json (ser_shard demo_shard))) (demo_disk [])"

lemma demo_shard_path_ok: "shard_path (demo t) demo_dir (lit ''a'') = Inr demo_shard_path"
proof -
  have "validate_rel_path (lit ''a'') = Inr ()" by code_simp
  moreover have "normalize_rel_path (lit ''a'') = lit ''a''" by code_simp
  ultimately show ?thesis by (simp add: shard_path_def demo_shard_path_def demo_def)
qed

lemma demo_lock: "lock_shard (demo t) p = Inr ()"
proof -
  have "lock_attempts (\<lambda>_. True) 0 100 \<noteq> None" by (simp add: numeral_nat)
  then show ?thesis by (simp add: lock_shard_def demo_def Let_def)
qed

lemma demo_read: "read_shard_at (demo t) demo_shard_path demo_shard_disk = (Inr (Some demo_shard), demo_shard_disk)"
  by (simp add: read_shard_at_def demo_shard_disk_def demo_def de_shard_ser)

lemma demo_write:
  assumes "shard_path A dir rel = Inr p" and "A = demo t"
  shows "fst (write_shard_locked A p s d) = Inr ()"
  using shard_files_distinct [OF assms(1)] assms(2)
  by (auto simp: write_shard_locked_def Let_def demo_def demo_plan_def replace_file_with_backup_def
      replace_file_with_backup_impl_def host_replace_existing_def split: prod.splits sum.splits)

definition demo_pass :: "(ledger_error + shard) \<times> disk" where
  "demo_pass = read_supersede_write_shard (demo 0) demo_dir [] (lit ''h'') [lit ''semgrep''] (lit ''a'') (lit ''1'')
     demo_shard_disk"

lemma demo_pass_ok: "is_ok (fst demo_pass)"
  using demo_write [OF demo_shard_path_ok refl]
  by (auto simp: demo_pass_def read_supersede_write_shard_def bindS_def liftE_def demo_shard_path_ok demo_lock
      demo_read returnS_def Let_def split: prod.splits sum.splits) (metis fst_conv Inl_Inr_False)

text \<open>The finding was judged, so the pass that no longer reports it keeps it.\<close>

theorem supersede_keeps_judgements_witness:
  "\<exists>g \<in> set (sh_findings (supersede_inner (demo 0) (Some demo_shard) [] (lit ''h'') None (lit ''a'') (lit ''1''))).
     fi_id g = lit ''f1'' \<and> fi_disposition g = Wontfix"
proof -
  have "distinct (map fi_id (findings_of (Some demo_shard)))" "demo_finding \<in> set (findings_of (Some demo_shard))"
    by (simp_all add: findings_of_def demo_shard_def)
  moreover have "fi_content_hash demo_finding = lit ''h''" "fi_disposition demo_finding = Wontfix"
      "fi_id demo_finding = lit ''f1''" by (simp_all add: demo_finding_def)
  ultimately show ?thesis
    using supersede_keeps_judgements [OF demo_walks_keys, of "Some demo_shard" demo_finding "lit ''h''" 0 "[]" None "lit ''a''" "lit ''1''"]
    by fastforce
qed

theorem supersede_well_formed_witness:
  "distinct (map fi_id (sh_findings (supersede_inner (demo 0) (Some demo_shard) [demo_finding, demo_finding]
     (lit ''h'') None (lit ''a'') (lit ''1''))))"
  using supersede_well_formed [OF demo_walks_keys, of 0 "Some demo_shard" "[demo_finding, demo_finding]" "lit ''h''"
      None "lit ''a''" "lit ''1''"] by blast

theorem review_pass_all_or_nothing_witness:
  "\<exists>m. fst demo_pass = Inr m \<and>
     m = supersede_sources (demo 0) (Some demo_shard) [] (lit ''h'') [lit ''semgrep''] (lit ''a'') (lit ''1'') \<and>
     read_shard_at (demo 9) demo_shard_path (snd demo_pass) = (Inr (Some m), snd demo_pass)"
proof -
  obtain m where m: "fst demo_pass = Inr m" using demo_pass_ok by (auto simp: is_ok_iff)
  have "read_supersede_write_shard (demo 0) demo_dir [] (lit ''h'') [lit ''semgrep''] (lit ''a'') (lit ''1'')
     demo_shard_disk = (Inr m, snd demo_pass)" using m unfolding demo_pass_def by (metis prod.collapse)
  moreover have "read_ok (demo 9) demo_shard_path" by (simp add: demo_def)
  ultimately show ?thesis
    using review_pass_all_or_nothing [OF _ demo_shard_path_ok demo_serde, of 0 "[]" "lit ''h''" "[lit ''semgrep'']"
        "lit ''1''" demo_shard_disk "Inr m" "snd demo_pass" 9] m by (simp add: demo_read)
qed

definition demo_dispose :: "(ledger_error + unit) \<times> disk" where
  "demo_dispose = dispose_finding (demo 0) demo_dir (lit ''a'') (lit ''f1'') Fixed (lit ''human'') (lit ''1'')
     demo_shard_disk"

lemma demo_dispose_ok: "fst demo_dispose = Inr ()"
  using demo_write [OF demo_shard_path_ok refl]
  by (simp add: demo_dispose_def dispose_section [OF demo_shard_path_ok] shard_section_def bindS_def liftE_def
      demo_lock demo_read disposed_def demo_shard_def demo_finding_def)

theorem dispose_finding_effect_witness:
  "\<exists>f'. read_shard_at (demo 9) demo_shard_path (snd demo_dispose) =
      (Inr (Some (demo_shard\<lparr>sh_findings := [f'], sh_updated_at := lit ''1''\<rparr>)), snd demo_dispose) \<and>
    fi_disposition f' = Fixed \<and> pv_actor (last (fi_provenance f')) = lit ''human''"
proof -
  have run: "dispose_finding (demo 0) demo_dir (lit ''a'') (lit ''f1'') Fixed (lit ''human'') (lit ''1'')
     demo_shard_disk = (Inr (), snd demo_dispose)"
    using demo_dispose_ok unfolding demo_dispose_def by (metis prod.collapse)
  have ok: "read_ok (demo 9) demo_shard_path" by (simp add: demo_def)
  obtain s pre f post f' where s: "read_shard_at (demo 0) demo_shard_path demo_shard_disk = (Inr (Some s), demo_shard_disk)"
    and f: "sh_findings s = pre @ f # post" "fi_id f = lit ''f1''"
    and r: "read_shard_at (demo 9) demo_shard_path (snd demo_dispose) =
      (Inr (Some (s\<lparr>sh_findings := pre @ f' # post, sh_updated_at := lit ''1''\<rparr>)), snd demo_dispose)"
    and f': "f' = f\<lparr>fi_disposition := Fixed, fi_provenance := fi_provenance f'\<rparr>"
      "pv_actor (last (fi_provenance f')) = lit ''human''"
    using dispose_finding_effect [OF run demo_shard_path_ok demo_serde ok] by auto
  have "s = demo_shard" using s demo_read [of 0] by simp
  with f(1) have l: "[demo_finding] = pre @ f # post" by (simp add: demo_shard_def)
  then have "pre = []" "post = []" by (auto simp: Cons_eq_append_conv)
  moreover have "fi_disposition f' = Fixed" by (subst f'(1)) simp
  ultimately show ?thesis using r f'(2) \<open>s = demo_shard\<close> by auto
qed

end
