(* ===== verification/CensorVotes.thy ===== *)
theory CensorVotes
  imports CensorSchema "HOL-Library.List_Lexorder" "HOL-Library.Product_Lexorder" "HOL-Library.Multiset"
begin

text \<open>
  The voting of the Censor's local-model reviews, \<open>backend/censor/votes.rs\<close>, with the raw findings
  and the text cap of \<open>runners/mod.rs\<close> and the resolution of the voting parameters of \<open>gemma.rs\<close>.
  The argument \<open>alnum\<close> is the Unicode predicate \<open>char::is_alphanumeric\<close>. A similarity is a
  quotient of two word counts; as an \<open>f64\<close> it is rounded, which does not change its comparison with
  \<open>0.6\<close> or \<open>0.4\<close> for counts below \<open>2^50\<close>, so the model compares exact quotients. The keys of
  the findings that the merge loop computes once are computed here where they are used.
\<close>

section \<open>Raw findings\<close>

record raw_finding =
  rf_file :: rstr
  rf_line :: "32 word option"
  rf_severity :: severity
  rf_category :: category
  rf_source :: rstr
  rf_title :: rstr
  rf_body :: rstr

definition into_finding :: "ambient \<Rightarrow> raw_finding \<Rightarrow> rstr \<Rightarrow> rstr \<Rightarrow> finding" where
  "into_finding A r content_hash now =
     (let file = replace1 92 [47] (rf_file r) in
      \<lparr>fi_id = compute_id A file (rf_line r) (rf_category r) (rf_source r) (rf_title r), fi_file = file,
       fi_content_hash = content_hash, fi_line = rf_line r, fi_severity = rf_severity r,
       fi_category = rf_category r, fi_source = rf_source r, fi_title = rf_title r, fi_body = rf_body r,
       fi_verdict = Suspected, fi_disposition = Open,
       fi_provenance = [\<lparr>pv_actor = lit ''censor'', pv_action = lit ''created'', pv_role = [], pv_at = now\<rparr>],
       fi_created_at = now, fi_commit = None\<rparr>)"

definition cap :: "rstr \<Rightarrow> nat \<Rightarrow> rstr" where
  "cap s mx = (if length s \<le> mx then s else take mx s @ [8230])"

definition MAX_GEMMA_FINDINGS :: nat where "MAX_GEMMA_FINDINGS = 20"
definition BODY_CAP :: nat where "BODY_CAP = 1000"

section \<open>Voting parameters\<close>

record vote_params =
  n_samples :: "8 word"
  min_votes_block :: "8 word"
  min_votes_verify :: "8 word"
  line_tolerance :: int

definition default_vote_params :: vote_params where
  "default_vote_params = \<lparr>n_samples = 1, min_votes_block = 1, min_votes_verify = 1, line_tolerance = 2\<rparr>"

definition clamp8 :: "8 word \<Rightarrow> 8 word \<Rightarrow> 8 word \<Rightarrow> 8 word" where
  "clamp8 v lo hi = (if v < lo then lo else if hi < v then hi else v)"

definition div_ceil2 :: "8 word \<Rightarrow> 8 word" where
  "div_ceil2 n = n div 2 + (if n mod 2 = 0 then 0 else 1)"

definition review_params :: "bool \<Rightarrow> 8 word option \<Rightarrow> 8 word option \<Rightarrow> 8 word option \<Rightarrow> vote_params" where
  "review_params is_apple_fm samples block verify =
     (let n = (if is_apple_fm then 1 else case samples of Some v \<Rightarrow> clamp8 v 1 9 | None \<Rightarrow> 1);
          b = (case block of Some v \<Rightarrow> clamp8 v 1 n
               | None \<Rightarrow> if 1 < n then div_ceil2 n else 1);
          w = min (case verify of Some v \<Rightarrow> clamp8 v 1 n | None \<Rightarrow> 1) b
      in \<lparr>n_samples = n, min_votes_block = b, min_votes_verify = w,
          line_tolerance = line_tolerance default_vote_params\<rparr>)"

section \<open>Clustering by line\<close>

type_synonym item = "int \<times> nat \<times> raw_finding"

abbreviation item_line :: "item \<Rightarrow> int" where "item_line \<equiv> fst"
abbreviation item_sample :: "item \<Rightarrow> nat" where "item_sample x \<equiv> fst (snd x)"
abbreviation item_finding :: "item \<Rightarrow> raw_finding" where "item_finding x \<equiv> snd (snd x)"

definition FILE_LEVEL_LINE :: int where "FILE_LEVEL_LINE = i64_min"

definition saturating_sub :: "int \<Rightarrow> int \<Rightarrow> int" where
  "saturating_sub a b = max i64_min (min i64_max (a - b))"

definition line_key :: "raw_finding \<Rightarrow> int" where
  "line_key f = (case rf_line f of Some l \<Rightarrow> uint l | None \<Rightarrow> FILE_LEVEL_LINE)"

definition tagged :: "raw_finding list list \<Rightarrow> item list" where
  "tagged samples = concat (map (\<lambda>(idx, sample). map (\<lambda>f. (line_key f, idx, f)) sample) (enumerate 0 samples))"

fun cluster_loop :: "int \<Rightarrow> item list \<Rightarrow> item list list \<times> item list \<times> int \<Rightarrow> item list list \<times> item list \<times> int" where
  "cluster_loop tol [] acc = acc"
| "cluster_loop tol ((key, idx, f) # items) (clusters, cluster, first_line) =
     (let (clusters, cluster) =
            (if cluster \<noteq> [] \<and> saturating_sub key first_line > tol then (clusters @ [cluster], []) else (clusters, cluster));
          first_line = (if cluster = [] then key else first_line)
      in cluster_loop tol items (clusters, cluster @ [(key, idx, f)], first_line))"

definition line_clusters :: "int \<Rightarrow> item list \<Rightarrow> item list list" where
  "line_clusters tol items =
     (case cluster_loop tol items ([], [], 0) of (clusters, cluster, _) \<Rightarrow>
        if cluster \<noteq> [] then clusters @ [cluster] else clusters)"

section \<open>Drifted assertions\<close>

text \<open>\<open>trim_matches\<close>, the sorted words without duplicates, and \<open>binary_search\<close> in them, which
  finds exactly the words of a sorted list.\<close>

definition trim_word :: "(rchar \<Rightarrow> bool) \<Rightarrow> rstr \<Rightarrow> rstr" where
  "trim_word alnum w =
     (let edge = (\<lambda>c. \<not> alnum c \<and> c \<noteq> 95) in rev (dropWhile edge (rev (dropWhile edge w))))"

definition word_set :: "(rchar \<Rightarrow> bool) \<Rightarrow> rstr \<Rightarrow> rstr list" where
  "word_set alnum s =
     remdups_adj (sort (filter (\<lambda>w. w \<noteq> []) (map (\<lambda>w. to_lower (trim_word alnum w)) (split_ws s))))"

definition jaccard :: "rstr list \<Rightarrow> rstr list \<Rightarrow> rat" where
  "jaccard a b =
     (if a = [] \<or> b = [] then 0
      else let inter = length (filter (\<lambda>w. w \<in> set b) a); union = length a + length b - inter
           in of_nat inter / of_nat union)"

definition TITLE_MERGE_JACCARD :: rat where "TITLE_MERGE_JACCARD = 3 / 5"
definition BODY_MERGE_JACCARD :: rat where "BODY_MERGE_JACCARD = 2 / 5"

record assertion_keys =
  title_words :: "rstr list"
  body_words :: "rstr list"
  idents :: "rstr list"

definition is_ident :: "rstr \<Rightarrow> bool" where
  "is_ident w \<longleftrightarrow> 95 \<in> set w \<or> 46 \<in> set w \<or> 40 \<in> set w \<or> contains_sub w (lit ''::'')"

definition assertion_key :: "(rchar \<Rightarrow> bool) \<Rightarrow> raw_finding \<Rightarrow> assertion_keys" where
  "assertion_key alnum f =
     (let tw = word_set alnum (rf_title f); bw = word_set alnum (rf_body f) in
      \<lparr>title_words = tw, body_words = bw, idents = remdups_adj (sort (filter is_ident (tw @ bw)))\<rparr>)"

definition clusters_share_assertion :: "item list \<Rightarrow> item list \<Rightarrow> assertion_keys list \<Rightarrow> assertion_keys list \<Rightarrow> bool" where
  "clusters_share_assertion a b a_keys b_keys \<longleftrightarrow>
     list_all (\<lambda>x. list_all (\<lambda>y. item_sample x \<noteq> item_sample y) b) a \<and>
     list_ex (\<lambda>ka. list_ex (\<lambda>kb.
        idents ka \<noteq> [] \<and> list_ex (\<lambda>w. w \<in> set (idents kb)) (idents ka) \<and>
        jaccard (title_words ka) (title_words kb) \<ge> TITLE_MERGE_JACCARD \<and>
        jaccard (body_words ka) (body_words kb) \<ge> BODY_MERGE_JACCARD) b_keys) a_keys"

definition same_assertion :: "(rchar \<Rightarrow> bool) \<Rightarrow> item list \<Rightarrow> item list \<Rightarrow> bool" where
  "same_assertion alnum a b =
     clusters_share_assertion a b (map (\<lambda>x. assertion_key alnum (item_finding x)) a)
       (map (\<lambda>x. assertion_key alnum (item_finding x)) b)"

text \<open>The loop over \<open>j\<close>: the cluster \<open>i\<close> absorbs the later ones in turn; the result says whether
  it absorbed any. Then the loop over \<open>i\<close>, and the loop to the fixpoint.\<close>

fun absorb_loop :: "(rchar \<Rightarrow> bool) \<Rightarrow> item list \<Rightarrow> item list list \<Rightarrow> item list \<times> item list list \<times> bool" where
  "absorb_loop alnum c [] = (c, [], False)"
| "absorb_loop alnum c (b # bs) =
     (if same_assertion alnum c b then (case absorb_loop alnum (c @ b) bs of (c', bs', _) \<Rightarrow> (c', bs', True))
      else (case absorb_loop alnum c bs of (c', bs', m) \<Rightarrow> (c', b # bs', m)))"

lemma absorb_loop_length: "length (fst (snd (absorb_loop alnum c bs))) \<le> length bs"
  by (induction alnum c bs rule: absorb_loop.induct) (auto split: prod.splits)

function merge_pass :: "(rchar \<Rightarrow> bool) \<Rightarrow> item list list \<Rightarrow> item list list \<times> bool" where
  "merge_pass alnum [] = ([], False)"
| "merge_pass alnum (c # cs) =
     (case absorb_loop alnum c cs of (c', cs', m) \<Rightarrow>
        (case merge_pass alnum cs' of (rest, m') \<Rightarrow> (c' # rest, m \<or> m')))"
  by pat_completeness auto
termination
  by (relation "measure (\<lambda>(_, cs). length cs)") (simp_all, metis absorb_loop_length fst_conv le_imp_less_Suc snd_conv)

lemma absorb_loop_shrinks:
  "snd (snd (absorb_loop alnum c bs)) \<longleftrightarrow> length (fst (snd (absorb_loop alnum c bs))) < length bs"
proof (induction alnum c bs rule: absorb_loop.induct)
  case (2 alnum c b bs)
  with absorb_loop_length [of alnum "c @ b" bs] show ?case
    by (cases "same_assertion alnum c b") (auto split: prod.splits)
qed simp

lemma merge_pass_length: "length (fst (merge_pass alnum cs)) \<le> length cs"
proof (induction alnum cs rule: merge_pass.induct)
  case (2 alnum c cs)
  with absorb_loop_length [of alnum c cs] show ?case by (fastforce split: prod.splits)
qed simp

lemma merge_pass_shrinks:
  "snd (merge_pass alnum cs) \<longleftrightarrow> length (fst (merge_pass alnum cs)) < length cs"
proof (induction alnum cs rule: merge_pass.induct)
  case (2 alnum c cs)
  obtain c' cs' m where a: "absorb_loop alnum c cs = (c', cs', m)" by (cases "absorb_loop alnum c cs") auto
  from absorb_loop_shrinks [of alnum c cs] absorb_loop_length [of alnum c cs] a
  have "m \<longleftrightarrow> length cs' < length cs" "length cs' \<le> length cs" by simp_all
  moreover have "length (fst (merge_pass alnum cs')) \<le> length cs'" by (rule merge_pass_length)
  ultimately show ?case using 2 [OF a [symmetric] refl] a by (auto split: prod.splits)
qed simp

function merge_drifted_assertions :: "(rchar \<Rightarrow> bool) \<Rightarrow> item list list \<Rightarrow> item list list" where
  "merge_drifted_assertions alnum clusters =
     (case merge_pass alnum clusters of (clusters', merged_any) \<Rightarrow>
        if merged_any then merge_drifted_assertions alnum clusters' else clusters')"
  by pat_completeness auto
termination
  by (relation "measure (\<lambda>(_, cs). length cs)") (simp_all, metis merge_pass_shrinks fst_conv snd_conv)

declare merge_drifted_assertions.simps [simp del]

section \<open>Votes and representatives\<close>

record voted_finding =
  vf_finding :: raw_finding
  vf_votes :: "8 word"
  vf_lines :: "int list"

record title_group =
  tg_norm :: rstr
  tg_samples :: "nat list"
  tg_rep :: raw_finding

definition normalize_title :: "rstr \<Rightarrow> rstr" where
  "normalize_title title = to_lower (collapse_ws title)"

definition push_new :: "nat \<Rightarrow> nat list \<Rightarrow> nat list" where
  "push_new idx seen = (if idx \<in> set seen then seen else seen @ [idx])"

definition join_group :: "nat \<Rightarrow> raw_finding \<Rightarrow> title_group \<Rightarrow> title_group" where
  "join_group idx f g =
     (let r = rank (rf_severity f); rep_r = rank (rf_severity (tg_rep g)) in
      g\<lparr>tg_samples := push_new idx (tg_samples g),
        tg_rep := (if r > rep_r \<or> (r = rep_r \<and> rf_line (tg_rep g) = None \<and> rf_line f \<noteq> None)
                   then f else tg_rep g)\<rparr>)"

definition group_step :: "item \<Rightarrow> title_group list \<Rightarrow> title_group list" where
  "group_step x groups =
     (case x of (_, idx, f) \<Rightarrow>
      let norm = normalize_title (rf_title f) in
      if list_ex (\<lambda>g. tg_norm g = norm) groups
      then update_first (\<lambda>g. tg_norm g = norm) (join_group idx f) groups
      else groups @ [\<lparr>tg_norm = norm, tg_samples = [idx], tg_rep = f\<rparr>])"

definition better_group :: "title_group \<Rightarrow> title_group \<Rightarrow> title_group" where
  "better_group best g =
     (if length (tg_samples g) > length (tg_samples best) \<or>
         (length (tg_samples g) = length (tg_samples best) \<and>
          rank (rf_severity (tg_rep g)) > rank (rf_severity (tg_rep best)))
      then g else best)"

text \<open>The index \<open>groups[0]\<close> of an empty cluster panics; that is \<open>None\<close>.\<close>

definition finalize_cluster :: "item list \<Rightarrow> voted_finding option" where
  "finalize_cluster cluster =
     (let seen = fold (\<lambda>x. push_new (item_sample x)) cluster [];
          groups = fold group_step cluster [] in
      case groups of [] \<Rightarrow> None
      | g # gs \<Rightarrow> Some \<lparr>vf_finding = tg_rep (foldl better_group g gs),
          vf_votes = word_of_nat (min (length seen) 255),
          vf_lines = sort (map item_line cluster)\<rparr>)"

definition cluster_and_vote :: "(rchar \<Rightarrow> bool) \<Rightarrow> raw_finding list list \<Rightarrow> vote_params \<Rightarrow> voted_finding list option" where
  "cluster_and_vote alnum samples p =
     (let items = tagged samples in
      if items = [] then Some []
      else those (map finalize_cluster
             (merge_drifted_assertions alnum (line_clusters (line_tolerance p) (sort_key item_line items)))))"

section \<open>Splitting by votes\<close>

definition mark_unverified :: "vote_params \<Rightarrow> voted_finding \<Rightarrow> raw_finding" where
  "mark_unverified p v =
     (let f = vf_finding v;
          marker = lit ''[unverified '' @ show_nat (unat (vf_votes v)) @ lit ''/'' @ show_nat (unat (n_samples p)) @ lit '' votes] ''
      in f\<lparr>rf_body := cap (marker @ rf_body f) BODY_CAP\<rparr>)"

fun split_loop :: "vote_params \<Rightarrow> voted_finding list \<Rightarrow> raw_finding list \<times> raw_finding list
    \<Rightarrow> raw_finding list \<times> raw_finding list" where
  "split_loop p [] acc = acc"
| "split_loop p (v # vs) (confirmed, suspects) =
     split_loop p vs
       (if vf_votes v \<ge> min_votes_block p then (confirmed @ [vf_finding v], suspects)
        else if vf_votes v \<ge> min_votes_verify p then (confirmed, suspects @ [mark_unverified p v])
        else (confirmed, suspects))"

definition agreement :: "voted_finding \<Rightarrow> int \<times> int" where
  "agreement v = (- int (unat (vf_votes v)), - int (rank (rf_severity (vf_finding v))))"

definition split_by_threshold :: "voted_finding list \<Rightarrow> vote_params \<Rightarrow> raw_finding list \<times> raw_finding list" where
  "split_by_threshold voted p =
     (case split_loop p (sort_key agreement voted) ([], []) of (confirmed, suspects) \<Rightarrow>
        if length confirmed \<ge> MAX_GEMMA_FINDINGS then (take MAX_GEMMA_FINDINGS confirmed, [])
        else (confirmed, take (MAX_GEMMA_FINDINGS - length confirmed) suspects))"

definition voted_review :: "(rchar \<Rightarrow> bool) \<Rightarrow> raw_finding list list \<Rightarrow> vote_params \<Rightarrow> raw_finding list option" where
  "voted_review alnum samples p =
     map_option (\<lambda>voted. case split_by_threshold voted p of (confirmed, suspects) \<Rightarrow> confirmed @ suspects)
       (cluster_and_vote alnum samples p)"

end
