(* ===== verification/CensorVotesLaws.thy ===== *)
theory CensorVotesLaws
  imports CensorVotes
begin

text \<open>
  The laws of the Censor's voting, \<open>backend/censor/votes.rs\<close>: the line clusters, the merge of
  drifted assertions, the votes and the representative of a cluster, and the split by votes.
\<close>

section \<open>Line clusters\<close>

text \<open>A cluster is anchored at its first line, and the next one starts beyond the tolerance.\<close>

definition near :: "int \<Rightarrow> int \<Rightarrow> int \<Rightarrow> bool" where
  "near tol anchor line \<longleftrightarrow> saturating_sub line anchor \<le> tol"

definition anchored :: "int \<Rightarrow> item list \<Rightarrow> bool" where
  "anchored tol c \<longleftrightarrow> c \<noteq> [] \<and> (\<forall>x \<in> set c. near tol (item_line (hd c)) (item_line x))"

lemma near_self: "0 \<le> tol \<Longrightarrow> near tol a a"
  by (simp add: near_def saturating_sub_def i64_min_def i64_max_def)

definition beyond :: "int \<Rightarrow> item list \<Rightarrow> item list \<Rightarrow> bool" where
  "beyond tol c d \<longleftrightarrow> \<not> near tol (item_line (hd c)) (item_line (hd d))"

lemma cluster_loop_first: "cluster_loop tol (x # items) (cs, [], first) = cluster_loop tol items (cs, [x], item_line x)"
  by (cases x) simp

lemma cluster_loop_new:
  "c \<noteq> [] \<Longrightarrow> \<not> near tol first (item_line x) \<Longrightarrow>
     cluster_loop tol (x # items) (cs, c, first) = cluster_loop tol items (cs @ [c], [x], item_line x)"
  by (cases x) (simp add: near_def)

lemma cluster_loop_join:
  "c \<noteq> [] \<Longrightarrow> near tol first (item_line x) \<Longrightarrow>
     cluster_loop tol (x # items) (cs, c, first) = cluster_loop tol items (cs, c @ [x], first)"
  by (cases x) (simp add: near_def)

text \<open>The clusters as the loop leaves them, with the current one.\<close>

definition loop_clusters :: "int \<Rightarrow> item list \<Rightarrow> item list list \<Rightarrow> item list \<Rightarrow> item list list" where
  "loop_clusters tol items cs c =
     (case cluster_loop tol items (cs, c, item_line (hd c)) of (cs', c', _) \<Rightarrow> cs' @ [c'])"

lemma loop_clusters_step:
  "c \<noteq> [] \<Longrightarrow> loop_clusters tol (x # items) cs c =
     (if near tol (item_line (hd c)) (item_line x) then loop_clusters tol items cs (c @ [x])
      else loop_clusters tol items (cs @ [c]) [x])"
  by (simp add: loop_clusters_def cluster_loop_new cluster_loop_join)

lemma loop_clusters_spec:
  "c \<noteq> [] \<Longrightarrow> 0 \<le> tol \<Longrightarrow> \<forall>k \<in> set (cs @ [c]). anchored tol k \<Longrightarrow> successively (beyond tol) (cs @ [c]) \<Longrightarrow>
     concat (loop_clusters tol items cs c) = concat cs @ c @ items \<and>
     (\<forall>k \<in> set (loop_clusters tol items cs c). anchored tol k) \<and>
     successively (beyond tol) (loop_clusters tol items cs c)"
proof (induction items arbitrary: cs c)
  case (Cons x items)
  show ?case
  proof (cases "near tol (item_line (hd c)) (item_line x)")
    case True
    have "\<forall>k \<in> set (cs @ [c @ [x]]). anchored tol k" "successively (beyond tol) (cs @ [c @ [x]])"
      using Cons.prems True by (auto simp: anchored_def successively_append_iff beyond_def)
    from Cons.IH [OF _ Cons.prems(2) this] True Cons.prems(1) show ?thesis
      by (simp add: loop_clusters_step)
  next
    case False
    have "\<forall>k \<in> set ((cs @ [c]) @ [[x]]). anchored tol k" "successively (beyond tol) ((cs @ [c]) @ [[x]])"
      using Cons.prems False by (auto simp: anchored_def near_self successively_append_iff beyond_def)
    from Cons.IH [OF _ Cons.prems(2) this] False Cons.prems(1) show ?thesis
      by (simp add: loop_clusters_step)
  qed
qed (simp add: loop_clusters_def)

lemma cluster_loop_current: "c \<noteq> [] \<Longrightarrow> fst (snd (cluster_loop tol items (cs, c, first))) \<noteq> []"
proof (induction items arbitrary: cs c first)
  case (Cons x items)
  then show ?case
    by (cases "near tol first (item_line x)") (simp_all add: cluster_loop_new cluster_loop_join)
qed simp

lemma line_clusters_Cons: "line_clusters tol (x # items) = loop_clusters tol items [] [x]"
  using cluster_loop_current [of "[x]" tol items "[]" "item_line x"]
  by (auto simp: line_clusters_def cluster_loop_first loop_clusters_def split: prod.splits)

lemma line_clusters_Nil: "line_clusters tol [] = []"
  by (simp add: line_clusters_def)

text \<open>the clusters of line-sorted findings are consecutive runs that lose nothing, every finding of a
  run lies within the tolerance of the run's first line, and the next run starts beyond it; so a chain
  of nearby lines is not drawn into one cluster.\<close>

theorem line_clusters_spec:
  assumes "0 \<le> tol"
  shows "concat (line_clusters tol items) = items \<and> list_all (anchored tol) (line_clusters tol items) \<and>
    successively (beyond tol) (line_clusters tol items)"
proof (cases items)
  case (Cons x xs)
  from loop_clusters_spec [of "[x]" tol "[]" xs] assms show ?thesis
    by (simp add: Cons line_clusters_Cons anchored_def near_self list_all_iff)
qed (simp add: line_clusters_Nil)

lemma loop_clusters_nonempty:
  "c \<noteq> [] \<Longrightarrow> [] \<notin> set cs \<Longrightarrow> [] \<notin> set (loop_clusters tol items cs c) \<and> concat (loop_clusters tol items cs c) = concat cs @ c @ items"
  by (induction items arbitrary: cs c) (simp_all add: loop_clusters_step, simp add: loop_clusters_def)

lemma line_clusters_parts: "[] \<notin> set (line_clusters tol items) \<and> concat (line_clusters tol items) = items"
  using loop_clusters_nonempty [of "[hd items]" "[]" tol "tl items"]
  by (cases items) (simp_all add: line_clusters_Nil line_clusters_Cons)

section \<open>The merge of drifted assertions\<close>

text \<open>A merged cluster is a list of pieces with pairwise disjoint samples, so its votes are the sum of
  theirs.\<close>

definition samples_of :: "item list \<Rightarrow> nat list" where
  "samples_of c = remdups (map item_sample c)"

definition disjoint_pieces :: "item list list \<Rightarrow> bool" where
  "disjoint_pieces g \<longleftrightarrow> g \<noteq> [] \<and> distinct (concat (map samples_of g))"

lemma set_samples_of [simp]: "set (samples_of c) = item_sample ` set c"
  by (simp add: samples_of_def)

lemma disjoint_single: "disjoint_pieces [c]"
  by (simp add: disjoint_pieces_def samples_of_def)

lemma same_assertion_disjoint:
  "same_assertion alnum a b \<Longrightarrow> item_sample ` set a \<inter> item_sample ` set b = {}"
  by (auto simp: same_assertion_def clusters_share_assertion_def list_all_iff)

lemma disjoint_append:
  assumes "disjoint_pieces g" "disjoint_pieces h" "same_assertion alnum (concat g) (concat h)"
  shows "disjoint_pieces (g @ h)"
proof -
  have s: "set (concat (map samples_of g)) = item_sample ` set (concat g)" for g by auto
  from same_assertion_disjoint [OF assms(3)] assms(1,2) show ?thesis
    unfolding disjoint_pieces_def map_append concat_append distinct_append s by simp
qed

lemma absorb_pieces:
  "disjoint_pieces g \<Longrightarrow> \<forall>h \<in> set gs. disjoint_pieces h \<Longrightarrow>
   \<exists>g' gs' m. absorb_loop alnum (concat g) (map concat gs) = (concat g', map concat gs', m) \<and>
     mset (concat (g' # gs')) = mset (concat (g # gs)) \<and> (\<forall>h \<in> set (g' # gs'). disjoint_pieces h)"
proof (induction gs arbitrary: g)
  case (Cons h gs)
  show ?case
  proof (cases "same_assertion alnum (concat g) (concat h)")
    case True
    with Cons.prems have d: "disjoint_pieces (g @ h)" "\<forall>h \<in> set gs. disjoint_pieces h"
      by (auto intro: disjoint_append)
    from Cons.IH [OF d] obtain g' gs' m where
      i: "absorb_loop alnum (concat (g @ h)) (map concat gs) = (concat g', map concat gs', m)"
      "mset (concat (g' # gs')) = mset (concat ((g @ h) # gs))" "\<forall>k \<in> set (g' # gs'). disjoint_pieces k" by blast
    have "absorb_loop alnum (concat g) (map concat (h # gs)) = (concat g', map concat gs', True)"
      using True i(1) by simp
    moreover have "mset (concat (g' # gs')) = mset (concat (g # h # gs))" using i(2) by simp
    ultimately show ?thesis using i(3) by blast
  next
    case False
    have "\<forall>h \<in> set gs. disjoint_pieces h" using Cons.prems(2) by simp
    from Cons.IH [OF Cons.prems(1) this] obtain g' gs' m where
      i: "absorb_loop alnum (concat g) (map concat gs) = (concat g', map concat gs', m)"
      "mset (concat (g' # gs')) = mset (concat (g # gs))" "\<forall>k \<in> set (g' # gs'). disjoint_pieces k" by blast
    have "mset (concat (g' # h # gs')) = mset (concat (g # h # gs))" using i(2) by simp
    moreover have "\<forall>k \<in> set (g' # h # gs'). disjoint_pieces k" using i(3) Cons.prems(2) by simp
    moreover have "absorb_loop alnum (concat g) (map concat (h # gs)) = (concat g', map concat (h # gs'), m)"
      using False i(1) by simp
    ultimately show ?thesis by blast
  qed
next
  case Nil
  then show ?case by (intro exI [of _ g] exI [of _ "[]"] exI [of _ False]) simp
qed

lemma merge_pass_pieces:
  "cs = map concat gs \<Longrightarrow> \<forall>h \<in> set gs. disjoint_pieces h \<Longrightarrow>
   \<exists>gs'. fst (merge_pass alnum cs) = map concat gs' \<and> mset (concat gs') = mset (concat gs) \<and>
     (\<forall>h \<in> set gs'. disjoint_pieces h)"
proof (induction alnum cs arbitrary: gs rule: merge_pass.induct)
  case (2 alnum c cs)
  from 2(2) obtain g hs where gs: "gs = g # hs" "c = concat g" "cs = map concat hs" by (cases gs) auto
  from absorb_pieces [of g hs alnum] 2(3) gs obtain g' hs' m where
    a: "absorb_loop alnum c cs = (concat g', map concat hs', m)"
    "mset (concat (g' # hs')) = mset (concat (g # hs))" "\<forall>k \<in> set (g' # hs'). disjoint_pieces k" by auto
  have "\<forall>h \<in> set hs'. disjoint_pieces h" using a(3) by simp
  from 2(1) [OF a(1) [symmetric] refl refl this] obtain gs' where
    "fst (merge_pass alnum (map concat hs')) = map concat gs'" "mset (concat gs') = mset (concat hs')"
    "\<forall>h \<in> set gs'. disjoint_pieces h" by blast
  with a gs(1) show ?case by (intro exI [of _ "g' # gs'"]) (auto split: prod.splits)
qed simp

lemma merge_drifted_pieces:
  "cs = map concat gs \<Longrightarrow> \<forall>h \<in> set gs. disjoint_pieces h \<Longrightarrow>
   \<exists>gs'. merge_drifted_assertions alnum cs = map concat gs' \<and> mset (concat gs') = mset (concat gs) \<and>
     (\<forall>h \<in> set gs'. disjoint_pieces h)"
proof (induction alnum cs arbitrary: gs rule: merge_drifted_assertions.induct)
  case (1 alnum cs)
  obtain cs' m where p: "merge_pass alnum cs = (cs', m)" by fastforce
  from merge_pass_pieces [OF 1(2,3), of alnum] p obtain gs' where
    g: "cs' = map concat gs'" "mset (concat gs') = mset (concat gs)" "\<forall>h \<in> set gs'. disjoint_pieces h" by auto
  show ?case
  proof (cases m)
    case True
    from 1(1) [OF p [symmetric] True g(1,3)] g(2) show ?thesis
      using p True by (subst merge_drifted_assertions.simps) auto
  next
    case False
    with g p show ?thesis by (subst merge_drifted_assertions.simps) auto
  qed
qed

lemma absorb_loop_idle:
  "absorb_loop alnum c bs = (c', bs', False) \<Longrightarrow> c' = c \<and> bs' = bs \<and> (\<forall>b \<in> set bs. \<not> same_assertion alnum c b)"
  by (induction alnum c bs arbitrary: c' bs' rule: absorb_loop.induct) (auto split: if_splits prod.splits)

lemma merge_pass_idle:
  "merge_pass alnum cs = (cs', False) \<Longrightarrow> cs' = cs \<and> sorted_wrt (\<lambda>a b. \<not> same_assertion alnum a b) cs"
proof (induction alnum cs arbitrary: cs' rule: merge_pass.induct)
  case (2 alnum c cs)
  obtain d ds m where a: "absorb_loop alnum c cs = (d, ds, m)" by (cases "absorb_loop alnum c cs") auto
  obtain r m' where b: "merge_pass alnum ds = (r, m')" by fastforce
  from 2(2) a b have "\<not> m" "\<not> m'" "cs' = d # r" by auto
  with absorb_loop_idle [of alnum c cs d ds] 2(1) [OF a [symmetric] refl, of r] a b show ?case by auto
qed simp

lemma merge_drifted_fixpoint: "sorted_wrt (\<lambda>a b. \<not> same_assertion alnum a b) (merge_drifted_assertions alnum cs)"
proof (induction alnum cs rule: merge_drifted_assertions.induct)
  case (1 alnum cs)
  obtain cs' m where p: "merge_pass alnum cs = (cs', m)" by fastforce
  show ?case
  proof (cases m)
    case True
    with 1 [OF p [symmetric] True] p show ?thesis by (subst merge_drifted_assertions.simps) simp
  next
    case False
    with merge_pass_idle [of alnum cs cs'] p show ?thesis by (subst merge_drifted_assertions.simps) simp
  qed
qed

lemma merge_drifted_parts:
  "\<exists>gs. merge_drifted_assertions alnum clusters = map concat gs \<and> mset (concat gs) = mset clusters \<and>
     list_all disjoint_pieces gs"
proof -
  let ?gs = "map (\<lambda>c. [c]) clusters"
  have "clusters = map concat ?gs" "\<forall>h \<in> set ?gs. disjoint_pieces h" "concat ?gs = clusters"
    by (simp_all add: o_def disjoint_single)
  from merge_drifted_pieces [OF this(1,2), of alnum] this(3) show ?thesis by (auto simp: list_all_iff)
qed

text \<open>C39: the merge of drifted assertions ends, and in its result no two clusters carry the same
  assertion any more. It only ever joins whole clusters whose samples are pairwise disjoint, and
  loses and duplicates none, so no sample counts twice in a merged cluster.\<close>

theorem merge_drifted_spec:
  "sorted_wrt (\<lambda>a b. \<not> same_assertion alnum a b) (merge_drifted_assertions alnum clusters) \<and>
   (\<exists>gs. merge_drifted_assertions alnum clusters = map concat gs \<and> mset (concat gs) = mset clusters \<and>
     list_all disjoint_pieces gs)"
  using merge_drifted_fixpoint merge_drifted_parts by blast

section \<open>Votes and the representative of a cluster\<close>

abbreviation item_title :: "item \<Rightarrow> rstr" where
  "item_title x \<equiv> normalize_title (rf_title (item_finding x))"

abbreviation item_rank :: "item \<Rightarrow> nat" where
  "item_rank x \<equiv> rank (rf_severity (item_finding x))"

text \<open>The samples that reported a title in a cluster.\<close>

definition reporters :: "item list \<Rightarrow> rstr \<Rightarrow> nat set" where
  "reporters cluster t = item_sample ` {x \<in> set cluster. item_title x = t}"

lemma fold_push_new:
  "distinct seen \<Longrightarrow> distinct (fold (\<lambda>x. push_new (item_sample x)) xs seen) \<and>
     set (fold (\<lambda>x. push_new (item_sample x)) xs seen) = set seen \<union> item_sample ` set xs"
  by (induction xs arbitrary: seen) (auto simp: push_new_def)

text \<open>What the groups of titles say of the findings grouped so far.\<close>

definition group_ok :: "item list \<Rightarrow> title_group \<Rightarrow> bool" where
  "group_ok xs g \<longleftrightarrow> distinct (tg_samples g) \<and> set (tg_samples g) = reporters xs (tg_norm g) \<and>
     (\<exists>x \<in> set xs. item_title x = tg_norm g \<and> tg_rep g = item_finding x) \<and>
     (\<forall>x \<in> set xs. item_title x = tg_norm g \<longrightarrow> item_rank x \<le> rank (rf_severity (tg_rep g)))"

definition groups_of :: "item list \<Rightarrow> title_group list \<Rightarrow> bool" where
  "groups_of xs gs \<longleftrightarrow> tg_norm ` set gs = item_title ` set xs \<and> distinct (map tg_norm gs) \<and> (\<forall>g \<in> set gs. group_ok xs g)"

lemma reporters_snoc:
  "reporters (xs @ [x]) t = (if item_title x = t then insert (item_sample x) (reporters xs t) else reporters xs t)"
  by (auto simp: reporters_def)

lemma join_group_norm [simp]: "tg_norm (join_group idx f g) = tg_norm g"
  by (simp add: join_group_def Let_def)

lemma join_group_samples:
  "distinct (tg_samples g) \<Longrightarrow> distinct (tg_samples (join_group idx f g)) \<and>
     set (tg_samples (join_group idx f g)) = insert idx (set (tg_samples g))"
  by (auto simp: join_group_def Let_def push_new_def)

lemma join_group_rep:
  "tg_rep (join_group idx f g) \<in> {f, tg_rep g} \<and> rank (rf_severity f) \<le> rank (rf_severity (tg_rep (join_group idx f g))) \<and>
     rank (rf_severity (tg_rep g)) \<le> rank (rf_severity (tg_rep (join_group idx f g)))"
  by (auto simp: join_group_def Let_def)

lemma update_first_nth_other:
  "distinct (map k gs) \<Longrightarrow> (\<And>g. k (F g) = k g) \<Longrightarrow>
     set (update_first (\<lambda>g. k g = t) F gs) = (\<lambda>g. if k g = t then F g else g) ` set gs"
proof (induction gs)
  case (Cons g gs)
  have "(\<lambda>g. if k g = t then F g else g) ` set gs = set gs" if "t \<notin> k ` set gs"
    using that by (force simp: image_iff)
  with Cons show ?case by (cases "k g = t") auto
qed simp

lemma group_ok_other: "group_ok xs g \<Longrightarrow> tg_norm g \<noteq> item_title x \<Longrightarrow> group_ok (xs @ [x]) g"
  by (auto simp: group_ok_def reporters_snoc)

lemma group_ok_join:
  assumes "group_ok xs g" "tg_norm g = item_title x"
  shows "group_ok (xs @ [x]) (join_group (item_sample x) (item_finding x) g)"
proof -
  let ?g = "join_group (item_sample x) (item_finding x) g"
  note r = join_group_rep [of "item_sample x" "item_finding x" g]
  have "item_rank y \<le> rank (rf_severity (tg_rep ?g))" if "y \<in> set (xs @ [x])" "item_title y = tg_norm g" for y
  proof (cases "y = x")
    case False
    then have "item_rank y \<le> rank (rf_severity (tg_rep g))" using assms(1) that by (simp add: group_ok_def)
    with r show ?thesis by (meson order_trans)
  qed (use r in simp)
  moreover have "\<exists>y \<in> set (xs @ [x]). item_title y = tg_norm g \<and> tg_rep ?g = item_finding y"
    using assms r by (auto simp: group_ok_def)
  ultimately show ?thesis
    using join_group_samples [of g "item_sample x" "item_finding x"] assms by (simp add: group_ok_def reporters_snoc)
qed

lemma groups_step:
  assumes "groups_of xs gs"
  shows "groups_of (xs @ [x]) (group_step x gs)"
proof (cases "list_ex (\<lambda>g. tg_norm g = item_title x) gs")
  case True
  let ?F = "join_group (item_sample x) (item_finding x)"
  let ?gs = "update_first (\<lambda>g. tg_norm g = item_title x) ?F gs"
  have d: "distinct (map tg_norm gs)" and ok: "\<forall>g \<in> set gs. group_ok xs g" using assms by (auto simp: groups_of_def)
  have "set ?gs = (\<lambda>g. if tg_norm g = item_title x then ?F g else g) ` set gs"
    by (rule update_first_nth_other [OF d]) simp
  with ok have "\<forall>g \<in> set ?gs. group_ok (xs @ [x]) g" by (auto intro: group_ok_other group_ok_join)
  moreover have n: "map tg_norm ?gs = map tg_norm gs" by (rule map_update_first) simp
  moreover have "tg_norm ` set ?gs = item_title ` set (xs @ [x])"
  proof -
    obtain g where "g \<in> set gs" "tg_norm g = item_title x" using True by (auto simp: list_ex_iff)
    then have "item_title x \<in> tg_norm ` set gs" by (metis imageI)
    then show ?thesis
      using assms n [THEN arg_cong [where f = set]] by (auto simp: groups_of_def)
  qed
  ultimately have "groups_of (xs @ [x]) ?gs" using d by (simp add: groups_of_def)
  with True show ?thesis by (simp add: group_step_def Let_def split_beta)
next
  case False
  let ?g = "\<lparr>tg_norm = item_title x, tg_samples = [item_sample x], tg_rep = item_finding x\<rparr>"
  have new: "item_title x \<notin> tg_norm ` set gs" using False by (auto simp: list_ex_iff)
  then have nin: "item_title x \<notin> item_title ` set xs" using assms by (simp add: groups_of_def)
  have t: "item_title y \<noteq> item_title x" if "y \<in> set xs" for y
  proof
    assume e: "item_title y = item_title x"
    show False using nin imageI [OF that, of "\<lambda>x. item_title x"] unfolding e by blast
  qed
  then have r: "reporters xs (item_title x) = {}" by (auto simp: reporters_def)
  have "item_rank y \<le> item_rank x" if "y \<in> set (xs @ [x])" "item_title y = item_title x" for y
    using t [of y] that by (cases "y = x") auto
  moreover have "\<exists>y \<in> set (xs @ [x]). item_title y = item_title x \<and> item_finding x = item_finding y"
    by (rule bexI [of _ x]) simp_all
  ultimately have "group_ok (xs @ [x]) ?g" using r by (simp add: group_ok_def reporters_snoc del: set_append)
  moreover have "\<forall>g \<in> set gs. group_ok (xs @ [x]) g"
  proof (intro ballI group_ok_other)
    fix g assume "g \<in> set gs"
    then show "group_ok xs g" "tg_norm g \<noteq> item_title x"
      using assms False by (simp_all add: groups_of_def list_ex_iff)
  qed
  ultimately have "groups_of (xs @ [x]) (gs @ [?g])"
    using assms new by (simp add: groups_of_def)
  with False show ?thesis by (simp add: group_step_def Let_def split_beta)
qed

lemma groups_fold: "groups_of xs gs \<Longrightarrow> groups_of (xs @ ys) (fold group_step ys gs)"
proof (induction ys arbitrary: xs gs)
  case (Cons y ys)
  from Cons.IH [OF groups_step [OF Cons.prems, of y]] show ?case by simp
qed simp

lemma groups_of_cluster: "groups_of c (fold group_step c [])"
  using groups_fold [of "[]" "[]" c] by (simp add: groups_of_def)

definition outvotes :: "title_group \<Rightarrow> title_group \<Rightarrow> bool" where
  "outvotes b h \<longleftrightarrow> length (tg_samples h) \<le> length (tg_samples b) \<and>
     (length (tg_samples h) = length (tg_samples b) \<longrightarrow> rank (rf_severity (tg_rep h)) \<le> rank (rf_severity (tg_rep b)))"

lemma outvotes_trans: "outvotes a b \<Longrightarrow> outvotes b c \<Longrightarrow> outvotes a c"
  by (auto simp: outvotes_def)

lemma better_outvotes: "outvotes (better_group g h) g" "outvotes (better_group g h) h"
  by (auto simp: better_group_def outvotes_def)

lemma best_group:
  "foldl better_group g gs \<in> set (g # gs) \<and> (\<forall>h \<in> set (g # gs). outvotes (foldl better_group g gs) h)"
proof (induction gs arbitrary: g)
  case (Cons h gs)
  let ?b = "better_group g h"
  let ?r = "foldl better_group ?b gs"
  have "outvotes ?r ?b" using Cons.IH [of ?b] by simp
  then have "outvotes ?r g" "outvotes ?r h" using better_outvotes outvotes_trans by blast+
  moreover have "?b \<in> {g, h}" by (simp add: better_group_def)
  ultimately show ?case using Cons.IH [of ?b] by auto
qed (simp add: outvotes_def)

lemma finalize_Some: "c \<noteq> [] \<Longrightarrow> \<exists>v. finalize_cluster c = Some v"
proof -
  assume "c \<noteq> []"
  then have "fold group_step c [] \<noteq> []" using groups_of_cluster [of c] by (auto simp: groups_of_def)
  then show ?thesis by (auto simp: finalize_cluster_def Let_def split: list.split)
qed

lemma finalize_parts:
  assumes "finalize_cluster c = Some v"
  obtains g gs where "fold group_step c [] = g # gs" and "vf_finding v = tg_rep (foldl better_group g gs)"
    and "unat (vf_votes v) = min (card (item_sample ` set c)) 255" and "vf_lines v = sort (map item_line c)"
proof -
  define seen where "seen = fold (\<lambda>x. push_new (item_sample x)) c []"
  have "distinct seen" "set seen = item_sample ` set c"
    unfolding seen_def using fold_push_new [of "[]" c] by auto
  then have l: "length seen = card (item_sample ` set c)" using distinct_card by fastforce
  obtain g gs where gs: "fold group_step c [] = g # gs"
    and v: "v = \<lparr>vf_finding = tg_rep (foldl better_group g gs), vf_votes = word_of_nat (min (length seen) 255),
      vf_lines = sort (map item_line c)\<rparr>"
    using assms by (auto simp: finalize_cluster_def Let_def seen_def split: list.splits)
  from l have "unat (vf_votes v) = min (card (item_sample ` set c)) 255" by (simp add: v unat_of_nat)
  with gs v show thesis by (intro that) simp_all
qed

lemma finalize_best:
  assumes "finalize_cluster c = Some v"
  obtains b where "group_ok c b" and "vf_finding v = tg_rep b"
    and "\<And>y. y \<in> set c \<Longrightarrow> \<exists>h. group_ok c h \<and> tg_norm h = item_title y \<and> outvotes b h"
proof -
  from finalize_parts [OF assms] obtain g gs where
    gs: "fold group_step c [] = g # gs" and v: "vf_finding v = tg_rep (foldl better_group g gs)" by blast
  have ok: "\<forall>h \<in> set (g # gs). group_ok c h" and n: "tg_norm ` set (g # gs) = item_title ` set c"
    using groups_of_cluster [of c] gs by (simp_all add: groups_of_def)
  note b = best_group [of g gs]
  show thesis
  proof (rule that)
    show "group_ok c (foldl better_group g gs)" using ok b by blast
    show "\<exists>h. group_ok c h \<and> tg_norm h = item_title y \<and> outvotes (foldl better_group g gs) h" if "y \<in> set c" for y
    proof -
      have "item_title y \<in> tg_norm ` set (g # gs)" unfolding n using that by (rule imageI)
      then obtain h where "h \<in> set (g # gs)" "tg_norm h = item_title y" by (elim imageE) simp
      with ok b show ?thesis by blast
    qed
  qed (rule v)
qed

lemma group_support: "group_ok c g \<Longrightarrow> card (reporters c (tg_norm g)) = length (tg_samples g)"
  by (metis group_ok_def distinct_card)

lemma representative_member: "finalize_cluster c = Some v \<Longrightarrow> \<exists>x \<in> set c. vf_finding v = item_finding x"
  by (erule finalize_best) (auto simp: group_ok_def)

text \<open>a cluster's votes are the number of distinct samples in it, at most 255. Its representative is
  one of its findings, with a title that as many samples reported as any other title of the cluster,
  and the highest severity among the titles with that many; so one outlier, however severe, does not
  speak for a majority.\<close>

theorem representative_is_plurality:
  assumes "finalize_cluster c = Some v"
  shows "unat (vf_votes v) = min (card (item_sample ` set c)) 255 \<and>
    (\<exists>x \<in> set c. vf_finding v = item_finding x) \<and>
    (\<forall>x \<in> set c. card (reporters c (item_title x)) \<le> card (reporters c (normalize_title (rf_title (vf_finding v))))) \<and>
    (\<forall>x \<in> set c. card (reporters c (item_title x)) = card (reporters c (normalize_title (rf_title (vf_finding v))))
       \<longrightarrow> item_rank x \<le> rank (rf_severity (vf_finding v)))"
proof -
  from finalize_best [OF assms] obtain b where b: "group_ok c b" "vf_finding v = tg_rep b"
    and o: "\<And>y. y \<in> set c \<Longrightarrow> \<exists>h. group_ok c h \<and> tg_norm h = item_title y \<and> outvotes b h" by blast
  from b have t: "normalize_title (rf_title (vf_finding v)) = tg_norm b" by (auto simp: group_ok_def)
  have m: "card (reporters c (item_title y)) \<le> card (reporters c (tg_norm b)) \<and>
      (card (reporters c (item_title y)) = card (reporters c (tg_norm b)) \<longrightarrow> item_rank y \<le> rank (rf_severity (tg_rep b)))"
    if y: "y \<in> set c" for y
  proof -
    obtain h where h: "group_ok c h" "tg_norm h = item_title y" "outvotes b h" using o [OF y] by blast
    have "item_rank y \<le> rank (rf_severity (tg_rep h))" using h(1,2) y by (simp add: group_ok_def)
    with h(3) group_support [OF h(1)] group_support [OF b(1)] show ?thesis
      by (auto simp: h(2) outvotes_def)
  qed
  show ?thesis
  proof (intro conjI ballI impI)
    show "unat (vf_votes v) = min (card (item_sample ` set c)) 255" using finalize_parts [OF assms] by blast
  qed (use representative_member [OF assms] m t b(2) in auto)
qed

section \<open>The whole vote\<close>

lemma set_tagged:
  "x \<in> set (tagged ss) \<Longrightarrow> item_sample x < length ss \<and> item_finding x \<in> set (ss ! item_sample x) \<and>
     item_line x = line_key (item_finding x)"
  by (auto simp: tagged_def enumerate_eq_zip set_zip)

lemma findings_tagged: "map item_finding (tagged ss) = concat ss"
proof -
  have "map item_finding (concat (map (\<lambda>(idx, sample). map (\<lambda>f. (line_key f, idx, f)) sample) (enumerate n ss))) = concat ss" for n
    by (induction ss arbitrary: n) (simp_all add: o_def)
  then show ?thesis by (simp add: tagged_def)
qed

lemma concat_pieces: "concat (map concat gs) = concat (concat gs)"
  by (induction gs) auto

lemma those_map_total:
  "(\<And>x. x \<in> set xs \<Longrightarrow> f x \<noteq> None) \<Longrightarrow> those (map f xs) = Some (map (the \<circ> f) xs)"
proof (induction xs)
  case (Cons x xs)
  from Cons.prems [of x] obtain y where "f x = Some y" by auto
  with Cons show ?case by simp
qed simp

text \<open>the vote never panics and accounts for every reported finding: the lines of the voted clusters
  are together exactly the lines of all findings. Each voted finding is one that a sample reported, with
  at least one vote and at most one per sample.\<close>

theorem cluster_and_vote_accounts:
  "\<exists>vs. cluster_and_vote alnum samples p = Some vs \<and>
    mset (concat (map vf_lines vs)) = mset (map line_key (concat samples)) \<and>
    list_all (\<lambda>v. vf_finding v \<in> set (concat samples) \<and> 1 \<le> unat (vf_votes v) \<and>
      unat (vf_votes v) \<le> length samples) vs"
proof (cases "tagged samples = []")
  case True
  then have "concat samples = []" using findings_tagged [of samples] by simp
  with True show ?thesis by (simp add: cluster_and_vote_def)
next
  case False
  let ?items = "sort_key item_line (tagged samples)"
  let ?lc = "line_clusters (line_tolerance p) ?items"
  let ?cs = "merge_drifted_assertions alnum ?lc"
  obtain gs where gs: "?cs = map concat gs" "mset (concat gs) = mset ?lc" "list_all disjoint_pieces gs"
    using merge_drifted_parts by blast
  have lc: "[] \<notin> set ?lc" "concat ?lc = ?items" using line_clusters_parts by blast+
  have "mset (concat (concat gs)) = mset (concat ?lc)"
    using gs(2) by (metis mset_concat mset_map sum_mset_sum_list)
  then have all: "mset (concat ?cs) = mset (tagged samples)" using gs(1) lc(2) by (simp add: concat_pieces)
  have ne: "c \<noteq> []" if c: "c \<in> set ?cs" for c
  proof -
    obtain g where g: "g \<in> set gs" "c = concat g" using c gs(1) by auto
    then have "g \<noteq> []" using gs(3) by (auto simp: list_all_iff disjoint_pieces_def)
    moreover have "set g \<subseteq> set ?lc" using g(1) gs(2) by (metis UN_upper set_concat set_mset_mset)
    ultimately show ?thesis using g(2) lc(1) by (cases g) auto
  qed
  have fin: "those (map finalize_cluster ?cs) = Some (map (the \<circ> finalize_cluster) ?cs)"
    using ne finalize_Some by (intro those_map_total) fastforce
  have each: "vf_finding v \<in> set (concat samples) \<and> 1 \<le> unat (vf_votes v) \<and> unat (vf_votes v) \<le> length samples"
    if c: "c \<in> set ?cs" "finalize_cluster c = Some v" for c v
  proof -
    have sub: "set c \<subseteq> set (tagged samples)" using c(1) all by (metis UN_upper set_concat set_mset_mset)
    have "item_sample ` set c \<subseteq> {..<length samples}" using sub set_tagged by fastforce
    then have "card (item_sample ` set c) \<le> length samples" by (metis card_lessThan card_mono finite_lessThan)
    moreover have "0 < card (item_sample ` set c)" using ne [OF c(1)] by (simp add: card_gt_0_iff)
    moreover have "vf_finding v \<in> set (concat samples)"
    proof -
      obtain x where x: "x \<in> set c" "vf_finding v = item_finding x" using representative_member [OF c(2)] by blast
      from x(1) sub have "item_finding x \<in> item_finding ` set (tagged samples)" by (intro imageI) blast
      then show ?thesis unfolding x(2) findings_tagged [symmetric] by simp
    qed
    moreover have "unat (vf_votes v) = min (card (item_sample ` set c)) 255" using finalize_parts [OF c(2)] by blast
    ultimately show ?thesis by simp
  qed
  have lines: "mset (concat (map vf_lines (map (the \<circ> finalize_cluster) xs))) = mset (map item_line (concat xs))"
    if "\<forall>c \<in> set xs. c \<noteq> []" for xs
    using that
  proof (induction xs)
    case (Cons c xs)
    obtain v where v: "finalize_cluster c = Some v" using finalize_Some Cons.prems by fastforce
    from finalize_parts [OF v] have "vf_lines v = sort (map item_line c)" by blast
    with Cons v show ?case by simp
  qed simp
  have "mset (map item_line (concat ?cs)) = mset (map item_line (tagged samples))"
    using all by (metis mset_map)
  also have "map item_line (tagged samples) = map line_key (map item_finding (tagged samples))"
    using set_tagged by simp
  finally have "mset (concat (map vf_lines (map (the \<circ> finalize_cluster) ?cs))) = mset (map line_key (concat samples))"
    using lines [of ?cs] ne unfolding findings_tagged by simp
  moreover have "list_all (\<lambda>v. vf_finding v \<in> set (concat samples) \<and> 1 \<le> unat (vf_votes v) \<and>
      unat (vf_votes v) \<le> length samples) (map (the \<circ> finalize_cluster) ?cs)"
    using each finalize_Some ne by (fastforce simp: list_all_iff)
  ultimately show ?thesis using fin False by (simp add: cluster_and_vote_def)
qed

section \<open>The split by votes\<close>

definition blocks :: "vote_params \<Rightarrow> voted_finding \<Rightarrow> bool" where
  "blocks p v \<longleftrightarrow> min_votes_block p \<le> vf_votes v"

definition suspicious :: "vote_params \<Rightarrow> voted_finding \<Rightarrow> bool" where
  "suspicious p v \<longleftrightarrow> min_votes_verify p \<le> vf_votes v \<and> vf_votes v < min_votes_block p"

lemma split_loop_filter:
  "split_loop p vs (c, s) = (c @ map vf_finding (filter (blocks p) vs), s @ map (mark_unverified p) (filter (suspicious p) vs))"
  by (induction vs arbitrary: c s) (auto simp: blocks_def suspicious_def)

text \<open>the split returns the clusters with enough votes as they are and those with fewer, but enough to
  verify, marked; strongest agreement first, twenty in all, and a suspect only when every confirmed
  finding fits. Whatever is cut for space had no more votes than what is kept.\<close>

theorem split_by_threshold_spec:
  "\<exists>ranked. mset ranked = mset voted \<and> sorted_wrt (\<lambda>v w. vf_votes w \<le> vf_votes v) ranked \<and>
     split_by_threshold voted p =
       (let c = filter (blocks p) ranked; s = filter (suspicious p) ranked in
        (map vf_finding (take 20 c), map (mark_unverified p) (take (20 - length c) s)))"
proof (intro exI conjI)
  let ?r = "sort_key agreement voted"
  show "mset ?r = mset voted" by simp
  have "sorted_wrt (\<lambda>v w. agreement v \<le> agreement w) ?r" using sorted_sort_key [of agreement voted] by (simp add: sorted_wrt_map)
  then show "sorted_wrt (\<lambda>v w. vf_votes w \<le> vf_votes v) ?r"
    by (rule sorted_wrt_mono_rel [rotated]) (auto simp: agreement_def less_eq_prod_def word_le_def)
  show "split_by_threshold voted p =
       (let c = filter (blocks p) ?r; s = filter (suspicious p) ?r in
        (map vf_finding (take 20 c), map (mark_unverified p) (take (20 - length c) s)))"
    by (simp add: split_by_threshold_def split_loop_filter MAX_GEMMA_FINDINGS_def Let_def take_map)
qed

text \<open>The cap that is meant to keep a marked body at the bound of the parser appends an ellipsis
  after cutting, so a long body ends one character above it.\<close>

lemma cap_length: "length (cap s mx) = (if length s \<le> mx then length s else Suc mx)"
  by (simp add: cap_def)

lemma marked_body_over_cap:
  "BODY_CAP \<le> length (rf_body (vf_finding v)) \<Longrightarrow> length (rf_body (mark_unverified p v)) = Suc BODY_CAP"
  by (simp add: mark_unverified_def cap_length Let_def)

section \<open>The parameters\<close>

lemma clamp8_bounds: "lo \<le> hi \<Longrightarrow> lo \<le> clamp8 v lo hi \<and> clamp8 v lo hi \<le> hi"
  by (auto simp: clamp8_def)

lemma half_up_bounds:
  "1 < n \<Longrightarrow> n \<le> 9 \<Longrightarrow> 1 \<le> div_ceil2 n \<and> div_ceil2 n \<le> n"
proof -
  assume "1 < n" "n \<le> 9"
  then have "unat n \<in> {2..9}" by (simp add: word_less_nat_alt word_le_nat_alt)
  then have "unat n \<in> {2, 3, 4, 5, 6, 7, 8, 9}" by auto
  then have "n \<in> {2, 3, 4, 5, 6, 7, 8, 9}" by (auto simp: word_unat_eq_iff)
  then show ?thesis by (elim insertE emptyE) (simp_all add: div_ceil2_def)
qed

text \<open>whatever is configured, the resolved parameters ask for one to nine samples and have
  \<open>1 \<le> verify \<le> block \<le> samples\<close>, so the suspect tier is never inverted and a unanimous cluster
  always blocks; a configuration that sets nothing gives the single-sample default.\<close>

theorem review_params_bounds:
  "1 \<le> min_votes_verify (review_params fm samples block verify) \<and>
   min_votes_verify (review_params fm samples block verify) \<le> min_votes_block (review_params fm samples block verify) \<and>
   min_votes_block (review_params fm samples block verify) \<le> n_samples (review_params fm samples block verify) \<and>
   n_samples (review_params fm samples block verify) \<le> 9 \<and>
   review_params fm None None None = default_vote_params"
proof -
  define m where "m = (if fm then 1 else case samples of Some v \<Rightarrow> clamp8 v 1 9 | None \<Rightarrow> 1)"
  define b where "b = (case block of Some v \<Rightarrow> clamp8 v 1 m | None \<Rightarrow> if 1 < m then div_ceil2 m else 1)"
  define w where "w = (case verify of Some v \<Rightarrow> clamp8 v 1 m | None \<Rightarrow> 1)"
  have p: "review_params fm samples block verify = \<lparr>n_samples = m, min_votes_block = b, min_votes_verify = min w b,
      line_tolerance = line_tolerance default_vote_params\<rparr>"
    unfolding review_params_def Let_def m_def [symmetric] b_def [symmetric] w_def [symmetric] by (rule refl)
  have m: "1 \<le> m" "m \<le> 9" using clamp8_bounds [of 1 9] by (simp_all add: m_def split: option.split)
  have b: "1 \<le> b \<and> b \<le> m"
  proof (cases block)
    case None
    with half_up_bounds [of m] m show ?thesis by (simp add: b_def)
  next
    case (Some v)
    with clamp8_bounds [of 1 m v] m show ?thesis by (simp add: b_def)
  qed
  have "1 \<le> w" using clamp8_bounds [of 1 m] m by (simp add: w_def split: option.split)
  moreover have "review_params fm None None None = default_vote_params"
    by (simp add: review_params_def default_vote_params_def Let_def)
  ultimately show ?thesis using m b unfolding p by simp
qed

section \<open>Three samples, two of which agree\<close>

definition demo_raw :: "32 word \<Rightarrow> severity \<Rightarrow> rstr \<Rightarrow> raw_finding" where
  "demo_raw l s t = \<lparr>rf_file = lit ''a.rs'', rf_line = Some l, rf_severity = s, rf_category = Correctness,
     rf_source = lit ''gemma'', rf_title = t, rf_body = lit ''b''\<rparr>"

definition demo_cluster :: "item list" where
  "demo_cluster = [(10, 0, demo_raw 10 Low (lit ''Handle leak'')), (11, 1, demo_raw 11 Low (lit ''handle  LEAK'')),
     (12, 2, demo_raw 12 High (lit ''Overflow''))]"

lemma demo_cluster_title:
  "map_option (\<lambda>v. rf_title (vf_finding v)) (finalize_cluster demo_cluster) = Some (lit ''Handle leak'')"
  by code_simp

theorem representative_is_plurality_witness:
  "\<exists>v. finalize_cluster demo_cluster = Some v \<and> rf_title (vf_finding v) = lit ''Handle leak'' \<and>
     unat (vf_votes v) = 3 \<and> card (reporters demo_cluster (lit ''overflow'')) \<le>
       card (reporters demo_cluster (lit ''handle leak''))"
proof -
  obtain v where v: "finalize_cluster demo_cluster = Some v" "rf_title (vf_finding v) = lit ''Handle leak''"
    using demo_cluster_title by auto
  have t: "normalize_title (lit ''Handle leak'') = lit ''handle leak''" "normalize_title (lit ''Overflow'') = lit ''overflow''"
    by code_simp+
  have i: "(12, 2, demo_raw 12 High (lit ''Overflow'')) \<in> set demo_cluster" by (simp add: demo_cluster_def)
  have n: "item_sample ` set demo_cluster = {0, 1, 2}" by (simp add: demo_cluster_def)
  note r = representative_is_plurality [OF v(1)]
  from r n have "unat (vf_votes v) = 3" by simp
  moreover from r i have "card (reporters demo_cluster (normalize_title (rf_title (demo_raw 12 High (lit ''Overflow'')))))
      \<le> card (reporters demo_cluster (normalize_title (rf_title (vf_finding v))))" by fastforce
  ultimately show ?thesis using v t by (simp add: demo_raw_def)
qed

theorem line_clusters_spec_witness:
  "list_all (anchored 2) (line_clusters 2 demo_cluster) \<and> concat (line_clusters 2 demo_cluster) = demo_cluster"
  using line_clusters_spec [of 2 demo_cluster] by simp

end
