(* ===== verification/PathSearch.thy ===== *)
theory PathSearch
  imports Prelude "HOL-Library.Product_Lexorder"
begin

text \<open>
  The A* loop that the two path finders of the city map have in common, \<open>polis/nav.rs\<close> (citizens
  on streets) and \<open>polis/grid.rs\<close> (streets between buildings). They differ in the tiles a step may
  reach, the cost of a step, the scaling of the heuristic and the budget of expansions, which are
  arguments here. The \<open>BinaryHeap\<close> of frontier nodes, a total order on \<open>(f, g, tile)\<close>, is the
  sorted list of its elements; a \<open>u32\<close> that saturates is a natural number cut at its maximum.
\<close>

section \<open>The loop\<close>

definition u32_max :: nat where "u32_max = 4294967295"

definition sat_add :: "nat \<Rightarrow> nat \<Rightarrow> nat" where
  "sat_add a b = min u32_max (a + b)"

record 'n search =
  g_score :: "'n \<Rightarrow> nat option"
  came_from :: "'n \<Rightarrow> 'n option"
  open_heap :: "(nat \<times> nat \<times> 'n) list"

definition score_of :: "('n, 'z) search_scheme \<Rightarrow> 'n \<Rightarrow> nat" where
  "score_of s n = (case g_score s n of Some g \<Rightarrow> g | None \<Rightarrow> u32_max)"

definition relax :: "('n \<Rightarrow> nat) \<Rightarrow> ('n \<Rightarrow> nat) \<Rightarrow> nat \<Rightarrow> 'n \<Rightarrow> 'n::linorder \<Rightarrow> 'n search \<Rightarrow> 'n search" where
  "relax step h g t n s =
     (let tentative = sat_add g (step n) in
      if tentative < score_of s n
      then \<lparr>g_score = (g_score s)(n \<mapsto> tentative), came_from = (came_from s)(n \<mapsto> t),
             open_heap = insort (sat_add tentative (h n), tentative, n) (open_heap s)\<rparr>
      else s)"

partial_function (option) trace_back :: "('n \<Rightarrow> 'n option) \<Rightarrow> 'n list \<Rightarrow> 'n \<Rightarrow> 'n list option" where
  "trace_back from path cur =
     (case from cur of None \<Rightarrow> Some (rev path) | Some prev \<Rightarrow> trace_back from (path @ [prev]) prev)"

text \<open>The result is \<open>None\<close> if the loop does not end, \<open>Some None\<close> if it ends without a path.\<close>

partial_function (option) search_loop ::
    "('n::linorder \<Rightarrow> 'n list) \<Rightarrow> ('n \<Rightarrow> nat) \<Rightarrow> ('n \<Rightarrow> nat) \<Rightarrow> 'n \<Rightarrow> nat option \<Rightarrow> 'n search \<Rightarrow> 'n list option option" where
  "search_loop adj step h goal budget s =
     (case open_heap s of
        [] \<Rightarrow> Some None
      | (_, g, t) # rest \<Rightarrow>
          if t = goal then map_option Some (trace_back (came_from s) [goal] goal)
          else if score_of s t < g then search_loop adj step h goal budget (s\<lparr>open_heap := rest\<rparr>)
          else if budget = Some 0 then Some None
          else search_loop adj step h goal (map_option (\<lambda>b. b - 1) budget)
                 (fold (relax step h g t) (adj t) (s\<lparr>open_heap := rest\<rparr>)))"

definition search_init :: "('n \<Rightarrow> nat) \<Rightarrow> 'n::linorder \<Rightarrow> 'n search" where
  "search_init h start = \<lparr>g_score = [start \<mapsto> 0], came_from = Map.empty, open_heap = [(h start, 0, start)]\<rparr>"

section \<open>Graphs with a consistent heuristic\<close>

locale search_graph =
  fixes adj :: "'n::linorder \<Rightarrow> 'n list"
    and step :: "'n \<Rightarrow> nat"
    and h :: "'n \<Rightarrow> nat"
    and start goal :: 'n
    and nodes :: "'n set"
    and maxstep limit :: nat
  assumes finite_nodes: "finite nodes"
    and start_node: "start \<in> nodes"
    and adj_nodes: "t \<in> nodes \<Longrightarrow> n \<in> set (adj t) \<Longrightarrow> n \<in> nodes"
    and consistent: "t \<in> nodes \<Longrightarrow> n \<in> set (adj t) \<Longrightarrow> h t \<le> step n + h n"
    and goal_zero: "h goal = 0"
    and step_bounds: "n \<in> nodes \<Longrightarrow> 0 < step n \<and> step n \<le> maxstep"
    and no_overflow: "n \<in> nodes \<Longrightarrow> maxstep * limit + h n < u32_max"
begin

text \<open>Walks from the start, with their costs.\<close>

inductive walk :: "'n \<Rightarrow> nat \<Rightarrow> bool" where
  walk_start: "walk start 0"
| walk_step: "walk u c \<Longrightarrow> v \<in> set (adj u) \<Longrightarrow> walk v (c + step v)"

lemma walk_node: "walk v c \<Longrightarrow> v \<in> nodes"
  by (induction rule: walk.induct) (auto simp: start_node adj_nodes)

definition is_path :: "'n list \<Rightarrow> bool" where
  "is_path ps \<longleftrightarrow> ps \<noteq> [] \<and> hd ps = start \<and> successively (\<lambda>a b. b \<in> set (adj a)) ps"

definition cost :: "'n list \<Rightarrow> nat" where
  "cost ps = sum_list (map step (tl ps))"

lemma path_walk: "is_path ps \<Longrightarrow> walk (last ps) (cost ps)"
proof (induction ps rule: rev_induct)
  case (snoc v ps)
  show ?case
  proof (cases "ps = []")
    case True
    with snoc.prems show ?thesis by (simp add: is_path_def cost_def walk_start)
  next
    case False
    with snoc.prems have "is_path ps" "v \<in> set (adj (last ps))"
      by (auto simp: is_path_def successively_append_iff)
    with snoc.IH have "walk v (cost ps + step v)" by (simp add: walk_step)
    with False show ?thesis by (simp add: cost_def)
  qed
qed (simp add: is_path_def)

definition optimal :: "'n \<Rightarrow> nat \<Rightarrow> bool" where
  "optimal v g \<longleftrightarrow> walk v g \<and> (\<forall>c. walk v c \<longrightarrow> g \<le> c)"

text \<open>The invariant, for the set \<open>S\<close> of expanded nodes.\<close>

definition search_inv :: "'n set \<Rightarrow> 'n search \<Rightarrow> bool" where
  "search_inv S s \<longleftrightarrow> S \<subseteq> nodes \<and> goal \<notin> S \<and>
     g_score s start = Some 0 \<and> came_from s start = None \<and>
     (\<forall>v g. g_score s v = Some g \<longrightarrow> walk v g \<and> g \<le> maxstep * card S) \<and>
     (\<forall>v \<in> S. \<exists>g. g_score s v = Some g \<and> optimal v g) \<and>
     (\<forall>f g v. (f, g, v) \<in> set (open_heap s) \<longrightarrow> f = g + h v \<and> (\<exists>c. g_score s v = Some c \<and> c \<le> g \<and> (v \<in> S \<longrightarrow> c < g))) \<and>
     (\<forall>v g. g_score s v = Some g \<longrightarrow> v \<notin> S \<longrightarrow> (g + h v, g, v) \<in> set (open_heap s)) \<and>
     (\<forall>v g. g_score s v = Some g \<longrightarrow> v \<noteq> start \<longrightarrow>
        (\<exists>u \<in> S. \<exists>c. came_from s v = Some u \<and> v \<in> set (adj u) \<and> g_score s u = Some c \<and> g = c + step v)) \<and>
     sorted (open_heap s) \<and> distinct (open_heap s)"

definition relaxed :: "'n set \<Rightarrow> 'n search \<Rightarrow> bool" where
  "relaxed S s \<longleftrightarrow> (\<forall>v \<in> S. \<forall>g. g_score s v = Some g \<longrightarrow>
     (\<forall>n \<in> set (adj v). \<exists>c. g_score s n = Some c \<and> c \<le> g + step n))"

lemma inv_heap:
  assumes "search_inv S s" and "(f, g, v) \<in> set (open_heap s)"
  obtains c where "f = g + h v" and "g_score s v = Some c" and "c \<le> g" and "v \<in> S \<Longrightarrow> c < g"
proof -
  from assms(1) have "\<forall>f g v. (f, g, v) \<in> set (open_heap s) \<longrightarrow> f = g + h v \<and> (\<exists>c. g_score s v = Some c \<and> c \<le> g \<and> (v \<in> S \<longrightarrow> c < g))"
    by (simp add: search_inv_def)
  with assms(2) have "f = g + h v \<and> (\<exists>c. g_score s v = Some c \<and> c \<le> g \<and> (v \<in> S \<longrightarrow> c < g))" by blast
  with that show thesis by blast
qed

lemma inv_pred:
  assumes "search_inv S s" and "g_score s v = Some g" and "v \<noteq> start"
  obtains u c where "u \<in> S" and "came_from s v = Some u" and "v \<in> set (adj u)" and "g_score s u = Some c" and "g = c + step v"
proof -
  from assms have "\<exists>u \<in> S. \<exists>c. came_from s v = Some u \<and> v \<in> set (adj u) \<and> g_score s u = Some c \<and> g = c + step v"
    by (simp add: search_inv_def)
  with that show thesis by blast
qed

lemma relaxedD:
  "relaxed S s \<Longrightarrow> v \<in> S \<Longrightarrow> g_score s v = Some g \<Longrightarrow> n \<in> set (adj v) \<Longrightarrow> \<exists>c. g_score s n = Some c \<and> c \<le> g + step n"
  unfolding relaxed_def by blast

lemma inv_init: "search_inv {} (search_init h start) \<and> relaxed {} (search_init h start)"
  by (auto simp: search_inv_def relaxed_def search_init_def walk_start)

lemma score_of_Some: "g_score s n = Some g \<Longrightarrow> score_of s n = g"
  by (simp add: score_of_def)

text \<open>Every walk either ends in an expanded node or leaves the expanded ones by a node on the heap.\<close>

lemma frontier:
  assumes "search_inv S s" "relaxed S s" "walk v c"
  shows "v \<in> S \<or> (\<exists>y g. y \<notin> S \<and> g_score s y = Some g \<and> g + h y \<le> c + h v)"
  using assms(3)
proof (induction rule: walk.induct)
  case walk_start
  from assms(1) have "g_score s start = Some 0" by (simp add: search_inv_def)
  then show ?case by (cases "start \<in> S") auto
next
  case (walk_step u c v)
  have u: "u \<in> nodes" by (rule walk_node [OF walk_step.hyps(1)])
  from walk_step.IH show ?case
  proof
    assume "u \<in> S"
    then obtain g where g: "g_score s u = Some g" "optimal u g" using assms(1) unfolding search_inv_def by blast
    then obtain cv where cv: "g_score s v = Some cv" "cv \<le> g + step v"
      using assms(2) \<open>u \<in> S\<close> walk_step.hyps(2) unfolding relaxed_def by blast
    moreover have "g \<le> c" using g(2) walk_step.hyps(1) by (simp add: optimal_def)
    ultimately show ?thesis by (intro disjCI exI [of _ v] exI [of _ cv]) auto
  next
    assume "\<exists>y g. y \<notin> S \<and> g_score s y = Some g \<and> g + h y \<le> c + h u"
    with consistent [OF u walk_step.hyps(2)] show ?thesis by fastforce
  qed
qed

text \<open>A node that is popped and not stale has its final score.\<close>

lemma popped_optimal:
  assumes i: "search_inv S s" "relaxed S s" and o: "open_heap s = (f, g, t) # rest" and fresh: "g_score s t = Some g"
  shows "optimal t g"
proof -
  have ot: "(f, g, t) \<in> set (open_heap s)" using o by simp
  have f: "f = g + h t" using i(1) ot unfolding search_inv_def by blast
  have min: "f \<le> f'" if "(f', g', v') \<in> set (open_heap s)" for f' g' v'
  proof -
    have "sorted ((f, g, t) # rest)" using i(1) o by (simp add: search_inv_def)
    then have "(f, g, t) \<le> (f', g', v')" using that o by auto
    then show ?thesis by (auto simp: less_eq_prod_def)
  qed
  have w: "walk t g" using i(1) fresh unfolding search_inv_def by blast
  have "g \<le> c" if c: "walk t c" for c
    using frontier [OF i c]
  proof
    assume "t \<in> S"
    then obtain g' where "g_score s t = Some g'" "optimal t g'" using i(1) unfolding search_inv_def by blast
    with fresh c show ?thesis by (simp add: optimal_def)
  next
    assume "\<exists>y g'. y \<notin> S \<and> g_score s y = Some g' \<and> g' + h y \<le> c + h t"
    then obtain y g' where y: "y \<notin> S" "g_score s y = Some g'" "g' + h y \<le> c + h t" by blast
    then have "(g' + h y, g', y) \<in> set (open_heap s)" using i(1) unfolding search_inv_def by blast
    from min [OF this] y(3) f show ?thesis by simp
  qed
  with w show ?thesis by (simp add: optimal_def)
qed

text \<open>Expanding a node: it joins \<open>S\<close>, then its neighbours are relaxed in turn.\<close>

lemma pop_inv:
  assumes i: "search_inv S s" "relaxed S s" and o: "open_heap s = (f, g, t) # rest"
    and fresh: "g_score s t = Some g" and t: "t \<noteq> goal"
  shows "search_inv (insert t S) (s\<lparr>open_heap := rest\<rparr>) \<and> t \<notin> S \<and> g \<le> maxstep * card S"
proof -
  have ot: "(f, g, t) \<in> set (open_heap s)" using o by simp
  have nS: "t \<notin> S" using i(1) ot fresh unfolding search_inv_def by fastforce
  have S: "S \<subseteq> nodes" "finite S" using i(1) finite_nodes finite_subset unfolding search_inv_def by blast+
  have w: "walk t g" "g \<le> maxstep * card S" using i(1) fresh unfolding search_inv_def by blast+
  have opt: "optimal t g" by (rule popped_optimal [OF i o fresh])
  have rest: "(f', g', v) \<in> set rest \<Longrightarrow> (f', g', v) \<in> set (open_heap s) \<and> (f', g', v) \<noteq> (f, g, t)" for f' g' v
    using i(1) o by (auto simp: search_inv_def)
  have strict: "c < g'" if "(f', g', t) \<in> set rest" "g_score s t = Some c" for f' g' c
  proof -
    have "f' = g' + h t" "c \<le> g'" using i(1) rest [OF that(1)] that(2) unfolding search_inv_def by fastforce+
    moreover have "f = g + h t" using i(1) ot unfolding search_inv_def by blast
    ultimately show ?thesis using rest [OF that(1)] that(2) fresh by auto
  qed
  have "search_inv (insert t S) (s\<lparr>open_heap := rest\<rparr>)"
    unfolding search_inv_def
  proof (intro conjI allI impI ballI)
    show "insert t S \<subseteq> nodes" using S(1) walk_node [OF w(1)] by simp
    show "goal \<notin> insert t S" using i(1) t by (simp add: search_inv_def)
    show "g_score (s\<lparr>open_heap := rest\<rparr>) start = Some 0" "came_from (s\<lparr>open_heap := rest\<rparr>) start = None"
      using i(1) by (simp_all add: search_inv_def)
    show "sorted (open_heap (s\<lparr>open_heap := rest\<rparr>))" "distinct (open_heap (s\<lparr>open_heap := rest\<rparr>))"
      using i(1) o by (simp_all add: search_inv_def)
    show "walk v c" if "g_score (s\<lparr>open_heap := rest\<rparr>) v = Some c" for v c
      using i(1) that by (simp add: search_inv_def)
    show "c \<le> maxstep * card (insert t S)" if "g_score (s\<lparr>open_heap := rest\<rparr>) v = Some c" for v c
    proof -
      have "c \<le> maxstep * card S" using i(1) that by (simp add: search_inv_def)
      also have "\<dots> \<le> maxstep * card (insert t S)" using S(2) by (simp add: card_insert_if)
      finally show ?thesis .
    qed
    show "\<exists>c. g_score (s\<lparr>open_heap := rest\<rparr>) v = Some c \<and> optimal v c" if "v \<in> insert t S" for v
      using that i(1) fresh opt by (auto simp: search_inv_def)
    show "f' = g' + h v" if "(f', g', v) \<in> set (open_heap (s\<lparr>open_heap := rest\<rparr>))" for f' g' v
      using i(1) rest that unfolding search_inv_def by simp
    show "\<exists>c. g_score (s\<lparr>open_heap := rest\<rparr>) v = Some c \<and> c \<le> g' \<and> (v \<in> insert t S \<longrightarrow> c < g')"
      if "(f', g', v) \<in> set (open_heap (s\<lparr>open_heap := rest\<rparr>))" for f' g' v
    proof -
      from that have r: "(f', g', v) \<in> set rest" by simp
      with i(1) rest obtain c where "g_score s v = Some c" "c \<le> g'" "v \<in> S \<longrightarrow> c < g'" unfolding search_inv_def by blast
      with strict r show ?thesis by auto
    qed
    show "(c + h v, c, v) \<in> set (open_heap (s\<lparr>open_heap := rest\<rparr>))"
      if "g_score (s\<lparr>open_heap := rest\<rparr>) v = Some c" "v \<notin> insert t S" for v c
    proof -
      from that i(1) have "(c + h v, c, v) \<in> set (open_heap s)" by (simp add: search_inv_def)
      with o that(2) show ?thesis by auto
    qed
    show "\<exists>u \<in> insert t S. \<exists>c. came_from (s\<lparr>open_heap := rest\<rparr>) v = Some u \<and> v \<in> set (adj u) \<and>
        g_score (s\<lparr>open_heap := rest\<rparr>) u = Some c \<and> d = c + step v"
      if "g_score (s\<lparr>open_heap := rest\<rparr>) v = Some d" "v \<noteq> start" for v d
      using that i(1) by (simp add: search_inv_def)
  qed
  with nS w(2) show ?thesis by blast
qed

lemma popped_new:
  assumes "search_inv S s" "relaxed S s" "open_heap s = (f, g, t) # rest" "g_score s t = Some g" "t \<noteq> goal"
  shows "t \<in> nodes - S"
  using pop_inv [OF assms] unfolding search_inv_def by blast

lemma relax_result:
  assumes i: "search_inv S s" and t: "t \<in> S" "g_score s t = Some g" "g + maxstep \<le> maxstep * card S" and n: "n \<in> set (adj t)" "card S \<le> limit"
  shows "relax step h g t n s =
     (if g_score s n = None \<or> g + step n < the (g_score s n)
      then \<lparr>g_score = (g_score s)(n \<mapsto> g + step n), came_from = (came_from s)(n \<mapsto> t),
             open_heap = insort (g + step n + h n, g + step n, n) (open_heap s)\<rparr> else s) \<and>
     (g_score s n = None \<or> g + step n < the (g_score s n) \<longrightarrow> n \<notin> S \<and> n \<noteq> start) \<and>
     walk n (g + step n) \<and> g + step n \<le> maxstep * card S"
proof -
  have S: "S \<subseteq> nodes" "finite S" using i finite_nodes finite_subset unfolding search_inv_def by blast+
  have nn: "n \<in> nodes" using adj_nodes n(1) S(1) t(1) by blast
  have b: "g + step n \<le> maxstep * card S" using step_bounds [OF nn] t(3) by simp
  have "maxstep * card S \<le> maxstep * limit" using n(2) by (rule mult_le_mono2)
  then have lt: "g + step n + h n < u32_max" using no_overflow [OF nn] b by linarith
  have w: "walk n (g + step n)" using i t(2) n(1) walk_step unfolding search_inv_def by blast
  have new: "n \<notin> S \<and> n \<noteq> start" if "g_score s n = None \<or> g + step n < the (g_score s n)"
  proof
    show "n \<notin> S"
    proof
      assume "n \<in> S"
      then obtain c where "g_score s n = Some c" "optimal n c" using i unfolding search_inv_def by blast
      with w that show False by (simp add: optimal_def leD)
    qed
    show "n \<noteq> start" using i that unfolding search_inv_def by auto
  qed
  from lt have "sat_add g (step n) = g + step n" "sat_add (g + step n) (h n) = g + step n + h n"
    by (simp_all add: sat_add_def)
  moreover have "g + step n < score_of s n \<longleftrightarrow> g_score s n = None \<or> g + step n < the (g_score s n)"
    using lt by (auto simp: score_of_def split: option.splits)
  ultimately show ?thesis using new w b by (simp add: relax_def Let_def)
qed

lemma relax_inv:
  assumes i: "search_inv S s" and t: "t \<in> S" "g_score s t = Some g" "g + maxstep \<le> maxstep * card S" and n: "n \<in> set (adj t)" "card S \<le> limit"
  shows "search_inv S (relax step h g t n s)"
proof (cases "g_score s n = None \<or> g + step n < the (g_score s n)")
  case False
  then show ?thesis using relax_result [OF assms] i by (simp split: if_splits)
next
  case True
  let ?e = "(g + step n + h n, g + step n, n)"
  let ?s = "\<lparr>g_score = (g_score s)(n \<mapsto> g + step n), came_from = (came_from s)(n \<mapsto> t), open_heap = insort ?e (open_heap s)\<rparr>"
  from relax_result [OF assms] True have r: "relax step h g t n s = ?s" "n \<notin> S" "n \<noteq> start"
    "walk n (g + step n)" "g + step n \<le> maxstep * card S" by auto
  have stale: "g + step n < c" if e: "(f', c, n) \<in> set (open_heap s)" for f' c
  proof -
    obtain d where "g_score s n = Some d" "d \<le> c" using inv_heap [OF i e] by blast
    with True show ?thesis by simp
  qed
  have "search_inv S ?s"
    unfolding search_inv_def
  proof (intro conjI allI impI ballI)
    show "S \<subseteq> nodes" "goal \<notin> S" "g_score ?s start = Some 0" "came_from ?s start = None"
      using i r(3) by (simp_all add: search_inv_def)
    show "sorted (open_heap ?s)" using i by (simp add: search_inv_def sorted_insort)
    have "?e \<notin> set (open_heap s)" using stale by blast
    then show "distinct (open_heap ?s)" using i by (simp add: search_inv_def distinct_insort)
    show "walk v c" "c \<le> maxstep * card S" if "g_score ?s v = Some c" for v c
      using that i r(4,5) unfolding search_inv_def by (auto split: if_splits)
    show "\<exists>c. g_score ?s v = Some c \<and> optimal v c" if "v \<in> S" for v
      using that i r(2) unfolding search_inv_def by (auto split: if_splits)
    show "f' = c + h v" if "(f', c, v) \<in> set (open_heap ?s)" for f' c v
      using that i unfolding search_inv_def by (auto simp: set_insort_key)
    show "\<exists>d. g_score ?s v = Some d \<and> d \<le> c \<and> (v \<in> S \<longrightarrow> d < c)" if "(f', c, v) \<in> set (open_heap ?s)" for f' c v
    proof (cases "v = n")
      case True
      with that stale r(2) show ?thesis by (auto simp: set_insort_key intro: less_imp_le)
    next
      case False
      with that i show ?thesis unfolding search_inv_def by (auto simp: set_insort_key)
    qed
    show "(c + h v, c, v) \<in> set (open_heap ?s)" if "g_score ?s v = Some c" "v \<notin> S" for v c
      using that i unfolding search_inv_def by (auto simp: set_insort_key split: if_splits)
    show "\<exists>u \<in> S. \<exists>c. came_from ?s v = Some u \<and> v \<in> set (adj u) \<and> g_score ?s u = Some c \<and> d = c + step v"
      if "g_score ?s v = Some d" "v \<noteq> start" for v d
    proof (cases "v = n")
      case True
      with that t(1,2) n(1) r(2) show ?thesis by auto
    next
      case False
      with that(1) have "g_score s v = Some d" by simp
      from inv_pred [OF i this that(2)] obtain u c where "u \<in> S" "came_from s v = Some u" "v \<in> set (adj u)"
        "g_score s u = Some c" "d = c + step v" by blast
      with False r(2) show ?thesis by auto
    qed
  qed
  with r(1) show ?thesis by simp
qed

lemma relax_scores:
  assumes "search_inv S s" "t \<in> S" "g_score s t = Some g" "g + maxstep \<le> maxstep * card S" "n \<in> set (adj t)" "card S \<le> limit"
  shows "(\<forall>v \<in> S. g_score (relax step h g t n s) v = g_score s v) \<and>
    (\<exists>c. g_score (relax step h g t n s) n = Some c \<and> c \<le> g + step n) \<and>
    (\<forall>v c. g_score s v = Some c \<longrightarrow> (\<exists>d. g_score (relax step h g t n s) v = Some d \<and> d \<le> c))"
proof (cases "g_score s n = None \<or> g + step n < the (g_score s n)")
  case True
  with relax_result [OF assms] show ?thesis by auto
next
  case False
  with relax_result [OF assms] show ?thesis by auto
qed

lemma relax_all:
  assumes "search_inv S s" "t \<in> S" "g_score s t = Some g" "g + maxstep \<le> maxstep * card S" "set ns \<subseteq> set (adj t)" "card S \<le> limit"
  shows "search_inv S (fold (relax step h g t) ns s) \<and>
    (\<forall>v \<in> S. g_score (fold (relax step h g t) ns s) v = g_score s v) \<and>
    (\<forall>n \<in> set ns. \<exists>c. g_score (fold (relax step h g t) ns s) n = Some c \<and> c \<le> g + step n) \<and>
    (\<forall>v c. g_score s v = Some c \<longrightarrow> (\<exists>d. g_score (fold (relax step h g t) ns s) v = Some d \<and> d \<le> c))"
  using assms
proof (induction ns arbitrary: s)
  case (Cons n ns)
  let ?s = "relax step h g t n s"
  have n: "n \<in> set (adj t)" "set ns \<subseteq> set (adj t)" using Cons.prems(5) by simp_all
  note r = relax_scores [OF Cons.prems(1-4) n(1) Cons.prems(6)]
  have t: "g_score ?s t = Some g" using r Cons.prems(2,3) by simp
  note IH = Cons.IH [OF relax_inv [OF Cons.prems(1-4) n(1) Cons.prems(6)] Cons.prems(2) t Cons.prems(4) n(2) Cons.prems(6)]
  show ?case
  proof (intro conjI ballI allI impI)
    show "search_inv S (fold (relax step h g t) (n # ns) s)" using IH by simp
    show "g_score (fold (relax step h g t) (n # ns) s) v = g_score s v" if "v \<in> S" for v
      using IH r that by simp
    show "\<exists>c. g_score (fold (relax step h g t) (n # ns) s) m = Some c \<and> c \<le> g + step m" if "m \<in> set (n # ns)" for m
    proof (cases "m \<in> set ns")
      case True
      with IH show ?thesis by simp
    next
      case False
      with that have "m = n" by simp
      with r obtain c where "g_score ?s m = Some c" "c \<le> g + step m" by blast
      with IH obtain d where "g_score (fold (relax step h g t) ns ?s) m = Some d" "d \<le> c" by blast
      with \<open>c \<le> g + step m\<close> show ?thesis by auto
    qed
    show "\<exists>d. g_score (fold (relax step h g t) (n # ns) s) v = Some d \<and> d \<le> c" if c: "g_score s v = Some c" for v c
    proof -
      from r c obtain d where "g_score ?s v = Some d" "d \<le> c" by blast
      with IH obtain e where "g_score (fold (relax step h g t) ns ?s) v = Some e" "e \<le> d" by blast
      with \<open>d \<le> c\<close> show ?thesis by auto
    qed
  qed
qed simp

lemma expand:
  assumes i: "search_inv S s" "relaxed S s" and o: "open_heap s = (f, g, t) # rest"
    and fresh: "g_score s t = Some g" and t: "t \<noteq> goal" and lim: "card (insert t S) \<le> limit"
  shows "search_inv (insert t S) (fold (relax step h g t) (adj t) (s\<lparr>open_heap := rest\<rparr>)) \<and>
    relaxed (insert t S) (fold (relax step h g t) (adj t) (s\<lparr>open_heap := rest\<rparr>))"
proof -
  let ?s = "s\<lparr>open_heap := rest\<rparr>"
  let ?r = "fold (relax step h g t) (adj t) ?s"
  note p = pop_inv [OF i o fresh t]
  have S: "S \<subseteq> nodes" "finite S" using i finite_nodes finite_subset unfolding search_inv_def by blast+
  have "insert t S \<subseteq> nodes" using p unfolding search_inv_def by blast
  have b: "g + maxstep \<le> maxstep * card (insert t S)" using p S(2) by simp
  have fs: "g_score ?s t = Some g" using fresh by simp
  note a = relax_all [OF conjunct1 [OF p] insertI1 fs b subset_refl lim]
  have "relaxed (insert t S) ?r"
    unfolding relaxed_def
  proof (intro ballI allI impI)
    fix v c n
    assume v: "v \<in> insert t S" "g_score ?r v = Some c" and n: "n \<in> set (adj v)"
    have c: "g_score s v = Some c" using a v by (cases "v = t") simp_all
    show "\<exists>d. g_score ?r n = Some d \<and> d \<le> c + step n"
    proof (cases "v = t")
      case True
      with c fresh a n show ?thesis by simp
    next
      case False
      with v(1) have "v \<in> S" by simp
      from relaxedD [OF i(2) this c n] obtain e where e: "g_score ?s n = Some e" "e \<le> c + step n" by auto
      with a obtain d where "g_score ?r n = Some d" "d \<le> e" by blast
      with e(2) show ?thesis by auto
    qed
  qed
  with a p \<open>insert t S \<subseteq> nodes\<close> show ?thesis by simp
qed

lemma skip_inv:
  assumes i: "search_inv S s" "relaxed S s" and o: "open_heap s = (f, g, t) # rest" and stale: "score_of s t < g"
  shows "search_inv S (s\<lparr>open_heap := rest\<rparr>) \<and> relaxed S (s\<lparr>open_heap := rest\<rparr>)"
proof -
  have keep: "(c + h v, c, v) \<in> set rest" if "g_score s v = Some c" "v \<notin> S" for v c
  proof -
    have "(c + h v, c, v) \<in> set (open_heap s)" using i(1) that by (simp add: search_inv_def)
    moreover have "(c + h v, c, v) \<noteq> (f, g, t)" using stale that(1) by (auto simp: score_of_def)
    ultimately show ?thesis using o by auto
  qed
  have "sorted rest" "distinct rest" "set rest \<subseteq> set (open_heap s)" using i(1) o by (auto simp: search_inv_def)
  moreover have "\<forall>v g. g_score s v = Some g \<longrightarrow> v \<noteq> start \<longrightarrow>
        (\<exists>u \<in> S. \<exists>c. came_from s v = Some u \<and> v \<in> set (adj u) \<and> g_score s u = Some c \<and> g = c + step v)"
    using i(1) by (simp add: search_inv_def)
  moreover have "\<forall>f g v. (f, g, v) \<in> set rest \<longrightarrow> f = g + h v \<and> (\<exists>c. g_score s v = Some c \<and> c \<le> g \<and> (v \<in> S \<longrightarrow> c < g))"
  proof (intro allI impI)
    fix f g v assume "(f, g, v) \<in> set rest"
    then have "(f, g, v) \<in> set (open_heap s)" using o by simp
    from inv_heap [OF i(1) this] show "f = g + h v \<and> (\<exists>c. g_score s v = Some c \<and> c \<le> g \<and> (v \<in> S \<longrightarrow> c < g))" by blast
  qed
  ultimately show ?thesis using i keep by (simp add: search_inv_def relaxed_def)
qed

text \<open>The predecessors lead back to the start, at the cost of the score.\<close>

lemma trace_back_path:
  assumes i: "search_inv S s"
  shows "g_score s v = Some g \<Longrightarrow> path \<noteq> [] \<Longrightarrow> last path = v \<Longrightarrow>
    \<exists>ps. trace_back (came_from s) path v = Some (ps @ tl (rev path)) \<and> is_path ps \<and> last ps = v \<and> cost ps = g"
proof (induction g arbitrary: v path rule: less_induct)
  case (less g)
  show ?case
  proof (cases "v = start")
    case True
    with less.prems i have "came_from s v = None" "g = 0" by (auto simp: search_inv_def)
    moreover have "rev path = [v] @ tl (rev path)" using less.prems(2,3) by (cases path rule: rev_cases) auto
    ultimately show ?thesis using True
      by (intro exI [of _ "[v]"]) (subst trace_back.simps, simp add: is_path_def cost_def)
  next
    case False
    from inv_pred [OF i less.prems(1) False] obtain u c where
      u: "came_from s v = Some u" "v \<in> set (adj u)" "g_score s u = Some c" "g = c + step v" by blast
    have "v \<in> nodes" using i less.prems(1) walk_node unfolding search_inv_def by blast
    then have "c < g" using step_bounds u(4) by simp
    from less.IH [OF this u(3), of "path @ [u]"] obtain ps where
      ps: "trace_back (came_from s) (path @ [u]) u = Some (ps @ tl (rev (path @ [u])))" "is_path ps" "last ps = u" "cost ps = c"
      by auto
    have "rev path = [v] @ tl (rev path)" using less.prems(2,3) by (cases path rule: rev_cases) auto
    moreover have "is_path (ps @ [v])" "cost (ps @ [v]) = g"
      using ps(2-4) u(2,4) by (auto simp: is_path_def successively_append_iff cost_def)
    ultimately show ?thesis using ps(1) u(1)
      by (intro exI [of _ "ps @ [v]"]) (subst trace_back.simps, simp)
  qed
qed

lemma goal_popped:
  assumes i: "search_inv S s" "relaxed S s" and o: "open_heap s = (f, g, goal) # rest"
  shows "\<exists>ps. trace_back (came_from s) [goal] goal = Some ps \<and> is_path ps \<and> last ps = goal \<and> optimal goal (cost ps)"
proof -
  have og: "(f, g, goal) \<in> set (open_heap s)" using o by simp
  obtain c where c: "f = g + h goal" "g_score s goal = Some c" "c \<le> g" using inv_heap [OF i(1) og] by blast
  have "goal \<notin> S" using i(1) by (simp add: search_inv_def)
  with c(2) i(1) have "(c + h goal, c, goal) \<in> set (open_heap s)" by (simp add: search_inv_def)
  moreover have "sorted ((f, g, goal) # rest)" using i(1) o by (simp add: search_inv_def)
  ultimately have "(f, g, goal) \<le> (c + h goal, c, goal)" using o by auto
  with c have "g = c" by (auto simp: less_eq_prod_def)
  with c have "g_score s goal = Some g" by simp
  from popped_optimal [OF i o this] have "optimal goal g" .
  moreover from trace_back_path [OF i(1) \<open>g_score s goal = Some g\<close>, of "[goal]"]
  obtain ps where "trace_back (came_from s) [goal] goal = Some ps" "is_path ps" "last ps = goal" "cost ps = g" by auto
  ultimately show ?thesis by blast
qed

lemma heap_empty:
  assumes "search_inv S s" "relaxed S s" "open_heap s = []"
  shows "\<not> walk goal c"
proof
  assume w: "walk goal c"
  from frontier [OF assms(1,2) w] show False
  proof
    assume "goal \<in> S"
    with assms(1) show False by (simp add: search_inv_def)
  next
    assume "\<exists>y g. y \<notin> S \<and> g_score s y = Some g \<and> g + h y \<le> c + h goal"
    then obtain y g where "y \<notin> S" "g_score s y = Some g" by blast
    with assms(1) have "(g + h y, g, y) \<in> set (open_heap s)" by (simp add: search_inv_def)
    with assms(3) show False by simp
  qed
qed

definition answers :: "nat option \<Rightarrow> nat \<Rightarrow> 'n list option \<Rightarrow> bool" where
  "answers budget left r \<longleftrightarrow> (case r of
       Some ps \<Rightarrow> is_path ps \<and> last ps = goal \<and> optimal goal (cost ps)
     | None \<Rightarrow> (\<forall>c. \<not> walk goal c) \<or> (\<exists>b. budget = Some b \<and> b < left))"

lemma answers_mono: "answers budget m r \<Longrightarrow> m \<le> n \<Longrightarrow> answers budget n r"
  by (auto simp: answers_def split: option.splits)

lemma answers_spend:
  "answers (map_option (\<lambda>b. b - 1) budget) m r \<Longrightarrow> m < n \<Longrightarrow> budget \<noteq> Some 0 \<Longrightarrow> answers budget n r"
  by (cases budget) (auto simp: answers_def split: option.splits)

text \<open>The number of expansions stays within the limit for which scores do not saturate.\<close>

definition fits :: "nat option \<Rightarrow> 'n set \<Rightarrow> bool" where
  "fits budget S \<longleftrightarrow> card nodes \<le> limit \<or> (\<exists>b. budget = Some b \<and> card S + b \<le> limit)"

lemma fits_insert:
  assumes "fits budget S" "t \<in> nodes - S" "S \<subseteq> nodes" "budget \<noteq> Some 0"
  shows "card (insert t S) \<le> limit \<and> fits (map_option (\<lambda>b. b - 1) budget) (insert t S)"
proof -
  have f: "finite S" using assms(3) finite_nodes finite_subset by blast
  have "card (insert t S) \<le> card nodes" using assms(2,3) by (intro card_mono [OF finite_nodes]) auto
  with assms f show ?thesis by (cases budget) (auto simp: fits_def)
qed

lemma search_loop_answers:
  "search_inv S s \<Longrightarrow> relaxed S s \<Longrightarrow> fits budget S \<Longrightarrow> \<exists>r. search_loop adj step h goal budget s = Some r \<and> answers budget (card (nodes - S)) r"
proof (induction "(card (nodes - S), length (open_heap s))" arbitrary: S s budget
    rule: wf_induct_rule [OF wf_lex_prod [OF wf_less_than wf_less_than]])
  case 1
  note IH = 1(1) and i = 1(2,3) and fit = 1(4)
  have S: "S \<subseteq> nodes" using i(1) by (simp add: search_inv_def)
  show ?case
  proof (cases "open_heap s")
    case Nil
    with heap_empty [OF i] show ?thesis by (subst search_loop.simps) (simp add: answers_def)
  next
    case (Cons e rest)
    obtain f g t where o: "open_heap s = (f, g, t) # rest" using Cons by (cases e) auto
    let ?s = "s\<lparr>open_heap := rest\<rparr>"
    obtain c where c: "g_score s t = Some c" "c \<le> g" using inv_heap [OF i(1), of f g t] o by auto
    consider "t = goal" | "t \<noteq> goal" "c < g" | "t \<noteq> goal" "c = g" "budget = Some 0" | "t \<noteq> goal" "c = g" "budget \<noteq> Some 0"
      using c(2) by force
    then show ?thesis
    proof cases
      case 1
      with goal_popped [OF i] o show ?thesis by (subst search_loop.simps) (auto simp: answers_def)
    next
      case 2
      then have st: "score_of s t < g" using c by (simp add: score_of_def)
      from skip_inv [OF i o st] have "search_inv S ?s" "relaxed S ?s" by blast+
      from IH [OF _ this fit] o st 2(1) show ?thesis by (subst search_loop.simps) simp
    next
      case 3
      with c have fresh: "g_score s t = Some g" by simp
      from popped_new [OF i o fresh 3(1)] have "t \<in> nodes - S" .
      then have "0 < card (nodes - S)" using finite_nodes by (auto simp: card_gt_0_iff)
      with 3 o c show ?thesis by (subst search_loop.simps) (simp add: answers_def score_of_def)
    next
      case 4
      with c have fresh: "g_score s t = Some g" by simp
      let ?r = "fold (relax step h g t) (adj t) ?s"
      note new = popped_new [OF i o fresh 4(1)]
      note fits = fits_insert [OF fit new S 4(3)]
      note x = expand [OF i o fresh 4(1) conjunct1 [OF fits]]
      from new have lt: "card (nodes - insert t S) < card (nodes - S)"
        using finite_nodes by (intro psubset_card_mono) auto
      from IH [OF _ conjunct1 [OF x] conjunct2 [OF x] conjunct2 [OF fits]] lt
      obtain r where "search_loop adj step h goal (map_option (\<lambda>b. b - 1) budget) ?r = Some r"
        "answers (map_option (\<lambda>b. b - 1) budget) (card (nodes - insert t S)) r" by auto
      with 4 o c answers_spend [OF _ lt] show ?thesis by (subst search_loop.simps) (simp add: score_of_def)
    qed
  qed
qed

text \<open>The search ends. A path it returns is a cheapest one; without a budget, or with one of at least the
  number of nodes, no path is returned only when there is none.\<close>

theorem search_spec:
  "fits budget {} \<Longrightarrow> \<exists>r. search_loop adj step h goal budget (search_init h start) = Some r \<and> answers budget (card nodes) r"
  using search_loop_answers [of "{}" "search_init h start" budget] inv_init by simp

lemma cheapest: "optimal goal c \<Longrightarrow> is_path ps \<Longrightarrow> last ps = goal \<Longrightarrow> c \<le> cost ps"
  using path_walk [of ps] by (simp add: optimal_def)

lemma no_path: "\<forall>c. \<not> walk goal c \<Longrightarrow> is_path ps \<Longrightarrow> last ps \<noteq> goal"
  using path_walk [of ps] by auto

end

end
