(* ===== verification/PolisMap.thy ===== *)
theory PolisMap
  imports PathSearch
begin

text \<open>
  The vocabulary of the city map, \<open>polis/model.rs\<close> and \<open>polis/footprint.rs\<close>: coordinates, buildings,
  roads, tiles, and the footprint of a building. Of the wire types the fields are kept that the
  map code reads. \<open>Tile\<close> (of the terrain) and \<open>Cell\<close> (of the street grid) are the same pair of
  integers with the same order, and one type here. A finite \<open>f64\<close> is a rational number and arithmetic on
  coordinates is exact, without the rounding of the last bit. A cast to \<open>i32\<close> saturates; the arithmetic on tiles is that of the integers, so the model stands for maps whose
  coordinates leave room in an \<open>i32\<close>.
\<close>

section \<open>Coordinates\<close>

definition i32_max :: int where "i32_max = 2147483647"
definition i32_min :: int where "i32_min = -2147483648"

definition clamp_i32 :: "int \<Rightarrow> int" where
  "clamp_i32 i = max i32_min (min i32_max i)"

text \<open>\<open>f64::round\<close>, half away from zero.\<close>

definition round_half_away :: "rat \<Rightarrow> int" where
  "round_half_away q = (if q \<ge> 0 then \<lfloor>q + 1 / 2\<rfloor> else - \<lfloor>- q + 1 / 2\<rfloor>)"

text \<open>\<open>x.round() as i32\<close>, \<open>x.floor() as i32\<close>, \<open>x.ceil() as i32\<close>.\<close>

definition as_i32 :: "(rat \<Rightarrow> int) \<Rightarrow> f64 \<Rightarrow> int" where
  "as_i32 f x = (case x of Fin q \<Rightarrow> clamp_i32 (f q) | PosInf \<Rightarrow> i32_max | NegInf \<Rightarrow> i32_min | NaN \<Rightarrow> 0)"

definition f64_of :: "int \<Rightarrow> f64" where
  "f64_of i = Fin (of_int i)"

fun f64_add_int :: "f64 \<Rightarrow> int \<Rightarrow> f64" where
  "f64_add_int (Fin q) i = Fin (q + of_int i)"
| "f64_add_int x i = x"

text \<open>\<open>f64::min\<close> and \<open>f64::max\<close>, which ignore a NaN.\<close>

definition f64_min :: "f64 \<Rightarrow> f64 \<Rightarrow> f64" where
  "f64_min a b = (if a = NaN then b else if b = NaN then a else if f64_lt b a then b else a)"

definition f64_max :: "f64 \<Rightarrow> f64 \<Rightarrow> f64" where
  "f64_max a b = (if a = NaN then b else if b = NaN then a else if f64_lt a b then b else a)"

record coords =
  co_x :: f64
  co_y :: f64

lemma round_int [simp]: "round_half_away (of_int i) = i"
proof -
  have "\<lfloor>of_int j + 1 / 2 :: rat\<rfloor> = j" for j
    by (simp add: floor_eq_iff)
  from this [of i] this [of "- i"] show ?thesis by (simp add: round_half_away_def)
qed

section \<open>Tiles\<close>

datatype tile = Tile (gx: int) (gy: int)

instantiation tile :: linorder
begin

definition less_eq_tile :: "tile \<Rightarrow> tile \<Rightarrow> bool" where
  "less_eq_tile a b \<longleftrightarrow> (gx a, gy a) \<le> (gx b, gy b)"

definition less_tile :: "tile \<Rightarrow> tile \<Rightarrow> bool" where
  "less_tile a b \<longleftrightarrow> (gx a, gy a) < (gx b, gy b)"

instance
proof
  fix a b c :: tile
  show "a < b \<longleftrightarrow> a \<le> b \<and> \<not> b \<le> a" by (auto simp: less_eq_tile_def less_tile_def)
  show "a \<le> a" by (simp add: less_eq_tile_def)
  show "a \<le> b \<Longrightarrow> b \<le> c \<Longrightarrow> a \<le> c" unfolding less_eq_tile_def by (rule order_trans)
  show "a \<le> b \<Longrightarrow> b \<le> a \<Longrightarrow> a = b" by (cases a; cases b) (auto simp: less_eq_tile_def)
  show "a \<le> b \<or> b \<le> a" by (auto simp: less_eq_tile_def)
qed

end

definition NEIGHBORS :: "(int \<times> int) list" where
  "NEIGHBORS = [(1, 0), (-1, 0), (0, 1), (0, -1)]"

definition neighbors :: "tile \<Rightarrow> tile list" where
  "neighbors t = map (\<lambda>(dx, dy). Tile (gx t + dx) (gy t + dy)) NEIGHBORS"

definition manhattan :: "tile \<Rightarrow> tile \<Rightarrow> nat" where
  "manhattan a b = nat \<bar>gx a - gx b\<bar> + nat \<bar>gy a - gy b\<bar>"

lemma neighbors_iff: "n \<in> set (neighbors t) \<longleftrightarrow> manhattan t n = 1"
proof -
  have "manhattan t n = 1 \<longleftrightarrow> (\<bar>gx t - gx n\<bar> = 1 \<and> gy t = gy n) \<or> (gx t = gx n \<and> \<bar>gy t - gy n\<bar> = 1)"
    by (auto simp: manhattan_def)
  then show ?thesis by (cases n) (auto simp: neighbors_def NEIGHBORS_def)
qed

lemma manhattan_int: "int (manhattan a b) = \<bar>gx a - gx b\<bar> + \<bar>gy a - gy b\<bar>"
  by (simp add: manhattan_def)

lemma manhattan_step:
  assumes "n \<in> set (neighbors t)"
  shows "manhattan t b \<le> manhattan n b + 1"
proof -
  have "int (manhattan t b) \<le> int (manhattan n b) + 1"
    using assms by (auto simp: neighbors_def NEIGHBORS_def manhattan_int)
  then show ?thesis by simp
qed

lemma manhattan_self [simp]: "manhattan a a = 0"
  by (simp add: manhattan_def)

definition tile_of :: "coords \<Rightarrow> tile" where
  "tile_of c = Tile (as_i32 round_half_away (co_x c)) (as_i32 round_half_away (co_y c))"

definition to_coords :: "tile \<Rightarrow> coords" where
  "to_coords t = \<lparr>co_x = f64_of (gx t), co_y = f64_of (gy t)\<rparr>"

definition in_i32 :: "tile \<Rightarrow> bool" where
  "in_i32 t \<longleftrightarrow> i32_min \<le> gx t \<and> gx t \<le> i32_max \<and> i32_min \<le> gy t \<and> gy t \<le> i32_max"

lemma tile_of_to_coords: "in_i32 t \<Longrightarrow> tile_of (to_coords t) = t"
  by (cases t) (simp add: tile_of_def to_coords_def f64_of_def as_i32_def clamp_i32_def in_i32_def)

lemma as_i32_bounds: "i32_min \<le> as_i32 f x \<and> as_i32 f x \<le> i32_max"
  by (simp add: as_i32_def clamp_i32_def i32_min_def i32_max_def split: f64.split)

lemma tile_of_in_i32 [simp]: "in_i32 (tile_of c)"
  by (simp add: in_i32_def tile_of_def as_i32_bounds)

section \<open>Buildings and roads\<close>

record building =
  bd_file_id :: rstr
  bd_file_path :: rstr
  bd_district_id :: rstr
  bd_purpose :: rstr
  bd_feature_id :: rstr
  bd_visual_tier :: rstr
  bd_coords :: coords

record road =
  rd_road_id :: rstr
  rd_from :: rstr
  rd_to :: rstr
  rd_road_type :: rstr
  rd_weight :: nat
  rd_path :: "coords list option"

definition tier_level :: "rstr \<Rightarrow> nat" where
  "tier_level tier =
     (if tier = lit ''kalybe'' then 0
      else if tier = lit ''oikia'' then 1
      else if tier = lit ''synoikia'' then 2
      else if tier = lit ''megaron'' then 3
      else if tier = lit ''mnemeion'' then 4
      else 0)"

definition footprint_table :: "(rstr \<times> (int \<times> int) list) list" where
  "footprint_table =
     [(lit ''temple'', [(2, 3), (2, 3), (3, 4), (3, 5), (4, 6)]),
      (lit ''house'', [(1, 1), (1, 1), (2, 2), (2, 2), (3, 3)]),
      (lit ''fortress'', [(2, 2), (2, 2), (3, 3), (3, 4), (4, 4)]),
      (lit ''tower'', [(1, 1), (1, 1), (1, 1), (2, 2), (2, 2)]),
      (lit ''lighthouse'', [(2, 2), (2, 2), (2, 2), (2, 2), (2, 2)]),
      (lit ''market'', [(2, 2), (2, 3), (3, 3), (3, 4), (4, 4)]),
      (lit ''warehouse'', [(2, 2), (2, 3), (3, 3), (4, 3), (4, 4)]),
      (lit ''workshop'', [(1, 1), (2, 2), (2, 2), (3, 2), (3, 3)]),
      (lit ''conduit'', [(1, 2), (1, 3), (1, 3), (1, 4), (1, 5)]),
      (lit ''baths'', [(2, 2), (2, 3), (3, 3), (3, 4), (4, 4)]),
      (lit ''theater'', [(3, 2), (3, 3), (4, 3), (4, 4), (5, 4)]),
      (lit ''harbor'', [(2, 2), (3, 2), (3, 3), (4, 3), (4, 4)]),
      (lit ''library'', [(2, 2), (3, 2), (3, 3), (4, 3), (4, 3)]),
      (lit ''townhall'', [(2, 2), (3, 3), (3, 3), (4, 4), (4, 5)])]"

definition building_footprint :: "rstr \<Rightarrow> rstr \<Rightarrow> int \<times> int" where
  "building_footprint purpose tier =
     (let l = tier_level tier in
      case map_of footprint_table purpose of
        Some table \<Rightarrow> table ! l
      | None \<Rightarrow> replicate 5 (1, 1) ! l)"

definition building_tiles :: "building list \<Rightarrow> tile set" where
  "building_tiles buildings =
     (\<Union>b \<in> set buildings.
        let (fw, fd) = building_footprint (bd_purpose b) (bd_visual_tier b);
            x0 = as_i32 round_half_away (co_x (bd_coords b));
            y0 = as_i32 round_half_away (co_y (bd_coords b))
        in set [Tile (x0 + dx) (y0 + dy). dx \<leftarrow> [0..fw - 1], dy \<leftarrow> [0..fd - 1]])"

text \<open>The walk along one segment of a road: diagonally until one axis matches, then straight.\<close>

function segment_tiles :: "int \<Rightarrow> int \<Rightarrow> int \<Rightarrow> int \<Rightarrow> tile list" where
  "segment_tiles x y cx cy =
     (if x = cx \<and> y = cy then []
      else let x' = (if x \<noteq> cx then x + sgn (cx - x) else x); y' = (if y \<noteq> cy then y + sgn (cy - y) else y)
           in Tile x' y' # segment_tiles x' y' cx cy)"
  by pat_completeness auto
termination
  by (relation "measure (\<lambda>(x, y, cx, cy). nat \<bar>cx - x\<bar> + nat \<bar>cy - y\<bar>)") (auto simp: sgn_if)

declare segment_tiles.simps [simp del]

fun polyline_tiles :: "tile \<Rightarrow> tile list \<Rightarrow> tile list" where
  "polyline_tiles prev [] = []"
| "polyline_tiles prev (cur # rest) = segment_tiles (gx prev) (gy prev) (gx cur) (gy cur) @ polyline_tiles cur rest"

definition road_path_tiles :: "road list \<Rightarrow> tile set" where
  "road_path_tiles roads =
     (\<Union>r \<in> set roads. case rd_path r of
        None \<Rightarrow> {}
      | Some path \<Rightarrow> (case map tile_of path of [] \<Rightarrow> {} | p # ps \<Rightarrow> insert p (set (polyline_tiles p ps))))"

lemma footprint_bounds: "building_footprint purpose tier \<in> {1..5} \<times> {1..6}"
proof -
  have l: "tier_level tier < 5" by (simp add: tier_level_def)
  have all: "\<forall>(p, t) \<in> set footprint_table. length t = 5 \<and> set t \<subseteq> {1..5} \<times> {1..6}"
    by (simp add: footprint_table_def)
  show ?thesis
  proof (cases "map_of footprint_table purpose")
    case None
    then show ?thesis using l by (simp add: building_footprint_def Let_def nth_replicate del: replicate.simps)
  next
    case (Some t)
    with map_of_SomeD [OF Some] all l have "t ! tier_level tier \<in> {1..5} \<times> {1..6}"
      using nth_mem [of "tier_level tier" t] by fastforce
    with Some show ?thesis by (simp add: building_footprint_def Let_def)
  qed
qed

end
