(* ===== verification/PolisStreets.thy ===== *)
theory PolisStreets
  imports PolisGrid
begin

text \<open>
  The laws of the street grid, \<open>polis/grid.rs\<close>: what the occupancy grid marks, that the search of a
  street returns a cheapest one, that a street is recovered from its corners, and what all streets
  together guarantee.
\<close>

section \<open>The occupancy grid marks the footprints\<close>

lemma set_footprint_list: "set (footprint_list b) = {c. rect_contains (rect_of b) c}"
proof -
  have "c \<in> set (footprint_list b) \<longleftrightarrow> rect_contains (rect_of b) c" for c
  proof -
    obtain w h where f: "footprint_cells b = (w, h)" by fastforce
    let ?o = "tile_of (bd_coords b)"
    have "c \<in> set (footprint_list b) \<longleftrightarrow> (\<exists>dy \<in> {0..h - 1}. \<exists>dx \<in> {0..w - 1}. c = Tile (gx ?o + dx) (gy ?o + dy))"
      by (auto simp: footprint_list_def f Let_def)
    also have "\<dots> \<longleftrightarrow> gx c - gx ?o \<in> {0..w - 1} \<and> gy c - gy ?o \<in> {0..h - 1}"
      by (cases c) (auto intro: bexI [of _ "gy c - gy ?o"] bexI [of _ "gx c - gx ?o"])
    also have "\<dots> \<longleftrightarrow> rect_contains (rect_of b) c"
      by (auto simp: rect_contains_def rect_of_def f Let_def)
    finally show ?thesis .
  qed
  then show ?thesis by blast
qed

lemma idx_inj:
  assumes "in_bounds g a" "in_bounds g b" "grid_idx g a = grid_idx g b"
  shows "a = b"
proof -
  let ?w = "og_w g"
  have r: "0 \<le> gx a - og_min_x g" "gx a - og_min_x g < ?w" "0 \<le> gx b - og_min_x g" "gx b - og_min_x g < ?w"
    "0 \<le> gy a - og_min_y g" "0 \<le> gy b - og_min_y g"
    using assms(1,2) by (auto simp: in_bounds_def)
  then have "(gy a - og_min_y g) * ?w + (gx a - og_min_x g) = (gy b - og_min_y g) * ?w + (gx b - og_min_x g)"
    using assms(3) by (simp add: grid_idx_def eq_nat_nat_iff)
  moreover have "((gy c - og_min_y g) * ?w + (gx c - og_min_x g)) mod ?w = gx c - og_min_x g"
    "((gy c - og_min_y g) * ?w + (gx c - og_min_x g)) div ?w = gy c - og_min_y g"
    if "0 \<le> gx c - og_min_x g" "gx c - og_min_x g < ?w" for c
    using that by simp_all
  ultimately have "gx a = gx b" "gy a = gy b" using r by (metis add_diff_cancel diff_add_cancel)+
  then show ?thesis by (cases a; cases b) simp
qed

definition well_sized :: "occupancy_grid \<Rightarrow> bool" where
  "well_sized g \<longleftrightarrow> 0 \<le> og_w g \<and> 0 \<le> og_h g \<and> length (og_occupied g) = nat (og_w g * og_h g)"

lemma idx_bound:
  assumes "well_sized g" "in_bounds g c"
  shows "grid_idx g c < length (og_occupied g)"
proof -
  let ?x = "gx c - og_min_x g" and ?y = "gy c - og_min_y g"
  have r: "0 \<le> ?x" "?x < og_w g" "0 \<le> ?y" "?y < og_h g" using assms(2) by (auto simp: in_bounds_def)
  have "?y * og_w g + ?x < (?y + 1) * og_w g" using r by (simp add: algebra_simps)
  also have "\<dots> \<le> og_h g * og_w g" using r by (intro mult_right_mono) auto
  finally have "?y * og_w g + ?x < og_w g * og_h g" by (simp add: mult.commute)
  moreover have "0 \<le> ?y * og_w g + ?x" using r by simp
  ultimately show ?thesis using assms(1) by (simp add: grid_idx_def well_sized_def)
qed

lemma grid_set_simps [simp]:
  "in_bounds (grid_set c v g) = in_bounds g" "grid_idx (grid_set c v g) = grid_idx g"
  "well_sized (grid_set c v g) = well_sized g" "og_w (grid_set c v g) = og_w g" "og_h (grid_set c v g) = og_h g"
  by (auto simp: grid_set_def in_bounds_def [abs_def] grid_idx_def [abs_def] well_sized_def)

lemma occupied_set:
  assumes ws: "well_sized g"
  shows "is_occupied (grid_set c True g) d \<longleftrightarrow> is_occupied g d \<or> (d = c \<and> in_bounds g c)"
proof (cases "in_bounds g c \<and> in_bounds g d")
  case True
  then have "is_occupied (grid_set c True g) d \<longleftrightarrow> (og_occupied g)[grid_idx g c := True] ! grid_idx g d"
    unfolding is_occupied_def grid_set_simps by (simp add: grid_set_def)
  also have "\<dots> \<longleftrightarrow> og_occupied g ! grid_idx g d \<or> d = c"
    using idx_bound [OF ws, of c] idx_inj [of g c d] True by (cases "d = c") (metis nth_list_update_eq, metis nth_list_update_neq)
  finally show ?thesis using True by (auto simp: is_occupied_def)
next
  case False
  then show ?thesis
  proof (cases "in_bounds g c")
    case True
    with False have "\<not> in_bounds g d" by simp
    with True show ?thesis by (auto simp: is_occupied_def)
  qed (auto simp: grid_set_def)
qed

lemma occupied_marks:
  "well_sized g \<Longrightarrow> is_occupied (fold (\<lambda>c. grid_set c True) cs g) d \<longleftrightarrow> is_occupied g d \<or> (d \<in> set cs \<and> in_bounds g d)"
  by (induction cs arbitrary: g) (auto simp: occupied_set)

lemma fold_marks_bounds [simp]:
  "in_bounds (fold (\<lambda>c. grid_set c True) cs g) = in_bounds g" "og_w (fold (\<lambda>c. grid_set c True) cs g) = og_w g"
  "og_h (fold (\<lambda>c. grid_set c True) cs g) = og_h g"
  by (induction cs arbitrary: g) auto

lemma fold_min: "fold (\<lambda>b m. min m (f b)) xs a = Min (insert (a :: int) (f ` set xs))"
proof (induction xs arbitrary: a)
  case (Cons y ys)
  then show ?case by (cases "ys = []") (simp_all add: min.assoc)
qed simp

lemma fold_max: "fold (\<lambda>b m. max m (f b)) xs a = Max (insert (a :: int) (f ` set xs))"
proof (induction xs arbitrary: a)
  case (Cons y ys)
  then show ?case by (cases "ys = []") (simp_all add: max.assoc)
qed simp

lemma fold_min_le: "x \<in> set xs \<Longrightarrow> fold (\<lambda>b m. min m (f b)) xs a \<le> (f x :: int)"
  unfolding fold_min by (rule Min_le) auto

lemma fold_max_ge: "x \<in> set xs \<Longrightarrow> f x \<le> (fold (\<lambda>b m. max m (f b)) xs a :: int)"
  unfolding fold_max by (rule Max_ge) auto

text \<open>The grid covers every footprint, so a cell is occupied exactly if it belongs to one.\<close>

lemma grid_build_spec:
  assumes "grid_build buildings = Some g"
  shows "(\<forall>c. is_occupied g c \<longleftrightarrow> (\<exists>b \<in> set buildings. rect_contains (rect_of b) c)) \<and>
    (\<forall>b \<in> set buildings. in_bounds g (tile_of (bd_coords b))) \<and> 0 < og_w g \<and> 0 < og_h g \<and> og_w g * og_h g \<le> MAX_GRID_CELLS"
proof -
  let ?c = "\<lambda>b. tile_of (bd_coords b)"
  let ?x0 = "fold (\<lambda>b m. min m (gx (?c b))) buildings i32_max - GRID_MARGIN"
  let ?y0 = "fold (\<lambda>b m. min m (gy (?c b))) buildings i32_max - GRID_MARGIN"
  let ?x1 = "fold (\<lambda>b m. max m (gx (?c b) + fst (footprint_cells b) - 1)) buildings i32_min + GRID_MARGIN"
  let ?y1 = "fold (\<lambda>b m. max m (gy (?c b) + snd (footprint_cells b) - 1)) buildings i32_min + GRID_MARGIN"
  let ?w = "max (?x1 - ?x0 + 1) 1" and ?h = "max (?y1 - ?y0 + 1) 1"
  let ?g = "\<lparr>og_min_x = ?x0, og_min_y = ?y0, og_w = ?w, og_h = ?h, og_occupied = replicate (nat (?w * ?h)) False\<rparr>"
  from assms have g: "g = fold (\<lambda>c. grid_set c True) (concat (map footprint_list buildings)) ?g" and le: "?w * ?h \<le> MAX_GRID_CELLS"
    by (auto simp: grid_build_def Let_def split: if_splits)
  have "well_sized \<lparr>og_min_x = a, og_min_y = b, og_w = w, og_h = h, og_occupied = replicate (nat (w * h)) False\<rparr>"
    if "0 \<le> w" "0 \<le> h" for a b w h
    using that by (simp add: well_sized_def)
  then have ws: "well_sized ?g" by (meson max.coboundedI2 zero_le_one)
  have inside: "in_bounds ?g c" if b: "b \<in> set buildings" "rect_contains (rect_of b) c" for b c
  proof -
    have "gx (?c b) \<le> gx c" "gx c \<le> gx (?c b) + fst (footprint_cells b) - 1"
      "gy (?c b) \<le> gy c" "gy c \<le> gy (?c b) + snd (footprint_cells b) - 1"
      using b(2) by (auto simp: rect_contains_def rect_of_def Let_def split: prod.splits)
    moreover note fold_min_le [OF b(1), of "\<lambda>b. gx (?c b)" i32_max] fold_min_le [OF b(1), of "\<lambda>b. gy (?c b)" i32_max]
      fold_max_ge [OF b(1), of "\<lambda>b. gx (?c b) + fst (footprint_cells b) - 1" i32_min]
      fold_max_ge [OF b(1), of "\<lambda>b. gy (?c b) + snd (footprint_cells b) - 1" i32_min]
    ultimately show ?thesis by (simp add: in_bounds_def GRID_MARGIN_def)
  qed
  have corner: "rect_contains (rect_of b) (?c b)" for b
    by (auto simp: rect_contains_def rect_of_def Let_def footprint_cells_def split: prod.splits)
  have empty: "\<not> is_occupied ?g c" for c
    using idx_bound [OF ws, of c] by (auto simp: is_occupied_def)
  have "is_occupied g c \<longleftrightarrow> (\<exists>b \<in> set buildings. rect_contains (rect_of b) c)" for c
    unfolding g occupied_marks [OF ws] using inside empty by (auto simp: set_footprint_list)
  moreover have "in_bounds g (?c b)" if "b \<in> set buildings" for b
    unfolding g using inside [OF that corner] by simp
  moreover have "og_w g = ?w" "og_h g = ?h" by (simp_all add: g)
  then have "0 < og_w g" "0 < og_h g" "og_w g * og_h g \<le> MAX_GRID_CELLS"
    using le by (auto simp only: intro!: less_le_trans [OF zero_less_one max.cobounded2])
  ultimately show ?thesis by blast
qed

lemma grid_build_None:
  "grid_build buildings = None \<longleftrightarrow> buildings = [] \<or>
     MAX_GRID_CELLS <
       max (fold (\<lambda>b m. max m (gx (tile_of (bd_coords b)) + fst (footprint_cells b) - 1)) buildings i32_min + GRID_MARGIN -
          (fold (\<lambda>b m. min m (gx (tile_of (bd_coords b)))) buildings i32_max - GRID_MARGIN) + 1) 1 *
       max (fold (\<lambda>b m. max m (gy (tile_of (bd_coords b)) + snd (footprint_cells b) - 1)) buildings i32_min + GRID_MARGIN -
          (fold (\<lambda>b m. min m (gy (tile_of (bd_coords b)))) buildings i32_max - GRID_MARGIN) + 1) 1"
  by (simp add: grid_build_def Let_def)

section \<open>A street is a cheapest one\<close>

text \<open>A goal so far away that a heuristic value might saturate is replaced by the start.\<close>

definition near_goal :: "tile \<Rightarrow> tile \<Rightarrow> tile" where
  "near_goal start goal = (if manhattan start goal \<le> 80000000 then goal else start)"

lemma near_goal_le: "manhattan start (near_goal start goal) \<le> 80000000"
  by (simp add: near_goal_def)

lemma in_window_goal_dist:
  assumes "in_window start goal n"
  shows "manhattan n goal \<le> manhattan start goal + 12"
proof -
  have "int (manhattan n goal) \<le> int (manhattan start goal) + 12"
    using assms by (auto simp: manhattan_int in_window_def SEARCH_MARGIN_def)
  then show ?thesis by simp
qed

lemma finite_window: "finite {n. in_window start goal n}"
proof -
  let ?X = "{min (gx start) (gx goal) - SEARCH_MARGIN..max (gx start) (gx goal) + SEARCH_MARGIN}"
  let ?Y = "{min (gy start) (gy goal) - SEARCH_MARGIN..max (gy start) (gy goal) + SEARCH_MARGIN}"
  have "{n. in_window start goal n} \<subseteq> case_prod Tile ` (?X \<times> ?Y)"
  proof
    fix n assume "n \<in> {n. in_window start goal n}"
    then have "(gx n, gy n) \<in> ?X \<times> ?Y" by (simp add: in_window_def)
    then show "n \<in> case_prod Tile ` (?X \<times> ?Y)" by (rule rev_image_eqI) simp
  qed
  then show ?thesis by (rule finite_subset) simp
qed

interpretation streets: search_graph "street_cells g start (near_goal start goal) from_rect to_rect" "street_step usage"
    "\<lambda>n. manhattan n (near_goal start goal) * SHARED_STEP_COST" start "near_goal start goal"
    "{n. in_window start (near_goal start goal) n}" STEP_COST MAX_EXPANSIONS
  for g start goal from_rect to_rect usage
proof
  show "finite {n. in_window start (near_goal start goal) n}" by (rule finite_window)
  show "start \<in> {n. in_window start (near_goal start goal) n}"
    by (auto simp: in_window_def SEARCH_MARGIN_def)
next
  fix t n assume "n \<in> set (street_cells g start (near_goal start goal) from_rect to_rect t)"
  then have "in_window start (near_goal start goal) n" "n \<in> set (neighbors t)" by (auto simp: street_cells_def)
  then show "n \<in> {n. in_window start (near_goal start goal) n}"
    "manhattan t (near_goal start goal) * SHARED_STEP_COST \<le> street_step usage n + manhattan n (near_goal start goal) * SHARED_STEP_COST"
    using manhattan_step [of n t "near_goal start goal"]
    by (auto simp: street_step_def STEP_COST_def SHARED_STEP_COST_def)
next
  fix n assume "n \<in> {n. in_window start (near_goal start goal) n}"
  then show "STEP_COST * MAX_EXPANSIONS + manhattan n (near_goal start goal) * SHARED_STEP_COST < u32_max"
    using in_window_goal_dist [of start "near_goal start goal" n] near_goal_le [of start goal]
    by (simp add: STEP_COST_def MAX_EXPANSIONS_def SHARED_STEP_COST_def u32_max_def)
qed (auto simp: street_step_def STEP_COST_def SHARED_STEP_COST_def)

definition street :: "occupancy_grid \<Rightarrow> tile \<Rightarrow> tile \<Rightarrow> rect \<Rightarrow> rect \<Rightarrow> tile list \<Rightarrow> bool" where
  "street g start goal from_rect to_rect ps \<longleftrightarrow> ps \<noteq> [] \<and> hd ps = start \<and> last ps = goal \<and>
     successively (\<lambda>a b. manhattan a b = 1 \<and> in_window start goal b \<and> cell_walkable g from_rect to_rect b) ps"

definition street_cost :: "tile set \<Rightarrow> tile list \<Rightarrow> nat" where
  "street_cost usage ps = sum_list (map (street_step usage) (tl ps))"

lemma street_cells_iff:
  "n \<in> set (street_cells g start goal from_rect to_rect t) \<longleftrightarrow>
     manhattan t n = 1 \<and> in_window start goal n \<and> cell_walkable g from_rect to_rect n"
  by (auto simp: street_cells_def neighbors_iff)

lemma street_path:
  assumes "manhattan start goal \<le> 80000000"
  shows "street g start goal from_rect to_rect ps \<longleftrightarrow> streets.is_path g start goal from_rect to_rect ps \<and> last ps = goal"
proof -
  have n: "near_goal start goal = goal" using assms by (simp add: near_goal_def)
  show ?thesis unfolding street_def streets.is_path_def street_cells_iff unfolding n by blast
qed

lemma grid_astar_answers:
  assumes near: "manhattan start goal \<le> 80000000"
  shows "\<exists>r. grid_astar g start goal from_rect to_rect usage = Some r \<and>
    (case r of
       Some ps \<Rightarrow> street g start goal from_rect to_rect ps \<and>
         (\<forall>qs. street g start goal from_rect to_rect qs \<longrightarrow> street_cost usage ps \<le> street_cost usage qs)
     | None \<Rightarrow> (\<forall>qs. \<not> street g start goal from_rect to_rect qs) \<or> MAX_EXPANSIONS < card {n. in_window start goal n})"
proof (cases "start = goal")
  case True
  then show ?thesis by (simp add: grid_astar_def street_def street_cost_def)
next
  case False
  have n: "near_goal start goal = goal" using near by (simp add: near_goal_def)
  have "streets.fits start goal (Some MAX_EXPANSIONS) {}" by (simp add: streets.fits_def)
  from streets.search_spec [OF this, of g from_rect to_rect usage] obtain r where
    s: "search_loop (street_cells g start (near_goal start goal) from_rect to_rect) (street_step usage)
          (\<lambda>n. manhattan n (near_goal start goal) * SHARED_STEP_COST) (near_goal start goal) (Some MAX_EXPANSIONS)
          (search_init (\<lambda>n. manhattan n (near_goal start goal) * SHARED_STEP_COST) start) = Some r" and
    "streets.answers g start goal from_rect to_rect usage (Some MAX_EXPANSIONS)
       (card {n. in_window start (near_goal start goal) n}) r"
    by blast
  note a = this(2) [unfolded streets.answers_def, unfolded n]
  note sp = street_path [OF near, of g from_rect to_rect, unfolded n]
  have r: "grid_astar g start goal from_rect to_rect usage = Some r"
    using s False by (simp add: grid_astar_def n)
  show ?thesis
  proof (cases r)
    case None
    with a have "(\<forall>qs. \<not> street g start goal from_rect to_rect qs) \<or> MAX_EXPANSIONS < card {n. in_window start goal n}"
      using streets.no_path [of g start goal from_rect to_rect usage, unfolded n] sp
      by auto
    with r None show ?thesis by simp
  next
    case (Some ps)
    with a have p: "street g start goal from_rect to_rect ps" by (simp add: sp)
    have "street_cost usage ps \<le> street_cost usage qs" if "street g start goal from_rect to_rect qs" for qs
      using a Some that streets.cheapest [of g start goal from_rect to_rect usage "streets.cost usage ps" qs, unfolded n]
      by (auto simp: sp street_cost_def streets.cost_def)
    with Some r p show ?thesis by auto
  qed
qed

section \<open>A street is recovered from its corners\<close>

lemma segment_straight:
  assumes "(dx, dy) \<in> set NEIGHBORS"
  shows "segment_tiles x y (x + int k * dx) (y + int k * dy) = map (\<lambda>i. Tile (x + int i * dx) (y + int i * dy)) [1..<Suc k]"
proof (induction k arbitrary: x y)
  case 0
  then show ?case by (simp add: segment_tiles.simps)
next
  case (Suc k)
  have s: "sgn (int (Suc k) * dx) = dx" "sgn (int (Suc k) * dy) = dy" "int (Suc k) * dx \<noteq> 0 \<or> int (Suc k) * dy \<noteq> 0"
    using assms by (auto simp: NEIGHBORS_def)
  have "segment_tiles x y (x + int (Suc k) * dx) (y + int (Suc k) * dy) =
      Tile (x + dx) (y + dy) # segment_tiles (x + dx) (y + dy) (x + int (Suc k) * dx) (y + int (Suc k) * dy)"
    using s assms by (subst segment_tiles.simps) (auto simp: Let_def NEIGHBORS_def)
  also have "segment_tiles (x + dx) (y + dy) (x + int (Suc k) * dx) (y + int (Suc k) * dy) =
      map (\<lambda>i. Tile (x + int (Suc i) * dx) (y + int (Suc i) * dy)) [1..<Suc k]"
    using Suc.IH [of "x + dx" "y + dy"] by (simp add: algebra_simps)
  also have "\<dots> = map (\<lambda>i. Tile (x + int i * dx) (y + int i * dy)) (map Suc [1..<Suc k])"
    by simp
  finally show ?case unfolding map_Suc_upt by (subst upt_conv_Cons) (simp_all del: upt_Suc)
qed

lemma segment_extend:
  assumes "(dx, dy) \<in> set NEIGHBORS" and "gx b = gx p + int k * dx" and "gy b = gy p + int k * dy"
  shows "segment_tiles (gx p) (gy p) (gx b + dx) (gy b + dy) =
    segment_tiles (gx p) (gy p) (gx b) (gy b) @ [Tile (gx b + dx) (gy b + dy)]"
  using segment_straight [OF assms(1), of "gx p" "gy p" "Suc k"] segment_straight [OF assms(1), of "gx p" "gy p" k] assms(2,3)
  by (simp add: algebra_simps)

lemma direction: "manhattan a b = 1 \<Longrightarrow> (gx b - gx a, gy b - gy a) \<in> set NEIGHBORS"
  unfolding neighbors_iff [symmetric] by (auto simp: neighbors_def NEIGHBORS_def)

lemma segment_one: "manhattan a b = 1 \<Longrightarrow> segment_tiles (gx a) (gy a) (gx b) (gy b) = [b]"
  using segment_extend [OF direction, of a b a a 0] by (cases b) (simp add: segment_tiles.simps)

text \<open>The walk over the corners, started at the last corner \<open>p\<close> before \<open>a\<close> and \<open>b\<close>.\<close>

lemma keep_corners_walk:
  assumes "successively (\<lambda>a b. manhattan a b = 1) (a # b # cs)"
    and "gx a = gx p + int k * (gx b - gx a)" and "gy a = gy p + int k * (gy b - gy a)"
  shows "polyline_tiles p (keep_corners (a # b # cs) @ [last (b # cs)]) = segment_tiles (gx p) (gy p) (gx b) (gy b) @ cs"
  using assms
proof (induction cs arbitrary: a b p k)
  case (Cons c cs)
  let ?d = "(gx b - gx a, gy b - gy a)"
  from Cons.prems(1) have ab: "manhattan a b = 1" and bc: "manhattan b c = 1"
    and s: "successively (\<lambda>a b. manhattan a b = 1) (b # c # cs)" by simp_all
  show ?case
  proof (cases "?d = (gx c - gx b, gy c - gy b)")
    case False
    from Cons.IH [OF s, of b 0] have "polyline_tiles b (keep_corners (b # c # cs) @ [last (c # cs)]) = c # cs"
      by (simp add: segment_one [OF bc])
    with False show ?thesis by auto
  next
    case True
    have at_b: "gx b = gx p + int (Suc k) * (gx b - gx a)" "gy b = gy p + int (Suc k) * (gy b - gy a)"
      using Cons.prems(2,3) by (simp_all add: algebra_simps)
    have d: "gx c - gx b = gx b - gx a" "gy c - gy b = gy b - gy a" using True by simp_all
    have "polyline_tiles p (keep_corners (b # c # cs) @ [last (c # cs)]) = segment_tiles (gx p) (gy p) (gx c) (gy c) @ cs"
      by (rule Cons.IH [OF s at_b [folded d]])
    also have "segment_tiles (gx p) (gy p) (gx c) (gy c) = segment_tiles (gx p) (gy p) (gx b) (gy b) @ [c]"
      using segment_extend [OF direction [OF ab] at_b] True by (cases c) (simp add: algebra_simps)
    finally show ?thesis using True by simp
  qed
qed simp

lemma simplify_walk:
  assumes "ps \<noteq> []" and "successively (\<lambda>a b. manhattan a b = 1) ps"
  shows "simplify ps \<noteq> [] \<and> hd (simplify ps) = hd ps \<and> hd ps # polyline_tiles (hd ps) (tl (simplify ps)) = ps \<and> set (simplify ps) \<subseteq> set ps"
proof -
  consider a where "ps = [a]" | a b where "ps = [a, b]" | a b c cs where "ps = a # b # c # cs"
    using assms(1) by (metis list.exhaust)
  then show ?thesis
  proof cases
    case 3
    have "set (keep_corners cs) \<subseteq> set cs" for cs by (induction cs rule: keep_corners.induct) auto
    from this [of ps] have "set (simplify ps) \<subseteq> set ps" using 3
      by (auto simp: simplify_def simp del: keep_corners.simps)
    moreover have "polyline_tiles a (keep_corners ps @ [last ps]) = b # c # cs"
      using keep_corners_walk [of a b "c # cs" a 0] assms(2) segment_one [of a b] by (simp add: 3)
    ultimately show ?thesis by (simp add: simplify_def 3 del: keep_corners.simps)
  qed (use assms(2) segment_one in \<open>auto simp: simplify_def\<close>)
qed

section \<open>All streets\<close>

lemma successively_head: "successively (\<lambda>a b. P a b \<and> Q b) ps \<Longrightarrow> x \<in> set ps \<Longrightarrow> x = hd ps \<or> Q x"
  by (induction ps rule: induct_list012) auto

lemma corner_in_rect: "rect_contains (rect_of b) (tile_of (bd_coords b))"
  by (auto simp: rect_contains_def rect_of_def Let_def footprint_cells_def split: prod.splits)

lemma rects_by_id_Some:
  assumes "rects_by_id buildings i = Some r"
  shows "\<exists>b \<in> set buildings. bd_file_id b = i \<and> r = rect_of b"
proof -
  have "fold (\<lambda>b m. m(bd_file_id b \<mapsto> rect_of b)) bs m i = Some r \<Longrightarrow>
      (\<exists>b \<in> set bs. bd_file_id b = i \<and> r = rect_of b) \<or> m i = Some r" for bs m
    by (induction bs arbitrary: m) (fastforce split: if_splits)+
  from this [of buildings Map.empty] assms show ?thesis by (simp add: rects_by_id_def)
qed

text \<open>Every cell of the grid is near enough to every other.\<close>

lemma grid_near:
  assumes "in_bounds g a" "in_bounds g b" "og_w g * og_h g \<le> MAX_GRID_CELLS"
  shows "manhattan a b \<le> 80000000"
proof -
  have p: "0 < og_w g" "0 < og_h g" using assms(1) by (auto simp: in_bounds_def)
  then have "og_w g * 1 \<le> og_w g * og_h g" "1 * og_h g \<le> og_w g * og_h g"
    by (intro mult_left_mono mult_right_mono; simp)+
  then have "og_w g \<le> 4000000" "og_h g \<le> 4000000" using assms(3) by (simp_all add: MAX_GRID_CELLS_def)
  then have "int (manhattan a b) \<le> 80000000" using assms(1,2) by (auto simp: manhattan_int in_bounds_def)
  then show ?thesis by simp
qed

definition routed_along :: "building list \<Rightarrow> road \<Rightarrow> tile list \<Rightarrow> bool" where
  "routed_along buildings r cells \<longleftrightarrow>
     (\<exists>a \<in> set buildings. \<exists>b \<in> set buildings. bd_file_id a = rd_from r \<and> bd_file_id b = rd_to r \<and>
        hd cells = tile_of (bd_coords a) \<and> last cells = tile_of (bd_coords b) \<and>
        (\<forall>c \<in> set cells. \<forall>d \<in> set buildings. rect_contains (rect_of d) c \<longrightarrow>
           rect_contains (rect_of a) c \<or> rect_contains (rect_of b) c)) \<and>
     (\<forall>c \<in> set cells. in_window (hd cells) (last cells) c) \<and> cells \<noteq> [] \<and> successively (\<lambda>s t. manhattan s t = 1) cells \<and> rd_path r = Some (map to_coords (simplify cells))"

definition waypoints :: "road \<Rightarrow> nat" where
  "waypoints r = (case rd_path r of None \<Rightarrow> 0 | Some path \<Rightarrow> length path)"

definition routing_inv :: "building list \<Rightarrow> road list \<Rightarrow> nat set \<Rightarrow> routing \<Rightarrow> bool" where
  "routing_inv buildings roads0 D st \<longleftrightarrow> (case st of (roads, usage, stats) \<Rightarrow>
     length roads = length roads0 \<and>
     (\<forall>i < length roads0. (roads ! i)\<lparr>rd_path := None\<rparr> = (roads0 ! i)\<lparr>rd_path := None\<rparr>) \<and>
     (\<forall>i \<in> D. rd_path (roads ! i) = None \<or> (\<exists>cells. routed_along buildings (roads ! i) cells)) \<and>
     rs_routed stats = (\<Sum>i \<in> D. if rd_path (roads ! i) = None then 0 else 1) \<and>
     rs_fallback stats = (\<Sum>i \<in> D. if rd_path (roads ! i) = None then 1 else 0) \<and>
     rs_total_waypoints stats = (\<Sum>i \<in> D. waypoints (roads ! i)))"

lemma sum_list_update:
  assumes "i \<notin> D" "finite D" "D \<subseteq> {..<length xs}" "i < length xs"
  shows "(\<Sum>j \<in> insert i D. f (xs[i := x] ! j)) = (f x + (\<Sum>j \<in> D. f (xs ! j)) :: nat)"
proof -
  have "(\<Sum>j \<in> D. f (xs[i := x] ! j)) = (\<Sum>j \<in> D. f (xs ! j))"
    by (intro sum.cong refl) (metis assms(1) nth_list_update_neq)
  then show ?thesis using assms by simp
qed

text \<open>One road more.\<close>

lemma routing_inv_update:
  assumes inv: "routing_inv buildings roads0 D (roads, usage, stats)" and D: "D \<subseteq> {..<length roads0}"
    and i: "i < length roads0" "i \<notin> D"
    and r: "r = (roads ! i)\<lparr>rd_path := path\<rparr>" and ok: "path = None \<or> (\<exists>cells. routed_along buildings r cells)"
    and stats': "rs_routed stats' = rs_routed stats + (if path = None then 0 else 1)"
      "rs_fallback stats' = rs_fallback stats + (if path = None then 1 else 0)"
      "rs_total_waypoints stats' = rs_total_waypoints stats + waypoints r"
  shows "routing_inv buildings roads0 (insert i D) (roads[i := r], usage', stats')"
proof -
  have len: "length roads = length roads0" using inv by (simp add: routing_inv_def)
  have fin: "finite D" using D finite_subset by blast
  note upd = sum_list_update [OF i(2) fin D [folded len] i(1) [folded len], of _ r]
  have p: "rd_path r = path" by (simp add: r)
  have "\<forall>j \<in> insert i D. rd_path (roads[i := r] ! j) = None \<or> (\<exists>cells. routed_along buildings (roads[i := r] ! j) cells)"
    using inv ok i len p by (auto simp: routing_inv_def nth_list_update)
  moreover have "\<forall>j < length roads0. (roads[i := r] ! j)\<lparr>rd_path := None\<rparr> = (roads0 ! j)\<lparr>rd_path := None\<rparr>"
    using inv r i len by (auto simp: routing_inv_def nth_list_update)
  ultimately show ?thesis
    using inv stats' len upd [of "\<lambda>r. if rd_path r = None then 0 else 1"] upd [of "\<lambda>r. if rd_path r = None then 1 else 0"]
      upd [of waypoints] p
    by (simp add: routing_inv_def)
qed

lemma street_routed:
  assumes g: "grid_build buildings = Some g" and ab: "a \<in> set buildings" "b \<in> set buildings"
    and ids: "bd_file_id a = rd_from r" "bd_file_id b = rd_to r"
    and s: "street g (tile_of (bd_coords a)) (tile_of (bd_coords b)) (rect_of a) (rect_of b) cells"
    and p: "rd_path r = Some (map to_coords (simplify cells))"
  shows "routed_along buildings r cells"
proof -
  have ends: "hd cells = tile_of (bd_coords a)" "last cells = tile_of (bd_coords b)" using s by (simp_all add: street_def)
  have cell: "c = hd cells \<or> in_window (hd cells) (last cells) c \<and> cell_walkable g (rect_of a) (rect_of b) c" if "c \<in> set cells" for c
    using s that successively_head [of "\<lambda>s t. manhattan s t = 1"
        "\<lambda>t. in_window (hd cells) (last cells) t \<and> cell_walkable g (rect_of a) (rect_of b) t" cells c]
    by (auto simp: street_def)
  have "in_window (hd cells) (last cells) (hd cells)" by (auto simp: in_window_def SEARCH_MARGIN_def)
  with cell have "in_window (hd cells) (last cells) c" if "c \<in> set cells" for c using that by blast
  moreover have "rect_contains (rect_of a) c \<or> rect_contains (rect_of b) c"
    if c: "c \<in> set cells" and d: "d \<in> set buildings" "rect_contains (rect_of d) c" for c d
    using cell [OF c] ends grid_build_spec [OF g] corner_in_rect [of a] d by (auto simp: cell_walkable_def)
  moreover have "successively (\<lambda>s t. manhattan s t = 1) cells"
    using s by (auto simp: street_def elim: successively_mono)
  ultimately show ?thesis
    using s ab ids p unfolding routed_along_def street_def by blast
qed

lemma fall_back_inv:
  "routing_inv buildings roads0 D st \<Longrightarrow> D \<subseteq> {..<length roads0} \<Longrightarrow> i < length roads0 \<Longrightarrow> i \<notin> D \<Longrightarrow>
   routing_inv buildings roads0 (insert i D) (fall_back i st)"
  unfolding fall_back_def
  by (cases st) (auto intro!: routing_inv_update [where path = None] simp: waypoints_def)

lemma route_one_inv:
  assumes g: "grid_build buildings = Some g" and inv: "routing_inv buildings roads0 D st"
    and D: "D \<subseteq> {..<length roads0}" and i: "i < length roads0" "i \<notin> D"
  shows "\<exists>st'. route_one g (rects_by_id buildings) i st = Some st' \<and> routing_inv buildings roads0 (insert i D) st'"
proof -
  obtain roads usage stats where st: "st = (roads, usage, stats)" by (cases st)
  note lost = fall_back_inv [OF inv D i]
  show ?thesis
  proof (cases "rects_by_id buildings (rd_from (roads ! i)) = None \<or> rects_by_id buildings (rd_to (roads ! i)) = None")
    case True
    then have "route_one g (rects_by_id buildings) i st = Some (fall_back i st)"
      by (auto simp: route_one_def st split: option.splits)
    with lost show ?thesis by blast
  next
    case False
    then obtain a b where ab: "a \<in> set buildings" "b \<in> set buildings"
      and ids: "bd_file_id a = rd_from (roads ! i)" "bd_file_id b = rd_to (roads ! i)"
      and rects: "rects_by_id buildings (rd_from (roads ! i)) = Some (rect_of a)"
        "rects_by_id buildings (rd_to (roads ! i)) = Some (rect_of b)"
      by (metis not_None_eq rects_by_id_Some)
    have anchor: "Tile (rc_x0 (rect_of c)) (rc_y0 (rect_of c)) = tile_of (bd_coords c)" for c
      by (simp add: rect_of_def Let_def split: prod.splits)
    have "manhattan (tile_of (bd_coords a)) (tile_of (bd_coords b)) \<le> 80000000"
      using grid_build_spec [OF g] ab by (intro grid_near) auto
    from grid_astar_answers [OF this, of g "rect_of a" "rect_of b" usage] obtain r where
      r: "grid_astar g (tile_of (bd_coords a)) (tile_of (bd_coords b)) (rect_of a) (rect_of b) usage = Some r"
        "\<forall>cells. r = Some cells \<longrightarrow> street g (tile_of (bd_coords a)) (tile_of (bd_coords b)) (rect_of a) (rect_of b) cells"
      by (auto split: option.splits)
    show ?thesis
    proof (cases r)
      case None
      with r(1) rects lost show ?thesis by (simp add: route_one_def st anchor)
    next
      case (Some cells)
      let ?path = "map to_coords (simplify cells)"
      let ?r = "(roads ! i)\<lparr>rd_path := Some ?path\<rparr>"
      let ?stats = "stats\<lparr>rs_total_waypoints := rs_total_waypoints stats + length ?path, rs_routed := rs_routed stats + 1\<rparr>"
      have "routed_along buildings ?r cells"
        using street_routed [OF g ab, of ?r cells] r(2) Some ids by simp
      then have "routing_inv buildings roads0 (insert i D) (roads[i := ?r], usage \<union> set cells, ?stats)"
        using inv unfolding st
        by (intro routing_inv_update [OF _ D i refl, where stats = stats]) (auto simp: waypoints_def)
      with r(1) rects Some show ?thesis by (simp add: route_one_def st anchor Let_def)
    qed
  qed
qed

lemma route_all_inv:
  assumes "grid_build buildings = Some g" "routing_inv buildings roads0 D st" "D \<subseteq> {..<length roads0}"
    and "set order \<subseteq> {..<length roads0} - D" "distinct order"
  shows "\<exists>st'. route_all g (rects_by_id buildings) order st = Some st' \<and> routing_inv buildings roads0 (D \<union> set order) st'"
  using assms(2-)
proof (induction order arbitrary: D st)
  case (Cons i order)
  then obtain st1 where "route_one g (rects_by_id buildings) i st = Some st1" "routing_inv buildings roads0 (insert i D) st1"
    using route_one_inv [OF assms(1)] by (metis DiffD1 DiffD2 lessThan_iff list.set_intros(1) subsetD)
  moreover have "insert i D \<subseteq> {..<length roads0}" "set order \<subseteq> {..<length roads0} - insert i D" "distinct order"
    using Cons.prems by auto
  ultimately show ?case using Cons.IH [of "insert i D" st1] by auto
qed simp

lemma sum_over_list: "(\<Sum>i < length xs. f (xs ! i)) = (sum_list (map f xs) :: nat)"
  by (simp add: sum_list_sum_nth atLeast0LessThan)

lemma count_list_if:
  "sum_list (map (\<lambda>x. if P x then 0 else 1) xs) = length (filter (\<lambda>x. \<not> P x) xs)"
  "sum_list (map (\<lambda>x. if P x then 1 else 0) xs) = length (filter P xs)"
  by (induction xs) auto

text \<open>What the router hands to the map.\<close>

definition streets_ok :: "building list \<Rightarrow> road list \<Rightarrow> road list \<Rightarrow> route_stats \<Rightarrow> bool" where
  "streets_ok buildings roads roads' stats \<longleftrightarrow>
     map (\<lambda>r. r\<lparr>rd_path := None\<rparr>) roads' = map (\<lambda>r. r\<lparr>rd_path := None\<rparr>) roads \<and>
     (\<forall>r \<in> set roads'. rd_path r = None \<or> (\<exists>cells. routed_along buildings r cells)) \<and>
     rs_routed stats = length (filter (\<lambda>r. rd_path r \<noteq> None) roads') \<and>
     rs_fallback stats = length (filter (\<lambda>r. rd_path r = None) roads') \<and>
     rs_total_waypoints stats = sum_list (map waypoints roads')"

lemma route_roads_ok: "\<exists>roads' stats. route_roads buildings roads = Some (roads', stats) \<and> streets_ok buildings roads roads' stats"
proof (cases "grid_build buildings")
  case None
  have "sum_list (map (\<lambda>r. waypoints (r\<lparr>rd_path := None\<rparr>)) roads) = 0" by (simp add: waypoints_def)
  with None show ?thesis by (auto simp: route_roads_def streets_ok_def comp_def)
next
  case (Some g)
  let ?s = "\<lparr>rs_routed = 0, rs_fallback = 0, rs_total_waypoints = 0\<rparr>"
  have "routing_inv buildings roads {} (roads, {}, ?s)" by (simp add: routing_inv_def)
  moreover have order: "set (road_order roads) = {..<length roads}" "distinct (road_order roads)"
    by (auto simp: road_order_def)
  ultimately obtain st where all: "route_all g (rects_by_id buildings) (road_order roads) (roads, {}, ?s) = Some st"
    and inv: "routing_inv buildings roads {..<length roads} st"
    using route_all_inv [OF Some, of roads "{}" "(roads, {}, ?s)" "road_order roads"] by auto
  obtain roads' usage stats where st: "st = (roads', usage, stats)" by (cases st)
  from inv have len: "length roads' = length roads" by (simp add: routing_inv_def st)
  note sums = sum_over_list [of _ roads', unfolded len]
  have "rs_routed stats = length (filter (\<lambda>r. rd_path r \<noteq> None) roads')"
    "rs_fallback stats = length (filter (\<lambda>r. rd_path r = None) roads')"
    "rs_total_waypoints stats = sum_list (map waypoints roads')"
    using inv sums [of "\<lambda>r. if rd_path r = None then 0 else 1"] sums [of "\<lambda>r. if rd_path r = None then 1 else 0"]
      sums [of waypoints] unfolding count_list_if by (simp_all add: routing_inv_def st)
  moreover have "map (\<lambda>r. r\<lparr>rd_path := None\<rparr>) roads' = map (\<lambda>r. r\<lparr>rd_path := None\<rparr>) roads"
    using inv len by (auto simp: routing_inv_def st intro!: nth_equalityI)
  moreover have "\<forall>r \<in> set roads'. rd_path r = None \<or> (\<exists>cells. routed_along buildings r cells)"
    using inv len unfolding routing_inv_def st prod.case by (metis in_set_conv_nth lessThan_iff)
  ultimately have "streets_ok buildings roads roads' stats" unfolding streets_ok_def by blast
  with all Some show ?thesis by (simp add: route_roads_def st)
qed

section \<open>The tiles under the streets\<close>

lemma rect_of_tiles: "building_tiles buildings = {c. \<exists>b \<in> set buildings. rect_contains (rect_of b) c}"
proof -
  have "c \<in> set [Tile (x + dx) (y + dy). dx \<leftarrow> [0..w - 1], dy \<leftarrow> [0..d - 1]] \<longleftrightarrow>
      x \<le> gx c \<and> gx c < x + w \<and> y \<le> gy c \<and> gy c < y + d" for x y w d c
  proof -
    have "c \<in> set [Tile (x + dx) (y + dy). dx \<leftarrow> [0..w - 1], dy \<leftarrow> [0..d - 1]] \<longleftrightarrow>
        (\<exists>dx \<in> {0..w - 1}. \<exists>dy \<in> {0..d - 1}. c = Tile (x + dx) (y + dy))"
      by auto
    also have "\<dots> \<longleftrightarrow> x \<le> gx c \<and> gx c < x + w \<and> y \<le> gy c \<and> gy c < y + d"
      by (cases c) (auto intro: bexI [of _ "gx c - x"] bexI [of _ "gy c - y"])
    finally show ?thesis .
  qed
  then have one: "set [Tile (x + dx) (y + dy). dx \<leftarrow> [0..w - 1], dy \<leftarrow> [0..d - 1]] =
      {c. x \<le> gx c \<and> gx c < x + w \<and> y \<le> gy c \<and> gy c < y + d}" for x y w d by blast
  have dims: "footprint_cells b = building_footprint (bd_purpose b) (bd_visual_tier b)" for b
    using footprint_bounds [of "bd_purpose b" "bd_visual_tier b"] by (auto simp: footprint_cells_def split: prod.splits)
  show ?thesis
    unfolding building_tiles_def case_prod_unfold Let_def one
    by (auto simp: rect_contains_def rect_of_def Let_def dims case_prod_unfold tile_of_def)
qed

lemma routed_tiles:
  assumes r: "routed_along buildings r cells" and i32: "\<forall>c \<in> set cells. in_i32 c"
  shows "road_path_tiles [r] = set cells"
proof -
  let ?q = "simplify cells"
  have ne: "cells \<noteq> []" and adj: "successively (\<lambda>s t. manhattan s t = 1) cells" and p: "rd_path r = Some (map to_coords ?q)"
    using r by (auto simp: routed_along_def)
  note w = simplify_walk [OF ne adj]
  have "map tile_of (map to_coords ?q) = ?q"
    using w i32 by (auto simp: tile_of_to_coords intro!: map_idI)
  moreover have "?q = hd cells # tl ?q" using w by (metis list.collapse)
  ultimately show ?thesis using w p by (simp add: road_path_tiles_def) (metis list.set(2) list.simps(5))
qed

text \<open>Coordinates that leave the margin of a search inside the range of an \<open>i32\<close>.\<close>

definition roomy :: "building list \<Rightarrow> bool" where
  "roomy buildings \<longleftrightarrow> (\<forall>b \<in> set buildings. let t = tile_of (bd_coords b) in
     \<bar>gx t\<bar> \<le> i32_max - SEARCH_MARGIN \<and> \<bar>gy t\<bar> \<le> i32_max - SEARCH_MARGIN)"

lemma routed_in_i32: "roomy buildings \<Longrightarrow> routed_along buildings r cells \<Longrightarrow> c \<in> set cells \<Longrightarrow> in_i32 c"
  unfolding routed_along_def roomy_def in_i32_def in_window_def Let_def i32_max_def i32_min_def SEARCH_MARGIN_def
  by (smt (verit, best))

lemma road_path_tiles_Cons: "road_path_tiles (r # roads) = road_path_tiles [r] \<union> road_path_tiles roads"
  by (simp add: road_path_tiles_def)

lemma road_path_tiles_mem: "t \<in> road_path_tiles roads \<longleftrightarrow> (\<exists>r \<in> set roads. t \<in> road_path_tiles [r])"
  by (induction roads) (auto simp: road_path_tiles_Cons [of _ "_ # _"], auto simp: road_path_tiles_def)

lemma no_path_no_tiles: "rd_path r = None \<Longrightarrow> road_path_tiles [r] = {}"
  by (simp add: road_path_tiles_def)

section \<open>Properties\<close>

text \<open>C29: The search of a street always ends. A street it returns is a cheapest one from the start to the goal
  through the window, in the cost that favours cells already in use; it returns none only if there is none
  or the window has more cells than the budget of expansions.\<close>

theorem street_is_cheapest:
  assumes "manhattan start goal \<le> 80000000"
  shows "\<exists>r. grid_astar g start goal from_rect to_rect usage = Some r \<and>
    (case r of
       Some ps \<Rightarrow> street g start goal from_rect to_rect ps \<and>
         (\<forall>qs. street g start goal from_rect to_rect qs \<longrightarrow> street_cost usage ps \<le> street_cost usage qs)
     | None \<Rightarrow> (\<forall>qs. \<not> street g start goal from_rect to_rect qs) \<or> MAX_EXPANSIONS < card {n. in_window start goal n})"
  by (rule grid_astar_answers [OF assms])

definition demo_hut :: "nat \<Rightarrow> int \<Rightarrow> int \<Rightarrow> building" where
  "demo_hut i x y = \<lparr>bd_file_id = [i], bd_file_path = [i], bd_district_id = [], bd_purpose = lit ''house'', bd_feature_id = [],
     bd_visual_tier = lit ''kalybe'',
     bd_coords = \<lparr>co_x = f64_of x, co_y = f64_of y\<rparr>\<rparr>"

lemma demo_hut_rect: "\<bar>x\<bar> \<le> i32_max \<Longrightarrow> \<bar>y\<bar> \<le> i32_max \<Longrightarrow> tile_of (bd_coords (demo_hut i x y)) = Tile x y"
  by (simp add: demo_hut_def tile_of_def f64_of_def as_i32_def clamp_i32_def i32_min_def i32_max_def)

lemma demo_hut_cells: "footprint_cells (demo_hut i x y) = (1, 1)"
  by (simp add: demo_hut_def footprint_cells_def building_footprint_def footprint_table_def tier_level_def)

theorem street_is_cheapest_witness:
  "\<exists>g r. grid_build [demo_hut 0 0 0, demo_hut 1 2 0, demo_hut 2 4 0] = Some g \<and>
     grid_astar g (Tile 0 0) (Tile 4 0) (rect_of (demo_hut 0 0 0)) (rect_of (demo_hut 2 4 0)) {} = Some r"
proof -
  have "grid_build [demo_hut 0 0 0, demo_hut 1 2 0, demo_hut 2 4 0] \<noteq> None"
    unfolding grid_build_None
    by (simp add: demo_hut_rect demo_hut_cells i32_max_def i32_min_def GRID_MARGIN_def MAX_GRID_CELLS_def)
  then obtain g where "grid_build [demo_hut 0 0 0, demo_hut 1 2 0, demo_hut 2 4 0] = Some g" by blast
  moreover have "manhattan (Tile 0 0) (Tile 4 0) \<le> 80000000" by (simp add: manhattan_def)
  from street_is_cheapest [OF this, of g "rect_of (demo_hut 0 0 0)" "rect_of (demo_hut 2 4 0)" "{}"]
  have "\<exists>r. grid_astar g (Tile 0 0) (Tile 4 0) (rect_of (demo_hut 0 0 0)) (rect_of (demo_hut 2 4 0)) {} = Some r"
    by (elim exE conjE) (rule exI)
  ultimately show ?thesis by blast
qed

text \<open>A connected street is recovered, tile by tile and in order, from the corners that are stored of it:
  rounding the stored coordinates and walking from corner to corner gives back its cells.\<close>

theorem street_from_corners:
  assumes "cells \<noteq> []" and "successively (\<lambda>a b. manhattan a b = 1) cells" and "\<forall>c \<in> set cells. in_i32 c"
  shows "\<exists>p ps. map tile_of (map to_coords (simplify cells)) = p # ps \<and> p # polyline_tiles p ps = cells"
proof -
  note w = simplify_walk [OF assms(1,2)]
  then have "map tile_of (map to_coords (simplify cells)) = simplify cells"
    using assms(3) by (auto simp: tile_of_to_coords intro!: map_idI)
  also have "\<dots> = hd cells # tl (simplify cells)" using w by (metis list.collapse)
  finally have "map tile_of (map to_coords (simplify cells)) = hd cells # tl (simplify cells)" .
  moreover have "hd cells # polyline_tiles (hd cells) (tl (simplify cells)) = cells" using w by blast
  ultimately show ?thesis by (intro exI conjI)
qed

theorem street_from_corners_witness:
  "\<exists>p ps. map tile_of (map to_coords (simplify [Tile 0 0, Tile 1 0, Tile 2 0, Tile 2 1, Tile 2 2])) = p # ps \<and>
     length ps = 2 \<and> p # polyline_tiles p ps = [Tile 0 0, Tile 1 0, Tile 2 0, Tile 2 1, Tile 2 2]"
proof -
  let ?cells = "[Tile 0 0, Tile 1 0, Tile 2 0, Tile 2 1, Tile 2 2]"
  have "length (simplify ?cells) = 3" by (simp add: simplify_def)
  moreover have "\<exists>p ps. map tile_of (map to_coords (simplify ?cells)) = p # ps \<and> p # polyline_tiles p ps = ?cells"
    by (rule street_from_corners) (simp_all add: manhattan_def in_i32_def i32_min_def i32_max_def)
  ultimately show ?thesis by (metis Suc_length_conv length_map numeral_3_eq_3 list.inject numeral_2_eq_2 length_Cons)
qed

text \<open>C31: The router always ends. It changes nothing of a road but its path, counts exactly the roads it routed, the
  roads it left straight and the waypoints, and a path is the corners of a connected walk of cells from the anchor of
  the one building to the anchor of the other that enters no third footprint.\<close>

theorem route_roads_spec:
  "\<exists>roads' stats. route_roads buildings roads = Some (roads', stats) \<and>
     map (\<lambda>r. r\<lparr>rd_path := None\<rparr>) roads' = map (\<lambda>r. r\<lparr>rd_path := None\<rparr>) roads \<and>
     (\<forall>r \<in> set roads'. rd_path r = None \<or> (\<exists>cells. routed_along buildings r cells)) \<and>
     rs_routed stats = length (filter (\<lambda>r. rd_path r \<noteq> None) roads') \<and>
     rs_fallback stats = length (filter (\<lambda>r. rd_path r = None) roads') \<and>
     rs_total_waypoints stats = sum_list (map waypoints roads')"
  using route_roads_ok [of buildings roads] unfolding streets_ok_def by blast

theorem route_roads_spec_witness:
  "\<exists>r stats. route_roads [demo_hut 0 0 0] [\<lparr>rd_road_id = [0], rd_from = [0], rd_to = [7], rd_road_type = lit ''import'', rd_weight = 1, rd_path = None\<rparr>] = Some ([r], stats) \<and>
     rs_routed stats + rs_fallback stats = 1"
proof -
  let ?road = "\<lparr>rd_road_id = [0], rd_from = [0], rd_to = [7], rd_road_type = lit ''import'', rd_weight = 1, rd_path = None\<rparr>"
  obtain roads stats where r: "route_roads [demo_hut 0 0 0] [?road] = Some (roads, stats)"
    and m: "map (\<lambda>r. r\<lparr>rd_path := None\<rparr>) roads = [?road]"
    and s: "rs_routed stats = length (filter (\<lambda>r. rd_path r \<noteq> None) roads)" "rs_fallback stats = length (filter (\<lambda>r. rd_path r = None) roads)"
    using route_roads_spec [of "[demo_hut 0 0 0]" "[?road]"] by auto
  from m obtain r where "roads = [r]" by (cases roads) auto
  with r s show ?thesis by (cases "rd_path r") auto
qed

text \<open>Where the coordinates leave room for the margin of the search, the tiles that the rest of the map draws and
  walks for a routed road lie in no building but those at the ends of the road.\<close>

theorem streets_avoid_buildings:
  assumes "roomy buildings"
  shows "\<exists>roads' stats. route_roads buildings roads = Some (roads', stats) \<and>
    (\<forall>r \<in> set roads'. \<forall>t \<in> road_path_tiles [r] \<inter> building_tiles buildings.
       \<exists>b \<in> set buildings. bd_file_id b \<in> {rd_from r, rd_to r} \<and> t \<in> building_tiles [b])"
proof -
  obtain roads' stats where r: "route_roads buildings roads = Some (roads', stats)" and ok: "streets_ok buildings roads roads' stats"
    using route_roads_ok by blast
  have "\<exists>b \<in> set buildings. bd_file_id b \<in> {rd_from r, rd_to r} \<and> t \<in> building_tiles [b]"
    if r: "r \<in> set roads'" and t: "t \<in> road_path_tiles [r]" "t \<in> building_tiles buildings" for r t
  proof -
    from ok r t(1) obtain cells where c: "routed_along buildings r cells"
      by (auto simp: streets_ok_def no_path_no_tiles)
    then have "t \<in> set cells" using routed_tiles routed_in_i32 [OF assms] t(1) by blast
    with c t(2) show ?thesis unfolding routed_along_def rect_of_tiles by auto
  qed
  with r show ?thesis by blast
qed

theorem streets_avoid_buildings_witness:
  "\<exists>roads stats. route_roads [demo_hut 0 0 0, demo_hut 1 2 0, demo_hut 2 4 0]
       [\<lparr>rd_road_id = [0], rd_from = [0], rd_to = [2], rd_road_type = lit ''import'', rd_weight = 1, rd_path = None\<rparr>] = Some (roads, stats) \<and>
     (\<forall>r \<in> set roads. rd_from r = [0] \<longrightarrow> rd_to r = [2] \<longrightarrow> Tile 2 0 \<notin> road_path_tiles [r])"
proof -
  let ?bs = "[demo_hut 0 0 0, demo_hut 1 2 0, demo_hut 2 4 0]"
  have roomy: "roomy ?bs" by (simp add: roomy_def demo_hut_rect i32_max_def SEARCH_MARGIN_def)
  have "Tile 2 0 \<in> building_tiles ?bs" "Tile 2 0 \<notin> building_tiles [demo_hut 0 0 0]" "Tile 2 0 \<notin> building_tiles [demo_hut 2 4 0]"
    by (simp_all add: rect_of_tiles rect_of_def rect_contains_def demo_hut_rect demo_hut_cells i32_max_def)
  moreover have "bd_file_id (demo_hut i x y) = [i]" for i x y by (simp add: demo_hut_def)
  ultimately show ?thesis
    using streets_avoid_buildings [OF roomy, of "[\<lparr>rd_road_id = [0], rd_from = [0], rd_to = [2], rd_road_type = lit ''import'', rd_weight = 1, rd_path = None\<rparr>]"]
    by fastforce
qed

end
