(* ===== verification/PolisTerrain.thy ===== *)
theory PolisTerrain
  imports PolisStreets "HOL-Library.Word"
begin

text \<open>
  The water around and inside the city, \<open>polis/terrain.rs\<close> (with \<open>map_extent\<close> of \<open>polis/scanner.rs\<close>): the
  hash that lets a river meander, the placement of the rivers between the buildings, the sparse payload of
  water, sand and bridges, and the classification of a single tile. A \<open>u32\<close> that wraps is a \<open>32 word\<close>;
  coordinates follow the conventions of the theory \<open>PolisMap\<close>.
\<close>

unbundle bit_operations_syntax

section \<open>Data\<close>

datatype terrain = Grass | Sand | Road | Plaza | River | Sea | Bridge

record river =
  rv_gx_min :: int
  rv_gx_max :: int
  rv_channels :: "int list"

record water_tile =
  wt_gx :: int
  wt_gy :: int
  wt_deep :: bool

record terrain_data =
  td_sea_x :: int
  td_min_y :: int
  td_max_y :: int
  td_rivers :: "river list"
  td_water :: "water_tile list"
  td_sand :: "tile list"
  td_bridges :: "tile list"

definition terrain_empty :: terrain_data where
  "terrain_empty = \<lparr>td_sea_x = 0, td_min_y = 0, td_max_y = 0, td_rivers = [], td_water = [], td_sand = [], td_bridges = []\<rparr>"

definition SEA_DEPTH :: int where "SEA_DEPTH = 3 + 4"

section \<open>The extent of the land\<close>

definition F64_MAX :: f64 where "F64_MAX = Fin ((2 ^ 53 - 1) * 2 ^ 971)"
definition F64_MIN :: f64 where "F64_MIN = Fin (- (2 ^ 53 - 1) * 2 ^ 971)"

definition map_extent :: "building list \<Rightarrow> (f64 \<times> f64 \<times> f64 \<times> f64) option" where
  "map_extent buildings =
     (if buildings = [] then None
      else Some (fold (\<lambda>b (min_x, min_y, max_x, max_y).
          case building_footprint (bd_purpose b) (bd_visual_tier b) of (fw, fd) \<Rightarrow>
            (f64_min min_x (co_x (bd_coords b)), f64_min min_y (co_y (bd_coords b)),
             f64_max max_x (f64_add_int (co_x (bd_coords b)) fw), f64_max max_y (f64_add_int (co_y (bd_coords b)) fd)))
        buildings (F64_MAX, F64_MAX, F64_MIN, F64_MIN)))"

section \<open>The meander\<close>

definition meander_hash :: "int \<Rightarrow> int \<Rightarrow> 32 word" where
  "meander_hash a b =
     (let x = (word_of_int a * 0x9E3779B9) XOR (word_of_int b * 0x85EBCA6B);
          x = x XOR drop_bit 16 x;
          x = x * 0xC2B2AE35
      in x XOR drop_bit 16 x)"

definition meander_target :: "int \<Rightarrow> int \<Rightarrow> int" where
  "meander_target base block = uint (meander_hash base block mod 3) - 1"

definition meander_step :: "int \<Rightarrow> int \<Rightarrow> int \<Rightarrow> int" where
  "meander_step base next offset =
     (let delta = min (max (meander_target base next - offset) (- 1)) 1
      in min (max (offset + delta) (- 1)) 1)"

text \<open>The blocks that the walk from block 0 visits.\<close>

definition blocks_to :: "int \<Rightarrow> int list" where
  "blocks_to target_block = (if target_block > 0 then [1..target_block] else rev [target_block..- 1])"

definition meander_offset :: "int \<Rightarrow> int \<Rightarrow> int" where
  "meander_offset base y = fold (meander_step base) (blocks_to (y div 4)) (meander_target base 0)"

definition channel_start :: "int \<Rightarrow> int \<Rightarrow> int" where
  "channel_start base y = base + meander_offset base y"

definition straight_channel_start :: "int \<Rightarrow> int \<Rightarrow> int" where
  "straight_channel_start base y = base"

section \<open>Rivers\<close>

definition channel_envelope :: "int \<Rightarrow> int \<Rightarrow> int \<Rightarrow> (int \<Rightarrow> int \<Rightarrow> int) \<Rightarrow> int \<times> int" where
  "channel_envelope base min_y max_y channel_fn =
     (fold (\<lambda>y m. min m (channel_fn base y)) [min_y..max_y - 1] i32_max,
      fold (\<lambda>y m. max m (channel_fn base y + 1)) [min_y..max_y - 1] i32_min)"

definition channel_clear :: "int \<Rightarrow> int \<Rightarrow> int \<Rightarrow> tile set \<Rightarrow> (int \<Rightarrow> int \<Rightarrow> int) \<Rightarrow> bool" where
  "channel_clear base min_y max_y occ channel_fn \<longleftrightarrow>
     list_all (\<lambda>y. let ch = channel_fn base y in list_all (\<lambda>x. Tile x y \<notin> occ) [ch - 1..ch + 2]) [min_y..max_y - 1]"

definition clear_column :: "int \<Rightarrow> int \<Rightarrow> int \<Rightarrow> int \<Rightarrow> int \<Rightarrow> tile set \<Rightarrow> river list \<Rightarrow> (int \<Rightarrow> int \<Rightarrow> int) \<Rightarrow> int option" where
  "clear_column proposed lo hi min_y max_y occ existing channel_fn =
     (if lo > hi then None
      else find (\<lambda>base.
          lo \<le> base \<and> base \<le> hi \<and> channel_clear base min_y max_y occ channel_fn \<and>
          (case channel_envelope base min_y max_y channel_fn of (env_min, env_max) \<Rightarrow>
             \<not> list_ex (\<lambda>r. env_min \<le> rv_gx_max r + 3 \<and> rv_gx_min r \<le> env_max + 3) existing))
        (concat (map (\<lambda>off. [proposed + off, proposed - off]) [0..max (hi - lo) 0])))"

definition find_nearest :: "int list \<Rightarrow> int \<Rightarrow> int" where
  "find_nearest anchors target =
     fold (\<lambda>x best. if (\<bar>x - target\<bar>, x) < (\<bar>best - target\<bar>, best) then x else best) (tl anchors) (hd anchors)"

definition port_anchors :: "building list \<Rightarrow> int list" where
  "port_anchors buildings =
     remdups_adj (sort (map (\<lambda>b. as_i32 round_half_away (co_x (bd_coords b)))
       (filter (\<lambda>b. bd_purpose b = lit ''harbor'' \<or> bd_purpose b = lit ''lighthouse'') buildings)))"

definition river_candidates :: "int \<Rightarrow> int \<Rightarrow> int list \<Rightarrow> int list" where
  "river_candidates min_x width anchors =
     (let propose = (\<lambda>num den. min_x + (width * num) div den) in
      if anchors = [] then (if width \<ge> 18 then [propose 1 3, propose 2 3] else [propose 1 2])
      else if width < 18 then [anchors ! (length anchors div 2)]
      else
        let target_third = min_x + width div 3; target_two_thirds = min_x + (width * 2) div 3;
            a = find_nearest anchors target_third; b = find_nearest anchors target_two_thirds
        in if a = b then
             (if \<bar>a - target_third\<bar> \<le> \<bar>a - target_two_thirds\<bar>
              then a # (if propose 2 3 \<noteq> a then [propose 2 3] else [])
              else (if propose 1 3 \<noteq> a then [propose 1 3] else []) @ [a])
           else if a < b then [a, b] else [b, a])"

definition add_river :: "int \<Rightarrow> int \<Rightarrow> int \<Rightarrow> int \<Rightarrow> tile set \<Rightarrow> (int \<Rightarrow> int \<Rightarrow> int) \<Rightarrow> int \<Rightarrow> river list \<Rightarrow> river list" where
  "add_river min_x max_x min_y max_y occ channel_fn cand rivers =
     (case clear_column cand (min_x + 2) (max_x - 2) min_y max_y occ rivers channel_fn of
        None \<Rightarrow> rivers
      | Some base \<Rightarrow>
          (case channel_envelope base min_y max_y channel_fn of (gx_min, gx_max) \<Rightarrow>
             rivers @ [\<lparr>rv_gx_min = gx_min, rv_gx_max = gx_max, rv_channels = map (channel_fn base) [min_y..max_y - 1]\<rparr>]))"

definition place_rivers :: "int \<Rightarrow> int \<Rightarrow> int \<Rightarrow> int \<Rightarrow> tile set \<Rightarrow> building list \<Rightarrow> river list" where
  "place_rivers min_x max_x min_y max_y occ buildings =
     (let width = max_x - min_x in
      if width < 9 \<or> max_y \<le> min_y then []
      else
        let candidates = river_candidates min_x width (port_anchors buildings);
            place = (\<lambda>channel_fn. fold (add_river min_x max_x min_y max_y occ channel_fn) candidates [])
        in if place channel_start \<noteq> [] then place channel_start else place straight_channel_start)"

definition is_river_tile :: "river list \<Rightarrow> int \<Rightarrow> int \<Rightarrow> int \<Rightarrow> int \<Rightarrow> bool" where
  "is_river_tile rivers x y sea_x min_y \<longleftrightarrow> x < sea_x \<and>
     list_ex (\<lambda>r. if rv_channels r = [] then rv_gx_min r \<le> x \<and> x \<le> rv_gx_max r
                  else min_y \<le> y \<and> nat (y - min_y) < length (rv_channels r) \<and>
                    (let ch = rv_channels r ! nat (y - min_y) in ch \<le> x \<and> x < ch + 2)) rivers"

definition is_river_col :: "river list \<Rightarrow> int \<Rightarrow> bool" where
  "is_river_col rivers x \<longleftrightarrow> list_ex (\<lambda>r. rv_gx_min r \<le> x \<and> x \<le> rv_gx_max r) rivers"

section \<open>The payload\<close>

definition sea_rows :: "int \<Rightarrow> int \<Rightarrow> int \<Rightarrow> water_tile list" where
  "sea_rows sea_x min_y max_y =
     [\<lparr>wt_gx = x, wt_gy = y, wt_deep = x > sea_x\<rparr>. y \<leftarrow> [min_y..max_y - 1], x \<leftarrow> [sea_x..sea_x + SEA_DEPTH - 1]]"

definition channel_tiles :: "river list \<Rightarrow> int \<Rightarrow> int \<Rightarrow> int \<Rightarrow> tile list" where
  "channel_tiles rivers sea_x min_y y =
     [Tile x y. r \<leftarrow> rivers, x \<leftarrow> (let ch = rv_channels r ! nat (y - min_y) in [ch, ch + 1]), x < sea_x]"

definition bank_tiles :: "river list \<Rightarrow> int \<Rightarrow> int \<Rightarrow> int \<Rightarrow> int \<Rightarrow> tile set \<Rightarrow> int \<Rightarrow> tile list" where
  "bank_tiles rivers min_x sea_x min_y max_y occ y =
     filter (\<lambda>t. min_y \<le> gy t \<and> gy t < max_y \<and> gx t < sea_x \<and> min_x \<le> gx t \<and>
         \<not> is_river_tile rivers (gx t) (gy t) sea_x min_y \<and> t \<notin> occ)
       (concat (map (\<lambda>r. [Tile (gx r - 1) y, Tile (gx r + 1) y, Tile (gx r) (y - 1), Tile (gx r) (y + 1)])
          (channel_tiles rivers sea_x min_y y)))"

definition beach_tiles :: "river list \<Rightarrow> int \<Rightarrow> int \<Rightarrow> tile set \<Rightarrow> int \<Rightarrow> tile list" where
  "beach_tiles rivers min_x sea_x occ y =
     (let beach = sea_x - 1 in
      if min_x \<le> beach \<and> \<not> is_river_col rivers beach \<and> Tile beach y \<notin> occ then [Tile beach y] else [])"

definition by_row :: "tile set \<Rightarrow> tile list" where
  "by_row tiles = sort_key (\<lambda>t. (gy t, gx t)) (sorted_list_of_set tiles)"

definition build_terrain :: "building list \<Rightarrow> road list \<Rightarrow> terrain_data" where
  "build_terrain buildings roads =
     (case map_extent buildings of
        None \<Rightarrow> terrain_empty
      | Some (min_x_f, min_y_f, max_x_f, max_y_f) \<Rightarrow>
          let min_x = as_i32 floor min_x_f; min_y = as_i32 floor min_y_f;
              sea_x = as_i32 ceiling max_x_f; max_y = as_i32 ceiling max_y_f;
              occ = building_tiles buildings;
              rivers = place_rivers min_x sea_x min_y max_y occ buildings;
              road_tiles = road_path_tiles roads;
              rows = [min_y..max_y - 1];
              river_water = concat (map (channel_tiles rivers sea_x min_y) rows);
              water = sea_rows sea_x min_y max_y @ map (\<lambda>t. \<lparr>wt_gx = gx t, wt_gy = gy t, wt_deep = False\<rparr>) river_water;
              sand = set (concat (map (\<lambda>y. bank_tiles rivers min_x sea_x min_y max_y occ y @ beach_tiles rivers min_x sea_x occ y) rows));
              bridges = {t \<in> set river_water. t \<in> road_tiles}
          in \<lparr>td_sea_x = sea_x, td_min_y = min_y, td_max_y = max_y, td_rivers = rivers,
               td_water = sort_key (\<lambda>a. (wt_gy a, wt_gx a)) water, td_sand = by_row sand, td_bridges = by_row bridges\<rparr>)"

text \<open>The classification of a single tile, in the order of its rules.\<close>

definition classify :: "int \<Rightarrow> int \<Rightarrow> int \<Rightarrow> int \<Rightarrow> int \<Rightarrow> int \<Rightarrow> river list \<Rightarrow> bool \<Rightarrow> terrain" where
  "classify x y min_x min_y max_y sea_x rivers is_road =
     (if min_y \<le> y \<and> y < max_y \<and> sea_x \<le> x then Sea
      else if x < sea_x \<and> is_river_tile rivers x y sea_x min_y then (if is_road then Bridge else River)
      else if is_road then Road
      else if min_x \<le> x \<and>
          (x = sea_x - 1 \<or> is_river_tile rivers (x - 1) y sea_x min_y \<or> is_river_tile rivers (x + 1) y sea_x min_y) then Sand
      else Grass)"

end
