(* ===== verification/PolisWater.thy ===== *)
theory PolisWater
  imports PolisTerrain
begin

text \<open>
  The laws of the terrain, \<open>polis/terrain.rs\<close>: a river bends by at most one tile from row to row, the rivers
  lie in the land clear of the buildings and of each other, and the payload agrees with the classification.
\<close>

section \<open>The meander\<close>

lemma meander_target_range: "meander_target base block \<in> {- 1..1}"
proof -
  have "uint (meander_hash base block mod 3) = uint (meander_hash base block) mod 3"
    by (simp add: uint_mod_distrib)
  moreover have "0 \<le> uint (meander_hash base block) mod 3" "uint (meander_hash base block) mod 3 < 3" by simp_all
  ultimately show ?thesis unfolding meander_target_def atLeastAtMost_iff by linarith
qed

lemma meander_step_range: "meander_step base next offset \<in> {- 1..1}"
  by (simp add: meander_step_def Let_def)

lemma meander_step_near: "offset \<in> {- 1..1} \<Longrightarrow> \<bar>meander_step base next offset - offset\<bar> \<le> 1"
  by (auto simp: meander_step_def Let_def)

lemma meander_fold_range: "offset \<in> {- 1..1} \<Longrightarrow> fold (meander_step base) blocks offset \<in> {- 1..1}"
  by (induction blocks arbitrary: offset) (simp_all add: meander_step_range del: atLeastAtMost_iff)

lemma meander_range: "meander_offset base y \<in> {- 1..1}"
  unfolding meander_offset_def by (rule meander_fold_range [OF meander_target_range])

lemma blocks_to_Suc: "0 \<le> b \<Longrightarrow> blocks_to (b + 1) = blocks_to b @ [b + 1]"
  by (cases "b = 0") (auto simp: blocks_to_def upto_rec2)

lemma blocks_to_pred: "b < 0 \<Longrightarrow> blocks_to b = blocks_to (b + 1) @ [b]"
  by (auto simp: blocks_to_def upto_rec1)

lemma meander_block: "\<bar>fold (meander_step base) (blocks_to (b + 1)) o1 - fold (meander_step base) (blocks_to b) o1\<bar> \<le> 1"
  if "o1 \<in> {- 1..1}"
proof (cases "0 \<le> b")
  case True
  then show ?thesis using meander_step_near [OF meander_fold_range [OF that]] by (simp add: blocks_to_Suc)
next
  case False
  then show ?thesis using meander_step_near [OF meander_fold_range [OF that], of base b base "blocks_to (b + 1)"]
    by (simp add: blocks_to_pred [of b] abs_minus_commute)
qed

lemma meander_smooth: "\<bar>meander_offset base (y + 1) - meander_offset base y\<bar> \<le> 1"
proof -
  have "(y + 1) div 4 = y div 4 \<or> (y + 1) div 4 = y div 4 + 1" by presburger
  then show ?thesis using meander_block [OF meander_target_range, of base "y div 4" base 0]
    by (auto simp: meander_offset_def)
qed

section \<open>Placed rivers\<close>

text \<open>What a channel promises: it bends by at most one tile, off its base and from row to row.\<close>

definition gentle :: "(int \<Rightarrow> int \<Rightarrow> int) \<Rightarrow> bool" where
  "gentle channel_fn \<longleftrightarrow> (\<forall>base y. \<bar>channel_fn base y - base\<bar> \<le> 1 \<and> \<bar>channel_fn base (y + 1) - channel_fn base y\<bar> \<le> 1)"

lemma gentle_channels: "gentle channel_start" "gentle straight_channel_start"
proof -
  have "\<bar>meander_offset base y\<bar> \<le> 1" for base y using meander_range [of base y] by auto
  with meander_smooth show "gentle channel_start" by (simp add: gentle_def channel_start_def)
  show "gentle straight_channel_start" by (simp add: gentle_def straight_channel_start_def)
qed

definition river_ok :: "int \<Rightarrow> int \<Rightarrow> int \<Rightarrow> int \<Rightarrow> tile set \<Rightarrow> river \<Rightarrow> bool" where
  "river_ok min_x sea_x min_y max_y occ r \<longleftrightarrow> length (rv_channels r) = nat (max_y - min_y) \<and>
     (\<forall>y \<in> {min_y..<max_y}. let ch = rv_channels r ! nat (y - min_y) in
        min_x < ch \<and> ch < sea_x \<and> rv_gx_min r \<le> ch \<and> ch + 1 \<le> rv_gx_max r \<and> (\<forall>x \<in> {ch - 1..ch + 2}. Tile x y \<notin> occ)) \<and>
     (\<forall>y \<in> {min_y..<max_y - 1}. \<bar>rv_channels r ! nat (y + 1 - min_y) - rv_channels r ! nat (y - min_y)\<bar> \<le> 1)"

definition apart :: "river \<Rightarrow> river \<Rightarrow> bool" where
  "apart r s \<longleftrightarrow> rv_gx_max r + 3 < rv_gx_min s \<or> rv_gx_max s + 3 < rv_gx_min r"

lemma envelope_bounds:
  assumes "y \<in> {min_y..<max_y}" and "channel_envelope base min_y max_y channel_fn = (lo, hi)"
  shows "lo \<le> channel_fn base y \<and> channel_fn base y + 1 \<le> hi"
  using assms fold_min_le [of y "[min_y..max_y - 1]" "channel_fn base" i32_max]
    fold_max_ge [of y "[min_y..max_y - 1]" "\<lambda>y. channel_fn base y + 1" i32_min]
  by (auto simp: channel_envelope_def)

lemma clear_column_Some:
  assumes "clear_column proposed lo hi min_y max_y occ existing channel_fn = Some base"
  shows "lo \<le> base \<and> base \<le> hi \<and> channel_clear base min_y max_y occ channel_fn \<and>
    (\<forall>r \<in> set existing. \<not> (fst (channel_envelope base min_y max_y channel_fn) \<le> rv_gx_max r + 3 \<and>
       rv_gx_min r \<le> snd (channel_envelope base min_y max_y channel_fn) + 3))"
  using assms unfolding clear_column_def
  by (auto simp: list_ex_iff case_prod_unfold find_Some_iff split: if_splits)

lemma channel_clear_iff:
  "channel_clear base min_y max_y occ channel_fn \<longleftrightarrow>
     (\<forall>y \<in> {min_y..<max_y}. \<forall>x \<in> {channel_fn base y - 1..channel_fn base y + 2}. Tile x y \<notin> occ)"
  by (auto simp: channel_clear_def list_all_iff Let_def)

lemma row_nth: "y \<in> {min_y..<max_y} \<Longrightarrow> map f [min_y..max_y - 1] ! nat (y - min_y) = f y"
  by (subst nth_map) (auto simp: nth_upto)

definition rivers_ok :: "int \<Rightarrow> int \<Rightarrow> int \<Rightarrow> int \<Rightarrow> tile set \<Rightarrow> river list \<Rightarrow> bool" where
  "rivers_ok min_x sea_x min_y max_y occ rivers \<longleftrightarrow>
     (\<forall>r \<in> set rivers. river_ok min_x sea_x min_y max_y occ r) \<and> sorted_wrt apart rivers"

lemma add_river_ok:
  assumes gentle: "gentle channel_fn" and ok: "rivers_ok min_x sea_x min_y max_y occ rivers"
  shows "rivers_ok min_x sea_x min_y max_y occ (add_river min_x sea_x min_y max_y occ channel_fn cand rivers) \<and>
    length (add_river min_x sea_x min_y max_y occ channel_fn cand rivers) \<le> length rivers + 1"
proof (cases "clear_column cand (min_x + 2) (sea_x - 2) min_y max_y occ rivers channel_fn")
  case None
  with ok show ?thesis by (simp add: add_river_def)
next
  case (Some base)
  obtain lo hi where env: "channel_envelope base min_y max_y channel_fn = (lo, hi)" by (metis surj_pair)
  let ?r = "\<lparr>rv_gx_min = lo, rv_gx_max = hi, rv_channels = map (channel_fn base) [min_y..max_y - 1]\<rparr>"
  note c = clear_column_Some [OF Some]
  have bend: "\<bar>channel_fn base y - base\<bar> \<le> 1" "\<bar>channel_fn base (y + 1) - channel_fn base y\<bar> \<le> 1" for y
    using gentle by (auto simp: gentle_def)
  have "min_x < channel_fn base y \<and> channel_fn base y < sea_x" for y using bend(1) [of y] c by auto
  with c have "river_ok min_x sea_x min_y max_y occ ?r"
    using envelope_bounds [OF _ env] bend(2) by (auto simp: river_ok_def row_nth Let_def channel_clear_iff)
  moreover have "\<forall>r \<in> set rivers. apart r ?r" using c env by (auto simp: apart_def)
  ultimately show ?thesis using ok Some env by (simp add: add_river_def rivers_ok_def sorted_wrt_append)
qed

lemma add_rivers_ok:
  assumes "gentle channel_fn" and "rivers_ok min_x sea_x min_y max_y occ rivers"
  shows "rivers_ok min_x sea_x min_y max_y occ (fold (add_river min_x sea_x min_y max_y occ channel_fn) cands rivers) \<and>
    length (fold (add_river min_x sea_x min_y max_y occ channel_fn) cands rivers) \<le> length rivers + length cands"
  using assms(2)
proof (induction cands arbitrary: rivers)
  case (Cons cand cands)
  from Cons.IH [of "add_river min_x sea_x min_y max_y occ channel_fn cand rivers"] add_river_ok [OF assms(1) Cons.prems, of cand]
  show ?case by simp
qed simp

lemma candidates_length: "length (river_candidates min_x width anchors) \<le> 2"
  by (simp add: river_candidates_def Let_def)

lemma place_rivers_ok:
  "rivers_ok min_x sea_x min_y max_y occ (place_rivers min_x sea_x min_y max_y occ buildings) \<and>
   length (place_rivers min_x sea_x min_y max_y occ buildings) \<le> 2 \<and>
   (place_rivers min_x sea_x min_y max_y occ buildings \<noteq> [] \<longrightarrow> min_y < max_y)"
proof -
  have empty: "rivers_ok min_x sea_x min_y max_y occ []" by (simp add: rivers_ok_def)
  note ok = add_rivers_ok [OF _ empty, of _ "river_candidates min_x (sea_x - min_x) (port_anchors buildings)"]
  show ?thesis
    using ok [OF gentle_channels(1)] ok [OF gentle_channels(2)] empty
      candidates_length [of min_x "sea_x - min_x" "port_anchors buildings"]
    by (auto simp: place_rivers_def Let_def)
qed

section \<open>The payload and the classification\<close>

lemma river_rows:
  assumes ok: "rivers_ok min_x sea_x min_y max_y occ rivers" and band: "rivers \<noteq> [] \<longrightarrow> min_y < max_y"
  shows "is_river_tile rivers x y sea_x min_y \<longleftrightarrow> x < sea_x \<and> y \<in> {min_y..<max_y} \<and>
    (\<exists>r \<in> set rivers. let ch = rv_channels r ! nat (y - min_y) in x = ch \<or> x = ch + 1)"
proof -
  have len: "length (rv_channels r) = nat (max_y - min_y) \<and> rv_channels r \<noteq> []" if "r \<in> set rivers" for r
  proof -
    have "length (rv_channels r) = nat (max_y - min_y)" using ok that by (simp add: rivers_ok_def river_ok_def)
    moreover have "min_y < max_y" using band that by (cases rivers) auto
    ultimately show ?thesis by auto
  qed
  have "(if rv_channels r = [] then rv_gx_min r \<le> x \<and> x \<le> rv_gx_max r
      else min_y \<le> y \<and> nat (y - min_y) < length (rv_channels r) \<and>
        (let ch = rv_channels r ! nat (y - min_y) in ch \<le> x \<and> x < ch + 2)) \<longleftrightarrow>
      y \<in> {min_y..<max_y} \<and> (let ch = rv_channels r ! nat (y - min_y) in x = ch \<or> x = ch + 1)" if "r \<in> set rivers" for r
    using len [OF that] by (auto simp: Let_def)
  then show ?thesis unfolding is_river_tile_def list_ex_iff by (simp cong: bex_cong)
qed

lemma set_channel_tiles:
  assumes "rivers_ok min_x sea_x min_y max_y occ rivers" and "rivers \<noteq> [] \<longrightarrow> min_y < max_y" and "y \<in> {min_y..<max_y}"
  shows "set (channel_tiles rivers sea_x min_y y) = {t. gy t = y \<and> is_river_tile rivers (gx t) y sea_x min_y}"
  unfolding river_rows [OF assms(1,2)] using assms(3)
  by (auto simp: channel_tiles_def Let_def tile.expand split: if_splits)

lemma river_off_land:
  assumes ok: "rivers_ok min_x sea_x min_y max_y occ rivers" and band: "rivers \<noteq> [] \<longrightarrow> min_y < max_y"
    and r: "is_river_tile rivers x y sea_x min_y"
  shows "min_x < x \<and> x < sea_x \<and> is_river_col rivers x \<and> (\<forall>x' \<in> {x - 1..x + 1}. Tile x' y \<notin> occ)"
proof -
  from r obtain v where v: "v \<in> set rivers" "x = rv_channels v ! nat (y - min_y) \<or> x = rv_channels v ! nat (y - min_y) + 1"
    and y: "y \<in> {min_y..<max_y}" "x < sea_x"
    unfolding river_rows [OF ok band] by (auto simp: Let_def)
  from ok v(1) y(1) have "let ch = rv_channels v ! nat (y - min_y) in
      min_x < ch \<and> rv_gx_min v \<le> ch \<and> ch + 1 \<le> rv_gx_max v \<and> (\<forall>x \<in> {ch - 1..ch + 2}. Tile x y \<notin> occ)"
    by (auto simp: rivers_ok_def river_ok_def Let_def)
  with v y show ?thesis by (auto simp: is_river_col_def list_ex_iff Let_def intro!: bexI [of _ v])
qed

lemma set_by_row [simp]: "finite S \<Longrightarrow> set (by_row S) = S"
  by (simp add: by_row_def)

lemma by_row_sorted: "sorted (map (\<lambda>t. (gy t, gx t)) (by_row S)) \<and> distinct (by_row S)"
  by (simp add: by_row_def)

text \<open>The terrain of a city with a building, in the terms of its parts.\<close>

lemma build_terrain_parts:
  fixes roads :: "road list"
  assumes "map_extent buildings = Some (x0, y0, x1, y1)"
  defines "min_x \<equiv> as_i32 floor x0" and "min_y \<equiv> as_i32 floor y0"
  defines "T \<equiv> build_terrain buildings roads"
  shows "rivers_ok min_x (td_sea_x T) min_y (td_max_y T) (building_tiles buildings) (td_rivers T)"
    and "td_rivers T \<noteq> [] \<longrightarrow> min_y < td_max_y T" and "td_min_y T = min_y"
    and "length (td_rivers T) \<le> 2"
    and "set (td_water T) =
      {w. td_sea_x T \<le> wt_gx w \<and> wt_gx w < td_sea_x T + SEA_DEPTH \<and> wt_gy w \<in> {min_y..<td_max_y T} \<and> wt_deep w = (wt_gx w > td_sea_x T)} \<union>
      {w. \<not> wt_deep w \<and> is_river_tile (td_rivers T) (wt_gx w) (wt_gy w) (td_sea_x T) min_y}"
    and "set (td_bridges T) = {t. t \<in> road_path_tiles roads \<and> is_river_tile (td_rivers T) (gx t) (gy t) (td_sea_x T) min_y}"
    and "set (td_sand T) \<subseteq> {t. min_x \<le> gx t \<and> gx t < td_sea_x T \<and> gy t \<in> {min_y..<td_max_y T} \<and> t \<notin> building_tiles buildings \<and>
      \<not> is_river_tile (td_rivers T) (gx t) (gy t) (td_sea_x T) min_y}"
proof -
  let ?s = "as_i32 ceiling x1" and ?m = "as_i32 ceiling y1" and ?occ = "building_tiles buildings"
  let ?r = "place_rivers min_x ?s min_y ?m ?occ buildings"
  let ?rows = "[min_y..?m - 1]"
  let ?sand = "set (concat (map (\<lambda>y. bank_tiles ?r min_x ?s min_y ?m ?occ y @ beach_tiles ?r min_x ?s ?occ y) ?rows))"
  let ?river_water = "concat (map (channel_tiles ?r ?s min_y) ?rows)"
  have T: "td_rivers T = ?r" "td_sea_x T = ?s" "td_max_y T = ?m" "td_sand T = by_row ?sand"
    "td_bridges T = by_row {t \<in> set ?river_water. t \<in> road_path_tiles roads}"
    "set (td_water T) = set (sea_rows ?s min_y ?m @ map (\<lambda>t. \<lparr>wt_gx = gx t, wt_gy = gy t, wt_deep = False\<rparr>) ?river_water)"
    using assms(1) by (simp_all add: T_def build_terrain_def Let_def min_x_def min_y_def)
  show "td_min_y T = min_y" using assms(1) by (simp add: T_def build_terrain_def Let_def min_y_def)
  note p = place_rivers_ok [of min_x ?s min_y ?m ?occ buildings]
  then show ok: "rivers_ok min_x (td_sea_x T) min_y (td_max_y T) ?occ (td_rivers T)"
    and band: "td_rivers T \<noteq> [] \<longrightarrow> min_y < td_max_y T" and "length (td_rivers T) \<le> 2"
    unfolding T(1-3) by blast+
  have water: "set ?river_water = {t. is_river_tile ?r (gx t) (gy t) ?s min_y}"
  proof -
    have "set ?river_water = (\<Union>y \<in> {min_y..<?m}. {t. gy t = y \<and> is_river_tile ?r (gx t) y ?s min_y})"
      using set_channel_tiles [OF ok band] unfolding T(1-3) by auto
    also have "\<dots> = {t. is_river_tile ?r (gx t) (gy t) ?s min_y}"
      using river_rows [OF ok band] unfolding T(1-3) by auto
    finally show ?thesis .
  qed
  have "w \<in> (\<lambda>t. \<lparr>wt_gx = gx t, wt_gy = gy t, wt_deep = False\<rparr>) ` {t. is_river_tile ?r (gx t) (gy t) ?s min_y} \<longleftrightarrow>
      \<not> wt_deep w \<and> is_river_tile ?r (wt_gx w) (wt_gy w) ?s min_y" for w :: water_tile
    by (auto intro!: rev_image_eqI [of "Tile (wt_gx w) (wt_gy w)"])
  moreover have "w \<in> set (sea_rows ?s min_y ?m) \<longleftrightarrow>
      ?s \<le> wt_gx w \<and> wt_gx w < ?s + SEA_DEPTH \<and> wt_gy w \<in> {min_y..<?m} \<and> wt_deep w = (wt_gx w > ?s)" for w
    by (cases w) (auto simp: sea_rows_def intro!: bexI [of _ "wt_gy w"] rev_image_eqI [of "wt_gx w"])
  ultimately show "set (td_water T) =
      {w. td_sea_x T \<le> wt_gx w \<and> wt_gx w < td_sea_x T + SEA_DEPTH \<and> wt_gy w \<in> {min_y..<td_max_y T} \<and> wt_deep w = (wt_gx w > td_sea_x T)} \<union>
      {w. \<not> wt_deep w \<and> is_river_tile (td_rivers T) (wt_gx w) (wt_gy w) (td_sea_x T) min_y}"
    unfolding T set_append set_map water by blast
  have "finite {t \<in> set ?river_water. t \<in> road_path_tiles roads}" by simp
  then show "set (td_bridges T) = {t. t \<in> road_path_tiles roads \<and> is_river_tile (td_rivers T) (gx t) (gy t) (td_sea_x T) min_y}"
    unfolding T(5) T(1) T(2) by (simp only: set_by_row water) blast
  have "t \<in> {t. min_x \<le> gx t \<and> gx t < ?s \<and> gy t \<in> {min_y..<?m} \<and> t \<notin> ?occ \<and> \<not> is_river_tile ?r (gx t) (gy t) ?s min_y}"
    if "t \<in> ?sand" for t
    using that river_off_land [OF ok band] unfolding T(1-3) by (auto simp: bank_tiles_def beach_tiles_def Let_def split: if_splits)
  then show "set (td_sand T) \<subseteq> {t. min_x \<le> gx t \<and> gx t < td_sea_x T \<and> gy t \<in> {min_y..<td_max_y T} \<and> t \<notin> ?occ \<and>
      \<not> is_river_tile (td_rivers T) (gx t) (gy t) (td_sea_x T) min_y}"
    unfolding T(1-4) by (simp only: set_by_row [OF finite_set]) blast
qed

section \<open>Properties\<close>

text \<open>C32: At most two rivers are placed, more than three columns apart. In every row of the land a river runs strictly
  between its borders, its two columns and the bank on either side hold no building, and from row to row it
  bends by at most one column, so its water is connected.\<close>

theorem rivers_clear_of_buildings:
  "length (place_rivers min_x sea_x min_y max_y occ buildings) \<le> 2 \<and>
   sorted_wrt apart (place_rivers min_x sea_x min_y max_y occ buildings) \<and>
   (\<forall>r \<in> set (place_rivers min_x sea_x min_y max_y occ buildings). \<forall>y \<in> {min_y..<max_y}.
      let ch = rv_channels r ! nat (y - min_y) in
      min_x < ch \<and> ch < sea_x \<and> rv_gx_min r \<le> ch \<and> ch + 1 \<le> rv_gx_max r \<and> (\<forall>x \<in> {ch - 1..ch + 2}. Tile x y \<notin> occ) \<and>
      (y + 1 < max_y \<longrightarrow> \<bar>rv_channels r ! nat (y + 1 - min_y) - ch\<bar> \<le> 1))"
  using place_rivers_ok [of min_x sea_x min_y max_y occ buildings] unfolding rivers_ok_def river_ok_def Let_def by auto

theorem rivers_clear_of_buildings_witness:
  "\<exists>r. place_rivers 0 12 0 4 {Tile 6 1} [] = [r] \<and> (\<forall>x \<in> {rv_channels r ! 1 - 1..rv_channels r ! 1 + 2}. x \<noteq> 6)"
proof -
  have "length (place_rivers 0 12 0 4 {Tile 6 1} []) = 1" by code_simp
  then obtain r where r: "place_rivers 0 12 0 4 {Tile 6 1} [] = [r]" by (auto simp: length_Suc_conv)
  from rivers_clear_of_buildings [of 0 12 0 4 "{Tile 6 1}" "[]"]
  have "\<forall>y \<in> {0..<4}. \<forall>x \<in> {rv_channels r ! nat (y - 0) - 1..rv_channels r ! nat (y - 0) + 2}. Tile x y \<notin> {Tile 6 1}"
    unfolding r Let_def by (metis list.set_intros(1))
  from bspec [OF this, of 1] r show ?thesis by simp
qed

lemma no_terrain: "map_extent buildings = None \<Longrightarrow> build_terrain buildings roads = terrain_empty"
  by (simp add: build_terrain_def)

lemma no_river: "\<not> is_river_tile [] x y sea_x min_y"
  by (simp add: is_river_tile_def)

lemma payload_tiles:
  fixes buildings roads
  defines "T \<equiv> build_terrain buildings roads"
  shows "((\<exists>w \<in> set (td_water T). wt_gx w = x \<and> wt_gy w = y) \<longleftrightarrow>
      x < td_sea_x T + SEA_DEPTH \<and>
      classify x y min_x (td_min_y T) (td_max_y T) (td_sea_x T) (td_rivers T) (Tile x y \<in> road_path_tiles roads) \<in> {Sea, River, Bridge}) \<and>
    (Tile x y \<in> set (td_bridges T) \<longleftrightarrow>
      classify x y min_x (td_min_y T) (td_max_y T) (td_sea_x T) (td_rivers T) (Tile x y \<in> road_path_tiles roads) = Bridge)"
proof (cases "map_extent buildings")
  case None
  then show ?thesis by (simp add: T_def no_terrain terrain_empty_def classify_def no_river)
next
  case (Some e)
  obtain x0 y0 x1 y1 where e: "map_extent buildings = Some (x0, y0, x1, y1)" using Some by (cases e) auto
  note parts = build_terrain_parts [OF e, of roads, folded T_def]
  have west: "x < td_sea_x T" if "is_river_tile (td_rivers T) x y (td_sea_x T) (td_min_y T)"
    using that by (simp add: is_river_tile_def)
  have "(\<exists>w \<in> set (td_water T). wt_gx w = x \<and> wt_gy w = y) \<longleftrightarrow>
      td_sea_x T \<le> x \<and> x < td_sea_x T + SEA_DEPTH \<and> y \<in> {td_min_y T..<td_max_y T} \<or>
      is_river_tile (td_rivers T) x y (td_sea_x T) (td_min_y T)"
    (is "?water \<longleftrightarrow> ?sea \<or> ?river")
  proof
    show "?water \<Longrightarrow> ?sea \<or> ?river" unfolding parts(3,5) by auto
    have "\<lparr>wt_gx = x, wt_gy = y, wt_deep = x > td_sea_x T\<rparr> \<in> set (td_water T)" if ?sea
      using that unfolding parts(3,5) by simp
    moreover have "\<lparr>wt_gx = x, wt_gy = y, wt_deep = False\<rparr> \<in> set (td_water T)" if ?river
      using that unfolding parts(3,5) by simp
    ultimately show "?sea \<or> ?river \<Longrightarrow> ?water" by (metis water_tile.select_convs(1,2))
  qed
  moreover have "Tile x y \<in> set (td_bridges T) \<longleftrightarrow> Tile x y \<in> road_path_tiles roads \<and> ?river"
    unfolding parts(3,6) by simp
  ultimately show ?thesis using west by (auto simp: classify_def SEA_DEPTH_def)
qed

text \<open>The payload agrees with the classification, tile by tile: the tiles drawn as water are those that the rules
  call sea, river or bridge (the sea up to its drawn depth), and the tiles drawn as bridges are those they call
  a bridge, for every westmost column the rules are given.\<close>

theorem payload_agrees:
  "let T = build_terrain buildings roads in
    ((\<exists>w \<in> set (td_water T). wt_gx w = x \<and> wt_gy w = y) \<longleftrightarrow>
      x < td_sea_x T + SEA_DEPTH \<and>
      classify x y min_x (td_min_y T) (td_max_y T) (td_sea_x T) (td_rivers T) (Tile x y \<in> road_path_tiles roads) \<in> {Sea, River, Bridge}) \<and>
    (Tile x y \<in> set (td_bridges T) \<longleftrightarrow>
      classify x y min_x (td_min_y T) (td_max_y T) (td_sea_x T) (td_rivers T) (Tile x y \<in> road_path_tiles roads) = Bridge)"
  unfolding Let_def by (rule payload_tiles)

lemma terrain_clear:
  fixes buildings roads
  defines "T \<equiv> build_terrain buildings roads"
  shows "{t. is_river_tile (td_rivers T) (gx t) (gy t) (td_sea_x T) (td_min_y T)} \<inter> building_tiles buildings = {} \<and>
    set (td_sand T) \<inter> building_tiles buildings = {} \<and>
    set (td_sand T) \<inter> (\<lambda>w. Tile (wt_gx w) (wt_gy w)) ` set (td_water T) = {} \<and>
    sorted (map (\<lambda>w. (wt_gy w, wt_gx w)) (td_water T)) \<and>
    sorted (map (\<lambda>t. (gy t, gx t)) (td_sand T)) \<and> sorted (map (\<lambda>t. (gy t, gx t)) (td_bridges T))"
proof (cases "map_extent buildings")
  case None
  then show ?thesis by (simp add: T_def no_terrain terrain_empty_def no_river)
next
  case (Some e)
  obtain x0 y0 x1 y1 where e: "map_extent buildings = Some (x0, y0, x1, y1)" using Some by (cases e) auto
  note parts = build_terrain_parts [OF e, of roads, folded T_def]
  have order: "sorted (map (\<lambda>w. (wt_gy w, wt_gx w)) (td_water T))" "sorted (map (\<lambda>t. (gy t, gx t)) (td_sand T))"
    "sorted (map (\<lambda>t. (gy t, gx t)) (td_bridges T))"
    by (simp_all add: T_def build_terrain_def e Let_def by_row_sorted)
  have river: "Tile x y \<notin> building_tiles buildings" if "is_river_tile (td_rivers T) x y (td_sea_x T) (td_min_y T)" for x y
    using river_off_land [OF parts(1,2)] that unfolding parts(3) by simp
  have "t \<notin> (\<lambda>w. Tile (wt_gx w) (wt_gy w)) ` set (td_water T)" if "t \<in> set (td_sand T)" for t
    using that parts(7) unfolding parts(5) by auto
  moreover have "set (td_sand T) \<inter> building_tiles buildings = {}" using parts(7) by blast
  moreover have "{t. is_river_tile (td_rivers T) (gx t) (gy t) (td_sea_x T) (td_min_y T)} \<inter> building_tiles buildings = {}"
    using river by (metis (mono_tags, lifting) disjoint_iff mem_Collect_eq tile.collapse)
  ultimately show ?thesis using order by blast
qed

text \<open>No river and no sand is emitted under a building, no tile is both sand and water, and the three lists of
  the payload are in row-major order.\<close>

theorem terrain_off_buildings:
  "let T = build_terrain buildings roads in
    {t. is_river_tile (td_rivers T) (gx t) (gy t) (td_sea_x T) (td_min_y T)} \<inter> building_tiles buildings = {} \<and>
    set (td_sand T) \<inter> building_tiles buildings = {} \<and>
    set (td_sand T) \<inter> (\<lambda>w. Tile (wt_gx w) (wt_gy w)) ` set (td_water T) = {} \<and>
    sorted (map (\<lambda>w. (wt_gy w, wt_gx w)) (td_water T)) \<and>
    sorted (map (\<lambda>t. (gy t, gx t)) (td_sand T)) \<and> sorted (map (\<lambda>t. (gy t, gx t)) (td_bridges T))"
  unfolding Let_def by (rule terrain_clear)

end
