(* ===== verification/PolisNav.thy ===== *)
theory PolisNav
  imports PolisWater
begin

text \<open>
  The citizens' path finder, \<open>polis/nav.rs\<close>: the effective terrain of a tile, the nodes a citizen may stand
  on, the A* search over them, and the check that every tile of every routed road is walkable.
\<close>

section \<open>The navigation grid\<close>

fun walkable :: "terrain \<Rightarrow> bool" where
  "walkable Road = True"
| "walkable Plaza = True"
| "walkable Bridge = True"
| "walkable _ = False"

record nav_grid =
  nv_sea_x :: int
  nv_min_y :: int
  nv_max_y :: int
  nv_rivers :: "river list"
  nv_roads :: "tile set"
  nv_bridges :: "tile set"
  nv_occ :: "tile set"
  nv_min_x :: int

definition nav_new :: "building list \<Rightarrow> road list \<Rightarrow> terrain_data \<Rightarrow> nav_grid" where
  "nav_new buildings roads terrain =
     \<lparr>nv_sea_x = td_sea_x terrain, nv_min_y = td_min_y terrain, nv_max_y = td_max_y terrain, nv_rivers = td_rivers terrain,
      nv_roads = road_path_tiles roads, nv_bridges = set (td_bridges terrain), nv_occ = building_tiles buildings,
      nv_min_x = (case map (\<lambda>b. as_i32 round_half_away (co_x (bd_coords b))) buildings of [] \<Rightarrow> 0 | x # xs \<Rightarrow> fold min xs x)\<rparr>"

definition terrain_at :: "nav_grid \<Rightarrow> tile \<Rightarrow> terrain" where
  "terrain_at nav t =
     (let is_road = t \<in> nv_roads nav;
          base = classify (gx t) (gy t) (nv_min_x nav) (nv_min_y nav) (nv_max_y nav) (nv_sea_x nav) (nv_rivers nav) is_road
      in if is_road \<and> t \<in> nv_bridges nav then Bridge else base)"

definition is_node :: "nav_grid \<Rightarrow> tile \<Rightarrow> bool" where
  "is_node nav t \<longleftrightarrow> walkable (terrain_at nav t) \<and> t \<notin> nv_occ nav"

definition nav_astar :: "nav_grid \<Rightarrow> tile \<Rightarrow> tile \<Rightarrow> tile list option option" where
  "nav_astar nav start goal =
     (if \<not> is_node nav start \<or> \<not> is_node nav goal then Some None
      else if start = goal then Some (Some [start])
      else
        let h = (\<lambda>n. manhattan n goal)
        in search_loop (\<lambda>t. filter (is_node nav) (neighbors t)) (\<lambda>_. 1) h goal None (search_init h start))"

text \<open>The error is the first tile that is not walkable, with its terrain.\<close>

definition road_paths_all_walkable :: "building list \<Rightarrow> road list \<Rightarrow> terrain_data \<Rightarrow> tile \<times> terrain + unit" where
  "road_paths_all_walkable buildings roads terrain =
     (let nav = nav_new buildings roads terrain in
      case find (\<lambda>t. \<not> walkable (terrain_at nav t)) (sorted_list_of_set (road_path_tiles roads)) of
        Some t \<Rightarrow> Inl (t, terrain_at nav t)
      | None \<Rightarrow> Inr ())"

section \<open>Nodes are streets\<close>

lemma finite_road_tiles [simp]: "finite (road_path_tiles roads)"
  by (auto simp: road_path_tiles_def split: option.splits list.splits)

lemma classify_road: "walkable (classify x y min_x min_y max_y sea_x rivers is_road) \<longleftrightarrow>
    is_road \<and> \<not> (min_y \<le> y \<and> y < max_y \<and> sea_x \<le> x)"
  by (simp add: classify_def)

text \<open>The part of the map that the rules call sea before they look at roads.\<close>

definition in_sea :: "terrain_data \<Rightarrow> tile \<Rightarrow> bool" where
  "in_sea T t \<longleftrightarrow> td_min_y T \<le> gy t \<and> gy t < td_max_y T \<and> td_sea_x T \<le> gx t"

lemma no_bridge_in_sea: "t \<in> set (td_bridges (build_terrain buildings roads)) \<Longrightarrow> \<not> in_sea (build_terrain buildings roads) t"
proof (cases "map_extent buildings")
  case None
  then show ?thesis by (simp add: no_terrain terrain_empty_def in_sea_def)
next
  case (Some e)
  assume t: "t \<in> set (td_bridges (build_terrain buildings roads))"
  obtain x0 y0 x1 y1 where "map_extent buildings = Some (x0, y0, x1, y1)" using Some by (cases e) auto
  from build_terrain_parts(6) [OF this, of roads] t show ?thesis by (auto simp: is_river_tile_def in_sea_def)
qed

lemma walkable_tile:
  fixes buildings roads
  defines "T \<equiv> build_terrain buildings roads"
  shows "walkable (terrain_at (nav_new buildings roads T) t) \<longleftrightarrow> t \<in> road_path_tiles roads \<and> \<not> in_sea T t"
    and "in_sea T t \<Longrightarrow> terrain_at (nav_new buildings roads T) t = Sea"
  using no_bridge_in_sea [of t buildings roads]
  by (auto simp: terrain_at_def nav_new_def Let_def in_sea_def classify_road T_def simp del: not_le) (auto simp: classify_def)

lemma find_sorted_set:
  assumes "finite A"
  shows "find P (sorted_list_of_set A) = (if {x \<in> A. P x} = {} then None else Some (Min {x \<in> A. P x}))"
proof -
  have "filter P (sorted_list_of_set A) = sorted_list_of_set {x \<in> A. P x}"
    using assms by (intro sorted_distinct_set_unique) (auto intro: sorted_filter [of id, simplified])
  moreover have "find P xs = (case filter P xs of [] \<Rightarrow> None | x # _ \<Rightarrow> Some x)" for xs
    by (induction xs) auto
  ultimately have "find P (sorted_list_of_set A) = (case sorted_list_of_set {x \<in> A. P x} of [] \<Rightarrow> None | x # _ \<Rightarrow> Some x)" by metis
  then show ?thesis using assms by (cases "{x \<in> A. P x} = {}") (simp_all only: sorted_list_of_set_empty, simp_all add: sorted_list_of_set_nonempty)
qed

section \<open>Walks\<close>

lemma manhattan_triangle: "manhattan a c \<le> manhattan a b + manhattan b c"
proof -
  have "int (manhattan a c) \<le> int (manhattan a b) + int (manhattan b c)" by (simp add: manhattan_int)
  then show ?thesis by simp
qed

lemma path_length:
  "ps \<noteq> [] \<Longrightarrow> successively (\<lambda>a b. manhattan a b = 1) ps \<Longrightarrow> manhattan (hd ps) (last ps) < length ps"
proof (induction ps rule: induct_list012)
  case (3 a b ps)
  then have "manhattan b (last (b # ps)) < length (b # ps)" "manhattan a b = 1" by simp_all
  with manhattan_triangle [of a "last (b # ps)" b] show ?case by simp
qed auto

lemma path_via:
  assumes "successively (\<lambda>a b. manhattan a b = 1) ps" and "t \<in> set ps"
  shows "manhattan (hd ps) t + manhattan t (last ps) < length ps"
proof -
  from assms(2) obtain xs ys where ps: "ps = (xs @ [t]) @ ys" by (auto simp: in_set_conv_decomp)
  then have "successively (\<lambda>a b. manhattan a b = 1) (xs @ [t])" "successively (\<lambda>a b. manhattan a b = 1) (t # ys)"
    using assms(1) by (auto simp: successively_append_iff)
  from path_length [OF _ this(1)] path_length [OF _ this(2)]
  have "manhattan (hd (xs @ [t])) t \<le> length xs" "manhattan t (last (t # ys)) \<le> length ys" by simp_all
  moreover have "hd ps = hd (xs @ [t])" "last ps = last (t # ys)" by (cases xs; simp add: ps)+
  ultimately show ?thesis by (simp add: ps)
qed

text \<open>A walk meets every row between its ends.\<close>

lemma path_row:
  "ps \<noteq> [] \<Longrightarrow> successively (\<lambda>a b. manhattan a b = 1) ps \<Longrightarrow> gy (hd ps) \<le> k \<Longrightarrow> k \<le> gy (last ps) \<Longrightarrow> \<exists>t \<in> set ps. gy t = k"
proof (induction ps rule: induct_list012)
  case (3 a b ps)
  show ?case
  proof (cases "gy a = k")
    case False
    have "int (manhattan a b) = 1" using "3.prems" by simp
    then have "gy b \<le> k" using False "3.prems"(3) by (simp add: manhattan_int)
    with 3 have "\<exists>t \<in> set (b # ps). gy t = k" by simp
    then show ?thesis by auto
  qed simp
qed auto

section \<open>The citizens' search\<close>

text \<open>A navigation grid whose scores stay within a \<open>u32\<close>.\<close>

definition nav_small :: "nav_grid \<Rightarrow> bool" where
  "nav_small nav \<longleftrightarrow> finite (nv_roads nav) \<and> card (nv_roads nav) \<le> 2000000000 \<and>
     (\<forall>t \<in> nv_roads nav. \<bar>gx t\<bar> \<le> 500000000 \<and> \<bar>gy t\<bar> \<le> 500000000)"

definition nav_ready :: "nav_grid \<Rightarrow> tile \<Rightarrow> tile \<Rightarrow> bool" where
  "nav_ready nav start goal \<longleftrightarrow> nav_small nav \<and> is_node nav start \<and> is_node nav goal"

definition nav_goal :: "nav_grid \<Rightarrow> tile \<Rightarrow> tile \<Rightarrow> tile" where
  "nav_goal nav start goal = (if nav_ready nav start goal then goal else start)"

definition nav_cells :: "nav_grid \<Rightarrow> tile \<Rightarrow> tile \<Rightarrow> tile \<Rightarrow> tile list" where
  "nav_cells nav start goal t = (if nav_ready nav start goal then filter (is_node nav) (neighbors t) else [])"

definition nav_nodes :: "nav_grid \<Rightarrow> tile \<Rightarrow> tile \<Rightarrow> tile set" where
  "nav_nodes nav start goal = (if nav_ready nav start goal then {t. is_node nav t} else {start})"

lemma node_on_road: "is_node nav t \<Longrightarrow> t \<in> nv_roads nav"
  by (rule ccontr) (simp add: is_node_def terrain_at_def Let_def classify_road)

lemma nav_nodes_small:
  "finite (nav_nodes nav start goal) \<and> card (nav_nodes nav start goal) \<le> 2000000000"
proof (cases "nav_ready nav start goal")
  case True
  then have s: "nav_small nav" by (simp add: nav_ready_def)
  have sub: "{t. is_node nav t} \<subseteq> nv_roads nav" using node_on_road by blast
  with s have "card {t. is_node nav t} \<le> card (nv_roads nav)" by (intro card_mono) (simp_all add: nav_small_def)
  with s sub True show ?thesis by (auto simp: nav_nodes_def nav_small_def intro: finite_subset)
qed (simp add: nav_nodes_def)

interpretation citizens: search_graph "nav_cells nav start goal" "\<lambda>_. 1" "\<lambda>n. manhattan n (nav_goal nav start goal)"
    start "nav_goal nav start goal" "nav_nodes nav start goal" 1 2000000000
  for nav start goal
proof
  show "finite (nav_nodes nav start goal)" using nav_nodes_small by blast
  show "start \<in> nav_nodes nav start goal" by (simp add: nav_nodes_def nav_ready_def)
next
  fix t n assume n: "n \<in> set (nav_cells nav start goal t)"
  then show "n \<in> nav_nodes nav start goal" by (auto simp: nav_cells_def nav_nodes_def split: if_splits)
  from n have "n \<in> set (neighbors t)" by (auto simp: nav_cells_def split: if_splits)
  then show "manhattan t (nav_goal nav start goal) \<le> 1 + manhattan n (nav_goal nav start goal)"
    using manhattan_step [of n t] by simp
next
  fix n assume n: "n \<in> nav_nodes nav start goal"
  have "int (manhattan n (nav_goal nav start goal)) \<le> 2000000000"
  proof (cases "nav_ready nav start goal")
    case True
    then have "n \<in> nv_roads nav" "goal \<in> nv_roads nav" "nav_small nav"
      using n node_on_road by (auto simp: nav_nodes_def nav_ready_def)
    then have "\<bar>gx n\<bar> \<le> 500000000" "\<bar>gy n\<bar> \<le> 500000000" "\<bar>gx goal\<bar> \<le> 500000000" "\<bar>gy goal\<bar> \<le> 500000000"
      by (auto simp: nav_small_def)
    with True show ?thesis by (simp add: nav_goal_def manhattan_int)
  qed (use n in \<open>simp add: nav_nodes_def nav_goal_def\<close>)
  then show "1 * 2000000000 + manhattan n (nav_goal nav start goal) < u32_max" by (simp add: u32_max_def)
qed auto

definition citizen_path :: "nav_grid \<Rightarrow> tile \<Rightarrow> tile \<Rightarrow> tile list \<Rightarrow> bool" where
  "citizen_path nav start goal ps \<longleftrightarrow> ps \<noteq> [] \<and> hd ps = start \<and> last ps = goal \<and>
     (\<forall>t \<in> set ps. is_node nav t) \<and> successively (\<lambda>a b. manhattan a b = 1) ps"

lemma citizen_path_iff:
  assumes "nav_ready nav start goal"
  shows "citizen_path nav start goal ps \<longleftrightarrow> citizens.is_path nav start goal ps \<and> last ps = goal"
proof -
  have cells: "b \<in> set (nav_cells nav start goal a) \<longleftrightarrow> manhattan a b = 1 \<and> is_node nav b" for a b
    using assms by (auto simp: nav_cells_def neighbors_iff)
  have "successively (\<lambda>a b. manhattan a b = 1 \<and> is_node nav b) ps \<longleftrightarrow>
      successively (\<lambda>a b. manhattan a b = 1) ps \<and> (\<forall>t \<in> set ps. is_node nav t)" if "ps \<noteq> []" "is_node nav (hd ps)"
    using that by (induction ps rule: induct_list012) auto
  with assms show ?thesis unfolding citizen_path_def citizens.is_path_def cells by (auto simp: nav_ready_def)
qed

lemma nav_astar_answers:
  assumes "nav_small nav"
  shows "\<exists>r. nav_astar nav start goal = Some r \<and>
    (case r of
       Some ps \<Rightarrow> citizen_path nav start goal ps \<and> (\<forall>qs. citizen_path nav start goal qs \<longrightarrow> length ps \<le> length qs)
     | None \<Rightarrow> \<forall>qs. \<not> citizen_path nav start goal qs)"
proof (cases "nav_ready nav start goal \<and> start \<noteq> goal")
  case False
  have "citizen_path nav start goal qs \<Longrightarrow> is_node nav start \<and> is_node nav goal \<and> 1 \<le> length qs" for qs
    by (auto simp: citizen_path_def Suc_le_eq)
  with False assms show ?thesis by (auto simp: nav_astar_def nav_ready_def citizen_path_def)
next
  case True
  then have ready: "nav_ready nav start goal" by blast
  then have n: "nav_goal nav start goal = goal" "nav_cells nav start goal = (\<lambda>t. filter (is_node nav) (neighbors t))"
    by (simp_all add: nav_goal_def nav_cells_def fun_eq_iff)
  have "citizens.fits nav start goal None {}" using nav_nodes_small by (simp add: citizens.fits_def)
  from citizens.search_spec [OF this] obtain r where
    s: "search_loop (nav_cells nav start goal) (\<lambda>_. 1) (\<lambda>n. manhattan n (nav_goal nav start goal)) (nav_goal nav start goal)
          None (search_init (\<lambda>n. manhattan n (nav_goal nav start goal)) start) = Some r" and
    "citizens.answers nav start goal None (card (nav_nodes nav start goal)) r" by blast
  note a = this(2) [unfolded citizens.answers_def, unfolded n(1)]
  note cp = citizen_path_iff [OF ready]
  have r: "nav_astar nav start goal = Some r" using s True by (simp add: nav_astar_def nav_ready_def n)
  show ?thesis
  proof (cases r)
    case None
    with a have "\<forall>qs. \<not> citizen_path nav start goal qs"
      using citizens.no_path [of nav start goal, unfolded n(1)] cp by auto
    with r None show ?thesis by simp
  next
    case (Some ps)
    with a have p: "citizen_path nav start goal ps" by (simp add: cp)
    have "length ps \<le> length qs" if q: "citizen_path nav start goal qs" for qs
    proof -
      have cost: "citizens.cost xs = length xs - 1" for xs :: "tile list"
        unfolding citizens.cost_def by (simp add: sum_list_triv)
      have "citizens.cost ps \<le> citizens.cost qs"
        using a Some q citizens.cheapest [of nav start goal "citizens.cost ps" qs, unfolded n(1)] by (simp add: cp)
      then have "length ps - 1 \<le> length qs - 1" unfolding cost .
      moreover have "0 < length ps" "0 < length qs" using p q by (simp_all add: citizen_path_def)
      ultimately show ?thesis by linarith
    qed
    with Some r p show ?thesis by auto
  qed
qed

lemma road_check:
  fixes buildings roads
  defines "T \<equiv> build_terrain buildings roads"
  shows "road_paths_all_walkable buildings roads T =
    (if \<exists>t \<in> road_path_tiles roads. in_sea T t then Inl (Min {t \<in> road_path_tiles roads. in_sea T t}, Sea) else Inr ())"
proof -
  let ?S = "{t \<in> road_path_tiles roads. in_sea T t}"
  note w = walkable_tile [of buildings roads, folded T_def]
  have "{t \<in> road_path_tiles roads. \<not> walkable (terrain_at (nav_new buildings roads T) t)} = ?S"
    using w(1) by auto
  then have f: "find (\<lambda>t. \<not> walkable (terrain_at (nav_new buildings roads T) t)) (sorted_list_of_set (road_path_tiles roads)) =
      (if ?S = {} then None else Some (Min ?S))"
    by (simp only: find_sorted_set [OF finite_road_tiles])
  have "in_sea T (Min ?S)" if "?S \<noteq> {}"
  proof -
    have "finite ?S" by simp
    from Min_in [OF this that] show ?thesis by simp
  qed
  with w(2) f show ?thesis by (auto simp: road_paths_all_walkable_def Let_def)
qed

section \<open>Properties\<close>

text \<open>C30: The citizens' search always ends. If the city's streets keep scores within a \<open>u32\<close>, it returns a shortest
  4-connected path of nodes from the start to the goal, and none exactly if there is none.\<close>

theorem citizens_shortest_path:
  assumes "nav_small nav"
  shows "\<exists>r. nav_astar nav start goal = Some r \<and>
    (case r of
       Some ps \<Rightarrow> citizen_path nav start goal ps \<and> (\<forall>qs. citizen_path nav start goal qs \<longrightarrow> length ps \<le> length qs)
     | None \<Rightarrow> \<forall>qs. \<not> citizen_path nav start goal qs)"
  by (rule nav_astar_answers [OF assms])

definition demo_lane :: "road list" where
  "demo_lane = [\<lparr>rd_road_id = [0], rd_from = [0], rd_to = [1], rd_road_type = lit ''import'', rd_weight = 1, rd_path = Some [to_coords (Tile 0 0), to_coords (Tile 2 0)]\<rparr>]"

lemma demo_lane_tiles: "road_path_tiles demo_lane = {Tile 0 0, Tile 1 0, Tile 2 0}"
  by (simp add: road_path_tiles_def demo_lane_def tile_of_to_coords in_i32_def i32_min_def i32_max_def segment_tiles.simps)

lemma demo_lane_nodes: "is_node (nav_new [] demo_lane (build_terrain [] demo_lane)) t \<longleftrightarrow> t \<in> {Tile 0 0, Tile 1 0, Tile 2 0}"
proof -
  have "\<not> in_sea (build_terrain [] demo_lane) t"
    by (simp add: in_sea_def no_terrain map_extent_def terrain_empty_def)
  then show ?thesis using walkable_tile(1) [of "[]" demo_lane t]
    by (simp add: is_node_def demo_lane_tiles) (simp add: nav_new_def building_tiles_def)
qed

theorem citizens_shortest_path_witness:
  "\<exists>ps. nav_astar (nav_new [] demo_lane (build_terrain [] demo_lane)) (Tile 0 0) (Tile 2 0) = Some (Some ps) \<and> length ps = 3"
proof -
  let ?nav = "nav_new [] demo_lane (build_terrain [] demo_lane)"
  have small: "nav_small ?nav" by (simp add: nav_small_def nav_new_def demo_lane_tiles)
  have q: "citizen_path ?nav (Tile 0 0) (Tile 2 0) [Tile 0 0, Tile 1 0, Tile 2 0]"
    by (simp add: citizen_path_def demo_lane_nodes manhattan_def)
  from citizens_shortest_path [OF small, of "Tile 0 0" "Tile 2 0"] q obtain ps where
    ps: "nav_astar ?nav (Tile 0 0) (Tile 2 0) = Some (Some ps)" "citizen_path ?nav (Tile 0 0) (Tile 2 0) ps" "length ps \<le> 3"
    by (fastforce split: option.splits)
  have "manhattan (hd ps) (last ps) < length ps" using ps(2) by (intro path_length) (auto simp: citizen_path_def)
  then have "3 \<le> length ps" using ps(2) by (simp add: citizen_path_def manhattan_def)
  with ps show ?thesis by auto
qed

lemma nodes_dry:
  fixes buildings roads
  defines "T \<equiv> build_terrain buildings roads"
  shows "{t. is_node (nav_new buildings roads T) t} = road_path_tiles roads - building_tiles buildings - {t. in_sea T t}"
    and "{t. is_node (nav_new buildings roads T) t} \<inter> {t. is_river_tile (td_rivers T) (gx t) (gy t) (td_sea_x T) (td_min_y T)} =
      set (td_bridges T)"
proof -
  have node: "is_node (nav_new buildings roads T) t \<longleftrightarrow> t \<in> road_path_tiles roads \<and> t \<notin> building_tiles buildings \<and> \<not> in_sea T t" for t
    using walkable_tile(1) [of buildings roads t] by (auto simp: is_node_def T_def) (auto simp: nav_new_def)
  then show "{t. is_node (nav_new buildings roads T) t} = road_path_tiles roads - building_tiles buildings - {t. in_sea T t}"
    by blast
  show "{t. is_node (nav_new buildings roads T) t} \<inter> {t. is_river_tile (td_rivers T) (gx t) (gy t) (td_sea_x T) (td_min_y T)} =
      set (td_bridges T)"
  proof (cases "map_extent buildings")
    case None
    then show ?thesis by (simp add: T_def no_terrain terrain_empty_def no_river)
  next
    case (Some e)
    obtain x0 y0 x1 y1 where e: "map_extent buildings = Some (x0, y0, x1, y1)" using Some by (cases e) auto
    note parts = build_terrain_parts [OF e, of roads, folded T_def]
    have "t \<notin> building_tiles buildings \<and> \<not> in_sea T t"
      if "is_river_tile (td_rivers T) (gx t) (gy t) (td_sea_x T) (td_min_y T)" for t
      using river_off_land [OF parts(1,2), of "gx t" "gy t"] that unfolding parts(3) by (cases t) (auto simp: in_sea_def)
    then show ?thesis unfolding node using parts(6) parts(3) by auto
  qed
qed

text \<open>On a generated map, a citizen may stand exactly on the street tiles that are in no building and not in the
  sea; of the river tiles these are exactly the emitted bridges.\<close>

theorem nodes_are_dry_streets:
  "let T = build_terrain buildings roads in
    ({t. is_node (nav_new buildings roads T) t} = road_path_tiles roads - building_tiles buildings - {t. in_sea T t}) \<and>
    ({t. is_node (nav_new buildings roads T) t} \<inter> {t. is_river_tile (td_rivers T) (gx t) (gy t) (td_sea_x T) (td_min_y T)} =
      set (td_bridges T))"
  unfolding Let_def by (rule conjI) (rule nodes_dry)+

text \<open>The check of the routed roads on a generated map fails exactly if a street tile lies in the sea, and then it
  names the first such tile and the terrain sea: the routing and the bridges leave no other way to fail.\<close>

theorem road_check_finds_sea:
  "road_paths_all_walkable buildings roads (build_terrain buildings roads) =
    (if \<exists>t \<in> road_path_tiles roads. in_sea (build_terrain buildings roads) t
     then Inl (Min {t \<in> road_path_tiles roads. in_sea (build_terrain buildings roads) t}, Sea) else Inr ())"
  by (rule road_check)

text \<open>The counterexample: two huts on the shore, and between them a theater that reaches inland.\<close>

definition demo_theater :: "nat \<Rightarrow> int \<Rightarrow> int \<Rightarrow> building" where
  "demo_theater i x y = \<lparr>bd_file_id = [i], bd_file_path = [i], bd_district_id = [], bd_purpose = lit ''theater'', bd_feature_id = [],
     bd_visual_tier = lit ''kalybe'',
     bd_coords = \<lparr>co_x = f64_of x, co_y = f64_of y\<rparr>\<rparr>"

definition demo_shore :: "building list" where
  "demo_shore = [demo_hut 0 0 0, demo_hut 1 0 4, demo_theater 2 (- 2) 1]"

definition demo_shore_road :: road where
  "demo_shore_road = \<lparr>rd_road_id = [0], rd_from = [0], rd_to = [1], rd_road_type = lit ''import'', rd_weight = 1, rd_path = None\<rparr>"

lemma demo_theater_simps:
  "\<bar>x\<bar> \<le> i32_max \<Longrightarrow> \<bar>y\<bar> \<le> i32_max \<Longrightarrow> tile_of (bd_coords (demo_theater i x y)) = Tile x y"
  "footprint_cells (demo_theater i x y) = (3, 2)"
  by (simp_all add: demo_theater_def tile_of_def f64_of_def as_i32_def clamp_i32_def i32_min_def i32_max_def
      footprint_cells_def building_footprint_def footprint_table_def tier_level_def)

lemma demo_shore_rects:
  "rect_of (demo_hut i 0 0) = \<lparr>rc_x0 = 0, rc_y0 = 0, rc_w = 1, rc_h = 1\<rparr>"
  "rect_of (demo_hut i 0 4) = \<lparr>rc_x0 = 0, rc_y0 = 4, rc_w = 1, rc_h = 1\<rparr>"
  "rect_of (demo_theater i (- 2) 1) = \<lparr>rc_x0 = - 2, rc_y0 = 1, rc_w = 3, rc_h = 2\<rparr>"
  by (simp_all add: rect_of_def demo_hut_rect demo_hut_cells demo_theater_simps i32_max_def)

lemma demo_shore_grid: "\<exists>g. grid_build demo_shore = Some g"
proof -
  have "grid_build demo_shore \<noteq> None"
    unfolding grid_build_None demo_shore_def
    by (simp add: demo_hut_rect demo_hut_cells demo_theater_simps i32_max_def i32_min_def GRID_MARGIN_def MAX_GRID_CELLS_def)
  then show ?thesis by blast
qed

lemma demo_shore_extent: "map_extent demo_shore = Some (f64_of (- 2), f64_of 0, f64_of 1, f64_of 5)"
  by (simp add: map_extent_def demo_shore_def demo_hut_def demo_theater_def building_footprint_def footprint_table_def
      tier_level_def F64_MAX_def F64_MIN_def f64_of_def f64_min_def f64_max_def)

lemma demo_shore_sea: "in_sea (build_terrain demo_shore roads) t \<longleftrightarrow> 0 \<le> gy t \<and> gy t < 5 \<and> 1 \<le> gx t"
  by (simp add: in_sea_def build_terrain_def demo_shore_extent Let_def f64_of_def as_i32_def clamp_i32_def i32_min_def i32_max_def)

lemma demo_shore_occupied:
  assumes "grid_build demo_shore = Some g"
  shows "is_occupied g (Tile x y) \<longleftrightarrow> x = 0 \<and> (y = 0 \<or> y = 4) \<or> - 2 \<le> x \<and> x \<le> 0 \<and> 1 \<le> y \<and> y \<le> 2"
proof -
  have "is_occupied g (Tile x y) \<longleftrightarrow> (\<exists>b \<in> set demo_shore. rect_contains (rect_of b) (Tile x y))"
    using grid_build_spec [OF assms] by blast
  also have "\<dots> \<longleftrightarrow> x = 0 \<and> (y = 0 \<or> y = 4) \<or> - 2 \<le> x \<and> x \<le> 0 \<and> 1 \<le> y \<and> y \<le> 2"
    by (auto simp: demo_shore_def demo_shore_rects rect_contains_def)
  finally show ?thesis .
qed

lemma window_card: "card {n. in_window (Tile 0 0) (Tile 0 4) n} \<le> 221"
proof -
  have "{n. in_window (Tile 0 0) (Tile 0 4) n} \<subseteq> case_prod Tile ` ({- 6..6} \<times> {- 6..10})"
  proof
    fix n assume "n \<in> {n. in_window (Tile 0 0) (Tile 0 4) n}"
    then have "(gx n, gy n) \<in> {- 6..6} \<times> {- 6..10}" by (simp add: in_window_def SEARCH_MARGIN_def)
    then show "n \<in> case_prod Tile ` ({- 6..6} \<times> {- 6..10})" by (rule rev_image_eqI) simp
  qed
  then have "card {n. in_window (Tile 0 0) (Tile 0 4) n} \<le> card (case_prod Tile ` ({- 6..6 :: int} \<times> {- 6..10 :: int}))"
    by (intro card_mono) simp_all
  also have "\<dots> \<le> card ({- 6..6 :: int} \<times> {- 6..10 :: int})" by (rule card_image_le) simp
  finally show ?thesis by simp
qed

text \<open>The cheapest street between the huts goes round the theater on the side of the sea.\<close>

lemma demo_shore_street:
  assumes g: "grid_build demo_shore = Some g"
  obtains ps c where
    "grid_astar g (Tile 0 0) (Tile 0 4) (rect_of (demo_hut 0 0 0)) (rect_of (demo_hut 1 0 4)) {} = Some (Some ps)"
    "street g (Tile 0 0) (Tile 0 4) (rect_of (demo_hut 0 0 0)) (rect_of (demo_hut 1 0 4)) ps"
    "c \<in> set ps" "gy c = 2" "1 \<le> gx c"
proof -
  let ?street = "street g (Tile 0 0) (Tile 0 4) (rect_of (demo_hut 0 0 0)) (rect_of (demo_hut 1 0 4))"
  let ?qs = "[Tile 0 0, Tile 1 0, Tile 1 1, Tile 1 2, Tile 1 3, Tile 1 4, Tile 0 4]"
  have q: "?street ?qs" unfolding street_def
    by (simp add: manhattan_def in_window_def SEARCH_MARGIN_def cell_walkable_def demo_shore_occupied [OF g] demo_shore_rects rect_contains_def)
  have "manhattan (Tile 0 0) (Tile 0 4) \<le> 80000000" by (simp add: manhattan_def)
  from grid_astar_answers [OF this, of g "rect_of (demo_hut 0 0 0)" "rect_of (demo_hut 1 0 4)" "{}"] q window_card obtain ps where
    astar: "grid_astar g (Tile 0 0) (Tile 0 4) (rect_of (demo_hut 0 0 0)) (rect_of (demo_hut 1 0 4)) {} = Some (Some ps)"
    and p: "?street ps" and cheap: "street_cost {} ps \<le> street_cost {} ?qs"
    by (auto simp: MAX_EXPANSIONS_def split: option.splits)
  have cost: "street_cost {} xs = 100 * (length xs - 1)" for xs
  proof -
    have "street_step {} = (\<lambda>_. 100)" by (simp add: fun_eq_iff street_step_def STEP_COST_def)
    then show ?thesis by (simp add: street_cost_def sum_list_triv)
  qed
  have ends: "ps \<noteq> []" "hd ps = Tile 0 0" "last ps = Tile 0 4" and adj: "successively (\<lambda>a b. manhattan a b = 1) ps"
    using p by (auto simp: street_def elim: successively_mono)
  then obtain c where c: "c \<in> set ps" "gy c = 2" using path_row [of ps 2] by auto
  have "manhattan (Tile 0 0) c + manhattan c (Tile 0 4) < 8"
    using path_via [OF adj c(1)] cheap unfolding ends cost by simp
  then have "int (manhattan (Tile 0 0) c) + int (manhattan c (Tile 0 4)) < 8" by simp
  then have "- 3 < gx c" using c(2) by (simp add: manhattan_int)
  moreover have "cell_walkable g (rect_of (demo_hut 0 0 0)) (rect_of (demo_hut 1 0 4)) c"
    using p c ends successively_head [of "\<lambda>a b. manhattan a b = 1"
        "\<lambda>b. in_window (Tile 0 0) (Tile 0 4) b \<and> cell_walkable g (rect_of (demo_hut 0 0 0)) (rect_of (demo_hut 1 0 4)) b" ps c]
    by (auto simp: street_def)
  ultimately have "1 \<le> gx c"
    using c(2) by (cases c) (auto simp: cell_walkable_def demo_shore_occupied [OF g] demo_shore_rects rect_contains_def)
  with astar p c show ?thesis by (rule that)
qed

text \<open>The routing does not keep streets out of the sea: on a map of three buildings a routed street leaves the
  land, and the check of the routed roads, said to hold by construction, fails on the generated terrain.\<close>

theorem street_into_the_sea:
  "\<exists>road stats t. route_roads demo_shore [demo_shore_road] = Some ([road], stats) \<and> rs_routed stats = 1 \<and>
     t \<in> road_path_tiles [road] \<and>
     terrain_at (nav_new demo_shore [road] (build_terrain demo_shore [road])) t = Sea \<and>
     road_paths_all_walkable demo_shore [road] (build_terrain demo_shore [road]) \<noteq> Inr ()"
proof -
  obtain g where g: "grid_build demo_shore = Some g" using demo_shore_grid by blast
  obtain ps c where astar: "grid_astar g (Tile 0 0) (Tile 0 4) (rect_of (demo_hut 0 0 0)) (rect_of (demo_hut 1 0 4)) {} = Some (Some ps)"
    and street: "street g (Tile 0 0) (Tile 0 4) (rect_of (demo_hut 0 0 0)) (rect_of (demo_hut 1 0 4)) ps"
    and c: "c \<in> set ps" "gy c = 2" "1 \<le> gx c"
    using demo_shore_street [OF g] by blast
  let ?road = "demo_shore_road\<lparr>rd_path := Some (map to_coords (simplify ps))\<rparr>"
  have ids: "rects_by_id demo_shore [0] = Some (rect_of (demo_hut 0 0 0))" "rects_by_id demo_shore [1] = Some (rect_of (demo_hut 1 0 4))"
    by (simp_all add: rects_by_id_def demo_shore_def, simp_all add: demo_hut_def demo_theater_def)
  have routed: "\<exists>stats. route_roads demo_shore [demo_shore_road] = Some ([?road], stats) \<and> rs_routed stats = 1"
    using g astar ids by (simp add: route_roads_def road_order_def route_one_def demo_shore_road_def demo_shore_rects Let_def)
  have anchors: "tile_of (bd_coords (demo_hut 0 0 0)) = Tile 0 0" "tile_of (bd_coords (demo_hut 1 0 4)) = Tile 0 4"
    by (simp_all add: demo_hut_rect i32_max_def)
  have "routed_along demo_shore ?road ps"
    using street anchors
    by (intro street_routed [OF g, of "demo_hut 0 0 0" "demo_hut 1 0 4"])
      (simp_all add: demo_shore_def demo_shore_road_def, simp_all add: demo_hut_def)
  moreover have "roomy demo_shore"
    by (simp add: roomy_def demo_shore_def demo_hut_rect demo_theater_simps i32_max_def SEARCH_MARGIN_def)
  ultimately have tiles: "road_path_tiles [?road] = set ps" using routed_tiles routed_in_i32 by blast
  let ?T = "build_terrain demo_shore [?road]"
  have sea: "in_sea ?T c" using c by (simp add: demo_shore_sea)
  then have "terrain_at (nav_new demo_shore [?road] ?T) c = Sea" by (rule walkable_tile(2))
  moreover have "road_paths_all_walkable demo_shore [?road] ?T \<noteq> Inr ()"
    using sea c(1) tiles by (auto simp: road_check)
  ultimately show ?thesis using routed c(1) tiles by blast
qed

end
