(* ===== verification/PolisLayout.thy ===== *)
theory PolisLayout
  imports PolisTerrain
begin

text \<open>
  The layout of the city, \<open>polis/scanner.rs\<close>: the packing of a district's buildings into rows, the districts
  by feature with the small ones folded into the commons, the placement of the districts along a spiral from a
  seed between their coupled partners, the snap of ports to the east, and the choice between the persisted
  coordinates and a fresh layout. The cosine and sine of \<open>f64\<close> are arguments; the name, colour and asset census
  of a district, which only label it, are left out.
\<close>

section \<open>Packing a district\<close>

definition GAP :: nat where "GAP = 3"
definition DISTRICT_MARGIN :: rat where "DISTRICT_MARGIN = 8"
definition MIN_DISTRICT_BUILDINGS :: nat where "MIN_DISTRICT_BUILDINGS = 3"
definition LAYOUT_ALGO_VERSION :: nat where "LAYOUT_ALGO_VERSION = 3"

text \<open>\<open>(n as f64).sqrt().ceil()\<close>, from \<open>k\<close> upwards.\<close>

function ceil_sqrt_from :: "nat \<Rightarrow> nat \<Rightarrow> nat" where
  "ceil_sqrt_from n k = (if n \<le> k * k then k else ceil_sqrt_from n (Suc k))"
  by pat_completeness auto
termination
proof (relation "measure (\<lambda>(n, k). n - k)")
  fix n k :: nat
  assume "\<not> n \<le> k * k"
  moreover have "k \<le> k * k" by (cases k) auto
  ultimately have "k < n" by linarith
  then show "((n, Suc k), (n, k)) \<in> measure (\<lambda>(n, k). n - k)" by simp
qed simp

declare ceil_sqrt_from.simps [simp del]

definition district_row_width_budget :: "(nat \<times> nat) list \<Rightarrow> nat" where
  "district_row_width_budget cells =
     (let total_area = sum_list (map (\<lambda>(w, h). w * h) cells);
          widest = (if cells = [] then 1 else fold max (map fst cells) 0)
      in max (max (ceil_sqrt_from total_area 0) widest) 1)"

definition reserved_cell :: "rstr \<Rightarrow> rstr \<Rightarrow> nat \<times> nat" where
  "reserved_cell purpose tier = (case building_footprint purpose tier of (fw, fd) \<Rightarrow> (nat fw + GAP, nat fd + GAP))"

record placement =
  pl_bi :: nat
  pl_x :: nat
  pl_y :: nat
  pl_w :: nat
  pl_h :: nat

record packing =
  pk_placements :: "placement list"
  pk_cursor_x :: nat
  pk_cursor_y :: nat
  pk_row_h :: nat
  pk_packed_w :: nat

definition pack_wrap :: "nat \<Rightarrow> nat \<Rightarrow> packing \<Rightarrow> packing" where
  "pack_wrap row_budget w st =
     (if pk_cursor_x st > 0 \<and> pk_cursor_x st + w > row_budget
      then st\<lparr>pk_cursor_y := pk_cursor_y st + pk_row_h st, pk_cursor_x := 0, pk_row_h := 0\<rparr>
      else st)"

definition pack_put :: "nat \<Rightarrow> nat \<Rightarrow> nat \<Rightarrow> packing \<Rightarrow> packing" where
  "pack_put bi w h st =
     \<lparr>pk_placements = pk_placements st @ [\<lparr>pl_bi = bi, pl_x = pk_cursor_x st, pl_y = pk_cursor_y st, pl_w = w, pl_h = h\<rparr>],
      pk_cursor_x = pk_cursor_x st + w, pk_cursor_y = pk_cursor_y st, pk_row_h = max (pk_row_h st) h,
      pk_packed_w = max (pk_packed_w st) (pk_cursor_x st + w)\<rparr>"

definition pack_step :: "nat \<Rightarrow> nat \<times> nat \<times> nat \<Rightarrow> packing \<Rightarrow> packing" where
  "pack_step row_budget item st = (case item of (bi, w, h) \<Rightarrow> pack_put bi w h (pack_wrap row_budget w st))"

definition pack_items :: "building list \<Rightarrow> nat list \<Rightarrow> (nat \<times> nat \<times> nat) list" where
  "pack_items buildings indices =
     sort_key (\<lambda>(bi, w, h). (- int (w * h), bd_file_id (buildings ! bi)))
       (map (\<lambda>bi. (bi, reserved_cell (bd_purpose (buildings ! bi)) (bd_visual_tier (buildings ! bi)))) indices)"

definition pack_start :: packing where
  "pack_start = \<lparr>pk_placements = [], pk_cursor_x = 0, pk_cursor_y = 0, pk_row_h = 0, pk_packed_w = 0\<rparr>"

definition pack_district :: "building list \<Rightarrow> nat list \<Rightarrow> placement list \<times> nat \<times> nat" where
  "pack_district buildings indices =
     (let items = pack_items buildings indices;
          row_budget = district_row_width_budget (map snd items);
          st = fold (pack_step row_budget) items pack_start
      in (pk_placements st, max (pk_packed_w st) 1, max (pk_cursor_y st + pk_row_h st) 1))"

definition cells_overlap :: "f64 \<times> f64 \<times> nat \<times> nat \<Rightarrow> f64 \<times> f64 \<times> nat \<times> nat \<Rightarrow> bool" where
  "cells_overlap a b = (case (a, b) of ((ax, ay, aw, ah), (bx, by, bw, bh)) \<Rightarrow>
     f64_lt ax (f64_add_int bx (int bw)) \<and> f64_lt bx (f64_add_int ax (int aw)) \<and>
     f64_lt ay (f64_add_int by (int bh)) \<and> f64_lt by (f64_add_int ay (int ah)))"

definition footprint_box :: "nat \<times> coords \<times> nat \<times> nat \<Rightarrow> f64 \<times> f64 \<times> nat \<times> nat" where
  "footprint_box e = (case e of (_, c, w, h) \<Rightarrow> (co_x c, co_y c, w, h))"

fun any_footprint_overlap :: "(nat \<times> coords \<times> nat \<times> nat) list \<Rightarrow> bool" where
  "any_footprint_overlap [] \<longleftrightarrow> False"
| "any_footprint_overlap (e # es) \<longleftrightarrow>
     list_ex (\<lambda>f. cells_overlap (footprint_box e) (footprint_box f)) es \<or> any_footprint_overlap es"

section \<open>The east edge for ports\<close>

definition eastmost_step :: "placement list \<Rightarrow> nat \<Rightarrow> nat set \<Rightarrow> nat \<Rightarrow> nat option \<times> nat \<times> nat \<times> nat \<Rightarrow> nat option \<times> nat \<times> nat \<times> nat" where
  "eastmost_step ps port used i best = (case best of (best_pi, best_east, best_y, best_x) \<Rightarrow>
     let p = ps ! i; east = pl_x p + pl_w p in
     if i = port \<or> i \<in> used then best
     else if pl_w p \<noteq> pl_w (ps ! port) \<or> pl_h p \<noteq> pl_h (ps ! port) then best
     else if east > best_east \<or> (east = best_east \<and> pl_y p < best_y) \<or> (east = best_east \<and> pl_y p = best_y \<and> pl_x p < best_x)
     then (Some i, east, pl_y p, pl_x p)
     else best)"

definition eastmost :: "placement list \<Rightarrow> nat \<Rightarrow> nat set \<Rightarrow> nat option" where
  "eastmost ps port used = fst (fold (eastmost_step ps port used) [0..<length ps] (None, 0, u32_max, u32_max))"

definition swap_origins :: "nat \<Rightarrow> nat \<Rightarrow> placement list \<Rightarrow> placement list" where
  "swap_origins i j ps =
     (let a = ps ! i; b = ps ! j in
      ps[i := a\<lparr>pl_x := pl_x b, pl_y := pl_y b\<rparr>, j := b\<lparr>pl_x := pl_x a, pl_y := pl_y a\<rparr>])"

definition snap_port :: "nat \<Rightarrow> placement list \<times> nat set \<Rightarrow> placement list \<times> nat set" where
  "snap_port port st = (case st of (ps, used) \<Rightarrow>
     case eastmost ps port used of
       None \<Rightarrow> st
     | Some target \<Rightarrow>
         if pl_x (ps ! target) + pl_w (ps ! target) > pl_x (ps ! port) + pl_w (ps ! port)
         then (swap_origins port target ps, insert target used)
         else st)"

definition snap_ports :: "building list \<Rightarrow> placement list \<Rightarrow> placement list" where
  "snap_ports buildings ps =
     (let is_port = (\<lambda>i. bd_purpose (buildings ! pl_bi (ps ! i)) \<in> {lit ''harbor'', lit ''lighthouse''});
          ports = sort_key (\<lambda>i. bd_file_id (buildings ! pl_bi (ps ! i))) (filter is_port [0..<length ps])
      in fst (fold snap_port ports (ps, {})))"

section \<open>Placing a district\<close>

type_synonym box = "rat \<times> rat \<times> rat \<times> rat"

definition district_boxes_overlap :: "box \<Rightarrow> box \<Rightarrow> bool" where
  "district_boxes_overlap a b = (case (a, b) of ((ax, ay, aw, ah), (bx, by, bw, bh)) \<Rightarrow>
     let m = DISTRICT_MARGIN; ax = ax - m; ay = ay - m; aw = aw + 2 * m; ah = ah + 2 * m in
     ax < bx + bw \<and> bx < ax + aw \<and> ay < by + bh \<and> by < ay + ah)"

definition golden :: rat where "golden = 2399963229728653 / 10 ^ 15"

definition max_k :: nat where "max_k = 100000"

definition spiral :: "(rat \<Rightarrow> rat) \<Rightarrow> (rat \<Rightarrow> rat) \<Rightarrow> nat \<Rightarrow> rat \<Rightarrow> rat \<Rightarrow> rat \<Rightarrow> rat \<Rightarrow> rat \<Rightarrow> nat \<Rightarrow> rat \<times> rat" where
  "spiral cosf sinf disc_index seed_cx seed_cy dw dh step k =
     (let r = step * of_nat k; angle = of_nat disc_index * golden + golden * of_nat k;
          cx = seed_cx + r * cosf angle; cy = seed_cy + r * sinf angle
      in (cx - dw / 2, cy - dh / 2))"

text \<open>The first free probe from the \<open>k\<close>-th on, if there is one up to \<open>max_k\<close>.\<close>

function first_free :: "(nat \<Rightarrow> rat \<times> rat) \<Rightarrow> (rat \<times> rat \<Rightarrow> bool) \<Rightarrow> nat \<Rightarrow> (rat \<times> rat) option" where
  "first_free pos free k = (if free (pos k) then Some (pos k) else if Suc k > max_k then None else first_free pos free (Suc k))"
  by pat_completeness auto
termination by (relation "measure (\<lambda>(pos, free, k). max_k - k)") auto

declare first_free.simps [simp del]

text \<open>The two phases, with the compact and the coarse step; where both fail, the last coarse probe is taken as it is.\<close>

definition coarse_step :: "rat \<Rightarrow> rat \<Rightarrow> rat" where
  "coarse_step dw dh = max (max dw dh + DISTRICT_MARGIN) 1"

definition find_district_box ::
    "(rat \<Rightarrow> rat) \<Rightarrow> (rat \<Rightarrow> rat) \<Rightarrow> nat \<Rightarrow> rat \<Rightarrow> rat \<Rightarrow> rat \<Rightarrow> rat \<Rightarrow> rat \<Rightarrow> box list \<Rightarrow> (rat \<times> rat) option" where
  "find_district_box cosf sinf disc_index seed_cx seed_cy dw dh step placed =
     (let free = (\<lambda>(x, y). list_all (\<lambda>b. \<not> district_boxes_overlap b (x, y, dw, dh)) placed);
          probe = spiral cosf sinf disc_index seed_cx seed_cy dw dh
      in case first_free (probe step) free 0 of
           Some origin \<Rightarrow> Some origin
         | None \<Rightarrow> first_free (probe (coarse_step dw dh)) free 0)"

definition place_district_box ::
    "(rat \<Rightarrow> rat) \<Rightarrow> (rat \<Rightarrow> rat) \<Rightarrow> nat \<Rightarrow> rat \<Rightarrow> rat \<Rightarrow> rat \<Rightarrow> rat \<Rightarrow> rat \<Rightarrow> box list \<Rightarrow> rat \<times> rat" where
  "place_district_box cosf sinf disc_index seed_cx seed_cy dw dh step placed =
     (case find_district_box cosf sinf disc_index seed_cx seed_cy dw dh step placed of
        Some origin \<Rightarrow> origin
      | None \<Rightarrow> spiral cosf sinf disc_index seed_cx seed_cy dw dh (coarse_step dw dh) max_k)"

section \<open>Districts by feature\<close>

datatype feature_kind = Domain | Commons | External

record feature =
  ft_id :: rstr
  ft_kind :: feature_kind

definition COMMONS_FEATURE_ID :: rstr where "COMMONS_FEATURE_ID = lit ''commons''"

definition feature_district_type :: "feature_kind \<Rightarrow> rstr" where
  "feature_district_type kind = (case kind of Commons \<Rightarrow> lit ''commons'' | Domain \<Rightarrow> lit ''feature'' | External \<Rightarrow> lit ''external'')"

definition feature_wall_style :: "feature_kind \<Rightarrow> rstr" where
  "feature_wall_style kind = (case kind of Commons \<Rightarrow> lit ''aqueduct'' | Domain \<Rightarrow> lit ''roman_wall'' | External \<Rightarrow> lit ''palisade'')"

text \<open>The later of two features with one id counts.\<close>

definition feature_by_id :: "feature list \<Rightarrow> rstr \<Rightarrow> feature option" where
  "feature_by_id features = map_of (rev (map (\<lambda>f. (ft_id f, f)) features))"

definition kind_of :: "feature list \<Rightarrow> rstr \<Rightarrow> feature_kind" where
  "kind_of features i =
     (if i = COMMONS_FEATURE_ID then Commons
      else case feature_by_id features i of Some f \<Rightarrow> ft_kind f | None \<Rightarrow> Domain)"

definition count_by_feature :: "building list \<Rightarrow> rstr \<Rightarrow> nat" where
  "count_by_feature buildings i = length (filter (\<lambda>b. bd_feature_id b = i) buildings)"

definition needs_commons :: "building list \<Rightarrow> feature list \<Rightarrow> bool" where
  "needs_commons buildings features \<longleftrightarrow>
     feature_by_id features COMMONS_FEATURE_ID \<noteq> None \<or>
     list_ex (\<lambda>i. i = [] \<or> (kind_of features i \<noteq> Commons \<and> count_by_feature buildings i < MIN_DISTRICT_BUILDINGS))
       (map bd_feature_id buildings)"

definition target_district :: "building list \<Rightarrow> feature list \<Rightarrow> rstr \<Rightarrow> rstr" where
  "target_district buildings features i =
     (if i = [] then COMMONS_FEATURE_ID
      else if kind_of features i = Commons then COMMONS_FEATURE_ID
      else if count_by_feature buildings i < MIN_DISTRICT_BUILDINGS then COMMONS_FEATURE_ID
      else i)"

definition district_of :: "building list \<Rightarrow> feature list \<Rightarrow> nat \<Rightarrow> rstr" where
  "district_of buildings features bi = target_district buildings features (bd_feature_id (buildings ! bi))"

definition district_members :: "building list \<Rightarrow> feature list \<Rightarrow> rstr \<Rightarrow> nat list" where
  "district_members buildings features d = filter (\<lambda>bi. district_of buildings features bi = d) [0..<length buildings]"

definition district_keys :: "building list \<Rightarrow> feature list \<Rightarrow> rstr list" where
  "district_keys buildings features =
     sort (remdups (map (district_of buildings features) [0..<length buildings] @
       (if needs_commons buildings features then [COMMONS_FEATURE_ID] else [])))"

text \<open>The coupling of two districts is the weight of the import roads between them.\<close>

definition district_by_file_id :: "building list \<Rightarrow> feature list \<Rightarrow> rstr \<Rightarrow> rstr option" where
  "district_by_file_id buildings features =
     fold (\<lambda>d m. fold (\<lambda>bi m. m(bd_file_id (buildings ! bi) \<mapsto> d)) (district_members buildings features d) m)
       (district_keys buildings features) Map.empty"

definition coupling_edges :: "building list \<Rightarrow> feature list \<Rightarrow> road list \<Rightarrow> ((rstr \<times> rstr) \<times> nat) list" where
  "coupling_edges buildings features roads =
     (let district = district_by_file_id buildings features in
      concat (map (\<lambda>r.
        if rd_road_type r \<noteq> lit ''import'' then []
        else case (district (rd_from r), district (rd_to r)) of
          (Some a, Some b) \<Rightarrow> if a = b then [] else [(if a \<le> b then (a, b) else (b, a), rd_weight r)]
        | _ \<Rightarrow> []) roads))"

definition coupling :: "((rstr \<times> rstr) \<times> nat) list \<Rightarrow> rstr \<times> rstr \<Rightarrow> nat" where
  "coupling edges key = sum_list (map snd (filter (\<lambda>e. fst e = key) edges))"

definition total_coupling :: "((rstr \<times> rstr) \<times> nat) list \<Rightarrow> rstr \<Rightarrow> nat" where
  "total_coupling edges d = sum_list (map (\<lambda>((a, b), w). (if a = d then w else 0) + (if b = d then w else 0)) edges)"

text \<open>\<open>64 - leading_zeros\<close>, the number of binary digits.\<close>

fun bit_length :: "nat \<Rightarrow> nat" where
  "bit_length n = (if n = 0 then 0 else Suc (bit_length (n div 2)))"

declare bit_length.simps [simp del]

definition district_rank :: "feature list \<Rightarrow> rstr \<Rightarrow> nat" where
  "district_rank features d =
     (if d = COMMONS_FEATURE_ID then 0
      else case kind_of features d of Commons \<Rightarrow> 1 | Domain \<Rightarrow> 1 | External \<Rightarrow> 2)"

definition district_order :: "building list \<Rightarrow> feature list \<Rightarrow> road list \<Rightarrow> rstr list" where
  "district_order buildings features roads =
     (let edges = coupling_edges buildings features roads in
      sort_key (\<lambda>d. (district_rank features d, - int (bit_length (total_coupling edges d)),
          - int (length (district_members buildings features d)), d))
        (district_keys buildings features))"

section \<open>The layout\<close>

record packed_district =
  pd_id :: rstr
  pd_placements :: "placement list"
  pd_w :: nat
  pd_h :: nat

definition packed_of :: "building list \<Rightarrow> feature list \<Rightarrow> rstr \<Rightarrow> packed_district" where
  "packed_of buildings features d =
     (case pack_district buildings (district_members buildings features d) of (ps, w, h) \<Rightarrow>
        \<lparr>pd_id = d, pd_placements = ps, pd_w = w, pd_h = h\<rparr>)"

type_synonym placed = "box list \<times> (rstr \<times> rat \<times> rat) list"

definition district_seed :: "((rstr \<times> rstr) \<times> nat) list \<Rightarrow> rstr \<Rightarrow> (rstr \<times> rat \<times> rat) list \<Rightarrow> rat \<times> rat" where
  "district_seed edges d centres =
     (let weight = (\<lambda>other. of_nat (coupling edges (if d \<le> other then (d, other) else (other, d))) :: rat);
          wsum = sum_list (map (\<lambda>(other, x, y). weight other) centres);
          sx = sum_list (map (\<lambda>(other, x, y). weight other * x) centres);
          sy = sum_list (map (\<lambda>(other, x, y). weight other * y) centres)
      in if wsum > 0 then (sx / wsum, sy / wsum) else (0, 0))"

definition seed_of :: "((rstr \<times> rstr) \<times> nat) list \<Rightarrow> packed_district \<Rightarrow> placed \<Rightarrow> rat \<times> rat" where
  "seed_of edges pd st = (if fst st = [] then (0, 0) else district_seed edges (pd_id pd) (snd st))"

definition place_step ::
    "(rat \<Rightarrow> rat) \<Rightarrow> (rat \<Rightarrow> rat) \<Rightarrow> ((rstr \<times> rstr) \<times> nat) list \<Rightarrow> packed_district \<Rightarrow> placed \<Rightarrow> placed" where
  "place_step cosf sinf edges pd st = (case st of (boxes, centres) \<Rightarrow>
     let idx = length boxes; dw = of_nat (pd_w pd); dh = of_nat (pd_h pd);
         (seed_cx, seed_cy) = seed_of edges pd st;
         (x, y) = place_district_box cosf sinf idx seed_cx seed_cy dw dh (max DISTRICT_MARGIN 4) boxes
     in (boxes @ [(x, y, dw, dh)], centres @ [(pd_id pd, x + dw / 2, y + dh / 2)]))"

record entry =
  en_bi :: nat
  en_di :: nat
  en_packed :: coords
  en_fw :: nat
  en_fd :: nat

definition entries_of :: "building list \<Rightarrow> nat \<Rightarrow> packed_district \<Rightarrow> box \<Rightarrow> entry list" where
  "entries_of buildings di pd box = (case box of (ox, oy, _, _) \<Rightarrow>
     map (\<lambda>p. case building_footprint (bd_purpose (buildings ! pl_bi p)) (bd_visual_tier (buildings ! pl_bi p)) of (fw, fd) \<Rightarrow>
       \<lparr>en_bi = pl_bi p, en_di = di, en_packed = \<lparr>co_x = Fin (ox + of_nat (pl_x p)), co_y = Fin (oy + of_nat (pl_y p))\<rparr>,
        en_fw = nat fw, en_fd = nat fd\<rparr>) (pd_placements pd))"

text \<open>The fresh layout: districts packed and placed, ports snapped, one entry per building.\<close>

definition fresh_layout ::
    "(rat \<Rightarrow> rat) \<Rightarrow> (rat \<Rightarrow> rat) \<Rightarrow> building list \<Rightarrow> feature list \<Rightarrow> road list \<Rightarrow> packed_district list \<times> box list \<times> entry list" where
  "fresh_layout cosf sinf buildings features roads =
     (let edges = coupling_edges buildings features roads;
          packed = map (packed_of buildings features) (district_order buildings features roads);
          boxes = fst (fold (place_step cosf sinf edges) packed ([], []));
          snapped = map (\<lambda>pd. pd\<lparr>pd_placements := snap_ports buildings (pd_placements pd)\<rparr>) packed;
          entries = concat (map (\<lambda>di. entries_of buildings di (snapped ! di) (boxes ! di)) [0..<length snapped])
      in (snapped, boxes, entries))"

record meta_store =
  ms_coords :: "rstr \<Rightarrow> coords option"
  ms_district :: "rstr \<Rightarrow> rstr option"
  ms_layout_version :: nat

record bounds =
  bn_x :: f64
  bn_y :: f64
  bn_w :: f64
  bn_h :: f64

record district =
  di_id :: rstr
  di_type :: rstr
  di_bounds :: bounds
  di_wall_style :: rstr

fun f64_sub :: "f64 \<Rightarrow> f64 \<Rightarrow> f64" where
  "f64_sub (Fin a) (Fin b) = Fin (a - b)"
| "f64_sub NaN b = NaN"
| "f64_sub a NaN = NaN"
| "f64_sub PosInf PosInf = NaN"
| "f64_sub NegInf NegInf = NaN"
| "f64_sub PosInf b = PosInf"
| "f64_sub NegInf b = NegInf"
| "f64_sub a PosInf = NegInf"
| "f64_sub a NegInf = PosInf"

definition district_bounds_from :: "(f64 \<times> f64 \<times> nat \<times> nat) list \<Rightarrow> box \<Rightarrow> bounds" where
  "district_bounds_from accepted box = (case box of (ox, oy, pw, ph) \<Rightarrow>
     if accepted = [] then \<lparr>bn_x = Fin ox, bn_y = Fin oy, bn_w = Fin pw, bn_h = Fin ph\<rparr>
     else
       let min_x = fold (\<lambda>(x, y, w, h) m. f64_min m x) accepted F64_MAX;
           min_y = fold (\<lambda>(x, y, w, h) m. f64_min m y) accepted F64_MAX;
           max_x = fold (\<lambda>(x, y, w, h) m. f64_max m (f64_add_int x (int w))) accepted F64_MIN;
           max_y = fold (\<lambda>(x, y, w, h) m. f64_max m (f64_add_int y (int h))) accepted F64_MIN;
           pad = int GAP
       in \<lparr>bn_x = f64_add_int min_x (- pad), bn_y = f64_add_int min_y (- pad),
           bn_w = f64_add_int (f64_sub max_x min_x) (2 * pad), bn_h = f64_add_int (f64_sub max_y min_y) (2 * pad)\<rparr>)"

text \<open>Persisted coordinates are reused for the whole city or not at all.\<close>

definition persisted_coords :: "building list \<Rightarrow> meta_store \<Rightarrow> entry \<Rightarrow> coords option" where
  "persisted_coords buildings meta e = ms_coords meta (bd_file_path (buildings ! en_bi e))"

definition use_persisted :: "building list \<Rightarrow> meta_store \<Rightarrow> packed_district list \<Rightarrow> entry list \<Rightarrow> bool" where
  "use_persisted buildings meta packed entries \<longleftrightarrow>
     list_all (\<lambda>e. persisted_coords buildings meta e \<noteq> None) entries \<and>
     \<not> any_footprint_overlap (map (\<lambda>e. (en_bi e, the (persisted_coords buildings meta e), en_fw e, en_fd e)) entries) \<and>
     list_all (\<lambda>e. ms_district meta (bd_file_path (buildings ! en_bi e)) = Some (pd_id (packed ! en_di e))) entries \<and>
     ms_layout_version meta = LAYOUT_ALGO_VERSION"

definition final_coords :: "building list \<Rightarrow> meta_store \<Rightarrow> packed_district list \<Rightarrow> entry list \<Rightarrow> entry \<Rightarrow> coords" where
  "final_coords buildings meta packed entries e =
     (if use_persisted buildings meta packed entries
      then (case persisted_coords buildings meta e of Some c \<Rightarrow> c | None \<Rightarrow> en_packed e)
      else en_packed e)"

definition settle :: "packed_district list \<Rightarrow> (entry \<Rightarrow> coords) \<Rightarrow> entry \<Rightarrow> building list \<times> meta_store \<Rightarrow> building list \<times> meta_store" where
  "settle packed coords_of e st = (case st of (buildings, meta) \<Rightarrow>
     let b = buildings ! en_bi e; d = pd_id (packed ! en_di e); c = coords_of e in
     (buildings[en_bi e := b\<lparr>bd_coords := c, bd_district_id := d\<rparr>],
      meta\<lparr>ms_coords := (ms_coords meta)(bd_file_path b \<mapsto> c), ms_district := (ms_district meta)(bd_file_path b \<mapsto> d)\<rparr>))"

definition layout ::
    "(rat \<Rightarrow> rat) \<Rightarrow> (rat \<Rightarrow> rat) \<Rightarrow> building list \<Rightarrow> meta_store \<Rightarrow> feature list \<Rightarrow> road list \<Rightarrow> building list \<times> meta_store \<times> district list" where
  "layout cosf sinf buildings meta features roads = (case fresh_layout cosf sinf buildings features roads of (packed, boxes, entries) \<Rightarrow>
     let coords_of = final_coords buildings meta packed entries;
         (buildings', meta') = fold (settle packed coords_of) entries (buildings, meta);
         districts = map (\<lambda>di.
           let pd = packed ! di; kind = kind_of features (pd_id pd);
               accepted = map (\<lambda>e. (co_x (coords_of e), co_y (coords_of e), en_fw e, en_fd e)) (filter (\<lambda>e. en_di e = di) entries)
           in \<lparr>di_id = pd_id pd, di_type = feature_district_type kind,
               di_bounds = district_bounds_from accepted (boxes ! di), di_wall_style = feature_wall_style kind\<rparr>) [0..<length packed]
     in (buildings', meta'\<lparr>ms_layout_version := LAYOUT_ALGO_VERSION\<rparr>, districts))"

end
