(* ===== verification/PolisCity.thy ===== *)
theory PolisCity
  imports PolisLayout "HOL-Library.Multiset"
begin

text \<open>
  The laws of the layout, \<open>polis/scanner.rs\<close>: a district's cells are packed without overlap, the snap of the
  ports keeps the cells, districts keep their margin, and so no two buildings overlap; every building has a
  district that is on the map; and a second layout of the same city moves nothing.
\<close>

section \<open>Lists without conflicts\<close>

text \<open>A symmetric relation between all elements of a list does not depend on their order.\<close>

lemma sorted_wrt_mset:
  assumes sym: "\<And>x y. R x y \<Longrightarrow> R y x"
  shows "sorted_wrt R xs \<longleftrightarrow> (\<forall>x \<in># mset xs. \<forall>y \<in># mset xs - {#x#}. R x y)"
proof (induction xs)
  case (Cons a xs)
  have "(\<forall>x \<in># mset (a # xs). \<forall>y \<in># mset (a # xs) - {#x#}. R x y) \<longleftrightarrow>
      (\<forall>y \<in> set xs. R a y) \<and> (\<forall>x \<in> set xs. R x a \<and> (\<forall>y \<in># mset xs - {#x#}. R x y))"
    (is "?all \<longleftrightarrow> ?split")
  proof
    assume all: ?all
    have "R x a \<and> (\<forall>y \<in># mset xs - {#x#}. R x y)" if x: "x \<in> set xs" for x
    proof -
      have "mset (a # xs) - {#x#} = add_mset a (mset xs - {#x#})" using x by simp
      with all x show ?thesis by (metis insert_iff list.set(2) set_mset_add_mset_insert set_mset_mset)
    qed
    moreover have "\<forall>y \<in> set xs. R a y" using all by simp
    ultimately show ?split by blast
  next
    assume split: ?split
    show ?all
    proof (intro ballI)
      fix x y assume xy: "x \<in># mset (a # xs)" "y \<in># mset (a # xs) - {#x#}"
      show "R x y"
      proof (cases "x \<in> set xs")
        case True
        then have "y \<in># add_mset a (mset xs - {#x#})" using xy(2) by simp
        with split True show ?thesis by auto
      next
        case False
        then have "x = a" "y \<in> set xs" using xy by auto
        with split show ?thesis by blast
      qed
    qed
  qed
  also have "\<dots> \<longleftrightarrow> (\<forall>y \<in> set xs. R a y) \<and> sorted_wrt R xs" using Cons.IH sym by auto
  finally show ?case by simp
qed simp

lemma sorted_wrt_perm: "(\<And>x y. R x y \<Longrightarrow> R y x) \<Longrightarrow> mset xs = mset ys \<Longrightarrow> sorted_wrt R xs = sorted_wrt R ys"
  by (simp only: sorted_wrt_mset)

lemma sorted_wrt_concat:
  assumes "\<forall>i < length xss. sorted_wrt R (xss ! i)"
    and "\<forall>i j. i < j \<longrightarrow> j < length xss \<longrightarrow> (\<forall>x \<in> set (xss ! i). \<forall>y \<in> set (xss ! j). R x y)"
  shows "sorted_wrt R (concat xss)"
  using assms
proof (induction xss)
  case (Cons xs xss)
  have "sorted_wrt R xs" using Cons.prems(1) by force
  moreover have "sorted_wrt R (concat xss)"
  proof (rule Cons.IH)
    show "\<forall>i < length xss. sorted_wrt R (xss ! i)" using Cons.prems(1) by force
    show "\<forall>i j. i < j \<longrightarrow> j < length xss \<longrightarrow> (\<forall>x \<in> set (xss ! i). \<forall>y \<in> set (xss ! j). R x y)"
    proof (intro allI impI)
      fix i j assume "i < j" "j < length xss"
      then have "Suc i < Suc j" "Suc j < length (xs # xss)" by simp_all
      with Cons.prems(2) show "\<forall>x \<in> set (xss ! i). \<forall>y \<in> set (xss ! j). R x y" by (metis nth_Cons_Suc)
    qed
  qed
  moreover have "R x y" if "x \<in> set xs" "y \<in> set (concat xss)" for x y
  proof -
    from that(2) obtain zs where "zs \<in> set xss" "y \<in> set zs" by auto
    then obtain j where j: "j < length xss" "y \<in> set (xss ! j)" by (metis in_set_conv_nth)
    then have "0 < Suc j" "Suc j < length (xs # xss)" by simp_all
    with Cons.prems(2) have "\<forall>x \<in> set ((xs # xss) ! 0). \<forall>y \<in> set ((xs # xss) ! Suc j). R x y" by blast
    with that(1) j(2) show ?thesis by simp
  qed
  ultimately show ?case by (auto simp: sorted_wrt_append)
qed simp

lemma distinct_sorted_wrt: "distinct xs \<longleftrightarrow> sorted_wrt (\<noteq>) xs"
  by (induction xs) auto

section \<open>Packing\<close>

text \<open>Two cells of a district that share no tile.\<close>

definition cells_apart :: "placement \<Rightarrow> placement \<Rightarrow> bool" where
  "cells_apart p q \<longleftrightarrow> pl_x p + pl_w p \<le> pl_x q \<or> pl_x q + pl_w q \<le> pl_x p \<or> pl_y p + pl_h p \<le> pl_y q \<or> pl_y q + pl_h q \<le> pl_y p"

definition item_of :: "placement \<Rightarrow> nat \<times> nat \<times> nat" where
  "item_of p = (pl_bi p, pl_w p, pl_h p)"

definition pack_inv :: "(nat \<times> nat \<times> nat) list \<Rightarrow> packing \<Rightarrow> bool" where
  "pack_inv items st \<longleftrightarrow> map item_of (pk_placements st) = items \<and> sorted_wrt cells_apart (pk_placements st) \<and>
     pk_cursor_x st \<le> pk_packed_w st \<and>
     (\<forall>p \<in> set (pk_placements st). pl_x p + pl_w p \<le> pk_packed_w st \<and>
        (pl_y p + pl_h p \<le> pk_cursor_y st \<or>
         pl_y p = pk_cursor_y st \<and> pl_h p \<le> pk_row_h st \<and> pl_x p + pl_w p \<le> pk_cursor_x st))"

lemma pack_wrap_inv: "pack_inv items st \<Longrightarrow> pack_inv items (pack_wrap budget w st)"
  by (fastforce simp: pack_inv_def pack_wrap_def)

lemma pack_put_inv: "pack_inv items st \<Longrightarrow> pack_inv (items @ [(bi, w, h)]) (pack_put bi w h st)"
  by (fastforce simp: pack_inv_def pack_put_def item_of_def sorted_wrt_append cells_apart_def)

lemma pack_fold_inv: "pack_inv seen st \<Longrightarrow> pack_inv (seen @ items) (fold (pack_step budget) items st)"
proof (induction items arbitrary: seen st)
  case (Cons item items)
  obtain bi w h where item: "item = (bi, w, h)" by (cases item)
  have "pack_inv (seen @ [item]) (pack_step budget item st)"
    using Cons.prems by (simp add: item pack_step_def pack_put_inv pack_wrap_inv)
  from Cons.IH [OF this] show ?case by simp
qed simp

lemma pack_district_cells:
  assumes "pack_district buildings indices = (ps, w, h)"
  shows "map item_of ps = pack_items buildings indices" and "sorted_wrt cells_apart ps"
    and "\<forall>p \<in> set ps. pl_x p + pl_w p \<le> w \<and> pl_y p + pl_h p \<le> h"
proof -
  have start: "pack_inv [] pack_start" by (simp add: pack_inv_def pack_start_def)
  note inv = pack_fold_inv [OF start, of "pack_items buildings indices"
      "district_row_width_budget (map snd (pack_items buildings indices))"]
  show "map item_of ps = pack_items buildings indices" "sorted_wrt cells_apart ps"
    "\<forall>p \<in> set ps. pl_x p + pl_w p \<le> w \<and> pl_y p + pl_h p \<le> h"
    using inv assms by (fastforce simp: pack_inv_def pack_district_def Let_def)+
qed

section \<open>Snapping the ports\<close>

definition cell_at :: "placement \<Rightarrow> nat \<times> nat \<times> nat \<times> nat" where
  "cell_at p = (pl_x p, pl_y p, pl_w p, pl_h p)"

lemma eastmost_Some:
  assumes "eastmost ps port used = Some t"
  shows "t < length ps \<and> t \<noteq> port \<and> pl_w (ps ! t) = pl_w (ps ! port) \<and> pl_h (ps ! t) = pl_h (ps ! port)"
proof -
  define ok where "ok = (\<lambda>t. t < length ps \<and> t \<noteq> port \<and> pl_w (ps ! t) = pl_w (ps ! port) \<and> pl_h (ps ! t) = pl_h (ps ! port))"
  have "(\<forall>t. fst best = Some t \<longrightarrow> ok t) \<Longrightarrow> set is \<subseteq> {..<length ps} \<Longrightarrow>
      \<forall>t. fst (fold (eastmost_step ps port used) is best) = Some t \<longrightarrow> ok t" for "is" best
  proof (induction "is" arbitrary: best)
    case (Cons i "is")
    have "\<forall>t. fst (eastmost_step ps port used i best) = Some t \<longrightarrow> ok t"
      using Cons.prems by (auto simp: eastmost_step_def ok_def Let_def split: prod.splits)
    with Cons show ?case by simp
  qed simp
  moreover have "set [0..<length ps] \<subseteq> {..<length ps}" by auto
  ultimately have "ok t" using assms unfolding eastmost_def by (metis fst_conv option.distinct(1))
  then show ?thesis by (simp add: ok_def)
qed

lemma swap_origins_cells:
  assumes "i < length ps" "j < length ps" "i \<noteq> j" "pl_w (ps ! i) = pl_w (ps ! j)" "pl_h (ps ! i) = pl_h (ps ! j)"
  shows "mset (map cell_at (swap_origins i j ps)) = mset (map cell_at ps)"
    and "map item_of (swap_origins i j ps) = map item_of ps" and "length (swap_origins i j ps) = length ps"
proof -
  have "map cell_at (swap_origins i j ps) = (map cell_at ps)[i := map cell_at ps ! j, j := map cell_at ps ! i]"
    using assms by (simp add: swap_origins_def Let_def map_update cell_at_def)
  then show "mset (map cell_at (swap_origins i j ps)) = mset (map cell_at ps)"
    using mset_swap [of j "map cell_at ps" i] assms by simp
  have "map item_of (swap_origins i j ps) = (map item_of ps)[i := map item_of ps ! i, j := map item_of ps ! j]"
    using assms by (simp add: swap_origins_def Let_def map_update item_of_def)
  then show "map item_of (swap_origins i j ps) = map item_of ps" by simp
qed (simp add: swap_origins_def Let_def)

lemma snap_port_cells:
  assumes "port < length (fst st)"
  shows "mset (map cell_at (fst (snap_port port st))) = mset (map cell_at (fst st)) \<and>
    map item_of (fst (snap_port port st)) = map item_of (fst st) \<and> length (fst (snap_port port st)) = length (fst st)"
proof -
  obtain ps used where st: "st = (ps, used)" by (cases st)
  show ?thesis
  proof (cases "eastmost ps port used")
    case (Some t)
    with eastmost_Some [OF Some] assms swap_origins_cells [of port ps t] show ?thesis
      by (simp add: st snap_port_def)
  qed (simp add: st snap_port_def)
qed

lemma snap_ports_cells:
  "mset (map cell_at (snap_ports buildings ps)) = mset (map cell_at ps)"
  "map item_of (snap_ports buildings ps) = map item_of ps"
proof -
  have fold: "set ports \<subseteq> {..<length (fst st)} \<Longrightarrow>
      mset (map cell_at (fst (fold snap_port ports st))) = mset (map cell_at (fst st)) \<and>
      map item_of (fst (fold snap_port ports st)) = map item_of (fst st)" for ports st
  proof (induction ports arbitrary: st)
    case (Cons port ports)
    with snap_port_cells [of port st] Cons.IH [of "snap_port port st"] show ?case by simp
  qed simp
  show "mset (map cell_at (snap_ports buildings ps)) = mset (map cell_at ps)"
    "map item_of (snap_ports buildings ps) = map item_of ps"
    unfolding snap_ports_def Let_def by (subst fold [THEN conjunct1] fold [THEN conjunct2]; force)+
qed

lemma cells_apart_cell: "cells_apart p q \<longleftrightarrow> (case (cell_at p, cell_at q) of ((x, y, w, h), (x', y', w', h')) \<Rightarrow>
    x + w \<le> x' \<or> x' + w' \<le> x \<or> y + h \<le> y' \<or> y' + h' \<le> y)"
  by (simp add: cells_apart_def cell_at_def)

text \<open>The snap keeps the district packed.\<close>

lemma snap_ports_apart:
  assumes "sorted_wrt cells_apart ps"
  shows "sorted_wrt cells_apart (snap_ports buildings ps)"
proof -
  define R where "R = (\<lambda>(x :: nat, y :: nat, w, h) (x', y', w', h'). x + w \<le> x' \<or> x' + w' \<le> x \<or> y + h \<le> y' \<or> y' + h' \<le> y)"
  have sym: "R a b \<Longrightarrow> R b a" for a b by (auto simp: R_def split: prod.splits)
  have R: "cells_apart = (\<lambda>p q. R (cell_at p) (cell_at q))" by (simp add: fun_eq_iff cells_apart_cell R_def split: prod.splits)
  have "sorted_wrt R (map cell_at (snap_ports buildings ps)) = sorted_wrt R (map cell_at ps)"
    by (rule sorted_wrt_perm [OF sym snap_ports_cells(1)])
  with assms show ?thesis by (simp add: R sorted_wrt_map)
qed

lemma snap_ports_within:
  assumes "\<forall>p \<in> set ps. pl_x p + pl_w p \<le> w \<and> pl_y p + pl_h p \<le> h" and "p \<in> set (snap_ports buildings ps)"
  shows "pl_x p + pl_w p \<le> w \<and> pl_y p + pl_h p \<le> h"
proof -
  have "set (map cell_at (snap_ports buildings ps)) = set (map cell_at ps)"
    using snap_ports_cells(1) by (rule mset_eq_setD)
  with assms(2) have "cell_at p \<in> cell_at ` set ps" by auto
  with assms(1) show ?thesis by (auto simp: cell_at_def)
qed

section \<open>Districts apart\<close>

text \<open>No district falls back to the last probe of both phases.\<close>

definition box_found :: "(rat \<Rightarrow> rat) \<Rightarrow> (rat \<Rightarrow> rat) \<Rightarrow> ((rstr \<times> rstr) \<times> nat) list \<Rightarrow> packed_district \<Rightarrow> placed \<Rightarrow> bool" where
  "box_found cosf sinf edges pd st \<longleftrightarrow>
     find_district_box cosf sinf (length (fst st)) (fst (seed_of edges pd st)) (snd (seed_of edges pd st))
       (of_nat (pd_w pd)) (of_nat (pd_h pd)) (max DISTRICT_MARGIN 4) (fst st) \<noteq> None"

fun boxes_found :: "(rat \<Rightarrow> rat) \<Rightarrow> (rat \<Rightarrow> rat) \<Rightarrow> ((rstr \<times> rstr) \<times> nat) list \<Rightarrow> packed_district list \<Rightarrow> placed \<Rightarrow> bool" where
  "boxes_found cosf sinf edges [] st \<longleftrightarrow> True"
| "boxes_found cosf sinf edges (pd # pds) st \<longleftrightarrow>
     box_found cosf sinf edges pd st \<and> boxes_found cosf sinf edges pds (place_step cosf sinf edges pd st)"

lemma first_free_Some: "first_free pos free k = Some origin \<Longrightarrow> free origin"
proof (induction pos free k rule: first_free.induct)
  case (1 pos free k)
  from "1.prems" show ?case
    by (subst (asm) first_free.simps) (auto split: if_splits intro: "1.IH")
qed

lemma find_district_box_Some:
  assumes "find_district_box cosf sinf i cx cy dw dh step placed = Some (x, y)"
  shows "\<forall>b \<in> set placed. \<not> district_boxes_overlap b (x, y, dw, dh)"
proof -
  let ?free = "\<lambda>(x, y). list_all (\<lambda>b. \<not> district_boxes_overlap b (x, y, dw, dh)) placed"
  obtain k pos where "first_free pos ?free k = Some (x, y)"
    using assms by (auto simp: find_district_box_def Let_def split: option.splits)
  from first_free_Some [OF this] show ?thesis by (simp add: list_all_iff)
qed

definition boxes_clear :: "box \<Rightarrow> box \<Rightarrow> bool" where
  "boxes_clear a b \<longleftrightarrow> \<not> district_boxes_overlap a b"

lemma place_step_box:
  assumes "box_found cosf sinf edges pd st"
  obtains x y where "fst (place_step cosf sinf edges pd st) = fst st @ [(x, y, of_nat (pd_w pd), of_nat (pd_h pd))]"
    and "\<forall>b \<in> set (fst st). boxes_clear b (x, y, of_nat (pd_w pd), of_nat (pd_h pd))"
proof -
  from assms obtain x y where f: "find_district_box cosf sinf (length (fst st)) (fst (seed_of edges pd st)) (snd (seed_of edges pd st))
       (of_nat (pd_w pd)) (of_nat (pd_h pd)) (max DISTRICT_MARGIN 4) (fst st) = Some (x, y)"
    unfolding box_found_def by auto
  show ?thesis
  proof (rule that)
    show "fst (place_step cosf sinf edges pd st) = fst st @ [(x, y, of_nat (pd_w pd), of_nat (pd_h pd))]"
      using f by (simp add: place_step_def place_district_box_def case_prod_unfold Let_def)
    show "\<forall>b \<in> set (fst st). boxes_clear b (x, y, of_nat (pd_w pd), of_nat (pd_h pd))"
      using find_district_box_Some [OF f] by (simp add: boxes_clear_def)
  qed
qed

definition box_size :: "box \<Rightarrow> rat \<times> rat" where "box_size b = snd (snd b)"

lemma place_boxes:
  assumes "boxes_found cosf sinf edges packed st" and "sorted_wrt boxes_clear (fst st)"
  shows "sorted_wrt boxes_clear (fst (fold (place_step cosf sinf edges) packed st)) \<and>
    map box_size (fst (fold (place_step cosf sinf edges) packed st)) =
      map box_size (fst st) @ map (\<lambda>pd. (of_nat (pd_w pd), of_nat (pd_h pd))) packed"
  using assms
proof (induction packed arbitrary: st)
  case (Cons pd packed)
  then have "box_found cosf sinf edges pd st" by simp
  then obtain x y where xy: "fst (place_step cosf sinf edges pd st) = fst st @ [(x, y, of_nat (pd_w pd), of_nat (pd_h pd))]"
    "\<forall>b \<in> set (fst st). boxes_clear b (x, y, of_nat (pd_w pd), of_nat (pd_h pd))"
    by (rule place_step_box)
  then have "sorted_wrt boxes_clear (fst (place_step cosf sinf edges pd st))"
    using Cons.prems(2) by (simp add: sorted_wrt_append)
  from Cons.IH [OF _ this] Cons.prems(1) xy(1) show ?case by (simp add: box_size_def)
qed simp

lemma length_place_boxes: "length (fst (fold (place_step cosf sinf edges) packed st)) = length (fst st) + length packed"
proof (induction packed arbitrary: st)
  case (Cons pd packed)
  have "length (fst (place_step cosf sinf edges pd st)) = Suc (length (fst st))"
    by (simp add: place_step_def case_prod_unfold Let_def)
  with Cons.IH [of "place_step cosf sinf edges pd st"] show ?case by simp
qed simp

section \<open>Entries apart\<close>

text \<open>Footprints at finite coordinates with at least the gap of three tiles between them.\<close>

definition entries_apart :: "entry \<Rightarrow> entry \<Rightarrow> bool" where
  "entries_apart e f \<longleftrightarrow> (\<exists>x y x' y'. en_packed e = \<lparr>co_x = Fin x, co_y = Fin y\<rparr> \<and> en_packed f = \<lparr>co_x = Fin x', co_y = Fin y'\<rparr> \<and>
     (x + of_nat (en_fw e) + 3 \<le> x' \<or> x' + of_nat (en_fw f) + 3 \<le> x \<or>
      y + of_nat (en_fd e) + 3 \<le> y' \<or> y' + of_nat (en_fd f) + 3 \<le> y))"

text \<open>Every placement reserves its building's footprint and the gap.\<close>

definition reserves :: "building list \<Rightarrow> placement \<Rightarrow> bool" where
  "reserves buildings p \<longleftrightarrow> (pl_w p, pl_h p) = reserved_cell (bd_purpose (buildings ! pl_bi p)) (bd_visual_tier (buildings ! pl_bi p))"

definition entry_of :: "building list \<Rightarrow> nat \<Rightarrow> rat \<Rightarrow> rat \<Rightarrow> placement \<Rightarrow> entry" where
  "entry_of buildings di ox oy p = (case building_footprint (bd_purpose (buildings ! pl_bi p)) (bd_visual_tier (buildings ! pl_bi p)) of (fw, fd) \<Rightarrow>
     \<lparr>en_bi = pl_bi p, en_di = di, en_packed = \<lparr>co_x = Fin (ox + of_nat (pl_x p)), co_y = Fin (oy + of_nat (pl_y p))\<rparr>,
      en_fw = nat fw, en_fd = nat fd\<rparr>)"

lemma entries_of_map: "entries_of buildings di pd (ox, oy, s) = map (entry_of buildings di ox oy) (pd_placements pd)"
  by (simp add: entries_of_def entry_of_def case_prod_unfold)

lemma entry_of_simps [simp]:
  "en_bi (entry_of buildings di ox oy p) = pl_bi p" "en_di (entry_of buildings di ox oy p) = di"
  "en_packed (entry_of buildings di ox oy p) = \<lparr>co_x = Fin (ox + of_nat (pl_x p)), co_y = Fin (oy + of_nat (pl_y p))\<rparr>"
  by (simp_all add: entry_of_def case_prod_unfold)

lemma entry_of_size:
  "reserves buildings p \<Longrightarrow> pl_w p = en_fw (entry_of buildings di ox oy p) + 3 \<and> pl_h p = en_fd (entry_of buildings di ox oy p) + 3"
  by (simp add: reserves_def reserved_cell_def entry_of_def case_prod_unfold GAP_def)

lemma same_district_apart:
  assumes "cells_apart p q" "reserves buildings p" "reserves buildings q"
  shows "entries_apart (entry_of buildings di ox oy p) (entry_of buildings di ox oy q)"
proof -
  note p = entry_of_size [OF assms(2), of di ox oy] and q = entry_of_size [OF assms(3), of di ox oy]
  have "(of_nat (a + b) :: rat) \<le> of_nat c \<longleftrightarrow> a + b \<le> c" for a b c by (rule of_nat_le_iff)
  then have le: "(of_nat a + of_nat b :: rat) \<le> of_nat c \<longleftrightarrow> a + b \<le> c" for a b c by simp
  from assms(1) have "of_nat (pl_x p) + of_nat (pl_w p) \<le> (of_nat (pl_x q) :: rat) \<or> of_nat (pl_x q) + of_nat (pl_w q) \<le> (of_nat (pl_x p) :: rat) \<or>
      of_nat (pl_y p) + of_nat (pl_h p) \<le> (of_nat (pl_y q) :: rat) \<or> of_nat (pl_y q) + of_nat (pl_h q) \<le> (of_nat (pl_y p) :: rat)"
    unfolding cells_apart_def le .
  then show ?thesis unfolding entries_apart_def using p q by auto
qed

lemma gap_within: "x + w \<le> n \<Longrightarrow> w = f + 3 \<Longrightarrow> of_nat x + of_nat f + 3 \<le> (of_nat n :: rat)"
proof -
  assume "x + w \<le> n" "w = f + 3"
  then have "x + f + 3 \<le> n" by simp
  then have "(of_nat (x + f + 3) :: rat) \<le> of_nat n" by (rule of_nat_mono)
  then show ?thesis by simp
qed

lemma other_district_apart:
  assumes clear: "boxes_clear a b"
    and size: "snd (snd a) = (of_nat aw, of_nat ah)" "snd (snd b) = (of_nat bw, of_nat bh)"
    and p: "pl_x p + pl_w p \<le> aw" "pl_y p + pl_h p \<le> ah" "reserves buildings p"
    and q: "pl_x q + pl_w q \<le> bw" "pl_y q + pl_h q \<le> bh" "reserves buildings q"
  shows "entries_apart (entry_of buildings i (fst a) (fst (snd a)) p) (entry_of buildings j (fst b) (fst (snd b)) q)"
proof -
  obtain ax ay where a: "a = (ax, ay, of_nat aw, of_nat ah)" using size(1) by (cases a) auto
  obtain bx "by" where b: "b = (bx, by, of_nat bw, of_nat bh)" using size(2) by (cases b) auto
  let ?e = "entry_of buildings i ax ay p" and ?f = "entry_of buildings j bx by q"
  have "of_nat (pl_x p) + of_nat (en_fw ?e) + 3 \<le> (of_nat aw :: rat)" "of_nat (pl_y p) + of_nat (en_fd ?e) + 3 \<le> (of_nat ah :: rat)"
    "of_nat (pl_x q) + of_nat (en_fw ?f) + 3 \<le> (of_nat bw :: rat)" "of_nat (pl_y q) + of_nat (en_fd ?f) + 3 \<le> (of_nat bh :: rat)"
    using entry_of_size [OF p(3), of i ax ay] entry_of_size [OF q(3), of j bx "by"] p q by (auto intro!: gap_within)
  moreover have "bx + of_nat bw \<le> ax - 8 \<or> ax + of_nat aw + 8 \<le> bx \<or> by + of_nat bh \<le> ay - 8 \<or> ay + of_nat ah + 8 \<le> by"
    using clear unfolding a b by (auto simp: boxes_clear_def district_boxes_overlap_def DISTRICT_MARGIN_def Let_def not_less)
  moreover have "0 \<le> (of_nat (pl_x p) :: rat)" "0 \<le> (of_nat (pl_y p) :: rat)" "0 \<le> (of_nat (pl_x q) :: rat)" "0 \<le> (of_nat (pl_y q) :: rat)"
    by simp_all
  ultimately show ?thesis unfolding entries_apart_def entry_of_simps a b fst_conv snd_conv by auto
qed

section \<open>The fresh layout\<close>

text \<open>The cells of one district, after the snap.\<close>

definition cells_of :: "building list \<Rightarrow> feature list \<Rightarrow> rstr \<Rightarrow> placement list" where
  "cells_of buildings features d = snap_ports buildings (pd_placements (packed_of buildings features d))"

lemma set_district_members: "bi \<in> set (district_members buildings features d) \<longleftrightarrow> bi < length buildings \<and> district_of buildings features bi = d"
  by (auto simp: district_members_def)

lemma cells_of_spec:
  shows "sorted_wrt cells_apart (cells_of buildings features d)"
    and "p \<in> set (cells_of buildings features d) \<Longrightarrow>
      pl_x p + pl_w p \<le> pd_w (packed_of buildings features d) \<and> pl_y p + pl_h p \<le> pd_h (packed_of buildings features d) \<and>
      reserves buildings p \<and> pl_bi p \<in> set (district_members buildings features d)"
    and "distinct (map pl_bi (cells_of buildings features d))"
    and "set (map pl_bi (cells_of buildings features d)) = set (district_members buildings features d)"
proof -
  let ?members = "district_members buildings features d" and ?ps = "cells_of buildings features d"
  obtain ps w h where pack: "pack_district buildings ?members = (ps, w, h)" by (metis prod_cases3)
  note cells = pack_district_cells [OF pack]
  have pd: "pd_placements (packed_of buildings features d) = ps" "pd_w (packed_of buildings features d) = w" "pd_h (packed_of buildings features d) = h"
    by (simp_all add: packed_of_def pack)
  show "sorted_wrt cells_apart ?ps" unfolding cells_of_def pd by (rule snap_ports_apart [OF cells(2)])
  have items: "map item_of ?ps = pack_items buildings ?members"
    unfolding cells_of_def pd by (simp only: snap_ports_cells(2) cells(1))
  then have bis: "mset (map pl_bi ?ps) = mset ?members"
  proof -
    have "map pl_bi ?ps = map fst (map item_of ?ps)" by (simp add: item_of_def)
    also have "mset \<dots> = mset ?members" unfolding items pack_items_def mset_map mset_sort by (simp add: multiset.map_comp comp_def)
    finally show ?thesis .
  qed
  show "set (map pl_bi ?ps) = set ?members" using bis by (rule mset_eq_setD)
  have "distinct ?members" by (simp add: district_members_def)
  then show "distinct (map pl_bi ?ps)" using bis by (metis mset_eq_imp_distinct_iff)
  assume p: "p \<in> set ?ps"
  have "item_of p \<in> set (pack_items buildings ?members)" using p unfolding items [symmetric] by simp
  then have "reserves buildings p \<and> pl_bi p \<in> set ?members"
    by (auto simp: pack_items_def item_of_def reserves_def)
  moreover have "pl_x p + pl_w p \<le> w \<and> pl_y p + pl_h p \<le> h"
    using p unfolding cells_of_def pd by (rule snap_ports_within [OF cells(3)])
  ultimately show "pl_x p + pl_w p \<le> pd_w (packed_of buildings features d) \<and> pl_y p + pl_h p \<le> pd_h (packed_of buildings features d) \<and>
      reserves buildings p \<and> pl_bi p \<in> set ?members" unfolding pd by blast
qed

lemma district_order_spec:
  "distinct (district_order buildings features roads)"
  "set (district_order buildings features roads) = district_of buildings features ` {..<length buildings} \<union>
     (if needs_commons buildings features then {COMMONS_FEATURE_ID} else {})"
  by (auto simp: district_order_def district_keys_def Let_def)

text \<open>The parts of the fresh layout, district by district.\<close>

lemma fresh_layout_parts:
  fixes roads
  assumes "fresh_layout cosf sinf buildings features roads = (packed, boxes, entries)"
  defines "order \<equiv> district_order buildings features roads"
  shows "length packed = length order" and "length boxes = length order"
    and "i < length order \<Longrightarrow> pd_id (packed ! i) = order ! i"
    and "entries = concat (map (\<lambda>i. map (entry_of buildings i (fst (boxes ! i)) (fst (snd (boxes ! i)))) (cells_of buildings features (order ! i)))
      [0..<length order])"
    and "boxes_found cosf sinf (coupling_edges buildings features roads) (map (packed_of buildings features) order) ([], []) \<Longrightarrow>
      sorted_wrt boxes_clear boxes \<and> (\<forall>i < length order. snd (snd (boxes ! i)) =
        (of_nat (pd_w (packed_of buildings features (order ! i))), of_nat (pd_h (packed_of buildings features (order ! i)))))"
proof -
  let ?edges = "coupling_edges buildings features roads" and ?packed = "map (packed_of buildings features) order"
  have packed: "packed = map (\<lambda>pd. pd\<lparr>pd_placements := snap_ports buildings (pd_placements pd)\<rparr>) ?packed"
    and boxes: "boxes = fst (fold (place_step cosf sinf ?edges) ?packed ([], []))"
    and entries: "entries = concat (map (\<lambda>di. entries_of buildings di (packed ! di) (boxes ! di)) [0..<length packed])"
    using assms(1) by (auto simp: fresh_layout_def Let_def order_def)
  show len: "length packed = length order" by (simp add: packed)
  show blen: "length boxes = length order" by (simp add: boxes length_place_boxes)
  show "pd_id (packed ! i) = order ! i" if "i < length order"
    using that by (simp add: packed packed_of_def case_prod_unfold)
  have "entries_of buildings i (packed ! i) (boxes ! i) =
      map (entry_of buildings i (fst (boxes ! i)) (fst (snd (boxes ! i)))) (cells_of buildings features (order ! i))" if "i < length order" for i
    using that entries_of_map [of buildings i "packed ! i" "fst (boxes ! i)" "fst (snd (boxes ! i))" "snd (snd (boxes ! i))"]
    by (simp add: packed cells_of_def)
  then show "entries = concat (map (\<lambda>i. map (entry_of buildings i (fst (boxes ! i)) (fst (snd (boxes ! i)))) (cells_of buildings features (order ! i)))
      [0..<length order])"
    unfolding entries len by (intro arg_cong [where f = concat] map_cong) auto
  assume found: "boxes_found cosf sinf ?edges ?packed ([], [])"
  have "sorted_wrt boxes_clear boxes \<and> map box_size boxes = map (\<lambda>pd. (of_nat (pd_w pd), of_nat (pd_h pd))) ?packed"
    using place_boxes [OF found] by (simp add: boxes)
  moreover have "snd (snd (boxes ! i)) = map box_size boxes ! i" if "i < length order" for i
    using that blen by (simp add: box_size_def)
  ultimately show "sorted_wrt boxes_clear boxes \<and> (\<forall>i < length order. snd (snd (boxes ! i)) =
        (of_nat (pd_w (packed_of buildings features (order ! i))), of_nat (pd_h (packed_of buildings features (order ! i)))))"
    by simp
qed

lemma fresh_layout_apart:
  assumes fresh: "fresh_layout cosf sinf buildings features roads = (packed, boxes, entries)"
    and found: "boxes_found cosf sinf (coupling_edges buildings features roads)
      (map (packed_of buildings features) (district_order buildings features roads)) ([], [])"
  shows "sorted_wrt entries_apart entries"
  unfolding fresh_layout_parts(4) [OF fresh]
proof (rule sorted_wrt_concat; intro allI impI)
  let ?order = "district_order buildings features roads"
  let ?block = "\<lambda>i. map (entry_of buildings i (fst (boxes ! i)) (fst (snd (boxes ! i)))) (cells_of buildings features (?order ! i))"
  note parts = fresh_layout_parts [OF fresh]
  fix i assume "i < length (map ?block [0..<length ?order])"
  then have "(map ?block [0..<length ?order]) ! i = ?block i" by simp
  moreover have "sorted_wrt entries_apart (?block i)"
    unfolding sorted_wrt_map
    using cells_of_spec(1) cells_of_spec(2) by (intro sorted_wrt_mono_rel [OF _ cells_of_spec(1)] same_district_apart) auto
  ultimately show "sorted_wrt entries_apart ((map ?block [0..<length ?order]) ! i)" by simp
next
  let ?order = "district_order buildings features roads"
  let ?block = "\<lambda>i. map (entry_of buildings i (fst (boxes ! i)) (fst (snd (boxes ! i)))) (cells_of buildings features (?order ! i))"
  note parts = fresh_layout_parts [OF fresh]
  fix i j assume ij: "i < j" "j < length (map ?block [0..<length ?order])"
  have blocks: "(map ?block [0..<length ?order]) ! i = ?block i" "(map ?block [0..<length ?order]) ! j = ?block j" using ij by simp_all
  have size: "snd (snd (boxes ! k)) = (of_nat (pd_w (packed_of buildings features (?order ! k))), of_nat (pd_h (packed_of buildings features (?order ! k))))"
    if "k < length ?order" for k using parts(5) [OF found] that by blast
  have clear: "boxes_clear (boxes ! i) (boxes ! j)"
    using parts(5) [OF found] parts(2) ij by (auto simp: sorted_wrt_iff_nth_less)
  show "\<forall>e \<in> set ((map ?block [0..<length ?order]) ! i). \<forall>f \<in> set ((map ?block [0..<length ?order]) ! j). entries_apart e f"
  proof -
    have "i < length ?order" "j < length ?order" using ij by simp_all
    from other_district_apart [OF clear size [OF this(1)] size [OF this(2)]] cells_of_spec(2) show ?thesis
      unfolding blocks by auto
  qed
qed

text \<open>Every building has one entry, in its district.\<close>

lemma fresh_layout_entries:
  assumes fresh: "fresh_layout cosf sinf buildings features roads = (packed, boxes, entries)"
  shows "distinct (map en_bi entries)" and "en_bi ` set entries = {..<length buildings}"
    and "e \<in> set entries \<Longrightarrow> en_di e < length packed \<and> pd_id (packed ! en_di e) = district_of buildings features (en_bi e) \<and>
      building_footprint (bd_purpose (buildings ! en_bi e)) (bd_visual_tier (buildings ! en_bi e)) = (int (en_fw e), int (en_fd e))"
proof -
  let ?order = "district_order buildings features roads"
  let ?block = "\<lambda>i. map (entry_of buildings i (fst (boxes ! i)) (fst (snd (boxes ! i)))) (cells_of buildings features (?order ! i))"
  note parts = fresh_layout_parts [OF fresh]
  have bis: "map en_bi (?block i) = map pl_bi (cells_of buildings features (?order ! i))" for i by simp
  have members: "bi \<in> set (map en_bi (?block i)) \<longleftrightarrow> bi < length buildings \<and> district_of buildings features bi = ?order ! i" for i bi
    unfolding bis cells_of_spec(4) by (rule set_district_members)
  have maps: "map en_bi entries = concat (map (\<lambda>i. map en_bi (?block i)) [0..<length ?order])"
    unfolding parts(4) by (simp add: map_concat comp_def)
  have "distinct (concat (map (\<lambda>i. map en_bi (?block i)) [0..<length ?order]))"
    proof -
    have "sorted_wrt (\<noteq>) (concat (map (\<lambda>i. map en_bi (?block i)) [0..<length ?order]))"
    proof (rule sorted_wrt_concat; intro allI impI ballI)
      fix i assume "i < length (map (\<lambda>i. map en_bi (?block i)) [0..<length ?order])"
      then show "sorted_wrt (\<noteq>) (map (\<lambda>i. map en_bi (?block i)) [0..<length ?order] ! i)"
        using cells_of_spec(3) by (simp add: distinct_sorted_wrt [symmetric] comp_def)
    next
      fix i j x y
      assume "i < j" "j < length (map (\<lambda>i. map en_bi (?block i)) [0..<length ?order])"
        and "x \<in> set (map (\<lambda>i. map en_bi (?block i)) [0..<length ?order] ! i)" "y \<in> set (map (\<lambda>i. map en_bi (?block i)) [0..<length ?order] ! j)"
      then have "district_of buildings features x = ?order ! i" "district_of buildings features y = ?order ! j" "?order ! i \<noteq> ?order ! j"
        using members nth_eq_iff_index_eq [OF district_order_spec(1)] by auto
      then show "x \<noteq> y" by auto
    qed
    then show ?thesis by (simp only: distinct_sorted_wrt)
  qed
  then show "distinct (map en_bi entries)" by (simp only: maps)
  have "bi \<in> en_bi ` set entries \<longleftrightarrow> (\<exists>i < length ?order. bi \<in> set (map en_bi (?block i)))" for bi
  proof -
    have "en_bi ` set entries = set (concat (map (\<lambda>i. map en_bi (?block i)) [0..<length ?order]))" unfolding maps [symmetric] by simp
    then show ?thesis by (simp add: image_image Bex_def)
  qed
  also have "(\<exists>i < length ?order. bi \<in> set (map en_bi (?block i))) \<longleftrightarrow> bi < length buildings" for bi
    unfolding members using district_order_spec(2) [of buildings features roads] by (auto simp: in_set_conv_nth) (metis UnCI imageI in_set_conv_nth lessThan_iff)
  finally show "en_bi ` set entries = {..<length buildings}" by blast
  assume "e \<in> set entries"
  then obtain i p where i: "i < length ?order" and p: "p \<in> set (cells_of buildings features (?order ! i))"
    and e: "e = entry_of buildings i (fst (boxes ! i)) (fst (snd (boxes ! i))) p"
    unfolding parts(4) by auto
  have "pl_bi p \<in> set (map en_bi (?block i))" using p by (simp add: image_iff) blast
  then have "district_of buildings features (pl_bi p) = ?order ! i" unfolding members by blast
  moreover have "building_footprint (bd_purpose (buildings ! pl_bi p)) (bd_visual_tier (buildings ! pl_bi p)) = (int (en_fw e), int (en_fd e))"
    using footprint_bounds [of "bd_purpose (buildings ! pl_bi p)" "bd_visual_tier (buildings ! pl_bi p)"]
    by (auto simp: e entry_of_def split: prod.splits)
  ultimately show "en_di e < length packed \<and> pd_id (packed ! en_di e) = district_of buildings features (en_bi e) \<and>
      building_footprint (bd_purpose (buildings ! en_bi e)) (bd_visual_tier (buildings ! en_bi e)) = (int (en_fw e), int (en_fd e))"
    using i parts(1,3) by (simp add: e)
qed

section \<open>The city that a layout leaves\<close>

definition building_box :: "building \<Rightarrow> f64 \<times> f64 \<times> nat \<times> nat" where
  "building_box b = (case building_footprint (bd_purpose b) (bd_visual_tier b) of (fw, fd) \<Rightarrow> (co_x (bd_coords b), co_y (bd_coords b), nat fw, nat fd))"

definition entry_box :: "(entry \<Rightarrow> coords) \<Rightarrow> entry \<Rightarrow> f64 \<times> f64 \<times> nat \<times> nat" where
  "entry_box coords_of e = (co_x (coords_of e), co_y (coords_of e), en_fw e, en_fd e)"

lemma cells_overlap_sym: "cells_overlap a b \<Longrightarrow> cells_overlap b a"
  by (auto simp: cells_overlap_def)

lemma any_overlap_iff: "any_footprint_overlap es \<longleftrightarrow> \<not> sorted_wrt (\<lambda>e f. \<not> cells_overlap (footprint_box e) (footprint_box f)) es"
  by (induction es) (auto simp: list_ex_iff)

lemma sorted_wrt_members:
  assumes "\<And>x y. R x y \<Longrightarrow> R y x"
  shows "sorted_wrt R xs \<Longrightarrow> x \<in> set xs \<Longrightarrow> y \<in> set xs \<Longrightarrow> x \<noteq> y \<Longrightarrow> R x y"
  by (induction xs) (use assms in auto)

lemma apart_no_overlap: "entries_apart e f \<Longrightarrow> \<not> cells_overlap (entry_box en_packed e) (entry_box en_packed f)"
  by (auto simp: entries_apart_def cells_overlap_def entry_box_def)

text \<open>Settling the entries one after the other.\<close>

definition settled :: "packed_district list \<Rightarrow> (entry \<Rightarrow> coords) \<Rightarrow> entry \<Rightarrow> building \<Rightarrow> building" where
  "settled packed coords_of e b = b\<lparr>bd_coords := coords_of e, bd_district_id := pd_id (packed ! en_di e)\<rparr>"

lemma settled_simps [simp]:
  "bd_coords (settled packed coords_of e b) = coords_of e" "bd_district_id (settled packed coords_of e b) = pd_id (packed ! en_di e)"
  "bd_file_id (settled packed coords_of e b) = bd_file_id b" "bd_file_path (settled packed coords_of e b) = bd_file_path b"
  "bd_purpose (settled packed coords_of e b) = bd_purpose b" "bd_visual_tier (settled packed coords_of e b) = bd_visual_tier b"
  "bd_feature_id (settled packed coords_of e b) = bd_feature_id b"
  by (simp_all add: settled_def)

lemma settle_fold:
  assumes "distinct (map en_bi es)" and "\<forall>e \<in> set es. en_bi e < length buildings"
    and "fold (settle packed coords_of) es (buildings, meta) = (buildings', meta')"
  shows "length buildings' = length buildings \<and> ms_layout_version meta' = ms_layout_version meta \<and>
    (\<forall>i. i \<notin> en_bi ` set es \<longrightarrow> buildings' ! i = buildings ! i) \<and>
    (\<forall>e \<in> set es. buildings' ! en_bi e = settled packed coords_of e (buildings ! en_bi e))"
  using assms
proof (induction es arbitrary: buildings meta)
  case (Cons e es)
  let ?b = "buildings[en_bi e := settled packed coords_of e (buildings ! en_bi e)]"
  obtain meta1 where step: "settle packed coords_of e (buildings, meta) = (?b, meta1)" "ms_layout_version meta1 = ms_layout_version meta"
    by (simp add: settle_def Let_def settled_def)
  have "fold (settle packed coords_of) es (?b, meta1) = (buildings', meta')" using Cons.prems(3) step(1) by simp
  note IH = Cons.IH [OF _ _ this]
  have IH: "length buildings' = length buildings" "ms_layout_version meta' = ms_layout_version meta1"
    "\<And>i. i \<notin> en_bi ` set es \<Longrightarrow> buildings' ! i = ?b ! i"
    "\<And>f. f \<in> set es \<Longrightarrow> buildings' ! en_bi f = settled packed coords_of f (?b ! en_bi f)"
    using IH Cons.prems(1,2) by auto
  have e: "en_bi e \<notin> en_bi ` set es" "en_bi e < length buildings" using Cons.prems(1,2) by auto
  have "buildings' ! en_bi f = settled packed coords_of f (buildings ! en_bi f)" if "f \<in> set es" for f
    using IH(4) [OF that] e(1) that by (metis image_eqI nth_list_update_neq)
  moreover have "buildings' ! en_bi e = settled packed coords_of e (buildings ! en_bi e)"
    using IH(3) [OF e(1)] e(2) by simp
  moreover have "buildings' ! i = buildings ! i" if "i \<notin> en_bi ` set (e # es)" for i
    using IH(3) [of i] that by auto
  ultimately show ?case using IH(1,2) step(2) by auto
qed simp

lemma settle_meta:
  assumes "distinct (map en_bi es)" and "\<forall>e \<in> set es. en_bi e < length buildings" and "distinct (map bd_file_path buildings)"
    and "fold (settle packed coords_of) es (buildings, meta) = (buildings', meta')"
  shows "(\<forall>p. p \<notin> (\<lambda>e. bd_file_path (buildings ! en_bi e)) ` set es \<longrightarrow> ms_coords meta' p = ms_coords meta p \<and> ms_district meta' p = ms_district meta p) \<and>
    (\<forall>e \<in> set es. ms_coords meta' (bd_file_path (buildings ! en_bi e)) = Some (coords_of e) \<and>
      ms_district meta' (bd_file_path (buildings ! en_bi e)) = Some (pd_id (packed ! en_di e)))"
  using assms
proof (induction es arbitrary: buildings meta)
  case (Cons e es)
  let ?b = "buildings[en_bi e := settled packed coords_of e (buildings ! en_bi e)]" and ?p = "bd_file_path (buildings ! en_bi e)"
  let ?m = "meta\<lparr>ms_coords := (ms_coords meta)(?p \<mapsto> coords_of e), ms_district := (ms_district meta)(?p \<mapsto> pd_id (packed ! en_di e))\<rparr>"
  have step: "settle packed coords_of e (buildings, meta) = (?b, ?m)" by (simp add: settle_def Let_def settled_def)
  have e: "en_bi e \<notin> en_bi ` set es" "en_bi e < length buildings" using Cons.prems(1,2) by auto
  have path: "bd_file_path (?b ! i) = bd_file_path (buildings ! i)" for i
    using e(2) by (cases "i = en_bi e") simp_all
  have "map bd_file_path ?b = map bd_file_path buildings" by (intro nth_equalityI) (simp_all add: path)
  then have IH: "\<And>p. p \<notin> (\<lambda>e. bd_file_path (buildings ! en_bi e)) ` set es \<Longrightarrow> ms_coords meta' p = ms_coords ?m p \<and> ms_district meta' p = ms_district ?m p"
    "\<And>f. f \<in> set es \<Longrightarrow> ms_coords meta' (bd_file_path (buildings ! en_bi f)) = Some (coords_of f) \<and>
      ms_district meta' (bd_file_path (buildings ! en_bi f)) = Some (pd_id (packed ! en_di f))"
    using Cons.IH [of ?b ?m] Cons.prems step by (simp_all add: path)
  have "?p \<noteq> bd_file_path (buildings ! en_bi f)" if "f \<in> set es" for f
    using Cons.prems(1-3) that nth_eq_iff_index_eq [of "map bd_file_path buildings" "en_bi e" "en_bi f"] by auto
  then have "?p \<notin> (\<lambda>e. bd_file_path (buildings ! en_bi e)) ` set es" by blast
  with IH show ?case by auto
qed simp

section \<open>Laying out twice\<close>

lemma nth_same_length: "length xs = length ys \<Longrightarrow> length xs \<le> i \<Longrightarrow> xs ! i = ys ! i"
proof (induction xs arbitrary: ys i)
  case (Cons x xs)
  then obtain y ys' where ys: "ys = y # ys'" "length xs = length ys'" by (cases ys) auto
  from Cons.prems(2) obtain k where k: "i = Suc k" "length xs \<le> k" by (cases i) auto
  from Cons.IH [OF ys(2) k(2)] show ?case by (simp add: ys(1) k(1))
qed simp

text \<open>The fresh layout reads of a building its id, purpose, tier and feature.\<close>

lemma fresh_layout_cong:
  assumes len: "length buildings = length buildings'"
    and same: "\<forall>i < length buildings. bd_file_id (buildings ! i) = bd_file_id (buildings' ! i) \<and> bd_purpose (buildings ! i) = bd_purpose (buildings' ! i) \<and>
      bd_visual_tier (buildings ! i) = bd_visual_tier (buildings' ! i) \<and> bd_feature_id (buildings ! i) = bd_feature_id (buildings' ! i)"
  shows "fresh_layout cosf sinf buildings features roads = fresh_layout cosf sinf buildings' features roads" (is ?fresh)
    and "map (packed_of buildings features) (district_order buildings features roads) =
      map (packed_of buildings' features) (district_order buildings' features roads)" (is ?packed)
    and "coupling_edges buildings features roads = coupling_edges buildings' features roads" (is ?edges)
    and "district_of buildings features = district_of buildings' features" (is ?district)
proof -
  have outside: "i \<ge> length buildings \<Longrightarrow> buildings ! i = buildings' ! i" for i by (rule nth_same_length [OF len])
  have keys: "bd_file_id (buildings ! i) = bd_file_id (buildings' ! i)" "bd_purpose (buildings ! i) = bd_purpose (buildings' ! i)"
    "bd_visual_tier (buildings ! i) = bd_visual_tier (buildings' ! i)" "bd_feature_id (buildings ! i) = bd_feature_id (buildings' ! i)" for i
    using same outside by (cases "i < length buildings"; simp)+
  have feat: "map bd_feature_id buildings = map bd_feature_id buildings'"
    using len keys(4) by (simp add: list_eq_iff_nth_eq)
  have count: "count_by_feature bs i = length (filter (\<lambda>f. f = i) (map bd_feature_id bs))" for bs i
    by (simp add: count_by_feature_def filter_map comp_def)
  have counts: "count_by_feature buildings = count_by_feature buildings'" by (simp add: fun_eq_iff count feat)
  have target: "target_district buildings features = target_district buildings' features"
    by (simp add: fun_eq_iff target_district_def counts)
  show district: ?district by (simp add: fun_eq_iff district_of_def target keys)
  have members: "district_members buildings features = district_members buildings' features"
    by (simp add: fun_eq_iff district_members_def district len)
  have "needs_commons buildings features = needs_commons buildings' features" by (simp add: needs_commons_def counts feat)
  then have dkeys: "district_keys buildings features = district_keys buildings' features"
    by (simp add: district_keys_def district len)
  then have "district_by_file_id buildings features = district_by_file_id buildings' features"
    by (simp add: fun_eq_iff district_by_file_id_def members keys)
  then show edges: ?edges by (simp add: coupling_edges_def)
  have order: "district_order buildings features roads = district_order buildings' features roads"
    by (simp add: district_order_def edges dkeys members)
  have "pack_district buildings = pack_district buildings'"
    by (simp add: fun_eq_iff pack_district_def pack_items_def keys)
  then have packed: "packed_of buildings features = packed_of buildings' features" by (simp add: fun_eq_iff packed_of_def members)
  show ?packed by (simp add: packed order)
  have "snap_ports buildings = snap_ports buildings'" by (simp add: fun_eq_iff snap_ports_def keys)
  moreover have "entries_of buildings = entries_of buildings'" by (simp add: fun_eq_iff entries_of_def keys)
  ultimately show ?fresh by (simp add: fresh_layout_def edges order packed Let_def)
qed

text \<open>The layout, after the fresh one.\<close>

lemma layout_eq:
  assumes fresh: "fresh_layout cosf sinf buildings features roads = (packed, boxes, entries)"
  shows "layout cosf sinf buildings meta features roads =
    (fst (fold (settle packed (final_coords buildings meta packed entries)) entries (buildings, meta)),
     (snd (fold (settle packed (final_coords buildings meta packed entries)) entries (buildings, meta)))
       \<lparr>ms_layout_version := LAYOUT_ALGO_VERSION\<rparr>,
     map (\<lambda>di. \<lparr>di_id = pd_id (packed ! di), di_type = feature_district_type (kind_of features (pd_id (packed ! di))),
      di_bounds = district_bounds_from (map (entry_box (final_coords buildings meta packed entries)) (filter (\<lambda>e. en_di e = di) entries)) (boxes ! di),
      di_wall_style = feature_wall_style (kind_of features (pd_id (packed ! di)))\<rparr>) [0..<length packed])"
  by (simp add: layout_def fresh Let_def case_prod_unfold entry_box_def [abs_def])

text \<open>What a layout leaves, in the terms of its parts.\<close>

lemma layout_parts:
  assumes lay: "layout cosf sinf buildings meta features roads = (buildings', meta', districts)"
    and fresh: "fresh_layout cosf sinf buildings features roads = (packed, boxes, entries)"
  defines "coords_of \<equiv> final_coords buildings meta packed entries"
  shows "length buildings' = length buildings" and "ms_layout_version meta' = LAYOUT_ALGO_VERSION"
    and "e \<in> set entries \<Longrightarrow> buildings' ! en_bi e = settled packed coords_of e (buildings ! en_bi e)"
    and "distinct (map bd_file_path buildings) \<Longrightarrow> e \<in> set entries \<Longrightarrow>
      ms_coords meta' (bd_file_path (buildings ! en_bi e)) = Some (coords_of e) \<and>
      ms_district meta' (bd_file_path (buildings ! en_bi e)) = Some (pd_id (packed ! en_di e))"
    and "map di_id districts = map pd_id packed"
    and "districts = map (\<lambda>di. \<lparr>di_id = pd_id (packed ! di), di_type = feature_district_type (kind_of features (pd_id (packed ! di))),
      di_bounds = district_bounds_from (map (entry_box coords_of) (filter (\<lambda>e. en_di e = di) entries)) (boxes ! di),
      di_wall_style = feature_wall_style (kind_of features (pd_id (packed ! di)))\<rparr>) [0..<length packed]"
proof -
  let ?st = "fold (settle packed coords_of) entries (buildings, meta)"
  note eq = layout_eq [OF fresh, of meta, folded coords_of_def, unfolded lay]
  define meta1 where "meta1 = snd ?st"
  have fold: "fold (settle packed coords_of) entries (buildings, meta) = (buildings', meta1)"
    and m: "meta' = meta1\<lparr>ms_layout_version := LAYOUT_ALGO_VERSION\<rparr>"
    using eq by (simp_all add: meta1_def)
  have in_range: "\<forall>e \<in> set entries. en_bi e < length buildings" using fresh_layout_entries(2) [OF fresh] by auto
  note s = settle_fold [OF fresh_layout_entries(1) [OF fresh] in_range fold]
  show "length buildings' = length buildings" using s by blast
  show "ms_layout_version meta' = LAYOUT_ALGO_VERSION" by (simp add: m)
  show "e \<in> set entries \<Longrightarrow> buildings' ! en_bi e = settled packed coords_of e (buildings ! en_bi e)" using s by blast
  show "distinct (map bd_file_path buildings) \<Longrightarrow> e \<in> set entries \<Longrightarrow>
      ms_coords meta' (bd_file_path (buildings ! en_bi e)) = Some (coords_of e) \<and>
      ms_district meta' (bd_file_path (buildings ! en_bi e)) = Some (pd_id (packed ! en_di e))"
    using settle_meta [OF fresh_layout_entries(1) [OF fresh] in_range _ fold] by (simp add: m)
  show ds: "districts = map (\<lambda>di. \<lparr>di_id = pd_id (packed ! di), di_type = feature_district_type (kind_of features (pd_id (packed ! di))),
      di_bounds = district_bounds_from (map (entry_box coords_of) (filter (\<lambda>e. en_di e = di) entries)) (boxes ! di),
      di_wall_style = feature_wall_style (kind_of features (pd_id (packed ! di)))\<rparr>) [0..<length packed]"
    using eq by simp
  show "map di_id districts = map pd_id packed" by (rule nth_equalityI) (simp_all add: ds)
qed

section \<open>No overlap\<close>

lemma persisted_no_overlap:
  "use_persisted buildings meta packed entries \<Longrightarrow> e \<in> set entries \<Longrightarrow>
   persisted_coords buildings meta e = Some (final_coords buildings meta packed entries e)"
  by (auto simp: use_persisted_def final_coords_def list_all_iff)

lemma final_no_overlap:
  assumes fresh: "fresh_layout cosf sinf buildings features roads = (packed, boxes, entries)"
    and found: "boxes_found cosf sinf (coupling_edges buildings features roads)
      (map (packed_of buildings features) (district_order buildings features roads)) ([], [])"
  shows "sorted_wrt (\<lambda>e f. \<not> cells_overlap (entry_box (final_coords buildings meta packed entries) e)
    (entry_box (final_coords buildings meta packed entries) f)) entries"
proof (cases "use_persisted buildings meta packed entries")
  case True
  let ?es = "map (\<lambda>e. (en_bi e, the (persisted_coords buildings meta e), en_fw e, en_fd e)) entries"
  have "sorted_wrt (\<lambda>e f. \<not> cells_overlap (footprint_box e) (footprint_box f)) ?es"
    using True unfolding use_persisted_def any_overlap_iff by blast
  then have s: "sorted_wrt (\<lambda>e f. \<not> cells_overlap (entry_box (\<lambda>e. the (persisted_coords buildings meta e)) e)
      (entry_box (\<lambda>e. the (persisted_coords buildings meta e)) f)) entries"
    by (simp add: sorted_wrt_map footprint_box_def entry_box_def)
  show ?thesis
    using persisted_no_overlap [OF True] by (intro sorted_wrt_mono_rel [OF _ s]) (simp add: entry_box_def)
next
  case False
  then have "final_coords buildings meta packed entries = en_packed" by (simp add: fun_eq_iff final_coords_def)
  then show ?thesis
    using apart_no_overlap by (intro sorted_wrt_mono_rel [OF _ fresh_layout_apart [OF fresh found]]) simp
qed

lemma layout_boxes_apart:
  assumes lay: "layout cosf sinf buildings meta features roads = (buildings', meta', districts)"
    and found: "boxes_found cosf sinf (coupling_edges buildings features roads)
      (map (packed_of buildings features) (district_order buildings features roads)) ([], [])"
    and ij: "i < length buildings'" "j < length buildings'" "i \<noteq> j"
  shows "\<not> cells_overlap (building_box (buildings' ! i)) (building_box (buildings' ! j))"
proof -
  obtain packed boxes entries where fresh: "fresh_layout cosf sinf buildings features roads = (packed, boxes, entries)" by (metis prod_cases3)
  note parts = layout_parts [OF lay fresh]
  let ?c = "final_coords buildings meta packed entries"
  have box: "building_box (buildings' ! en_bi e) = entry_box ?c e" if "e \<in> set entries" for e
    using parts(3) [OF that] fresh_layout_entries(3) [OF fresh that] by (simp add: building_box_def entry_box_def)
  have "i \<in> en_bi ` set entries" "j \<in> en_bi ` set entries" using ij(1,2) parts(1) fresh_layout_entries(2) [OF fresh] by simp_all
  then obtain e f where e: "e \<in> set entries" "en_bi e = i" and f: "f \<in> set entries" "en_bi f = j" by blast
  then have "e \<noteq> f" using ij(3) by auto
  have "\<not> cells_overlap (entry_box ?c e) (entry_box ?c f)"
    by (rule sorted_wrt_members [OF _ final_no_overlap [OF fresh found] e(1) f(1) \<open>e \<noteq> f\<close>]) (use cells_overlap_sym in blast)
  then show ?thesis using box [OF e(1)] box [OF f(1)] by (simp add: e(2) f(2))
qed

text \<open>A second layout of what a layout left.\<close>

lemma layout_twice:
  assumes lay: "layout cosf sinf buildings meta features roads = (buildings', meta', districts)"
    and found: "boxes_found cosf sinf (coupling_edges buildings features roads)
      (map (packed_of buildings features) (district_order buildings features roads)) ([], [])"
    and paths: "distinct (map bd_file_path buildings)"
  shows "layout cosf sinf buildings' meta' features roads = (buildings', meta', districts)"
proof -
  obtain packed boxes entries where fresh: "fresh_layout cosf sinf buildings features roads = (packed, boxes, entries)" by (metis prod_cases3)
  note parts = layout_parts [OF lay fresh] and es = fresh_layout_entries [OF fresh]
  let ?c = "final_coords buildings meta packed entries"
  have entry: "\<exists>e \<in> set entries. en_bi e = i" if "i < length buildings" for i
    using that es(2) by (metis imageE lessThan_iff)
  have same: "\<forall>i < length buildings. bd_file_id (buildings ! i) = bd_file_id (buildings' ! i) \<and> bd_purpose (buildings ! i) = bd_purpose (buildings' ! i) \<and>
      bd_visual_tier (buildings ! i) = bd_visual_tier (buildings' ! i) \<and> bd_feature_id (buildings ! i) = bd_feature_id (buildings' ! i)"
    using entry parts(3) by (metis settled_simps(3,5-7))
  have fresh': "fresh_layout cosf sinf buildings' features roads = (packed, boxes, entries)"
    using fresh fresh_layout_cong(1) [OF parts(1) [symmetric] same] by simp
  have path: "bd_file_path (buildings' ! en_bi e) = bd_file_path (buildings ! en_bi e)" if "e \<in> set entries" for e
    using parts(3) [OF that] by simp
  have persisted: "persisted_coords buildings' meta' e = Some (?c e)" if "e \<in> set entries" for e
    using parts(4) [OF paths that] path [OF that] by (simp add: persisted_coords_def)
  have "sorted_wrt (\<lambda>e f. \<not> cells_overlap (footprint_box e) (footprint_box f))
      (map (\<lambda>e. (en_bi e, the (persisted_coords buildings' meta' e), en_fw e, en_fd e)) entries)"
    unfolding sorted_wrt_map
    using persisted by (intro sorted_wrt_mono_rel [OF _ final_no_overlap [OF fresh found, of meta]]) (simp add: footprint_box_def entry_box_def)
  then have "use_persisted buildings' meta' packed entries"
    using persisted path parts(2) parts(4) [OF paths] by (simp add: use_persisted_def list_all_iff any_overlap_iff)
  then have c: "final_coords buildings' meta' packed entries e = ?c e" if "e \<in> set entries" for e
    using persisted [OF that] by (simp add: final_coords_def)
  let ?c' = "final_coords buildings' meta' packed entries"
  have "settle packed ?c' e (buildings', meta') = (buildings', meta')" if e: "e \<in> set entries" for e
  proof -
    have "settled packed ?c' e (buildings' ! en_bi e) = buildings' ! en_bi e"
      using parts(3) [OF e] c [OF e] by (simp add: settled_def)
    then have "buildings'[en_bi e := settled packed ?c' e (buildings' ! en_bi e)] = buildings'" by simp
    moreover have "(ms_coords meta')(bd_file_path (buildings' ! en_bi e) \<mapsto> ?c' e) = ms_coords meta'"
      "(ms_district meta')(bd_file_path (buildings' ! en_bi e) \<mapsto> pd_id (packed ! en_di e)) = ms_district meta'"
      using parts(4) [OF paths e] path [OF e] c [OF e] by (simp_all add: fun_upd_idem)
    ultimately show ?thesis by (simp add: settle_def Let_def settled_def)
  qed
  then have "fold (settle packed ?c') es (buildings', meta') = (buildings', meta')" if "set es \<subseteq> set entries" for es
    using that by (induction es) auto
  then have settle: "fold (settle packed ?c') entries (buildings', meta') = (buildings', meta')" by blast
  have "entry_box ?c' e = entry_box ?c e" if "e \<in> set entries" for e using c [OF that] by (simp add: entry_box_def)
  then have accepted: "map (entry_box ?c') (filter (\<lambda>e. en_di e = di) entries) = map (entry_box ?c) (filter (\<lambda>e. en_di e = di) entries)" for di
    by simp
  have version: "meta'\<lparr>ms_layout_version := LAYOUT_ALGO_VERSION\<rparr> = meta'" using parts(2) by simp
  show ?thesis unfolding layout_eq [OF fresh'] settle accepted by (simp add: version parts(6))
qed

section \<open>On tiles\<close>

text \<open>Rounding to tiles keeps the order, and a footprint ends no later than its rounded end.\<close>

lemma round_add_le: "round_half_away x + int n \<le> round_half_away (x + of_nat n)"
proof (cases "0 \<le> x")
  case True
  have "\<lfloor>x + of_nat n + 1 / 2\<rfloor> = \<lfloor>x + 1 / 2\<rfloor> + int n" by (simp add: floor_eq_iff) linarith
  with True show ?thesis by (simp add: round_half_away_def)
next
  case False
  show ?thesis
  proof (cases "0 \<le> x + of_nat n")
    case True
    have "- \<lfloor>- x + 1 / 2\<rfloor> + int n \<le> \<lfloor>x + of_nat n + 1 / 2\<rfloor>" by linarith
    with True False show ?thesis by (simp add: round_half_away_def)
  next
    case neg: False
    have "\<lfloor>- (x + of_nat n) + 1 / 2\<rfloor> = \<lfloor>- x + 1 / 2\<rfloor> - int n" by linarith
    with False neg show ?thesis by (simp add: round_half_away_def)
  qed
qed

lemma round_mono: "x \<le> y \<Longrightarrow> round_half_away x \<le> round_half_away y"
  unfolding round_half_away_def by (auto; linarith)

lemma round_after: "x + of_nat n \<le> y \<Longrightarrow> round_half_away x + int n \<le> round_half_away y"
  using round_add_le [of x n] round_mono [of "x + of_nat n" y] by linarith

text \<open>A building whose coordinates are numbers that an \<open>i32\<close> holds.\<close>

definition on_map :: "building \<Rightarrow> bool" where
  "on_map b = (case (co_x (bd_coords b), co_y (bd_coords b)) of
     (Fin x, Fin y) \<Rightarrow> of_int i32_min \<le> x \<and> x \<le> of_int i32_max \<and> of_int i32_min \<le> y \<and> y \<le> of_int i32_max
   | _ \<Rightarrow> False)"

lemma clamp_round: "of_int i32_min \<le> x \<Longrightarrow> x \<le> of_int i32_max \<Longrightarrow> clamp_i32 (round_half_away x) = round_half_away x"
  using round_mono [of "of_int i32_min" x] round_mono [of x "of_int i32_max"] by (simp add: clamp_i32_def)

lemma apart_tiles:
  assumes "on_map b" "on_map b'" and "\<not> cells_overlap (building_box b) (building_box b')"
  shows "building_tiles [b] \<inter> building_tiles [b'] = {}"
proof -
  obtain x y where c: "co_x (bd_coords b) = Fin x" "co_y (bd_coords b) = Fin y" "of_int i32_min \<le> x" "x \<le> of_int i32_max" "of_int i32_min \<le> y" "y \<le> of_int i32_max"
    using assms(1) by (auto simp: on_map_def split: f64.splits)
  obtain x' y' where c': "co_x (bd_coords b') = Fin x'" "co_y (bd_coords b') = Fin y'" "of_int i32_min \<le> x'" "x' \<le> of_int i32_max" "of_int i32_min \<le> y'" "y' \<le> of_int i32_max"
    using assms(2) by (auto simp: on_map_def split: f64.splits)
  obtain w h where f: "building_footprint (bd_purpose b) (bd_visual_tier b) = (int w, int h)"
    using footprint_bounds [of "bd_purpose b" "bd_visual_tier b"] that [of "nat (fst (building_footprint (bd_purpose b) (bd_visual_tier b)))"
      "nat (snd (building_footprint (bd_purpose b) (bd_visual_tier b)))"] by (auto simp: mem_Times_iff)
  obtain w' h' where f': "building_footprint (bd_purpose b') (bd_visual_tier b') = (int w', int h')"
    using footprint_bounds [of "bd_purpose b'" "bd_visual_tier b'"] that [of "nat (fst (building_footprint (bd_purpose b') (bd_visual_tier b')))"
      "nat (snd (building_footprint (bd_purpose b') (bd_visual_tier b')))"] by (auto simp: mem_Times_iff)
  have "x' + of_nat w' \<le> x \<or> x + of_nat w \<le> x' \<or> y' + of_nat h' \<le> y \<or> y + of_nat h \<le> y'"
    using assms(3) by (auto simp: cells_overlap_def building_box_def f f' c(1,2) c'(1,2))
  then have "round_half_away x' + int w' \<le> round_half_away x \<or> round_half_away x + int w \<le> round_half_away x' \<or>
      round_half_away y' + int h' \<le> round_half_away y \<or> round_half_away y + int h \<le> round_half_away y'"
    using round_after by blast
  then show ?thesis
    using clamp_round [OF c(3,4)] clamp_round [OF c(5,6)] clamp_round [OF c'(3,4)] clamp_round [OF c'(5,6)]
    by (auto simp: building_tiles_def f f' c(1,2) c'(1,2) as_i32_def)
qed

section \<open>Properties\<close>

text \<open>Every district of the layout finds its place along the spiral, without the last resort of the search.\<close>

definition districts_fit :: "(rat \<Rightarrow> rat) \<Rightarrow> (rat \<Rightarrow> rat) \<Rightarrow> building list \<Rightarrow> feature list \<Rightarrow> road list \<Rightarrow> bool" where
  "districts_fit cosf sinf buildings features roads \<longleftrightarrow>
     boxes_found cosf sinf (coupling_edges buildings features roads)
       (map (packed_of buildings features) (district_order buildings features roads)) ([], [])"

text \<open>A city of three parts of one feature, a port among them, and a stray file.\<close>

definition demo_part :: "string \<Rightarrow> string \<Rightarrow> string \<Rightarrow> building" where
  "demo_part i purpose feature =
     \<lparr>bd_file_id = lit i, bd_file_path = lit i, bd_district_id = [], bd_purpose = lit purpose, bd_feature_id = lit feature,
      bd_visual_tier = lit ''oikia'', bd_coords = \<lparr>co_x = Fin 0, co_y = Fin 0\<rparr>\<rparr>"

definition demo_city :: "building list" where
  "demo_city = [demo_part ''a'' ''harbor'' ''api'', demo_part ''b'' ''temple'' ''api'', demo_part ''c'' ''warehouse'' ''api'', demo_part ''d'' ''house'' ''docs'']"

definition demo_features :: "feature list" where
  "demo_features = [\<lparr>ft_id = lit ''api'', ft_kind = Domain\<rparr>, \<lparr>ft_id = lit ''docs'', ft_kind = Domain\<rparr>]"

definition demo_imports :: "road list" where
  "demo_imports = [\<lparr>rd_road_id = lit ''r'', rd_from = lit ''d'', rd_to = lit ''a'', rd_road_type = lit ''import'', rd_weight = 2, rd_path = None\<rparr>]"

lemma demo_order: "district_order demo_city demo_features demo_imports = [lit ''commons'', lit ''api'']" by code_simp
lemma demo_coupling: "coupling_edges demo_city demo_features demo_imports = [((lit ''api'', lit ''commons''), 2)]" by code_simp

lemma demo_packed: "map (packed_of demo_city demo_features) [lit ''commons'', lit ''api''] =
  [\<lparr>pd_id = lit ''commons'', pd_placements = [\<lparr>pl_bi = 3, pl_x = 0, pl_y = 0, pl_w = 4, pl_h = 4\<rparr>], pd_w = 4, pd_h = 4\<rparr>,
   \<lparr>pd_id = lit ''api'', pd_placements = [\<lparr>pl_bi = 0, pl_x = 0, pl_y = 0, pl_w = 6, pl_h = 5\<rparr>,
     \<lparr>pl_bi = 1, pl_x = 0, pl_y = 5, pl_w = 5, pl_h = 6\<rparr>, \<lparr>pl_bi = 2, pl_x = 5, pl_y = 5, pl_w = 5, pl_h = 6\<rparr>], pd_w = 10, pd_h = 11\<rparr>]" by code_simp
lemma demo_fits: "districts_fit (\<lambda>_. 1) (\<lambda>_. 0) demo_city demo_features demo_imports"
  unfolding districts_fit_def demo_order demo_coupling demo_packed
  by (simp add: box_found_def find_district_box_def spiral_def place_step_def place_district_box_def seed_of_def district_seed_def
    coupling_def first_free.simps [of _ _ 0] first_free.simps [of _ _ "Suc 0"] first_free.simps [of _ _ "Suc (Suc 0)"]
    district_boxes_overlap_def DISTRICT_MARGIN_def max_k_def Let_def)

definition demo_store :: meta_store where
  "demo_store = \<lparr>ms_coords = Map.empty, ms_district = Map.empty, ms_layout_version = 0\<rparr>"

lemma demo_ports:
  "bd_purpose (demo_city ! 0) = lit ''harbor'' \<or> bd_purpose (demo_city ! 0) = lit ''lighthouse''"
  "bd_purpose (demo_city ! 1) \<noteq> lit ''harbor''" "bd_purpose (demo_city ! 1) \<noteq> lit ''lighthouse''"
  "bd_purpose (demo_city ! 2) \<noteq> lit ''harbor''" "bd_purpose (demo_city ! 2) \<noteq> lit ''lighthouse''"
  "bd_purpose (demo_city ! 3) \<noteq> lit ''harbor''" "bd_purpose (demo_city ! 3) \<noteq> lit ''lighthouse''"
  by code_simp+

lemma demo_snapped:
  "snap_ports demo_city [\<lparr>pl_bi = 3, pl_x = 0, pl_y = 0, pl_w = 4, pl_h = 4\<rparr>] = [\<lparr>pl_bi = 3, pl_x = 0, pl_y = 0, pl_w = 4, pl_h = 4\<rparr>]"
  "snap_ports demo_city [\<lparr>pl_bi = 0, pl_x = 0, pl_y = 0, pl_w = 6, pl_h = 5\<rparr>,
     \<lparr>pl_bi = 1, pl_x = 0, pl_y = 5, pl_w = 5, pl_h = 6\<rparr>, \<lparr>pl_bi = 2, pl_x = 5, pl_y = 5, pl_w = 5, pl_h = 6\<rparr>] =
   [\<lparr>pl_bi = 0, pl_x = 0, pl_y = 0, pl_w = 6, pl_h = 5\<rparr>,
     \<lparr>pl_bi = 1, pl_x = 0, pl_y = 5, pl_w = 5, pl_h = 6\<rparr>, \<lparr>pl_bi = 2, pl_x = 5, pl_y = 5, pl_w = 5, pl_h = 6\<rparr>]"
  by (simp_all add: snap_ports_def snap_port_def eastmost_def eastmost_step_def Let_def demo_ports demo_ports [simplified])

lemma demo_footprints:
  "building_footprint (bd_purpose (demo_city ! 0)) (bd_visual_tier (demo_city ! 0)) = (3, 2)"
  "building_footprint (bd_purpose (demo_city ! Suc 0)) (bd_visual_tier (demo_city ! Suc 0)) = (2, 3)"
  "building_footprint (bd_purpose (demo_city ! 2)) (bd_visual_tier (demo_city ! 2)) = (2, 3)"
  "building_footprint (bd_purpose (demo_city ! 3)) (bd_visual_tier (demo_city ! 3)) = (1, 1)"
  by code_simp+

text \<open>The commons around the origin, the feature at the third probe to its east.\<close>

lemma demo_fresh:
  "\<exists>packed. fresh_layout (\<lambda>_. 1) (\<lambda>_. 0) demo_city demo_features demo_imports =
     (packed, [(- 2, - 2, 4, 4), (11, - 11 / 2, 10, 11)],
      [\<lparr>en_bi = 3, en_di = 0, en_packed = \<lparr>co_x = Fin (- 2), co_y = Fin (- 2)\<rparr>, en_fw = 1, en_fd = 1\<rparr>,
       \<lparr>en_bi = 0, en_di = 1, en_packed = \<lparr>co_x = Fin 11, co_y = Fin (- 11 / 2)\<rparr>, en_fw = 3, en_fd = 2\<rparr>,
       \<lparr>en_bi = 1, en_di = 1, en_packed = \<lparr>co_x = Fin 11, co_y = Fin (- 1 / 2)\<rparr>, en_fw = 2, en_fd = 3\<rparr>,
       \<lparr>en_bi = 2, en_di = 1, en_packed = \<lparr>co_x = Fin 16, co_y = Fin (- 1 / 2)\<rparr>, en_fw = 2, en_fd = 3\<rparr>])"
  unfolding fresh_layout_def demo_order demo_coupling demo_packed
  by (simp add: find_district_box_def spiral_def place_step_def place_district_box_def seed_of_def district_seed_def
    coupling_def first_free.simps [of _ _ 0] first_free.simps [of _ _ "Suc 0"] first_free.simps [of _ _ "Suc (Suc 0)"]
    district_boxes_overlap_def DISTRICT_MARGIN_def max_k_def Let_def demo_snapped demo_snapped [simplified] entries_of_def demo_footprints)

lemma demo_laid_out:
  "map bd_coords (fst (layout (\<lambda>_. 1) (\<lambda>_. 0) demo_city demo_store demo_features demo_imports)) =
   [\<lparr>co_x = Fin 11, co_y = Fin (- 11 / 2)\<rparr>, \<lparr>co_x = Fin 11, co_y = Fin (- 1 / 2)\<rparr>,
    \<lparr>co_x = Fin 16, co_y = Fin (- 1 / 2)\<rparr>, \<lparr>co_x = Fin (- 2), co_y = Fin (- 2)\<rparr>]"
proof -
  obtain packed boxes entries where fresh: "fresh_layout (\<lambda>_. 1) (\<lambda>_. 0) demo_city demo_features demo_imports = (packed, boxes, entries)"
    and entries: "entries = [\<lparr>en_bi = 3, en_di = 0, en_packed = \<lparr>co_x = Fin (- 2), co_y = Fin (- 2)\<rparr>, en_fw = 1, en_fd = 1\<rparr>,
       \<lparr>en_bi = 0, en_di = 1, en_packed = \<lparr>co_x = Fin 11, co_y = Fin (- 11 / 2)\<rparr>, en_fw = 3, en_fd = 2\<rparr>,
       \<lparr>en_bi = 1, en_di = 1, en_packed = \<lparr>co_x = Fin 11, co_y = Fin (- 1 / 2)\<rparr>, en_fw = 2, en_fd = 3\<rparr>,
       \<lparr>en_bi = 2, en_di = 1, en_packed = \<lparr>co_x = Fin 16, co_y = Fin (- 1 / 2)\<rparr>, en_fw = 2, en_fd = 3\<rparr>]"
    using demo_fresh by blast
  have "final_coords demo_city demo_store packed entries = en_packed"
    by (simp add: fun_eq_iff final_coords_def use_persisted_def demo_store_def LAYOUT_ALGO_VERSION_def)
  then show ?thesis unfolding layout_eq [OF fresh] by (simp add: entries settle_def Let_def demo_city_def)
qed

lemma demo_paths: "distinct (map bd_file_path demo_city)"
  by code_simp

text \<open>C28: packing a district places every one of its buildings once, each in a cell of its footprint and the gap of three tiles;
  the cells share no tile and lie in the district's box, also after the ports were moved to the east edge.\<close>

theorem district_is_packed:
  "case pack_district buildings indices of (ps, w, h) \<Rightarrow>
     mset (map pl_bi (snap_ports buildings ps)) = mset indices \<and>
     sorted_wrt cells_apart (snap_ports buildings ps) \<and>
     list_all (\<lambda>p. reserves buildings p \<and> pl_x p + pl_w p \<le> w \<and> pl_y p + pl_h p \<le> h) (snap_ports buildings ps)"
proof -
  obtain ps w h where pack: "pack_district buildings indices = (ps, w, h)" by (metis prod_cases3)
  note cells = pack_district_cells [OF pack]
  let ?qs = "snap_ports buildings ps"
  have items: "map item_of ?qs = pack_items buildings indices" by (simp only: snap_ports_cells(2) cells(1))
  have "map pl_bi ?qs = map fst (map item_of ?qs)" by (simp add: item_of_def)
  also have "mset \<dots> = mset indices" unfolding items pack_items_def mset_map mset_sort by (simp add: multiset.map_comp comp_def)
  finally have "mset (map pl_bi ?qs) = mset indices" .
  moreover have "reserves buildings p" if "p \<in> set ?qs" for p
  proof -
    have "item_of p \<in> set (pack_items buildings indices)" using that unfolding items [symmetric] by simp
    then show ?thesis by (auto simp: pack_items_def item_of_def reserves_def)
  qed
  ultimately show ?thesis
    using snap_ports_apart [OF cells(2)] snap_ports_within [OF cells(3)] by (simp add: pack list_all_iff)
qed

text \<open>a layout keeps the buildings and their order and changes of each only its coordinates and its district, which is that of
  its feature, or the commons for a small one; that district is on the map, no district is there twice, and the store is
  stamped with the version of the layout.\<close>

theorem layout_leaves_no_orphan:
  "case layout cosf sinf buildings meta features roads of (buildings', meta', districts) \<Rightarrow>
     list_all2 (\<lambda>b b'. b' = b\<lparr>bd_coords := bd_coords b', bd_district_id := target_district buildings features (bd_feature_id b)\<rparr>) buildings buildings' \<and>
     list_all (\<lambda>b'. bd_district_id b' \<in> set (map di_id districts)) buildings' \<and>
     distinct (map di_id districts) \<and> ms_layout_version meta' = LAYOUT_ALGO_VERSION"
proof -
  obtain buildings' meta' districts where lay: "layout cosf sinf buildings meta features roads = (buildings', meta', districts)" by (metis prod_cases3)
  obtain packed boxes entries where fresh: "fresh_layout cosf sinf buildings features roads = (packed, boxes, entries)" by (metis prod_cases3)
  note parts = layout_parts [OF lay fresh] and es = fresh_layout_entries [OF fresh] and fp = fresh_layout_parts [OF fresh]
  have ids: "map di_id districts = district_order buildings features roads"
    unfolding parts(5) using fp(1,3) by (intro nth_equalityI) simp_all
  have b': "buildings' ! i = (buildings ! i)\<lparr>bd_coords := bd_coords (buildings' ! i),
      bd_district_id := target_district buildings features (bd_feature_id (buildings ! i))\<rparr>" if i: "i < length buildings" for i
  proof -
    from i es(2) obtain e where e: "e \<in> set entries" "en_bi e = i" by (metis imageE lessThan_iff)
    with parts(3) [OF e(1)] es(3) [OF e(1)] show ?thesis by (simp add: settled_def district_of_def)
  qed
  have "bd_district_id (buildings' ! i) \<in> set (map di_id districts)" if i: "i < length buildings" for i
  proof -
    have "bd_district_id (buildings' ! i) = district_of buildings features i" using b' [OF i] by (metis building.select_convs(3) building.surjective building.update_convs(3) district_of_def)
    then show ?thesis using i unfolding ids district_order_spec(2) by simp
  qed
  then show ?thesis
    using b' parts(1,2) district_order_spec(1) [of buildings features roads] by (simp add: lay ids list_all2_conv_all_nth list_all_length del: set_map list.set_map)
qed

text \<open>C26: when every district finds its place, no two buildings of the laid out city share a tile of the street grid, whether the
  layout is fresh or reuses the stored coordinates, on a map whose coordinates an \<open>i32\<close> holds: tiles are rounded coordinates.\<close>

theorem layout_tiles_disjoint:
  assumes lay: "layout cosf sinf buildings meta features roads = (buildings', meta', districts)" and fit: "districts_fit cosf sinf buildings features roads"
    and map: "list_all on_map buildings'" and ij: "i < length buildings'" "j < length buildings'" "i \<noteq> j"
  shows "building_tiles [buildings' ! i] \<inter> building_tiles [buildings' ! j] = {}"
proof (rule apart_tiles)
  show "on_map (buildings' ! i)" "on_map (buildings' ! j)" using map ij by (simp_all add: list_all_length)
  show "\<not> cells_overlap (building_box (buildings' ! i)) (building_box (buildings' ! j))"
    by (rule layout_boxes_apart [OF lay _ ij]) (use fit in \<open>simp add: districts_fit_def\<close>)
qed

theorem layout_tiles_disjoint_witness:
  "case layout (\<lambda>_. 1) (\<lambda>_. 0) demo_city demo_store demo_features demo_imports of (bs, _, _) \<Rightarrow>
     length bs = 4 \<and> building_tiles [bs ! 1] \<inter> building_tiles [bs ! 2] = {}"
proof -
  obtain bs m ds where lay: "layout (\<lambda>_. 1) (\<lambda>_. 0) demo_city demo_store demo_features demo_imports = (bs, m, ds)" by (metis prod_cases3)
  then have bs: "map bd_coords bs = [\<lparr>co_x = Fin 11, co_y = Fin (- 11 / 2)\<rparr>, \<lparr>co_x = Fin 11, co_y = Fin (- 1 / 2)\<rparr>,
    \<lparr>co_x = Fin 16, co_y = Fin (- 1 / 2)\<rparr>, \<lparr>co_x = Fin (- 2), co_y = Fin (- 2)\<rparr>]" using demo_laid_out by simp
  have len: "length bs = 4" using arg_cong [OF bs, of length] by simp
  have "list_all on_map bs" using bs by (auto simp: map_eq_Cons_conv on_map_def i32_min_def i32_max_def)
  from layout_tiles_disjoint [OF lay demo_fits this, of 1 2] len show ?thesis by (simp add: lay)
qed

text \<open>C27: a second layout of the same city moves nothing: with the store that the first one left it gives the same buildings,
  store and districts.\<close>

theorem layout_is_stable:
  assumes "layout cosf sinf buildings meta features roads = (buildings', meta', districts)" and "districts_fit cosf sinf buildings features roads"
    and "distinct (map bd_file_path buildings)"
  shows "layout cosf sinf buildings' meta' features roads = (buildings', meta', districts)"
  using layout_twice [OF assms(1) _ assms(3)] assms(2) by (simp add: districts_fit_def)

theorem layout_is_stable_witness:
  "case layout (\<lambda>_. 1) (\<lambda>_. 0) demo_city demo_store demo_features demo_imports of (bs, m, ds) \<Rightarrow>
     layout (\<lambda>_. 1) (\<lambda>_. 0) bs m demo_features demo_imports = (bs, m, ds)"
proof -
  obtain bs m ds where lay: "layout (\<lambda>_. 1) (\<lambda>_. 0) demo_city demo_store demo_features demo_imports = (bs, m, ds)" by (metis prod_cases3)
  show ?thesis using layout_is_stable [OF lay demo_fits demo_paths] by (simp add: lay)
qed

end
